(* ===== verification/Prelude.thy ===== *)
theory Prelude imports Main "HOL-Library.Word" begin

text \<open>
  Shared vocabulary of the development: the machine integers of the C++ and Java sources as
  words, the numeric conversions the sources use (the cast to \<open>int64_t\<close>, the checked addition,
  the saturating cast), little-endian byte strings, overwriting a byte string at an offset as a
  file write does, the results of the \<open>net\<close> layer, and the generic lemmas on them.
\<close>

unbundle bit_operations_syntax

named_theorems codec_simps \<open>round trips and lengths of the byte encodings\<close>
named_theorems size_simps \<open>sizes of the on-disk structures and offsets computed from them\<close>

section \<open>Results of the net layer\<close>

text \<open>
  A net result is a non-negative number (\<open>net::OK\<close>, a count of bytes) or one of the negative error
  codes, of which the sources name these.
\<close>

datatype net_error =
  ERR_FAILED | ERR_ABORTED | ERR_FILE_EXISTS | ERR_INVALID_ARGUMENT | ERR_IO_PENDING
| ERR_CACHE_READ_FAILURE | ERR_CACHE_WRITE_FAILURE
| ERR_CACHE_CHECKSUM_MISMATCH | ERR_CACHE_CHECKSUM_READ_FAILURE

datatype net_result = Net nat | Err net_error

abbreviation (input) net_OK :: net_result where "net_OK \<equiv> Net 0"

section \<open>Machine integers\<close>

type_synonym byte = "8 word"
type_synonym u32 = "32 word"
type_synonym u64 = "64 word"
type_synonym bytes = "byte list"

text \<open>
  \<open>wrap64\<close> is the value an \<open>int64_t\<close> holds after the assignment of an integer expression that was
  computed modulo \<open>2 ^ 64\<close> (C++ converts the signed operand to \<open>size_t\<close> there): two's complement.
\<close>

definition wrap64 :: "int \<Rightarrow> int" where
  "wrap64 x = sint (word_of_int x :: 64 word)"

lemma wrap64_id [simp]: "- (2 ^ 63) \<le> x \<Longrightarrow> x < 2 ^ 63 \<Longrightarrow> wrap64 x = x"
  by (simp add: wrap64_def sint_uint uint_word_of_int_eq signed_take_bit_take_bit signed_take_bit_int_eq_self)

text \<open>\<open>base::CheckAdd\<close> on two \<open>uint64_t\<close> values: the sum, unless it overflows.\<close>

definition CheckAdd64 :: "u64 \<Rightarrow> u64 \<Rightarrow> u64 option" where
  "CheckAdd64 a b = (if uint a + uint b < 2 ^ 64 then Some (a + b) else None)"

lemma CheckAdd64_Some:
  "CheckAdd64 a b = Some c \<longleftrightarrow> uint a + uint b < 2 ^ 64 \<and> c = a + b"
  by (auto simp: CheckAdd64_def)

lemma uint_add_no_overflow:
  fixes a b :: u64
  shows "uint a + uint b < 2 ^ 64 \<Longrightarrow> uint (a + b) = uint a + uint b"
  by (simp add: uint_word_ariths)

text \<open>\<open>base::saturated_cast\<close> of an integer to \<open>uint32_t\<close>.\<close>

definition saturated_u32 :: "int \<Rightarrow> u32" where
  "saturated_u32 x = word_of_int (max 0 (min x (2 ^ 32 - 1)))"

lemma uint_saturated_u32: "uint (saturated_u32 x) = max 0 (min x (2 ^ 32 - 1))"
  by (simp add: saturated_u32_def uint_word_of_int max_def min_def)

lemma saturated_u32_uint [simp]: "saturated_u32 (uint (w :: u32)) = w"
proof -
  have "uint w < 2 ^ 32" using uint_lt2p [of w] by simp
  then have "max 0 (min (uint w) (2 ^ 32 - 1)) = uint w" by (simp add: min_def max_def)
  then show ?thesis by (simp add: saturated_u32_def)
qed


lemma uint_u32_lt [simp]: "uint (w :: u32) < 4294967296"
  using uint_lt2p [of w] by simp

lemma uint_u64_lt [simp]: "uint (w :: u64) < 18446744073709551616"
  using uint_lt2p [of w] by simp

lemma unat_u32_lt [simp]: "unat (w :: u32) < 4294967296"
  using unsigned_less [of w] by simp

lemma unat_u64_lt [simp]: "unat (w :: u64) < 18446744073709551616"
  using unsigned_less [of w] by simp

section \<open>Little-endian byte strings\<close>

text \<open>
  The sources store their structures in the byte order of the machine, little-endian on every
  platform the format is used on (the Java reader and writer spell it out).
\<close>

fun le_bytes :: "nat \<Rightarrow> 'a::len word \<Rightarrow> bytes" where
  "le_bytes 0 w = []"
| "le_bytes (Suc n) w = ucast w # le_bytes n (drop_bit 8 w)"

fun le_word :: "bytes \<Rightarrow> 'a::len word" where
  "le_word [] = 0"
| "le_word (b # bs) = ucast b OR push_bit 8 (le_word bs)"

lemma length_le_bytes [simp, codec_simps]: "length (le_bytes n w) = n"
  by (induction n arbitrary: w) auto

lemma le_word_le_bytes_take: "le_word (le_bytes n w) = take_bit (8 * n) w"
proof (induction n arbitrary: w)
  case 0
  then show ?case by simp
next
  case (Suc n)
  show ?case
    by (rule bit_word_eqI) (auto simp: Suc.IH bit_simps not_less)
qed

lemma le_word_le_bytes [simp, codec_simps]:
  fixes w :: "'a::len word"
  shows "LENGTH('a) \<le> 8 * n \<Longrightarrow> le_word (le_bytes n w) = w"
  by (simp add: le_word_le_bytes_take take_bit_word_eq_self)

lemma le_bytes_take_bit: "8 * n \<le> m \<Longrightarrow> le_bytes n (take_bit m w) = le_bytes n w"
proof (induction n arbitrary: w m)
  case 0
  then show ?case by simp
next
  case (Suc n)
  have hd: "(ucast (take_bit m w) :: byte) = ucast w"
    using Suc.prems by (intro bit_word_eqI) (auto simp: bit_simps)
  have tl: "drop_bit 8 (take_bit m w) = take_bit (m - 8) (drop_bit 8 w)"
    using Suc.prems by (intro bit_word_eqI) (auto simp: bit_simps)
  show ?case using Suc.prems Suc.IH [of "m - 8"] by (simp add: hd tl)
qed

lemma le_bytes_le_word:
  "length bs = n \<Longrightarrow> 8 * n \<le> LENGTH('a) \<Longrightarrow> le_bytes n (le_word bs :: 'a::len word) = bs"
proof (induction bs arbitrary: n)
  case Nil
  then show ?case by simp
next
  case (Cons b bs)
  let ?w = "le_word bs :: 'a word"
  from Cons.prems obtain m where n: "n = Suc m" and m: "length bs = m" by auto
  have hd: "(ucast (ucast b OR push_bit 8 ?w) :: byte) = b"
    using Cons.prems n by (intro bit_word_eqI) (auto simp: bit_simps)
  have tl: "drop_bit 8 (ucast b OR push_bit 8 ?w) = take_bit (LENGTH('a) - 8) ?w"
    by (intro bit_word_eqI) (auto simp: bit_simps dest: bit_imp_le_length)
  have "le_bytes m (take_bit (LENGTH('a) - 8) ?w) = le_bytes m ?w"
    using Cons.prems n by (intro le_bytes_take_bit) simp
  also have "\<dots> = bs" using Cons.prems n m by (intro Cons.IH) auto
  finally show ?case by (simp only: n le_bytes.simps le_word.simps hd tl)
qed

section \<open>Byte strings as file contents\<close>

definition slice :: "nat \<Rightarrow> nat \<Rightarrow> 'a list \<Rightarrow> 'a list" where
  "slice off n xs = take n (drop off xs)"

definition overwrite :: "nat \<Rightarrow> bytes \<Rightarrow> bytes \<Rightarrow> bytes" where
  "overwrite off bs xs =
     (if bs = [] then xs
      else take off xs @ replicate (off - length xs) 0 @ bs @ drop (off + length bs) xs)"

definition resize :: "nat \<Rightarrow> bytes \<Rightarrow> bytes" where
  "resize n xs = take n xs @ replicate (n - length xs) 0"

lemma length_resize [simp]: "length (resize n xs) = n"
  by (simp add: resize_def)

lemma length_slice: "length (slice off n xs) = min n (length xs - off)"
  by (simp add: slice_def)

lemma length_overwrite:
  "length (overwrite off bs xs) =
     (if bs = [] then length xs else max (length xs) (off + length bs))"
  by (auto simp: overwrite_def)

lemma slice_overwrite_same: "bs \<noteq> [] \<Longrightarrow> slice off (length bs) (overwrite off bs xs) = bs"
  by (simp add: overwrite_def slice_def)

lemma overwrite_append_end: "length xs = off \<Longrightarrow> overwrite off bs xs = xs @ bs"
  by (simp add: overwrite_def)

lemma overwrite_Nil [simp]: "overwrite off [] xs = xs"
  by (simp add: overwrite_def)

lemma resize_id [simp]: "length xs = n \<Longrightarrow> resize n xs = xs"
  by (simp add: resize_def)

lemma slice_append_left: "off + n \<le> length xs \<Longrightarrow> slice off n (xs @ ys) = slice off n xs"
  by (simp add: slice_def)

lemma slice_append_right: "length xs \<le> off \<Longrightarrow> slice off n (xs @ ys) = slice (off - length xs) n ys"
  by (simp add: slice_def)

lemma slice_prefix [simp]: "n = length xs \<Longrightarrow> slice 0 n (xs @ ys) = xs"
  by (simp add: slice_def)

lemma slice_all [simp]: "n = length xs \<Longrightarrow> slice 0 n xs = xs"
  by (simp add: slice_def)

lemma slice_slice:
  "a + n \<le> m \<Longrightarrow> slice a n (slice off m xs) = slice (off + a) n xs"
  by (simp add: slice_def take_drop min_def add.commute)

end
