(* ===== verification/Hashing.thy ===== *)
theory Hashing imports Prelude begin

text \<open>
  The non-cryptographic hashes: Paul Hsieh's \<open>SuperFastHash\<close> (superfasthash.c), the persistent
  hash of \<open>base/hash/hash.cc\<close> that wraps it (the \<open>key_hash\<close> of every entry header), and the pair
  hashes \<open>HashInts32\<close> and \<open>HashInts64\<close>. Reads of the buffer are \<open>option\<close>-valued, so that an
  out-of-bounds read of the C code would be the value \<open>None\<close>; the NOTREACHED of
  \<open>PersistentHash\<close> on oversized buffers is \<open>None\<close> as well.
\<close>

section \<open>SuperFastHash\<close>

definition rd8 :: "bytes \<Rightarrow> nat \<Rightarrow> byte option" where
  "rd8 d i = (if i < length d then Some (d ! i) else None)"

definition get16bits :: "bytes \<Rightarrow> nat \<Rightarrow> u32 option" where
  "get16bits d p =
     (case (rd8 d (p + 1), rd8 d p) of
        (Some hi, Some lo) \<Rightarrow> Some (push_bit 8 (ucast hi) + ucast lo)
      | _ \<Rightarrow> None)"

text \<open>
  The main loop; \<open>len\<close> counts the remaining four-byte groups and \<open>p\<close> is the position of the
  pointer \<open>data\<close> in the buffer.
\<close>

fun sfh_loop :: "nat \<Rightarrow> u32 \<Rightarrow> bytes \<Rightarrow> nat \<Rightarrow> (u32 \<times> nat) option" where
  "sfh_loop 0 hash d p = Some (hash, p)"
| "sfh_loop (Suc len) hash d p =
     (case (get16bits d p, get16bits d (p + 2)) of
        (Some a, Some b) \<Rightarrow>
          (let hash = hash + a;
               tmp = push_bit 11 b XOR hash;
               hash = push_bit 16 hash XOR tmp;
               hash = hash + drop_bit 11 hash
           in sfh_loop len hash d (p + 4))
      | _ \<Rightarrow> None)"

text \<open>The switch on the bytes left over; \<open>(signed char)\<close> makes the last byte sign-extended.\<close>

definition sfh_tail :: "nat \<Rightarrow> u32 \<Rightarrow> bytes \<Rightarrow> nat \<Rightarrow> u32 option" where
  "sfh_tail rem hash d p =
     (if rem = 3 then
        (case (get16bits d p, rd8 d (p + 2)) of
           (Some a, Some c) \<Rightarrow>
             (let hash = hash + a;
                  hash = hash XOR push_bit 16 hash;
                  hash = hash XOR push_bit 18 (scast c)
              in Some (hash + drop_bit 11 hash))
         | _ \<Rightarrow> None)
      else if rem = 2 then
        (case get16bits d p of
           Some a \<Rightarrow>
             (let hash = hash + a;
                  hash = hash XOR push_bit 11 hash
              in Some (hash + drop_bit 17 hash))
         | None \<Rightarrow> None)
      else if rem = 1 then
        (case rd8 d p of
           Some c \<Rightarrow>
             (let hash = hash + scast c;
                  hash = hash XOR push_bit 10 hash
              in Some (hash + drop_bit 1 hash))
         | None \<Rightarrow> None)
      else Some hash)"

definition sfh_avalanche :: "u32 \<Rightarrow> u32" where
  "sfh_avalanche hash =
     (let hash = hash XOR push_bit 3 hash;
          hash = hash + drop_bit 5 hash;
          hash = hash XOR push_bit 4 hash;
          hash = hash + drop_bit 17 hash;
          hash = hash XOR push_bit 25 hash
      in hash + drop_bit 6 hash)"

text \<open>
  \<open>len\<close> is a C \<open>int\<close>; a null pointer is not a byte string of the model, so the test
  \<open>data == NULL\<close> has no counterpart.
\<close>

definition SuperFastHash :: "bytes \<Rightarrow> int \<Rightarrow> u32 option" where
  "SuperFastHash d len =
     (if len \<le> 0 then Some 0
      else
        (let hash = word_of_int len;
             rem = nat (len mod 4);
             groups = nat (len div 4)
         in case sfh_loop groups hash d 0 of
              None \<Rightarrow> None
            | Some (hash, p) \<Rightarrow> map_option sfh_avalanche (sfh_tail rem hash d p)))"

lemma get16bits_Some: "p + 1 < length d \<Longrightarrow> \<exists>v. get16bits d p = Some v"
  by (simp add: get16bits_def rd8_def)

lemma sfh_loop_in_bounds:
  "p + 4 * n \<le> length d \<Longrightarrow> \<exists>h'. sfh_loop n h d p = Some (h', p + 4 * n)"
proof (induction n arbitrary: h p)
  case 0
  then show ?case by simp
next
  case (Suc n)
  have "p + 1 < length d" "p + 2 + 1 < length d" using Suc.prems by simp_all
  from this [THEN get16bits_Some] obtain a b
    where "get16bits d p = Some a" "get16bits d (p + 2) = Some b" by blast
  with Suc.prems Suc.IH [of "p + 4"] show ?case by (simp add: Let_def add.assoc)
qed

lemma sfh_tail_in_bounds:
  "p + rem \<le> length d \<Longrightarrow> rem < 4 \<Longrightarrow> \<exists>h'. sfh_tail rem h d p = Some h'"
  by (auto simp: sfh_tail_def get16bits_def rd8_def Let_def)

lemma SuperFastHash_in_bounds:
  assumes "len \<le> int (length d)"
  shows "\<exists>h. SuperFastHash d len = Some h"
proof (cases "len \<le> 0")
  case True
  then show ?thesis by (simp add: SuperFastHash_def)
next
  case False
  let ?n = "nat (len div 4)" and ?r = "nat (len mod 4)"
  have r: "?r < 4" by simp
  have "int (4 * ?n + ?r) = len" using False by simp
  then have sum: "4 * ?n + ?r = nat len" by linarith
  have "0 + 4 * ?n \<le> length d" using sum assms by linarith
  from sfh_loop_in_bounds [OF this] obtain h
    where h: "sfh_loop ?n (word_of_int len) d 0 = Some (h, 4 * ?n)" by auto
  have "4 * ?n + ?r \<le> length d" using sum assms by linarith
  from sfh_tail_in_bounds [OF this r] obtain h' where "sfh_tail ?r h d (4 * ?n) = Some h'" by blast
  with h False show ?thesis by (simp add: SuperFastHash_def Let_def)
qed

section \<open>The persistent hash\<close>

definition INT_MAX :: int where
  "INT_MAX = 2 ^ 31 - 1"

definition PersistentHash :: "bytes \<Rightarrow> u32 option" where
  "PersistentHash data =
     (if int (length data) > INT_MAX then None
      else SuperFastHash data (int (length data)))"

text \<open>C35: the persistent hash never reads outside its input: it has a value for every input whose
  length is an \<open>int\<close>, and a longer one fails the conversion of its length.\<close>

theorem PersistentHash_defined: "PersistentHash data = None \<longleftrightarrow> INT_MAX < int (length data)"
  using SuperFastHash_in_bounds [of "int (length data)" data] by (auto simp: PersistentHash_def)

text \<open>\<open>Hash\<close> is the same function under its deprecated in-memory name.\<close>

definition Hash :: "bytes \<Rightarrow> u32 option" where
  "Hash data = PersistentHash data"

section \<open>Hashing pairs of integers\<close>

text \<open>
  \<open>size_t\<close> is four or eight bytes wide: \<open>size_t_bytes\<close> is \<open>sizeof(size_t)\<close>, and a \<open>size_t\<close> value
  is kept in 64 bits, truncated to its width by \<open>to_size_t\<close>.
\<close>

definition to_size_t :: "nat \<Rightarrow> u64 \<Rightarrow> u64" where
  "to_size_t size_t_bytes v = take_bit (8 * size_t_bytes) v"

definition HashInts32Impl :: "nat \<Rightarrow> u32 \<Rightarrow> u32 \<Rightarrow> u64" where
  "HashInts32Impl size_t_bytes value1 value2 =
     (let value1_64 = ucast value1 :: u64;
          hash64 = push_bit 32 value1_64 OR ucast value2
      in if size_t_bytes \<ge> 8 then to_size_t size_t_bytes hash64
         else
           (let odd_random = push_bit 32 481046412 OR 1025306955;
                shift_random = push_bit 16 10121 :: u32;
                hash64 = hash64 * odd_random + ucast shift_random
            in to_size_t size_t_bytes (drop_bit (8 * (8 - size_t_bytes)) hash64)))"

definition HashInts64Impl :: "nat \<Rightarrow> u64 \<Rightarrow> u64 \<Rightarrow> u64" where
  "HashInts64Impl size_t_bytes value1 value2 =
     (let short_random1 = 842304669 :: u32;
          short_random2 = 619063811 :: u32;
          short_random3 = 937041849 :: u32;
          short_random4 = 3309708029 :: u32;
          value1a = ucast (value1 AND 0xffffffff) :: u32;
          value1b = ucast (drop_bit 32 value1 AND 0xffffffff) :: u32;
          value2a = ucast (value2 AND 0xffffffff) :: u32;
          value2b = ucast (drop_bit 32 value2 AND 0xffffffff) :: u32;
          product1 = ucast value1a * ucast short_random1 :: u64;
          product2 = ucast value1b * ucast short_random2 :: u64;
          product3 = ucast value2a * ucast short_random3 :: u64;
          product4 = ucast value2b * ucast short_random4 :: u64;
          hash64 = product1 + product2 + product3 + product4
      in if size_t_bytes \<ge> 8 then to_size_t size_t_bytes hash64
         else
           (let odd_random = push_bit 32 1578233944 OR 194370989;
                shift_random = push_bit 16 20591 :: u32;
                hash64 = hash64 * odd_random + ucast shift_random
            in to_size_t size_t_bytes (drop_bit (8 * (8 - size_t_bytes)) hash64)))"

text \<open>
  \<open>Scramble\<close> perturbs the result only in builds with DCHECKs, by the address \<open>kSeed\<close> of a
  constant: \<open>seed = None\<close> is the release build.
\<close>

definition Scramble :: "nat \<Rightarrow> u64 option \<Rightarrow> u64 \<Rightarrow> u64" where
  "Scramble size_t_bytes seed input =
     (case seed of
        Some kSeed \<Rightarrow> HashInts64Impl size_t_bytes input kSeed
      | None \<Rightarrow> input)"

definition HashInts32 :: "nat \<Rightarrow> u64 option \<Rightarrow> u32 \<Rightarrow> u32 \<Rightarrow> u64" where
  "HashInts32 size_t_bytes seed value1 value2 =
     Scramble size_t_bytes seed (HashInts32Impl size_t_bytes value1 value2)"

definition HashInts64 :: "nat \<Rightarrow> u64 option \<Rightarrow> u64 \<Rightarrow> u64 \<Rightarrow> u64" where
  "HashInts64 size_t_bytes seed value1 value2 =
     Scramble size_t_bytes seed (HashInts64Impl size_t_bytes value1 value2)"

lemma pair_word_inj:
  fixes a c b d :: u32
  assumes "push_bit 32 (ucast a :: u64) OR ucast b = push_bit 32 (ucast c) OR ucast d"
  shows "a = c \<and> b = d"
proof -
  have split: "drop_bit 32 (push_bit 32 (ucast x :: u64) OR ucast y) = ucast x"
    "(ucast (push_bit 32 (ucast x :: u64) OR ucast y) :: u32) = y" for x y :: u32
    by (rule bit_word_eqI, auto simp: bit_simps dest: bit_imp_le_length)+
  have "(ucast a :: u64) = ucast c" by (metis split(1) assms)
  moreover have "b = d" by (metis split(2) assms)
  moreover have "(ucast (ucast x :: u64) :: u32) = x" for x :: u32
    by (rule bit_word_eqI) (auto simp: bit_simps dest: bit_imp_le_length)
  ultimately show ?thesis by metis
qed

lemma HashInts32_release_inj:
  "HashInts32 8 None a b = HashInts32 8 None c d \<Longrightarrow> a = c \<and> b = d"
  by (rule pair_word_inj) (simp add: HashInts32_def Scramble_def HashInts32Impl_def to_size_t_def
      take_bit_word_eq_self)

end
