(* ===== verification/Entry_Format.thy ===== *)
theory Entry_Format imports Prelude begin

text \<open>
  The structures of the entry files (simple_entry_format.h, simple_backend_version.h): the header
  that starts every file, the EOF record that ends a stream and the header of a sparse range, each
  with the bytes it occupies on disk. The interface \<open>struct_codec\<close> states what the sources rely on
  when they copy a structure to or from a byte span: it has a fixed size and no padding, so that
  values and byte strings of that size correspond one to one (the static_asserts on
  \<open>has_unique_object_representations_v\<close>).
\<close>

section \<open>Constants\<close>

definition kSimpleInitialMagicNumber :: u64 where
  "kSimpleInitialMagicNumber = 0xfcfb6d1ba7725c30"

definition kSimpleFinalMagicNumber :: u64 where
  "kSimpleFinalMagicNumber = 0xf4fa6f45970d41d8"

definition kSimpleSparseRangeMagicNumber :: u64 where
  "kSimpleSparseRangeMagicNumber = 0xeb97bf016553676b"

definition kSimpleVersion :: u32 where "kSimpleVersion = 9"
definition kSimpleIndexFileVersion :: u32 where "kSimpleIndexFileVersion = 9"
definition kMinSimpleIndexFileVersionSupported :: u32 where "kMinSimpleIndexFileVersionSupported = 8"
definition kSimpleSparseEntryVersion :: u32 where "kSimpleSparseEntryVersion = 9"
definition kSimpleEntryVersionOnDisk :: u32 where "kSimpleEntryVersionOnDisk = 5"

definition kSimpleEntryNormalFileCount :: nat where "kSimpleEntryNormalFileCount = 2"
definition kSimpleEntryStreamCount :: nat where "kSimpleEntryStreamCount = 3"

definition FLAG_HAS_CRC32 :: u32 where "FLAG_HAS_CRC32 = push_bit 0 1"
definition FLAG_HAS_KEY_SHA256 :: u32 where "FLAG_HAS_KEY_SHA256 = push_bit 1 1"

section \<open>Structures with a fixed byte layout\<close>

locale struct_codec =
  fixes enc :: "'a \<Rightarrow> bytes" and dec :: "bytes \<Rightarrow> 'a" and sz :: nat
  assumes length_enc: "length (enc x) = sz"
    and dec_enc: "dec (enc x @ rest) = x"
    and enc_dec: "length bs = sz \<Longrightarrow> enc (dec bs) = bs"
    and sz_pos: "0 < sz"
begin

lemma dec_enc_exact: "dec (enc x) = x"
  using dec_enc [of x "[]"] by simp

lemma enc_inj: "enc x = enc y \<longleftrightarrow> x = y"
  by (metis dec_enc_exact)

lemma enc_not_Nil: "enc x \<noteq> []"
  using length_enc [of x] sz_pos by auto

lemma read_back: "dec (slice off sz (overwrite off (enc x) d)) = x"
  using slice_overwrite_same [OF enc_not_Nil, of off x d] by (simp add: length_enc dec_enc_exact)

lemma slice_at_append: "length pre = off \<Longrightarrow> slice off sz (pre @ enc x @ post) = enc x"
  by (simp add: slice_def length_enc)

lemma dec_at_append: "length pre = off \<Longrightarrow> dec (slice off sz (pre @ enc x @ post)) = x"
  by (simp add: slice_at_append dec_enc_exact)

end

subsection \<open>SimpleFileHeader\<close>

abbreviation sizeof_SimpleFileHeader :: nat where "sizeof_SimpleFileHeader \<equiv> 24"

record SimpleFileHeader =
  initial_magic_number :: u64
  hdr_version :: u32
  key_length :: u32
  key_hash :: u32
  hdr_unused_padding :: u32

definition empty_header :: SimpleFileHeader where
  "empty_header = \<lparr>initial_magic_number = 0, hdr_version = 0, key_length = 0, key_hash = 0,
     hdr_unused_padding = 0\<rparr>"

definition header_bytes :: "SimpleFileHeader \<Rightarrow> bytes" where
  "header_bytes h = le_bytes 8 (initial_magic_number h) @ le_bytes 4 (hdr_version h)
     @ le_bytes 4 (key_length h) @ le_bytes 4 (key_hash h) @ le_bytes 4 (hdr_unused_padding h)"

definition header_of :: "bytes \<Rightarrow> SimpleFileHeader" where
  "header_of bs = \<lparr>initial_magic_number = le_word (slice 0 8 bs), hdr_version = le_word (slice 8 4 bs),
     key_length = le_word (slice 12 4 bs), key_hash = le_word (slice 16 4 bs),
     hdr_unused_padding = le_word (slice 20 4 bs)\<rparr>"

subsection \<open>SimpleFileEOF\<close>

abbreviation sizeof_SimpleFileEOF :: nat where "sizeof_SimpleFileEOF \<equiv> 24"

record SimpleFileEOF =
  final_magic_number :: u64
  eof_flags :: u32
  eof_data_crc32 :: u32
  stream_size :: u32
  eof_unused_padding :: u32

definition empty_eof :: SimpleFileEOF where
  "empty_eof = \<lparr>final_magic_number = 0, eof_flags = 0, eof_data_crc32 = 0, stream_size = 0,
     eof_unused_padding = 0\<rparr>"

definition eof_bytes :: "SimpleFileEOF \<Rightarrow> bytes" where
  "eof_bytes e = le_bytes 8 (final_magic_number e) @ le_bytes 4 (eof_flags e)
     @ le_bytes 4 (eof_data_crc32 e) @ le_bytes 4 (stream_size e) @ le_bytes 4 (eof_unused_padding e)"

definition eof_of :: "bytes \<Rightarrow> SimpleFileEOF" where
  "eof_of bs = \<lparr>final_magic_number = le_word (slice 0 8 bs), eof_flags = le_word (slice 8 4 bs),
     eof_data_crc32 = le_word (slice 12 4 bs), stream_size = le_word (slice 16 4 bs),
     eof_unused_padding = le_word (slice 20 4 bs)\<rparr>"

subsection \<open>SimpleFileSparseRangeHeader\<close>

abbreviation sizeof_SimpleFileSparseRangeHeader :: nat where
  "sizeof_SimpleFileSparseRangeHeader \<equiv> 32"

record SimpleFileSparseRangeHeader =
  sparse_range_magic_number :: u64
  sr_offset :: u64
  sr_length :: u64
  sr_data_crc32 :: u32
  sr_unused_padding :: u32

definition sparse_range_bytes :: "SimpleFileSparseRangeHeader \<Rightarrow> bytes" where
  "sparse_range_bytes r = le_bytes 8 (sparse_range_magic_number r) @ le_bytes 8 (sr_offset r)
     @ le_bytes 8 (sr_length r) @ le_bytes 4 (sr_data_crc32 r) @ le_bytes 4 (sr_unused_padding r)"

definition sparse_range_of :: "bytes \<Rightarrow> SimpleFileSparseRangeHeader" where
  "sparse_range_of bs = \<lparr>sparse_range_magic_number = le_word (slice 0 8 bs),
     sr_offset = le_word (slice 8 8 bs), sr_length = le_word (slice 16 8 bs),
     sr_data_crc32 = le_word (slice 24 4 bs), sr_unused_padding = le_word (slice 28 4 bs)\<rparr>"

subsection \<open>The three structures are codecs\<close>

text \<open>
  Each field of an encoding is cut out again by its slice, and the slices of a byte string of the
  right size make it up again.
\<close>

lemma slice_field: "length pre = off \<Longrightarrow> length f = n \<Longrightarrow> slice off n (pre @ f @ post) = f"
  by (simp add: slice_def)

lemma slice_Cons_append: "slice off n (xs @ ys) =
    (if off + n \<le> length xs then slice off n xs
     else if length xs \<le> off then slice (off - length xs) n ys
     else take n (drop off xs @ ys))"
  by (auto simp: slice_def)

lemma slice_concat: "slice a n bs @ slice (a + n) m bs = slice a (n + m) bs"
  using take_add [of n m "drop a bs"] by (simp add: slice_def add.commute [of a n])

lemma le_bytes_slice:
  "off + n \<le> length bs \<Longrightarrow> 8 * n \<le> LENGTH('a) \<Longrightarrow>
   le_bytes n (le_word (slice off n bs) :: 'a::len word) = slice off n bs"
  by (rule le_bytes_le_word) (simp_all add: length_slice)

interpretation header_codec: struct_codec header_bytes header_of sizeof_SimpleFileHeader
proof
  show "length (header_bytes x) = sizeof_SimpleFileHeader" for x by (simp add: header_bytes_def)
  show "header_of (header_bytes x @ rest) = x" for x rest
    by (simp add: header_of_def header_bytes_def slice_Cons_append)
  show "header_bytes (header_of bs) = bs" if "length bs = sizeof_SimpleFileHeader" for bs
    using that slice_concat [of 0 8 bs 4] slice_concat [of 0 12 bs 4] slice_concat [of 0 16 bs 4]
      slice_concat [of 0 20 bs 4]
    by (simp add: header_of_def header_bytes_def le_bytes_slice flip: append_assoc)
qed simp

interpretation eof_codec: struct_codec eof_bytes eof_of sizeof_SimpleFileEOF
proof
  show "length (eof_bytes x) = sizeof_SimpleFileEOF" for x by (simp add: eof_bytes_def)
  show "eof_of (eof_bytes x @ rest) = x" for x rest
    by (simp add: eof_of_def eof_bytes_def slice_Cons_append)
  show "eof_bytes (eof_of bs) = bs" if "length bs = sizeof_SimpleFileEOF" for bs
    using that slice_concat [of 0 8 bs 4] slice_concat [of 0 12 bs 4] slice_concat [of 0 16 bs 4]
      slice_concat [of 0 20 bs 4]
    by (simp add: eof_of_def eof_bytes_def le_bytes_slice flip: append_assoc)
qed simp

interpretation sparse_codec:
  struct_codec sparse_range_bytes sparse_range_of sizeof_SimpleFileSparseRangeHeader
proof
  show "length (sparse_range_bytes x) = sizeof_SimpleFileSparseRangeHeader" for x
    by (simp add: sparse_range_bytes_def)
  show "sparse_range_of (sparse_range_bytes x @ rest) = x" for x rest
    by (simp add: sparse_range_of_def sparse_range_bytes_def slice_Cons_append)
  show "sparse_range_bytes (sparse_range_of bs) = bs"
    if "length bs = sizeof_SimpleFileSparseRangeHeader" for bs
    using that slice_concat [of 0 8 bs 8] slice_concat [of 0 16 bs 8] slice_concat [of 0 24 bs 4]
      slice_concat [of 0 28 bs 4]
    by (simp add: sparse_range_of_def sparse_range_bytes_def le_bytes_slice flip: append_assoc)
qed simp

lemmas struct_length [simp, codec_simps] =
  header_codec.length_enc eof_codec.length_enc sparse_codec.length_enc

end
