(* ===== verification/Simple_Util.thy ===== *)
theory Simple_Util imports Entry_Format begin

text \<open>
  The helpers of simple_util.cc: hash keys as hexadecimal strings, the names of the files of an
  entry, the arithmetic between file sizes and data sizes, and the CRC-32 of a stream. SHA-1, the
  parser of hexadecimal numbers and zlib's \<open>crc32\<close> are not part of the repository: they are
  parameters, with their documented laws stated as locales.
\<close>

section \<open>Parameters: zlib and the hash functions\<close>

text \<open>
  \<open>crc32_null\<close> is \<open>crc32(0, Z_NULL, 0)\<close> and \<open>crc32_update\<close> is \<open>crc32(crc, buf, len)\<close>.
\<close>

record zlib =
  crc32_null :: u32
  crc32_update :: "u32 \<Rightarrow> bytes \<Rightarrow> u32"

definition Crc32 :: "zlib \<Rightarrow> bytes \<Rightarrow> u32" where
  "Crc32 Z data =
     (let empty_crc = crc32_null Z
      in if length data = 0 then empty_crc else crc32_update Z empty_crc data)"

definition IncrementalCrc32 :: "zlib \<Rightarrow> u32 \<Rightarrow> bytes \<Rightarrow> u32" where
  "IncrementalCrc32 Z previous_crc data = crc32_update Z previous_crc data"

text \<open>zlib's manual: updating with a buffer in two parts is updating with the whole.\<close>

locale zlib_crc =
  fixes Z :: zlib
  assumes crc_empty: "crc32_update Z c [] = c"
    and crc_append: "crc32_update Z (crc32_update Z c xs) ys = crc32_update Z c (xs @ ys)"
begin

lemma Crc32_eq: "Crc32 Z data = crc32_update Z (crc32_null Z) data"
  by (simp add: Crc32_def crc_empty Let_def)

lemma IncrementalCrc32_append: "IncrementalCrc32 Z (Crc32 Z xs) ys = Crc32 Z (xs @ ys)"
  by (simp add: Crc32_eq IncrementalCrc32_def crc_append)

lemma IncrementalCrc32_fold:
  "fold (\<lambda>chunk crc. IncrementalCrc32 Z crc chunk) chunks (Crc32 Z xs) = Crc32 Z (xs @ concat chunks)"
  by (induction chunks arbitrary: xs) (simp_all add: IncrementalCrc32_append)

end

text \<open>
  The CRC-32 of the zlib and java.util.zip manuals (reflected polynomial \<open>EDB88320\<close>), a function
  with these laws for the concrete examples.
\<close>

fun crc32_bits :: "nat \<Rightarrow> u32 \<Rightarrow> u32" where
  "crc32_bits 0 c = c"
| "crc32_bits (Suc n) c =
     crc32_bits n (if c AND 1 = 1 then drop_bit 1 c XOR 0xEDB88320 else drop_bit 1 c)"

definition crc32_step :: "u32 \<Rightarrow> byte \<Rightarrow> u32" where
  "crc32_step c b = crc32_bits 8 (c XOR ucast b)"

definition crc32_zlib :: zlib where
  "crc32_zlib = \<lparr>crc32_null = 0, crc32_update = (\<lambda>c bs. NOT (foldl crc32_step (NOT c) bs))\<rparr>"

interpretation ref_crc: zlib_crc crc32_zlib
  by unfold_locales (simp_all add: crc32_zlib_def)

section \<open>Hash keys in hexadecimal\<close>

definition hex_digit :: "nat \<Rightarrow> char" where
  "hex_digit n = ''0123456789abcdef'' ! n"

text \<open>\<open>%016x\<close> of a 64-bit value: sixteen digits, the most significant first.\<close>

definition ConvertEntryHashKeyToHexString :: "u64 \<Rightarrow> string" where
  "ConvertEntryHashKeyToHexString hash_key =
     map (\<lambda>i. hex_digit (unat (drop_bit (4 * (15 - i)) hash_key AND 15))) [0..<16]"

text \<open>
  The first eight bytes of the SHA-1 digest of the key, as a little-endian number.
\<close>

definition GetEntryHashKey :: "(bytes \<Rightarrow> bytes) \<Rightarrow> bytes \<Rightarrow> u64" where
  "GetEntryHashKey sha1 key = le_word (take 8 (sha1 key))"

definition GetEntryHashKeyAsHexString :: "(bytes \<Rightarrow> bytes) \<Rightarrow> bytes \<Rightarrow> string" where
  "GetEntryHashKeyAsHexString sha1 key = ConvertEntryHashKeyToHexString (GetEntryHashKey sha1 key)"

definition kEntryHashKeyAsHexStringSize :: nat where
  "kEntryHashKeyAsHexStringSize = 2 * 8"

text \<open>\<open>hex_parse\<close> is \<open>base::HexStringToUInt64\<close>; \<open>None\<close> is its return value \<open>false\<close>.\<close>

definition GetEntryHashKeyFromHexString :: "(string \<Rightarrow> u64 option) \<Rightarrow> string \<Rightarrow> u64 option" where
  "GetEntryHashKeyFromHexString hex_parse hash_key =
     (if length hash_key \<noteq> kEntryHashKeyAsHexStringSize then None else hex_parse hash_key)"

text \<open>
  What base documents of \<open>HexStringToUInt64\<close> and the sources rely on: a string of at most
  sixteen hexadecimal digits is read as the number it writes.
\<close>

fun hex_value :: "nat list \<Rightarrow> u64" where
  "hex_value [] = 0"
| "hex_value (d # ds) = of_nat d * 16 ^ length ds + hex_value ds"

locale hex_parser =
  fixes hex_parse :: "string \<Rightarrow> u64 option"
  assumes parse_digits: "ds \<noteq> [] \<Longrightarrow> length ds \<le> 16 \<Longrightarrow> \<forall>d \<in> set ds. d < 16 \<Longrightarrow>
    hex_parse (map hex_digit ds) = Some (hex_value ds)"

lemma length_ConvertEntryHashKeyToHexString [simp]:
  "length (ConvertEntryHashKeyToHexString h) = 16"
  by (simp add: ConvertEntryHashKeyToHexString_def)

lemma nibble_less: "unat (w AND 15 :: u64) < 16"
proof -
  have "w AND 15 \<le> 15" by (rule word_and_le1)
  then have "unat (w AND 15) \<le> unat (15 :: u64)" by (simp only: word_le_nat_alt)
  then show ?thesis by simp
qed

lemma nibble_split: "drop_bit (k + 4) h * 16 + (drop_bit k h AND 15) = drop_bit k (h :: u64)"
proof -
  have "drop_bit (k + 4) h * 16 = push_bit 4 (drop_bit (k + 4) h)"
    by (simp add: push_bit_eq_mult)
  moreover have "drop_bit k h AND 15 = take_bit 4 (drop_bit k h)"
    by (simp add: take_bit_eq_mask mask_eq_exp_minus_1)
  moreover have "push_bit 4 (drop_bit (k + 4) h) + take_bit 4 (drop_bit k h)
      = push_bit 4 (drop_bit (k + 4) h) OR take_bit 4 (drop_bit k h)"
    by (rule disjunctive_add) (auto simp: bit_simps)
  moreover have "\<dots> = drop_bit k h"
    by (rule bit_word_eqI) (auto simp: bit_simps add.commute)
  ultimately show ?thesis by simp
qed

lemma hex_value_snoc: "hex_value (ds @ [d]) = hex_value ds * 16 + of_nat d"
  by (induction ds) (simp_all add: algebra_simps)

lemma hex_value_nibbles:
  "n \<le> 16 \<Longrightarrow>
   hex_value (map (\<lambda>i. unat (drop_bit (4 * (15 - i)) h AND 15)) [0..<n]) = drop_bit (4 * (16 - n)) h"
proof (induction n)
  case 0
  show ?case by (rule bit_word_eqI) (simp add: bit_simps)
next
  case (Suc n)
  have shift: "4 * (16 - n) = 4 * (15 - n) + 4" using Suc.prems by simp
  have "drop_bit (4 * (16 - n)) h * 16 + (drop_bit (4 * (15 - n)) h AND 15) = drop_bit (4 * (15 - n)) h"
    using nibble_split [of "4 * (15 - n)" h] by (simp only: shift)
  then show ?case using Suc by (simp add: hex_value_snoc)
qed

context hex_parser begin

lemma parse_format:
  "GetEntryHashKeyFromHexString hex_parse (ConvertEntryHashKeyToHexString h) = Some h"
proof -
  let ?ds = "map (\<lambda>i. unat (drop_bit (4 * (15 - i)) h AND 15)) [0..<16]"
  have "ConvertEntryHashKeyToHexString h = map hex_digit ?ds"
    by (simp add: ConvertEntryHashKeyToHexString_def)
  moreover have "hex_parse (map hex_digit ?ds) = Some (hex_value ?ds)"
    by (rule parse_digits) (auto simp: nibble_less)
  moreover have "hex_value ?ds = h" using hex_value_nibbles [of 16 h] by simp
  ultimately show ?thesis
    by (simp add: GetEntryHashKeyFromHexString_def kEntryHashKeyAsHexStringSize_def
        del: upt_rec_numeral)
qed

end


text \<open>
  A parser that behaves as documented: the digits of either case, with an optional sign and
  prefix refused (the code never passes any). It shows that the laws of \<open>hex_parser\<close> can hold.
\<close>

definition hex_digit_value :: "char \<Rightarrow> nat option" where
  "hex_digit_value c =
     (let n = of_char c
      in if 48 \<le> n \<and> n \<le> 57 then Some (n - 48)
         else if 97 \<le> n \<and> n \<le> 102 then Some (n - 87)
         else if 65 \<le> n \<and> n \<le> 70 then Some (n - 55) else None)"

fun hex_digit_values :: "string \<Rightarrow> nat list option" where
  "hex_digit_values [] = Some []"
| "hex_digit_values (c # cs) =
     (case (hex_digit_value c, hex_digit_values cs) of
        (Some d, Some ds) \<Rightarrow> Some (d # ds) | _ \<Rightarrow> None)"

definition parse_hex_u64 :: "string \<Rightarrow> u64 option" where
  "parse_hex_u64 s =
     (if s = [] \<or> 16 < length s then None else map_option hex_value (hex_digit_values s))"

lemma hex_digit_value_digit: "d < 16 \<Longrightarrow> hex_digit_value (hex_digit d) = Some d"
proof -
  have "\<forall>d \<in> set [0..<16]. hex_digit_value (hex_digit d) = Some d" by code_simp
  then show "d < 16 \<Longrightarrow> hex_digit_value (hex_digit d) = Some d" by (simp del: upt_rec_numeral)
qed

lemma hex_digit_values_map: "\<forall>d \<in> set ds. d < 16 \<Longrightarrow> hex_digit_values (map hex_digit ds) = Some ds"
  by (induction ds) (simp_all add: hex_digit_value_digit)

interpretation ref_hex: hex_parser parse_hex_u64
  by unfold_locales (simp add: parse_hex_u64_def hex_digit_values_map)

lemma ConvertEntryHashKeyToHexString_inj:
  "ConvertEntryHashKeyToHexString h = ConvertEntryHashKeyToHexString h' \<longleftrightarrow> h = h'"
  by (metis ref_hex.parse_format option.inject)

section \<open>File names\<close>

record EntryFileKey =
  entry_hash :: u64
  doom_generation :: u64

text \<open>Decimal numbers as \<open>%d\<close> and \<open>%u\<close> print them.\<close>

fun dec_nat :: "nat \<Rightarrow> string" where
  "dec_nat n = (if n < 10 then [hex_digit n] else dec_nat (n div 10) @ [hex_digit (n mod 10)])"

declare dec_nat.simps [simp del]

definition dec_int :: "int \<Rightarrow> string" where
  "dec_int i = (if i < 0 then CHR ''-'' # dec_nat (nat (- i)) else dec_nat (nat i))"

definition GetFilenameFromEntryFileKeyAndFileIndex :: "EntryFileKey \<Rightarrow> int \<Rightarrow> string" where
  "GetFilenameFromEntryFileKeyAndFileIndex key file_index =
     (if doom_generation key = 0
      then ConvertEntryHashKeyToHexString (entry_hash key) @ ''_'' @ dec_int file_index
      else ''todelete_'' @ ConvertEntryHashKeyToHexString (entry_hash key) @ ''_''
             @ dec_int file_index @ ''_'' @ dec_nat (unat (doom_generation key)))"

definition GetSparseFilenameFromEntryFileKey :: "EntryFileKey \<Rightarrow> string" where
  "GetSparseFilenameFromEntryFileKey key =
     (if doom_generation key = 0
      then ConvertEntryHashKeyToHexString (entry_hash key) @ ''_s''
      else ''todelete_'' @ ConvertEntryHashKeyToHexString (entry_hash key) @ ''_s_''
             @ dec_nat (unat (doom_generation key)))"

definition GetFilenameFromKeyAndFileIndex :: "(bytes \<Rightarrow> bytes) \<Rightarrow> bytes \<Rightarrow> int \<Rightarrow> string" where
  "GetFilenameFromKeyAndFileIndex sha1 key file_index =
     GetEntryHashKeyAsHexString sha1 key @ ''_'' @ dec_int file_index"

fun dec_value :: "string \<Rightarrow> nat" where
  "dec_value [] = 0"
| "dec_value (c # cs) = the (hex_digit_value c) * 10 ^ length cs + dec_value cs"

lemma dec_value_snoc: "dec_value (cs @ [c]) = dec_value cs * 10 + the (hex_digit_value c)"
  by (induction cs) (simp_all add: algebra_simps)

lemma dec_value_dec_nat [simp]: "dec_value (dec_nat n) = n"
proof (induction n rule: dec_nat.induct)
  case (1 n)
  then show ?case
    by (subst dec_nat.simps) (auto simp: dec_value_snoc hex_digit_value_digit)
qed

lemma dec_nat_inj [simp]: "dec_nat m = dec_nat n \<longleftrightarrow> m = n"
  by (metis dec_value_dec_nat)

lemma hex_digit_chars: "n < 16 \<Longrightarrow> hex_digit n \<in> set ''0123456789abcdef''"
  unfolding hex_digit_def by (rule nth_mem) simp

lemma dec_nat_chars: "set (dec_nat n) \<subseteq> set ''0123456789abcdef''"
proof (induction n rule: dec_nat.induct)
  case (1 n)
  show ?case
  proof (cases "n < 10")
    case True
    then show ?thesis using hex_digit_chars [of n] by (subst dec_nat.simps) simp
  next
    case False
    then show ?thesis using 1 hex_digit_chars [of "n mod 10"] by (subst dec_nat.simps) simp
  qed
qed

lemma dec_nat_not_Nil [simp]: "dec_nat n \<noteq> []"
  by (subst dec_nat.simps) simp

lemma dec_int_inj [simp]: "dec_int i = dec_int j \<longleftrightarrow> i = j"
proof -
  have "CHR ''-'' # cs \<noteq> dec_nat n" for cs n
    using dec_nat_chars [of n] by (cases "dec_nat n") auto
  then show ?thesis by (auto simp: dec_int_def eq_commute [of "dec_nat _" "CHR ''-'' # _"])
qed

lemma underscore_notin_dec [simp]:
  "CHR ''_'' \<notin> set (dec_nat n)" "CHR ''s'' \<notin> set (dec_nat n)"
  using dec_nat_chars [of n] by auto

lemma underscore_notin_dec_int [simp]:
  "CHR ''_'' \<notin> set (dec_int i)" "CHR ''s'' \<notin> set (dec_int i)"
  by (simp_all add: dec_int_def)

lemma hex_string_chars: "set (ConvertEntryHashKeyToHexString h) \<subseteq> set ''0123456789abcdef''"
  using hex_digit_chars nibble_less by (fastforce simp: ConvertEntryHashKeyToHexString_def
      simp del: list.set)

lemma hex_string_no_todelete [simp]:
  "ConvertEntryHashKeyToHexString h @ xs \<noteq> CHR ''t'' # ys"
  "CHR ''t'' # ys \<noteq> ConvertEntryHashKeyToHexString h @ xs"
  using hex_string_chars [of h] length_ConvertEntryHashKeyToHexString [of h]
  by (cases "ConvertEntryHashKeyToHexString h"; auto)+

lemma split_at_underscore:
  "CHR ''_'' \<notin> set xs \<Longrightarrow> CHR ''_'' \<notin> set xs' \<Longrightarrow>
   xs @ CHR ''_'' # ys = xs' @ CHR ''_'' # ys' \<longleftrightarrow> xs = xs' \<and> ys = ys'"
  by (auto simp: append_eq_append_conv2 Cons_eq_append_conv append_eq_Cons_conv)

lemma hex_string_append_eq [simp]:
  "ConvertEntryHashKeyToHexString h @ xs = ConvertEntryHashKeyToHexString h' @ ys
     \<longleftrightarrow> h = h' \<and> xs = ys"
  by (simp add: ConvertEntryHashKeyToHexString_inj)

lemma stream_filename_inj:
  "GetFilenameFromEntryFileKeyAndFileIndex key i = GetFilenameFromEntryFileKeyAndFileIndex key' j
     \<longleftrightarrow> key = key' \<and> i = j"
  by (cases key; cases key')
    (auto simp: GetFilenameFromEntryFileKeyAndFileIndex_def split_at_underscore word_unat_eq_iff)

lemma sparse_filename_injective:
  "GetSparseFilenameFromEntryFileKey key = GetSparseFilenameFromEntryFileKey key' \<longleftrightarrow> key = key'"
  by (cases key; cases key') (auto simp: GetSparseFilenameFromEntryFileKey_def ConvertEntryHashKeyToHexString_inj word_unat_eq_iff)

lemma sparse_filename_not_stream:
  "GetSparseFilenameFromEntryFileKey key \<noteq> GetFilenameFromEntryFileKeyAndFileIndex key' i"
proof
  assume eq: "GetSparseFilenameFromEntryFileKey key = GetFilenameFromEntryFileKeyAndFileIndex key' i"
  have "CHR ''s'' # xs \<noteq> dec_int i @ ys" "''s'' \<noteq> dec_int i" for xs ys
    using underscore_notin_dec_int [of i]
    by (cases "dec_int i"; auto simp: dec_int_def split: if_splits)+
  with eq show False
    by (auto simp: GetSparseFilenameFromEntryFileKey_def GetFilenameFromEntryFileKeyAndFileIndex_def
        split: if_splits)
qed

text \<open>C33: Two file names of the cache agree only if they name the same file of the same entry: the hash and the
doom generation of an entry and the index of the file can be read off the name of a stream file, the hash and the
doom generation off the name of a sparse file, and no name is both.\<close>

theorem entry_filename_injective:
  "(GetFilenameFromEntryFileKeyAndFileIndex key i = GetFilenameFromEntryFileKeyAndFileIndex key' j
      \<longleftrightarrow> key = key' \<and> i = j)
   \<and> (GetSparseFilenameFromEntryFileKey key = GetSparseFilenameFromEntryFileKey key' \<longleftrightarrow> key = key')
   \<and> GetSparseFilenameFromEntryFileKey key \<noteq> GetFilenameFromEntryFileKeyAndFileIndex key' j"
  by (simp add: stream_filename_inj sparse_filename_injective sparse_filename_not_stream)

section \<open>Sizes\<close>

text \<open>
  \<open>key_length\<close> is a \<open>size_t\<close> and the file and data sizes are \<open>int64_t\<close>: the additions are made
  modulo \<open>2 ^ 64\<close> and the result is converted back.
\<close>

definition GetHeaderSize :: "nat \<Rightarrow> nat" where
  "GetHeaderSize key_len = sizeof_SimpleFileHeader + key_len"

definition GetDataSizeFromFileSize :: "nat \<Rightarrow> int \<Rightarrow> int" where
  "GetDataSizeFromFileSize key_len file_size =
     wrap64 (file_size - int key_len - int sizeof_SimpleFileHeader - int sizeof_SimpleFileEOF)"

definition GetFileSizeFromDataSize :: "nat \<Rightarrow> int \<Rightarrow> int" where
  "GetFileSizeFromDataSize key_len data_size =
     wrap64 (data_size + int key_len + int sizeof_SimpleFileHeader + int sizeof_SimpleFileEOF)"

definition GetFileIndexFromStreamIndex :: "nat \<Rightarrow> nat" where
  "GetFileIndexFromStreamIndex stream_index = (if stream_index = 2 then 1 else 0)"

lemma wrap64_wrap64_add: "wrap64 (wrap64 x + y) = wrap64 (x + y)"
  by (simp add: wrap64_def)

lemma wrap64_wrap64_diff: "wrap64 (wrap64 x - y) = wrap64 (x - y)"
  by (simp add: wrap64_def)

lemma data_size_of_file_size:
  "- (2 ^ 63) \<le> n \<Longrightarrow> n < 2 ^ 63 \<Longrightarrow>
   GetDataSizeFromFileSize k (GetFileSizeFromDataSize k n) = n"
  "- (2 ^ 63) \<le> n \<Longrightarrow> n < 2 ^ 63 \<Longrightarrow>
   GetFileSizeFromDataSize k (GetDataSizeFromFileSize k n) = n"
proof -
  assume n: "- (2 ^ 63) \<le> n" "n < 2 ^ 63"
  have "GetDataSizeFromFileSize k (GetFileSizeFromDataSize k n)
      = wrap64 (wrap64 (n + int k + 48) - (int k + 48))"
    by (simp add: GetDataSizeFromFileSize_def GetFileSizeFromDataSize_def algebra_simps)
  then show "GetDataSizeFromFileSize k (GetFileSizeFromDataSize k n) = n"
    using n by (simp add: wrap64_wrap64_diff)
  have "GetFileSizeFromDataSize k (GetDataSizeFromFileSize k n)
      = wrap64 (wrap64 (n - int k - 48) + (int k + 48))"
    by (simp add: GetDataSizeFromFileSize_def GetFileSizeFromDataSize_def algebra_simps)
  then show "GetFileSizeFromDataSize k (GetDataSizeFromFileSize k n) = n"
    using n by (simp add: wrap64_wrap64_add)
qed

lemma GetFileSizeFromDataSize_small [size_simps]:
  "0 \<le> n \<Longrightarrow> n + int k < 2 ^ 62 \<Longrightarrow> GetFileSizeFromDataSize k n = n + int k + 48"
  by (simp add: GetFileSizeFromDataSize_def)

lemma GetDataSizeFromFileSize_small [size_simps]:
  "0 \<le> n \<Longrightarrow> n < 2 ^ 62 \<Longrightarrow> int k < 2 ^ 62 \<Longrightarrow> GetDataSizeFromFileSize k n = n - int k - 48"
  by (simp add: GetDataSizeFromFileSize_def)

end
