(* ===== verification/Pickle.thy ===== *)
theory Pickle imports Simple_Util begin

text \<open>
  \<open>base::Pickle\<close> is not part of the repository: the index file code is parameterised by a record of
  the operations it uses, and the locale \<open>pickle_laws\<close> states the documented behaviour it relies on
  (what was written is read back in order; reading consumes; the payload has the size of what was
  written). The repository's own Java writer and reader of the same format
  (SimpleCacheFormat.PickleWriter, SimpleCacheIndex.parse) are modelled here and satisfy the laws.
\<close>

section \<open>The interface\<close>

datatype pickle_item = PU32 u32 | PU64 u64 | PI64 int

fun item_size :: "pickle_item \<Rightarrow> nat" where
  "item_size (PU32 v) = 4"
| "item_size (PU64 v) = 8"
| "item_size (PI64 v) = 8"

definition items_size :: "pickle_item list \<Rightarrow> nat" where
  "items_size its = (\<Sum>i\<leftarrow>its. item_size i)"

lemma items_size_simps [simp]:
  "items_size [] = 0"
  "items_size (i # its) = item_size i + items_size its"
  "items_size (its @ its') = items_size its + items_size its'"
  by (simp_all add: items_size_def)

text \<open>\<open>'p\<close> is a pickle and \<open>'i\<close> an iterator over one; a failing read is \<open>None\<close>.\<close>

record ('p, 'i) pickle_ops =
  pk_new :: "'p"
  pk_write_u32 :: "u32 \<Rightarrow> 'p \<Rightarrow> 'p"
  pk_write_u64 :: "u64 \<Rightarrow> 'p \<Rightarrow> 'p"
  pk_write_i64 :: "int \<Rightarrow> 'p \<Rightarrow> 'p"
  pk_payload :: "'p \<Rightarrow> bytes"
  pk_crc :: "'p \<Rightarrow> u32"
  pk_set_crc :: "u32 \<Rightarrow> 'p \<Rightarrow> 'p"
  pk_header_size :: "'p \<Rightarrow> nat"
  pk_bytes :: "'p \<Rightarrow> bytes"
  pk_open :: "bytes \<Rightarrow> 'p option"
  pk_iter :: "'p \<Rightarrow> 'i"
  pk_read_u32 :: "'i \<Rightarrow> (u32 \<times> 'i) option"
  pk_read_u64 :: "'i \<Rightarrow> (u64 \<times> 'i) option"
  pk_read_i64 :: "'i \<Rightarrow> (int \<times> 'i) option"

text \<open>\<open>sizeof(PickleHeader)\<close>: the payload size and the CRC.\<close>

abbreviation sizeof_PickleHeader :: nat where "sizeof_PickleHeader \<equiv> 8"

locale pickle_laws =
  fixes P :: "('p, 'i) pickle_ops"
    and holds :: "'p \<Rightarrow> pickle_item list \<Rightarrow> bool"
    and reads :: "'i \<Rightarrow> pickle_item list \<Rightarrow> bool"
    and left :: "'i \<Rightarrow> nat"
  assumes new: "holds (pk_new P) []"
    and write_u32: "holds p its \<Longrightarrow> holds (pk_write_u32 P w p) (its @ [PU32 w])"
    and write_u64: "holds p its \<Longrightarrow> holds (pk_write_u64 P d p) (its @ [PU64 d])"
    and write_i64: "holds p its \<Longrightarrow> holds (pk_write_i64 P z p) (its @ [PI64 z])"
    and set_crc: "holds p its \<Longrightarrow> holds (pk_set_crc P c p) its"
    and crc_set_crc: "pk_crc P (pk_set_crc P c p) = c"
    and payload_set_crc: "pk_payload P (pk_set_crc P c p) = pk_payload P p"
    and payload_size: "holds p its \<Longrightarrow> length (pk_payload P p) = items_size its"
    and bytes_size: "length (pk_bytes P p) = sizeof_PickleHeader + length (pk_payload P p)"
    and open_bytes: "holds p its \<Longrightarrow> items_size its < 2 ^ 30 \<Longrightarrow>
      \<exists>q. pk_open P (pk_bytes P p) = Some q \<and> pk_header_size P q = sizeof_PickleHeader
        \<and> pk_payload P q = pk_payload P p \<and> pk_crc P q = pk_crc P p \<and> reads (pk_iter P q) its"
    and read_u32: "reads i (PU32 w # its) \<Longrightarrow> \<exists>j. pk_read_u32 P i = Some (w, j) \<and> reads j its"
    and read_u64: "reads i (PU64 d # its) \<Longrightarrow> \<exists>j. pk_read_u64 P i = Some (d, j) \<and> reads j its"
    and read_i64: "reads i (PI64 z # its) \<Longrightarrow>
      \<exists>j. pk_read_i64 P i = Some (wrap64 z, j) \<and> reads j its"
    and consumes: "pk_read_u64 P i = Some (d, j) \<Longrightarrow> left j < left i"
    and consumes_i64: "pk_read_i64 P i = Some (z, j) \<Longrightarrow> left j < left i"

section \<open>The Java writer and reader\<close>

record java_pickle =
  jp_payload :: bytes
  jp_crc :: u32
  jp_header_size :: nat

text \<open>\<open>align4\<close>: zero bytes up to a multiple of four.\<close>

definition align4 :: "bytes \<Rightarrow> bytes" where
  "align4 out = out @ replicate ((4 - length out mod 4) mod 4) 0"

definition writeU32 :: "u32 \<Rightarrow> bytes \<Rightarrow> bytes" where
  "writeU32 v out = align4 out @ le_bytes 4 v"

definition writeU64 :: "u64 \<Rightarrow> bytes \<Rightarrow> bytes" where
  "writeU64 v out = align4 out @ le_bytes 8 v"

definition writeI64 :: "int \<Rightarrow> bytes \<Rightarrow> bytes" where
  "writeI64 v out = writeU64 (word_of_int v) out"

text \<open>
  \<open>SimpleCacheFormat.u32\<close> and \<open>u64\<close> at the current offset; reading past the end throws. The reader's
  state is what is left of the data.
\<close>

definition java_u32 :: "bytes \<Rightarrow> (u32 \<times> bytes) option" where
  "java_u32 bs = (if length bs < 4 then None else Some (le_word (take 4 bs), drop 4 bs))"

definition java_u64 :: "bytes \<Rightarrow> (u64 \<times> bytes) option" where
  "java_u64 bs = (if length bs < 8 then None else Some (le_word (take 8 bs), drop 8 bs))"

definition java_i64 :: "bytes \<Rightarrow> (int \<times> bytes) option" where
  "java_i64 bs = map_option (\<lambda>(w, rest). (sint (w :: u64), rest)) (java_u64 bs)"

definition java_index_bytes :: "java_pickle \<Rightarrow> bytes" where
  "java_index_bytes p =
     le_bytes 4 (of_nat (length (jp_payload p)) :: u32) @ le_bytes 4 (jp_crc p) @ jp_payload p"

definition java_index_open :: "bytes \<Rightarrow> java_pickle option" where
  "java_index_open data =
     (if length data < sizeof_PickleHeader then None
      else let payloadSize = (le_word (slice 0 4 data) :: u32); crc = le_word (slice 4 4 data)
           in if sint (8 + payloadSize) \<noteq> int (length data) then None
              else Some \<lparr>jp_payload = drop 8 data, jp_crc = crc, jp_header_size = 8\<rparr>)"

definition java_pickle_ops :: "(java_pickle, bytes) pickle_ops" where
  "java_pickle_ops =
     \<lparr>pk_new = \<lparr>jp_payload = [], jp_crc = 0, jp_header_size = 8\<rparr>,
      pk_write_u32 = (\<lambda>v p. p\<lparr>jp_payload := writeU32 v (jp_payload p)\<rparr>),
      pk_write_u64 = (\<lambda>v p. p\<lparr>jp_payload := writeU64 v (jp_payload p)\<rparr>),
      pk_write_i64 = (\<lambda>v p. p\<lparr>jp_payload := writeI64 v (jp_payload p)\<rparr>),
      pk_payload = jp_payload, pk_crc = jp_crc, pk_set_crc = (\<lambda>c p. p\<lparr>jp_crc := c\<rparr>),
      pk_header_size = jp_header_size, pk_bytes = java_index_bytes, pk_open = java_index_open,
      pk_iter = jp_payload,
      pk_read_u32 = java_u32, pk_read_u64 = java_u64, pk_read_i64 = java_i64\<rparr>"

fun item_bytes :: "pickle_item \<Rightarrow> bytes" where
  "item_bytes (PU32 v) = le_bytes 4 v"
| "item_bytes (PU64 v) = le_bytes 8 v"
| "item_bytes (PI64 v) = le_bytes 8 (word_of_int v :: u64)"

definition items_bytes :: "pickle_item list \<Rightarrow> bytes" where
  "items_bytes its = concat (map item_bytes its)"

lemma items_bytes_simps [simp]:
  "items_bytes [] = []"
  "items_bytes (i # its) = item_bytes i @ items_bytes its"
  "items_bytes (its @ its') = items_bytes its @ items_bytes its'"
  by (simp_all add: items_bytes_def)

lemma length_item_bytes [simp]: "length (item_bytes i) = item_size i"
  by (cases i) simp_all

lemma length_items_bytes [simp]: "length (items_bytes its) = items_size its"
  by (induction its) simp_all

lemma items_size_mod_4 [simp]: "items_size its mod 4 = 0"
proof (induction its)
  case (Cons i its)
  have "item_size i mod 4 = 0" by (cases i) simp_all
  with Cons show ?case by (simp add: mod_0_imp_dvd dvd_imp_mod_0)
qed simp

lemma align4_items [simp]: "align4 (items_bytes its) = items_bytes its"
  by (simp add: align4_def)

definition java_holds :: "java_pickle \<Rightarrow> pickle_item list \<Rightarrow> bool" where
  "java_holds p its \<longleftrightarrow> jp_payload p = items_bytes its"

definition java_reads :: "bytes \<Rightarrow> pickle_item list \<Rightarrow> bool" where
  "java_reads bs its \<longleftrightarrow> bs = items_bytes its"

lemma java_open_bytes:
  assumes "length (jp_payload p) < 2 ^ 30"
  shows "java_index_open (java_index_bytes p) =
    Some \<lparr>jp_payload = jp_payload p, jp_crc = jp_crc p, jp_header_size = 8\<rparr>"
proof -
  have "sint (8 + of_nat (length (jp_payload p)) :: u32) = int (8 + length (jp_payload p))"
  proof -
    have eq: "(8 + of_nat (length (jp_payload p)) :: u32) = word_of_int (int (8 + length (jp_payload p)))"
      by simp
    show ?thesis unfolding eq using assms
      by (simp add: sint_uint uint_word_of_int_eq signed_take_bit_take_bit
          signed_take_bit_int_eq_self del: of_int_add)
  qed
  then show ?thesis
    by (simp add: java_index_open_def java_index_bytes_def Let_def slice_Cons_append
        slice_append_right slice_append_left)
qed

interpretation java_pickle: pickle_laws java_pickle_ops java_holds java_reads length
proof
  show "\<exists>q. pk_open java_pickle_ops (pk_bytes java_pickle_ops p) = Some q
      \<and> pk_header_size java_pickle_ops q = sizeof_PickleHeader
      \<and> pk_payload java_pickle_ops q = pk_payload java_pickle_ops p
      \<and> pk_crc java_pickle_ops q = pk_crc java_pickle_ops p
      \<and> java_reads (pk_iter java_pickle_ops q) its"
    if "java_holds p its" "items_size its < 2 ^ 30" for p its
    using that by (simp add: java_pickle_ops_def java_holds_def java_reads_def java_open_bytes)
qed (auto simp: java_pickle_ops_def java_holds_def java_reads_def writeU32_def writeU64_def
    writeI64_def java_u32_def java_u64_def java_i64_def java_index_bytes_def wrap64_def
    split: if_splits)

end
