(* ===== verification/Entry_Metadata.thy ===== *)
theory Entry_Metadata imports Pickle begin

text \<open>
  \<open>EntryMetadata\<close> of simple_index.cc and simple_index.h: the eight bytes the index keeps of every
  entry. The union of the last use and the trailer prefetch size is one 32-bit field, the bit
  fields keep their widths. \<open>base::Time\<close> is the number of microseconds since 1601, zero being null.
\<close>

section \<open>Times and cache types\<close>

datatype CacheType =
  DISK_CACHE | APP_CACHE | GENERATED_BYTE_CODE_CACHE | GENERATED_NATIVE_CODE_CACHE
| GENERATED_WEBUI_BYTE_CODE_CACHE

type_synonym time = int
type_synonym time_delta = int

definition is_null :: "time \<Rightarrow> bool" where "is_null t \<longleftrightarrow> t = 0"

definition Seconds :: "int \<Rightarrow> time_delta" where "Seconds n = 1000000 * n"

definition UnixEpoch :: time where "UnixEpoch = 11644473600 * 1000000"

definition Time_Max :: time where "Time_Max = 2 ^ 63 - 1"

text \<open>The C++ division truncates towards zero.\<close>

definition InSeconds :: "time_delta \<Rightarrow> int" where
  "InSeconds d = (if d < 0 then - ((- d) div 1000000) else d div 1000000)"

section \<open>The record and its accessors\<close>

record EntryMetadata =
  time_or_prefetch :: u32
  entry_size_256b_chunks :: "30 word"
  in_memory_data :: "2 word"

definition EntryMetadata0 :: EntryMetadata where
  "EntryMetadata0 = \<lparr>time_or_prefetch = 0, entry_size_256b_chunks = 0, in_memory_data = 0\<rparr>"

definition PackEntrySizeAndInMemoryData :: "u32 \<Rightarrow> byte \<Rightarrow> u64" where
  "PackEntrySizeAndInMemoryData chunks mem = push_bit 8 (ucast chunks) OR ucast mem"

definition UnpackEntrySizeAndInMemoryData :: "u64 \<Rightarrow> u32 \<times> byte" where
  "UnpackEntrySizeAndInMemoryData v = (ucast (drop_bit 8 v), ucast (v AND 3))"

definition GetLastUsedTime :: "EntryMetadata \<Rightarrow> time" where
  "GetLastUsedTime m =
     (if time_or_prefetch m = 0 then 0 else UnixEpoch + Seconds (uint (time_or_prefetch m)))"

definition SetLastUsedTime :: "time \<Rightarrow> EntryMetadata \<Rightarrow> EntryMetadata" where
  "SetLastUsedTime t m =
     (if is_null t then m\<lparr>time_or_prefetch := 0\<rparr>
      else let s = saturated_u32 (InSeconds (t - UnixEpoch))
           in m\<lparr>time_or_prefetch := (if s = 0 then 1 else s)\<rparr>)"

definition GetTrailerPrefetchSize :: "EntryMetadata \<Rightarrow> u32" where
  "GetTrailerPrefetchSize m = time_or_prefetch m"

definition SetTrailerPrefetchSize :: "u32 \<Rightarrow> EntryMetadata \<Rightarrow> EntryMetadata" where
  "SetTrailerPrefetchSize sz m = (if sz = 0 then m else m\<lparr>time_or_prefetch := sz\<rparr>)"

definition RawTimeForSorting :: "EntryMetadata \<Rightarrow> u32" where
  "RawTimeForSorting m = time_or_prefetch m"

definition GetEntrySize :: "EntryMetadata \<Rightarrow> u64" where
  "GetEntrySize m = push_bit 8 (ucast (entry_size_256b_chunks m))"

text \<open>\<open>None\<close> is the return value \<open>false\<close>, which leaves the metadata as it was.\<close>

definition SetEntrySize :: "u64 \<Rightarrow> EntryMetadata \<Rightarrow> EntryMetadata option" where
  "SetEntrySize entry_size m =
     (let rounded_chunk = drop_bit 8 (entry_size + 255)
      in if drop_bit 30 rounded_chunk \<noteq> 0 then None
         else Some (m\<lparr>entry_size_256b_chunks := ucast rounded_chunk\<rparr>))"

definition GetInMemoryData :: "EntryMetadata \<Rightarrow> byte" where
  "GetInMemoryData m = ucast (in_memory_data m)"

text \<open>\<open>None\<close> is the failing \<open>CHECK_LE (val, 3)\<close>.\<close>

definition SetInMemoryData :: "byte \<Rightarrow> EntryMetadata \<Rightarrow> EntryMetadata option" where
  "SetInMemoryData val m = (if val > 3 then None else Some (m\<lparr>in_memory_data := ucast val\<rparr>))"

text \<open>The two other constructors; \<open>None\<close> is the failing \<open>CHECK\<close> on the size.\<close>

definition EntryMetadata_of_time :: "time \<Rightarrow> u64 \<Rightarrow> EntryMetadata option" where
  "EntryMetadata_of_time last_used_time entry_size =
     map_option (SetLastUsedTime last_used_time) (SetEntrySize entry_size EntryMetadata0)"

definition EntryMetadata_of_prefetch :: "u32 \<Rightarrow> u64 \<Rightarrow> EntryMetadata option" where
  "EntryMetadata_of_prefetch trailer_prefetch_size entry_size =
     map_option (SetTrailerPrefetchSize trailer_prefetch_size) (SetEntrySize entry_size EntryMetadata0)"

definition GetLowerEpsilonForTimeComparisons :: time_delta where
  "GetLowerEpsilonForTimeComparisons = Seconds 1"

definition GetUpperEpsilonForTimeComparisons :: time_delta where
  "GetUpperEpsilonForTimeComparisons = 0"

section \<open>On-disk form\<close>

definition kOnDiskSizeBytes :: nat where "kOnDiskSizeBytes = 16"

definition EntryMetadata_Serialize ::
    "('p, 'i) pickle_ops \<Rightarrow> CacheType \<Rightarrow> EntryMetadata \<Rightarrow> 'p \<Rightarrow> 'p" where
  "EntryMetadata_Serialize P cache_type m pickle =
     (let packed_entry_info =
            PackEntrySizeAndInMemoryData (ucast (entry_size_256b_chunks m)) (ucast (in_memory_data m));
          pickle = (if cache_type = APP_CACHE
                    then pk_write_i64 P (uint (time_or_prefetch m)) pickle
                    else pk_write_i64 P (GetLastUsedTime m) pickle)
      in pk_write_u64 P packed_entry_info pickle)"

definition EntryMetadata_Deserialize ::
    "('p, 'i) pickle_ops \<Rightarrow> CacheType \<Rightarrow> bool \<Rightarrow> 'i \<Rightarrow> EntryMetadata \<Rightarrow> (EntryMetadata \<times> 'i) option" where
  "EntryMetadata_Deserialize P cache_type has_trailer_prefetch_size it m =
     (case pk_read_i64 P it of
        None \<Rightarrow> None
      | Some (tmp_time_or_prefetch_size, it) \<Rightarrow>
          (case pk_read_u64 P it of
             None \<Rightarrow> None
           | Some (tmp_entry_size, it) \<Rightarrow>
               if drop_bit 38 tmp_entry_size \<noteq> 0 then None
               else
                 (let m = (if cache_type = APP_CACHE
                           then (if has_trailer_prefetch_size
                                   \<and> 0 \<le> tmp_time_or_prefetch_size \<and> tmp_time_or_prefetch_size < 2 ^ 32
                                 then SetTrailerPrefetchSize (word_of_int tmp_time_or_prefetch_size) m
                                 else m)
                           else SetLastUsedTime tmp_time_or_prefetch_size m);
                      (chunks, mem) = UnpackEntrySizeAndInMemoryData tmp_entry_size
                  in map_option (\<lambda>m. (m, it))
                       (SetInMemoryData mem (m\<lparr>entry_size_256b_chunks := ucast chunks\<rparr>)))))"

section \<open>Lemmas\<close>

lemma uint_GetEntrySize: "uint (GetEntrySize m) = 256 * uint (entry_size_256b_chunks m)"
proof -
  have "uint (entry_size_256b_chunks m) < 2 ^ 30" using uint_lt2p [of "entry_size_256b_chunks m"] by simp
  then show ?thesis
    by (simp add: GetEntrySize_def push_bit_eq_mult uint_word_ariths uint_up_ucast is_up)
qed

lemma GetEntrySize_bound: "uint (GetEntrySize m) \<le> 2 ^ 38 - 256"
proof -
  have "uint (entry_size_256b_chunks m) < 2 ^ 30" using uint_lt2p [of "entry_size_256b_chunks m"] by simp
  then show ?thesis by (simp add: uint_GetEntrySize)
qed

lemma uint_rounded_chunk:
  assumes "uint (s :: u64) \<le> 2 ^ 64 - 256"
  shows "uint (drop_bit 8 (s + 255)) = (uint s + 255) div 256"
  using assms by (simp add: uint_word_ariths drop_bit_eq_div uint_div_distrib)

lemma drop_bit_eq_0_iff: "drop_bit n (w :: u64) = 0 \<longleftrightarrow> uint w < 2 ^ n"
proof -
  have "drop_bit n w = 0 \<longleftrightarrow> uint (drop_bit n w) = 0" by (rule unsigned_eq_0_iff [symmetric])
  also have "uint (drop_bit n w) = uint w div 2 ^ n"
    by (simp add: unsigned_drop_bit_eq drop_bit_eq_div [where 'a = int] take_bit_int_eq_self
        drop_bit_take_bit)
  also have "uint w div 2 ^ n = 0 \<longleftrightarrow> uint w < 2 ^ n"
    using zero_less_power [of "2 :: int" n] by (auto simp: zdiv_eq_0_iff)
  finally show ?thesis .
qed

text \<open>The size an entry gets is the size asked for, rounded up to a multiple of 256.\<close>

lemma SetEntrySize_Some:
  assumes "uint s \<le> 2 ^ 64 - 256" and "SetEntrySize s m = Some m'"
  shows "uint (GetEntrySize m') = (uint s + 255) div 256 * 256"
    and "time_or_prefetch m' = time_or_prefetch m" and "in_memory_data m' = in_memory_data m"
proof -
  from assms have small: "(uint s + 255) div 256 < 2 ^ 30"
    by (auto simp: SetEntrySize_def Let_def drop_bit_eq_0_iff uint_rounded_chunk split: if_splits)
  from assms have m': "m' = m\<lparr>entry_size_256b_chunks := ucast (drop_bit 8 (s + 255))\<rparr>"
    by (auto simp: SetEntrySize_def Let_def split: if_splits)
  show "time_or_prefetch m' = time_or_prefetch m" "in_memory_data m' = in_memory_data m"
    by (simp_all add: m')
  have "uint (ucast (drop_bit 8 (s + 255)) :: 30 word) = (uint s + 255) div 256"
    using small assms(1)
    by (simp add: unsigned_ucast_eq uint_rounded_chunk take_bit_int_eq_self_iff
        pos_imp_zdiv_nonneg_iff)
  then show "uint (GetEntrySize m') = (uint s + 255) div 256 * 256"
    by (simp add: m' uint_GetEntrySize)
qed

lemma SetEntrySize_None:
  "uint s \<le> 2 ^ 64 - 256 \<Longrightarrow> SetEntrySize s m = None \<longleftrightarrow> 2 ^ 38 - 256 < uint s"
  by (auto simp: SetEntrySize_def Let_def drop_bit_eq_0_iff uint_rounded_chunk)

lemma SetEntrySize_wrap:
  assumes "2 ^ 64 - 256 < uint s"
  shows "SetEntrySize s m = Some (m\<lparr>entry_size_256b_chunks := 0\<rparr>)"
proof -
  have lt: "uint s < 2 ^ 64" using uint_lt2p [of s] by simp
  have n: "(2 :: int) ^ 64 = 18446744073709551616" by simp
  have "(uint s + 255) mod 2 ^ 64 = (uint s + 255 - 2 ^ 64) mod 2 ^ 64" by (rule minus_mod_self2 [symmetric])
  also have "\<dots> = uint s + 255 - 2 ^ 64" using assms lt unfolding n by (intro mod_pos_pos_trivial) linarith+
  finally have "uint (s + 255) = uint s + 255 - 2 ^ 64" by (simp add: uint_word_ariths)
  then have "uint (s + 255) < 255" using lt unfolding n by linarith
  then have "uint (s + 255) < 2 ^ 8" by simp
  then have "drop_bit 8 (s + 255) = 0" by (simp add: drop_bit_eq_0_iff)
  then show ?thesis by (simp add: SetEntrySize_def Let_def)
qed

text \<open>Setting the size of an entry rounds it up to a multiple of 256 and keeps the rest of the
  metadata, for every size that fits the field; a larger size is refused, but for the 255 largest
  64-bit values, where the rounding wraps around and the size becomes zero.\<close>

theorem entry_size_rounds_up:
  "case SetEntrySize s m of
     None \<Rightarrow> 2 ^ 38 - 256 < uint s \<and> uint s \<le> 2 ^ 64 - 256
   | Some m' \<Rightarrow>
       time_or_prefetch m' = time_or_prefetch m \<and> in_memory_data m' = in_memory_data m
       \<and> uint (GetEntrySize m') =
           (if uint s \<le> 2 ^ 38 - 256 then (uint s + 255) div 256 * 256 else 0)"
proof (cases "uint s \<le> 2 ^ 64 - 256")
  case False
  with SetEntrySize_wrap [of s m] show ?thesis by (simp add: uint_GetEntrySize)
next
  case True
  show ?thesis
  proof (cases "SetEntrySize s m")
    case None
    with True SetEntrySize_None [OF True, of m] show ?thesis by simp
  next
    case (Some m')
    with True SetEntrySize_None [OF True, of m] SetEntrySize_Some [OF True Some] show ?thesis by simp
  qed
qed


text \<open>Packing the size and the hint bits loses nothing, and what is packed fits in 38 bits.\<close>

lemma packed_entry_info_bound:
  "drop_bit 38 (PackEntrySizeAndInMemoryData (ucast (c :: 30 word)) (ucast (d :: 2 word))) = 0"
  by (rule bit_word_eqI)
    (auto simp: PackEntrySizeAndInMemoryData_def bit_simps dest: bit_imp_le_length)

lemma unpack_pack:
  "UnpackEntrySizeAndInMemoryData
     (PackEntrySizeAndInMemoryData (ucast (c :: 30 word)) (ucast (d :: 2 word))) = (ucast c, ucast d)"
proof -
  have mask: "(3 :: u64) = mask 2" by (simp add: mask_eq_exp_minus_1)
  have "ucast (drop_bit 8 (PackEntrySizeAndInMemoryData (ucast c) (ucast d))) = (ucast c :: u32)"
    by (rule bit_word_eqI)
      (auto simp: PackEntrySizeAndInMemoryData_def bit_simps dest: bit_imp_le_length)
  moreover have "ucast (PackEntrySizeAndInMemoryData (ucast c) (ucast d) AND 3) = (ucast d :: byte)"
    unfolding mask
    by (rule bit_word_eqI)
      (auto simp: PackEntrySizeAndInMemoryData_def bit_simps dest: bit_imp_le_length)
  ultimately show ?thesis by (simp add: UnpackEntrySizeAndInMemoryData_def)
qed

lemma SetInMemoryData_ucast:
  "SetInMemoryData (ucast (d :: 2 word)) m = Some (m\<lparr>in_memory_data := d\<rparr>)"
proof -
  have "uint d < 2 ^ 2" using uint_lt2p [of d] by simp
  then have "\<not> (ucast d :: byte) > 3" by (simp add: word_less_def uint_up_ucast is_up)
  moreover have "(ucast (ucast d :: byte) :: 2 word) = d"
    by (rule bit_word_eqI) (auto simp: bit_simps dest: bit_imp_le_length)
  ultimately show ?thesis by (simp add: SetInMemoryData_def)
qed

lemma stored_time_range:
  fixes x :: int
  assumes "0 \<le> x" "x < 4294967296"
  shows "- (2 ^ 63) \<le> UnixEpoch + Seconds x" "UnixEpoch + Seconds x < 2 ^ 63"
    "0 < UnixEpoch + Seconds x" "- (2 ^ 63) \<le> x" "x < 2 ^ 63"
  using assms by (simp_all add: UnixEpoch_def Seconds_def)

lemmas uint_u32_range = stored_time_range [OF uint_ge_0 uint_u32_lt]

lemma GetLastUsedTime_nonzero: "time_or_prefetch m \<noteq> 0 \<Longrightarrow> GetLastUsedTime m \<noteq> 0"
  using uint_u32_range(3) [of "time_or_prefetch m"] by (simp add: GetLastUsedTime_def)

text \<open>The time an entry reports is one it stores exactly: setting it again changes nothing.\<close>

lemma SetLastUsedTime_GetLastUsedTime:
  "time_or_prefetch (SetLastUsedTime (GetLastUsedTime m) m') = time_or_prefetch m"
proof (cases "time_or_prefetch m = 0")
  case True
  then show ?thesis by (simp add: GetLastUsedTime_def SetLastUsedTime_def is_null_def)
next
  case False
  have "InSeconds (GetLastUsedTime m - UnixEpoch) = uint (time_or_prefetch m)"
    using False by (simp add: GetLastUsedTime_def Seconds_def InSeconds_def)
  with False GetLastUsedTime_nonzero [OF False] show ?thesis
    by (simp add: SetLastUsedTime_def is_null_def Let_def)
qed

lemma GetLastUsedTime_int64: "- (2 ^ 63) \<le> GetLastUsedTime m" "GetLastUsedTime m < 2 ^ 63"
  using uint_u32_range [of "time_or_prefetch m"] by (simp_all add: GetLastUsedTime_def)

lemma SetLastUsedTime_fields [simp]:
  "entry_size_256b_chunks (SetLastUsedTime t m) = entry_size_256b_chunks m"
  "in_memory_data (SetLastUsedTime t m) = in_memory_data m"
  "GetEntrySize (SetLastUsedTime t m) = GetEntrySize m"
  by (simp_all add: SetLastUsedTime_def GetEntrySize_def Let_def)

lemma SetTrailerPrefetchSize_fields [simp]:
  "entry_size_256b_chunks (SetTrailerPrefetchSize n m) = entry_size_256b_chunks m"
  "in_memory_data (SetTrailerPrefetchSize n m) = in_memory_data m"
  "GetEntrySize (SetTrailerPrefetchSize n m) = GetEntrySize m"
  by (simp_all add: SetTrailerPrefetchSize_def GetEntrySize_def)

text \<open>The items one entry puts in a pickle.\<close>

definition metadata_items :: "CacheType \<Rightarrow> EntryMetadata \<Rightarrow> pickle_item list" where
  "metadata_items cache_type m =
     [PI64 (if cache_type = APP_CACHE then uint (time_or_prefetch m) else GetLastUsedTime m),
      PU64 (PackEntrySizeAndInMemoryData (ucast (entry_size_256b_chunks m)) (ucast (in_memory_data m)))]"

lemma items_size_metadata [simp, size_simps]: "items_size (metadata_items ct m) = kOnDiskSizeBytes"
  by (simp add: metadata_items_def kOnDiskSizeBytes_def)

context pickle_laws begin

lemma Serialize_holds:
  "holds p its \<Longrightarrow> holds (EntryMetadata_Serialize P ct m p) (its @ metadata_items ct m)"
  using write_u64 [OF write_i64]
  by (fastforce simp: EntryMetadata_Serialize_def metadata_items_def Let_def)

lemma Deserialize_metadata_items:
  assumes it: "reads it (metadata_items ct m @ its)"
    and upgrade: "ct = APP_CACHE \<longrightarrow> has_prefetch"
  shows "\<exists>it'. EntryMetadata_Deserialize P ct has_prefetch it EntryMetadata0 = Some (m, it')
    \<and> reads it' its"
proof -
  let ?t = "if ct = APP_CACHE then uint (time_or_prefetch m) else GetLastUsedTime m"
  let ?pk = "PackEntrySizeAndInMemoryData (ucast (entry_size_256b_chunks m)) (ucast (in_memory_data m))"
  from it obtain j where j: "pk_read_i64 P it = Some (wrap64 ?t, j)" "reads j (PU64 ?pk # its)"
    using read_i64 [of it ?t "PU64 ?pk # its"] by (auto simp: metadata_items_def)
  from j(2) obtain k where k: "pk_read_u64 P j = Some (?pk, k)" "reads k its"
    using read_u64 by blast
  have t: "wrap64 ?t = ?t"
    using GetLastUsedTime_int64 [of m] uint_u32_range(4,5) [of "time_or_prefetch m"] by simp
  have chunks: "(ucast (ucast (entry_size_256b_chunks m) :: u32) :: 30 word) = entry_size_256b_chunks m"
    by (rule bit_word_eqI) (auto simp: bit_simps dest: bit_imp_le_length)
  have prefetch: "time_or_prefetch (SetTrailerPrefetchSize (time_or_prefetch m) EntryMetadata0)
      = time_or_prefetch m"
    by (simp add: SetTrailerPrefetchSize_def EntryMetadata0_def)
  show ?thesis
    using upgrade k(2) prefetch SetLastUsedTime_GetLastUsedTime [of m EntryMetadata0]
    by (auto simp: EntryMetadata_Deserialize_def j k t packed_entry_info_bound unpack_pack Let_def
        SetInMemoryData_ucast chunks intro!: EntryMetadata.equality)
qed

lemma Deserialize_consumes:
  assumes "EntryMetadata_Deserialize P ct b i m = Some (m', j)" shows "left j < left i"
  using assms consumes consumes_i64
  by (fastforce simp: EntryMetadata_Deserialize_def Let_def split: option.splits prod.splits if_splits)

end

text \<open>An entry's metadata written to the index in any cache mode is read back unchanged: its
  time (or prefetch hint), its size and its hint bits, with the reader left behind them.\<close>

theorem metadata_roundtrip:
  "EntryMetadata_Deserialize java_pickle_ops ct True
     (jp_payload (EntryMetadata_Serialize java_pickle_ops ct m (pk_new java_pickle_ops))
        @ items_bytes its) EntryMetadata0
   = Some (m, items_bytes its)"
proof -
  let ?p = "EntryMetadata_Serialize java_pickle_ops ct m (pk_new java_pickle_ops)"
  have "java_holds ?p (metadata_items ct m)"
    using java_pickle.Serialize_holds [OF java_pickle.new] by simp
  then have "java_reads (jp_payload ?p @ items_bytes its) (metadata_items ct m @ its)"
    by (simp add: java_reads_def java_holds_def)
  from java_pickle.Deserialize_metadata_items [OF this, of True] show ?thesis
    by (auto simp: java_reads_def)
qed

text \<open>
  The stored time is the time that was set, cut down to whole seconds: the reason for the one-second
  lower epsilon of the range queries.
\<close>

lemma InSeconds_nonneg: "0 \<le> d \<Longrightarrow> InSeconds d = d div 1000000"
  by (simp add: InSeconds_def)

lemma stored_time_bounds:
  assumes "UnixEpoch + Seconds 1 \<le> t" "t < UnixEpoch + Seconds (2 ^ 32)"
  shows "GetLastUsedTime (SetLastUsedTime t m) \<le> t"
    and "t < GetLastUsedTime (SetLastUsedTime t m) + Seconds 1"
proof -
  define s where "s = (t - UnixEpoch) div 1000000"
  have s: "1 \<le> s" "s < 2 ^ 32" "1000000 * s \<le> t - UnixEpoch" "t - UnixEpoch < 1000000 * s + 1000000"
    using assms by (simp_all add: s_def Seconds_def)
  have w: "uint (saturated_u32 s) = s" using s by (simp add: uint_saturated_u32)
  have nz: "saturated_u32 s \<noteq> 0" using s(1) w by auto
  have "InSeconds (t - UnixEpoch) = s"
    using assms(1) by (simp add: s_def InSeconds_nonneg Seconds_def)
  moreover have "\<not> is_null t" using assms(1) by (simp add: is_null_def UnixEpoch_def Seconds_def)
  ultimately have "GetLastUsedTime (SetLastUsedTime t m) = UnixEpoch + Seconds s"
    using nz w by (simp add: SetLastUsedTime_def GetLastUsedTime_def Let_def)
  then show "GetLastUsedTime (SetLastUsedTime t m) \<le> t"
    and "t < GetLastUsedTime (SetLastUsedTime t m) + Seconds 1"
    using s(3,4) by (simp_all add: Seconds_def)
qed

lemma GetLastUsedTime_range: "0 \<le> GetLastUsedTime m" "GetLastUsedTime m < Time_Max"
proof -
  have "UnixEpoch + Seconds x < Time_Max" if "x < 4294967296" for x
    using that by (simp add: UnixEpoch_def Seconds_def Time_Max_def)
  from this [OF uint_u32_lt, of "time_or_prefetch m"] show "GetLastUsedTime m < Time_Max"
    by (simp add: GetLastUsedTime_def Time_Max_def)
  show "0 \<le> GetLastUsedTime m"
    using uint_u32_range(3) [of "time_or_prefetch m"] by (simp add: GetLastUsedTime_def)
qed

end
