(* ===== verification/Simple_Index.thy ===== *)
theory Simple_Index imports Entry_Metadata "HOL-Library.AList" begin

text \<open>
  The in-memory index (simple_index.cc, simple_index.h): its state as a record, one definition per
  member function. The hash map \<open>entries_set_\<close> is an association list in the order of its slots
  (the order of iteration, and of the addresses that break ties when eviction sorts); no theorem
  depends on where an insertion puts an entry. What the index asks of others is appended to
  \<open>outbox\<close>: tasks posted, the delegate's \<open>DoomEntries\<close>, loads and writes of the index file. The
  code makes each of these calls as the last thing it does to its state. The current time is an
  argument. Histograms are not modelled.
\<close>

section \<open>State\<close>

type_synonym IndexWriteToDiskReason = u32

definition INDEX_WRITE_REASON_SHUTDOWN :: IndexWriteToDiskReason where "INDEX_WRITE_REASON_SHUTDOWN = 0"
definition INDEX_WRITE_REASON_STARTUP_MERGE :: IndexWriteToDiskReason where "INDEX_WRITE_REASON_STARTUP_MERGE = 1"
definition INDEX_WRITE_REASON_IDLE :: IndexWriteToDiskReason where "INDEX_WRITE_REASON_IDLE = 2"
definition INDEX_WRITE_REASON_ANDROID_STOPPED :: IndexWriteToDiskReason where "INDEX_WRITE_REASON_ANDROID_STOPPED = 3"
definition INDEX_WRITE_REASON_MAX :: IndexWriteToDiskReason where "INDEX_WRITE_REASON_MAX = 4"

datatype IndexInitMethod =
  INITIALIZE_METHOD_RECOVERED | INITIALIZE_METHOD_LOADED | INITIALIZE_METHOD_NEWCACHE
| INITIALIZE_METHOD_MAX

type_synonym EntrySet = "(u64 \<times> EntryMetadata) list"

type_synonym callback = nat

datatype index_effect =
  PostTask callback net_result
| RunCallback callback net_result
| DoomEntriesCall "u64 list"
| LoadIndexEntriesCall time
| WriteIndexFileCall IndexWriteToDiskReason EntrySet u64

text \<open>
  \<open>write_timer\<close> is the delay of the running timer, \<open>None\<close> when it is stopped. The three
  \<open>caching\<close> fields and the hint constant come from feature parameters.
\<close>

record SimpleIndex =
  entries_set :: EntrySet
  cache_type :: CacheType
  cache_size :: u64
  max_size :: u64
  high_watermark :: u64
  low_watermark :: u64
  eviction_in_progress :: bool
  removed_entries :: "u64 set"
  initialized :: bool
  init_method :: IndexInitMethod
  write_timer :: "int option"
  to_run_when_initialized :: "callback list"
  app_on_background :: bool
  prioritized_caching_enabled :: bool
  caching_prioritization_factor :: int
  caching_prioritization_period_in_seconds :: u64
  hint_high_priority :: byte
  outbox :: "index_effect list"

record SimpleIndexLoadResult =
  did_load :: bool
  lr_entries :: EntrySet
  index_write_reason :: IndexWriteToDiskReason
  lr_init_method :: IndexInitMethod
  flush_required :: bool

definition kWriteToDiskDelayMSecs :: int where "kWriteToDiskDelayMSecs = 20000"
definition kWriteToDiskOnBackgroundDelayMSecs :: int where "kWriteToDiskOnBackgroundDelayMSecs = 100"
definition kEvictionMarginDivisor :: u64 where "kEvictionMarginDivisor = 20"
definition kEstimatedEntryOverhead :: u64 where "kEstimatedEntryOverhead = 512"

definition new_index :: "CacheType \<Rightarrow> bool \<Rightarrow> int \<Rightarrow> u64 \<Rightarrow> byte \<Rightarrow> SimpleIndex" where
  "new_index ct prioritized factor period hint =
     \<lparr>entries_set = [], cache_type = ct, cache_size = 0, max_size = 0, high_watermark = 0,
      low_watermark = 0, eviction_in_progress = False, removed_entries = {}, initialized = False,
      init_method = INITIALIZE_METHOD_MAX, write_timer = None, to_run_when_initialized = [],
      app_on_background = False, prioritized_caching_enabled = prioritized,
      caching_prioritization_factor = factor, caching_prioritization_period_in_seconds = period,
      hint_high_priority = hint, outbox = []\<rparr>"

section \<open>Operations\<close>

definition emit :: "index_effect list \<Rightarrow> SimpleIndex \<Rightarrow> SimpleIndex" where
  "emit es ix = ix\<lparr>outbox := outbox ix @ es\<rparr>"

definition find_entry :: "SimpleIndex \<Rightarrow> u64 \<Rightarrow> EntryMetadata option" where
  "find_entry ix h = map_of (entries_set ix) h"

definition set_entry :: "u64 \<Rightarrow> EntryMetadata \<Rightarrow> SimpleIndex \<Rightarrow> SimpleIndex" where
  "set_entry h m ix = ix\<lparr>entries_set := AList.update h m (entries_set ix)\<rparr>"

definition delete_index :: "SimpleIndex \<Rightarrow> SimpleIndex" where
  "delete_index ix = emit (map (\<lambda>cb. RunCallback cb (Err ERR_ABORTED)) (to_run_when_initialized ix)) ix"

definition Initialize :: "time \<Rightarrow> SimpleIndex \<Rightarrow> SimpleIndex" where
  "Initialize cache_mtime ix = emit [LoadIndexEntriesCall cache_mtime] ix"

definition PostponeWritingToDisk :: "SimpleIndex \<Rightarrow> SimpleIndex" where
  "PostponeWritingToDisk ix =
     (if \<not> initialized ix then ix
      else ix\<lparr>write_timer := Some (if app_on_background ix then kWriteToDiskOnBackgroundDelayMSecs
                                    else kWriteToDiskDelayMSecs)\<rparr>)"

definition HasPendingWrite :: "SimpleIndex \<Rightarrow> bool" where
  "HasPendingWrite ix \<longleftrightarrow> write_timer ix \<noteq> None"

definition WriteToDisk :: "IndexWriteToDiskReason \<Rightarrow> SimpleIndex \<Rightarrow> SimpleIndex" where
  "WriteToDisk reason ix =
     (if \<not> initialized ix then ix
      else emit [WriteIndexFileCall reason (entries_set ix) (cache_size ix)] (ix\<lparr>write_timer := None\<rparr>))"

text \<open>The timer's task, \<open>write_to_disk_cb_\<close>; a timer that is not running does not fire.\<close>

definition write_timer_fires :: "SimpleIndex \<Rightarrow> SimpleIndex" where
  "write_timer_fires ix =
     (if HasPendingWrite ix then WriteToDisk INDEX_WRITE_REASON_IDLE (ix\<lparr>write_timer := None\<rparr>) else ix)"

definition InsertInEntrySet :: "u64 \<Rightarrow> EntryMetadata \<Rightarrow> EntrySet \<Rightarrow> EntrySet \<times> bool" where
  "InsertInEntrySet h m es =
     (case map_of es h of Some _ \<Rightarrow> (es, False) | None \<Rightarrow> (es @ [(h, m)], True))"

text \<open>
  The score eviction sorts by. \<open>now\<close> and the stored time are subtracted as 32-bit numbers, the
  product and the sum are taken in 64 bits.
\<close>

definition time_since_last_used :: "u32 \<Rightarrow> EntryMetadata \<Rightarrow> u64" where
  "time_since_last_used now m = ucast (now - RawTimeForSorting m)"

definition use_size_heuristic :: "CacheType \<Rightarrow> bool" where
  "use_size_heuristic ct \<longleftrightarrow> ct \<noteq> GENERATED_BYTE_CODE_CACHE \<and> ct \<noteq> GENERATED_WEBUI_BYTE_CODE_CACHE"

definition sort_value :: "SimpleIndex \<Rightarrow> u32 \<Rightarrow> EntryMetadata \<Rightarrow> u64" where
  "sort_value ix now m =
     (let age = time_since_last_used now m
      in if use_size_heuristic (cache_type ix)
         then (let v = age * (GetEntrySize m + kEstimatedEntryOverhead)
               in if prioritized_caching_enabled ix
                     \<and> age < caching_prioritization_period_in_seconds ix
                     \<and> GetInMemoryData m AND hint_high_priority ix = hint_high_priority ix
                  then v div word_of_int (caching_prioritization_factor ix) else v)
         else age)"

fun select_victims :: "u64 \<Rightarrow> u64 \<Rightarrow> EntrySet \<Rightarrow> u64 list" where
  "select_victims amount_to_evict evicted_so_far_size [] = []"
| "select_victims amount_to_evict evicted_so_far_size ((h, m) # entries) =
     (if evicted_so_far_size \<ge> amount_to_evict then []
      else h # select_victims amount_to_evict (evicted_so_far_size + GetEntrySize m) entries)"

definition entries_by_score :: "SimpleIndex \<Rightarrow> u32 \<Rightarrow> EntrySet" where
  "entries_by_score ix now =
     map snd (sort_key fst (map (\<lambda>(h, m). (- 1 - sort_value ix now m, (h, m))) (entries_set ix)))"

definition StartEvictionIfNeeded :: "time \<Rightarrow> SimpleIndex \<Rightarrow> SimpleIndex" where
  "StartEvictionIfNeeded now ix =
     (if eviction_in_progress ix \<or> cache_size ix \<le> high_watermark ix then ix
      else (let now32 = word_of_int (InSeconds (now - UnixEpoch));
                amount_to_evict = cache_size ix - low_watermark ix;
                entry_hashes = select_victims amount_to_evict 0 (entries_by_score ix now32)
            in emit [DoomEntriesCall entry_hashes] (ix\<lparr>eviction_in_progress := True\<rparr>)))"

definition EvictionDone :: "SimpleIndex \<Rightarrow> SimpleIndex" where
  "EvictionDone ix = ix\<lparr>eviction_in_progress := False\<rparr>"

definition SetMaxSize :: "time \<Rightarrow> u64 \<Rightarrow> SimpleIndex \<Rightarrow> SimpleIndex" where
  "SetMaxSize now max_bytes ix =
     (let shrinking = max_bytes < max_size ix;
          ix = ix\<lparr>max_size := max_bytes,
                  high_watermark := max_bytes - max_bytes div kEvictionMarginDivisor,
                  low_watermark := max_bytes - 2 * (max_bytes div kEvictionMarginDivisor)\<rparr>
      in if shrinking then StartEvictionIfNeeded now ix else ix)"

definition ExecuteWhenReady :: "callback \<Rightarrow> SimpleIndex \<Rightarrow> SimpleIndex" where
  "ExecuteWhenReady task ix =
     (if initialized ix then emit [PostTask task net_OK] ix
      else ix\<lparr>to_run_when_initialized := to_run_when_initialized ix @ [task]\<rparr>)"

definition in_range :: "time \<Rightarrow> time \<Rightarrow> EntryMetadata \<Rightarrow> bool" where
  "in_range initial_time end_time m =
     (let initial_time = (if \<not> is_null initial_time
                          then initial_time - GetLowerEpsilonForTimeComparisons else initial_time);
          end_time = (if is_null end_time then Time_Max
                      else end_time + GetUpperEpsilonForTimeComparisons);
          entry_time = GetLastUsedTime m
      in initial_time \<le> entry_time \<and> entry_time < end_time)"

definition GetEntriesBetween :: "time \<Rightarrow> time \<Rightarrow> SimpleIndex \<Rightarrow> u64 list" where
  "GetEntriesBetween initial_time end_time ix =
     map fst (filter (\<lambda>(h, m). in_range initial_time end_time m) (entries_set ix))"

definition GetAllHashes :: "SimpleIndex \<Rightarrow> u64 list" where
  "GetAllHashes ix = GetEntriesBetween 0 0 ix"

definition GetEntryCount :: "SimpleIndex \<Rightarrow> u32" where
  "GetEntryCount ix = of_nat (length (entries_set ix))"

definition GetCacheSize :: "SimpleIndex \<Rightarrow> u64" where
  "GetCacheSize ix = cache_size ix"

definition GetCacheSizeBetween :: "time \<Rightarrow> time \<Rightarrow> SimpleIndex \<Rightarrow> u64" where
  "GetCacheSizeBetween initial_time end_time ix =
     foldl (\<lambda>sz (h, m). if in_range initial_time end_time m then sz + GetEntrySize m else sz) 0
       (entries_set ix)"

definition IndexGetLastUsedTime :: "u64 \<Rightarrow> SimpleIndex \<Rightarrow> time" where
  "IndexGetLastUsedTime h ix = (case find_entry ix h of None \<Rightarrow> 0 | Some m \<Rightarrow> GetLastUsedTime m)"

definition Insert :: "time \<Rightarrow> u64 \<Rightarrow> SimpleIndex \<Rightarrow> SimpleIndex" where
  "Insert now h ix =
     (let m = (if cache_type ix = APP_CACHE then the (EntryMetadata_of_prefetch (- 1) 0)
               else the (EntryMetadata_of_time now 0));
          (es, inserted) = InsertInEntrySet h m (entries_set ix);
          ix = ix\<lparr>entries_set := es\<rparr>;
          ix = (if \<not> initialized ix then ix\<lparr>removed_entries := removed_entries ix - {h}\<rparr> else ix)
      in if inserted then PostponeWritingToDisk ix else ix)"

definition UpdateEntryIteratorSize :: "u64 \<Rightarrow> EntryMetadata \<Rightarrow> u64 \<Rightarrow> SimpleIndex \<Rightarrow> bool \<times> SimpleIndex" where
  "UpdateEntryIteratorSize h m entry_size ix =
     (let original_size = GetEntrySize m
      in case SetEntrySize entry_size m of
           None \<Rightarrow> (False, ix)
         | Some m' \<Rightarrow>
             (original_size \<noteq> GetEntrySize m',
              set_entry h m' (ix\<lparr>cache_size := cache_size ix - original_size + GetEntrySize m'\<rparr>)))"

definition Remove :: "u64 \<Rightarrow> SimpleIndex \<Rightarrow> SimpleIndex" where
  "Remove h ix =
     (let (ix, need_write) =
            (case find_entry ix h of
               None \<Rightarrow> (ix, False)
             | Some m \<Rightarrow>
                 (let ix = snd (UpdateEntryIteratorSize h m 0 ix)
                  in (ix\<lparr>entries_set := AList.delete h (entries_set ix)\<rparr>, True)));
          ix = (if \<not> initialized ix then ix\<lparr>removed_entries := insert h (removed_entries ix)\<rparr> else ix)
      in if need_write then PostponeWritingToDisk ix else ix)"

definition Has :: "u64 \<Rightarrow> SimpleIndex \<Rightarrow> bool" where
  "Has h ix \<longleftrightarrow> \<not> initialized ix \<or> find_entry ix h \<noteq> None"

definition GetEntryInMemoryData :: "u64 \<Rightarrow> SimpleIndex \<Rightarrow> byte" where
  "GetEntryInMemoryData h ix = (case find_entry ix h of None \<Rightarrow> 0 | Some m \<Rightarrow> GetInMemoryData m)"

text \<open>\<open>None\<close> is the failing \<open>CHECK\<close> of \<open>SetInMemoryData\<close>.\<close>

definition SetEntryInMemoryData :: "u64 \<Rightarrow> byte \<Rightarrow> SimpleIndex \<Rightarrow> SimpleIndex option" where
  "SetEntryInMemoryData h value ix =
     (case find_entry ix h of
        None \<Rightarrow> Some ix
      | Some m \<Rightarrow> map_option (\<lambda>m'. set_entry h m' ix) (SetInMemoryData value m))"

definition UseIfExists :: "time \<Rightarrow> u64 \<Rightarrow> SimpleIndex \<Rightarrow> bool \<times> SimpleIndex" where
  "UseIfExists now h ix =
     (case find_entry ix h of
        None \<Rightarrow> (\<not> initialized ix, ix)
      | Some m \<Rightarrow>
          if cache_type ix = APP_CACHE then (True, ix)
          else (True, PostponeWritingToDisk (set_entry h (SetLastUsedTime now m) ix)))"

definition IndexGetTrailerPrefetchSize :: "u64 \<Rightarrow> SimpleIndex \<Rightarrow> int" where
  "IndexGetTrailerPrefetchSize h ix =
     (case find_entry ix h of None \<Rightarrow> - 1 | Some m \<Rightarrow> sint (GetTrailerPrefetchSize m))"

definition IndexSetTrailerPrefetchSize :: "u64 \<Rightarrow> int \<Rightarrow> SimpleIndex \<Rightarrow> SimpleIndex" where
  "IndexSetTrailerPrefetchSize h sz ix =
     (case find_entry ix h of
        None \<Rightarrow> ix
      | Some m \<Rightarrow>
          (let m' = SetTrailerPrefetchSize (word_of_int sz) m; ix = set_entry h m' ix
           in if GetTrailerPrefetchSize m \<noteq> GetTrailerPrefetchSize m' then PostponeWritingToDisk ix
              else ix))"

definition UpdateEntrySize :: "time \<Rightarrow> u64 \<Rightarrow> u64 \<Rightarrow> SimpleIndex \<Rightarrow> bool \<times> SimpleIndex" where
  "UpdateEntrySize now h entry_size ix =
     (case find_entry ix h of
        None \<Rightarrow> (False, ix)
      | Some m \<Rightarrow>
          (case UpdateEntryIteratorSize h m entry_size ix of
             (changed, ix) \<Rightarrow>
               if \<not> changed then (True, ix)
               else (True, StartEvictionIfNeeded now (PostponeWritingToDisk ix))))"

definition erase_all :: "u64 set \<Rightarrow> EntrySet \<Rightarrow> EntrySet" where
  "erase_all hs es = filter (\<lambda>(h, m). h \<notin> hs) es"

fun merge_live :: "EntrySet \<Rightarrow> EntrySet \<Rightarrow> EntrySet" where
  "merge_live [] file_entries = file_entries"
| "merge_live ((h, m) # live) file_entries = merge_live live (AList.update h m file_entries)"

definition total_size :: "EntrySet \<Rightarrow> u64" where
  "total_size es = foldl (\<lambda>sz (h, m). sz + GetEntrySize m) 0 es"

definition MergeInitializingSet :: "SimpleIndexLoadResult \<Rightarrow> SimpleIndex \<Rightarrow> SimpleIndex" where
  "MergeInitializingSet load_result ix =
     (let index_file_entries = erase_all (removed_entries ix) (lr_entries load_result);
          index_file_entries = merge_live (entries_set ix) index_file_entries;
          merged_cache_size = total_size index_file_entries;
          ix = ix\<lparr>removed_entries := {}, entries_set := index_file_entries,
                  cache_size := merged_cache_size, initialized := True,
                  init_method := lr_init_method load_result\<rparr>;
          ix = (if flush_required load_result then WriteToDisk INDEX_WRITE_REASON_STARTUP_MERGE ix
                else ix)
      in emit (map (\<lambda>cb. PostTask cb net_OK) (to_run_when_initialized ix))
           (ix\<lparr>to_run_when_initialized := []\<rparr>))"

datatype ApplicationState =
  APPLICATION_STATE_HAS_RUNNING_ACTIVITIES | APPLICATION_STATE_HAS_STOPPED_ACTIVITIES
| APPLICATION_STATE_OTHER

definition OnApplicationStateChange :: "ApplicationState \<Rightarrow> SimpleIndex \<Rightarrow> SimpleIndex" where
  "OnApplicationStateChange state ix =
     (if state = APPLICATION_STATE_HAS_RUNNING_ACTIVITIES then ix\<lparr>app_on_background := False\<rparr>
      else if state = APPLICATION_STATE_HAS_STOPPED_ACTIVITIES
      then WriteToDisk INDEX_WRITE_REASON_ANDROID_STOPPED (ix\<lparr>app_on_background := True\<rparr>)
      else ix)"

end
