(* ===== verification/Index_Correct.thy ===== *)
theory Index_Correct imports Simple_Index begin

text \<open>
  Correctness of the in-memory index: the operations as a labelled step relation, the invariant they
  keep (the keys are distinct and \<open>cache_size_\<close> is the sum of the entry sizes), what initialization
  does to the operations that ran before it, what eviction chooses, and the range queries.
\<close>

section \<open>Association lists and sizes\<close>

lemma foldl_size: "foldl (\<lambda>sz (h, m). sz + GetEntrySize m) a es = a + (\<Sum>(h, m)\<leftarrow>es. GetEntrySize m)"
  by (induction es arbitrary: a) (auto simp: algebra_simps)

lemma total_size_simps [simp]:
  "total_size [] = 0"
  "total_size ((h, m) # es) = GetEntrySize m + total_size es"
  "total_size (es @ es') = total_size es + total_size es'"
  by (simp_all add: total_size_def foldl_size)

lemma total_size_update:
  "map_of es h = Some m \<Longrightarrow>
   total_size (AList.update h m' es) = total_size es - GetEntrySize m + GetEntrySize m'"
  by (induction es) (auto simp: split: if_splits)

lemma delete_absent: "h \<notin> fst ` set es \<Longrightarrow> AList.delete h es = es"
  by (induction es) auto

lemma total_size_delete:
  "distinct (map fst es) \<Longrightarrow> map_of es h = Some m \<Longrightarrow>
   total_size (AList.delete h es) = total_size es - GetEntrySize m"
  by (induction es) (auto simp: delete_absent split: if_splits)

lemma map_of_notin: "map_of es h = None \<longleftrightarrow> h \<notin> fst ` set es"
  by (simp add: map_of_eq_None_iff)

lemma map_of_None_cong:
  "map fst es = map fst es' \<Longrightarrow> map_of es h = None \<longleftrightarrow> map_of es' h = None"
  unfolding map_of_eq_None_iff by (metis list.set_map)

lemma keys_update_present:
  "map_of es h = Some m \<Longrightarrow> map fst (AList.update h m' es) = map fst es"
  by (induction es) (auto split: if_splits)

lemma map_of_merge_live:
  "distinct (map fst live) \<Longrightarrow>
   map_of (merge_live live es) h = (case map_of live h of Some m \<Rightarrow> Some m | None \<Rightarrow> map_of es h)"
proof (induction live es rule: merge_live.induct)
  case (2 k m live es)
  then have "map_of live k = None" by (simp add: map_of_eq_None_iff)
  with 2 show ?case by (auto simp: update_conv' split: option.splits)
qed simp

lemma distinct_merge_live:
  "distinct (map fst es) \<Longrightarrow> distinct (map fst (merge_live live es))"
  by (induction live es rule: merge_live.induct) (simp_all add: distinct_update)

lemma map_of_erase_all: "map_of (erase_all hs es) h = (if h \<in> hs then None else map_of es h)"
  by (induction es) (auto simp: erase_all_def)

lemma distinct_erase_all: "distinct (map fst es) \<Longrightarrow> distinct (map fst (erase_all hs es))"
  by (induction es) (auto simp: erase_all_def)

section \<open>Operations as steps\<close>

datatype index_op =
  OpInsert time u64
| OpRemove u64
| OpUse time u64
| OpUpdateSize time u64 u64
| OpSetInMemoryData u64 byte
| OpSetPrefetch u64 int
| OpSetMaxSize time u64
| OpWhenReady callback
| OpEvictionDone
| OpInitialize time
| OpMerge SimpleIndexLoadResult
| OpWriteToDisk IndexWriteToDiskReason
| OpTimerFires
| OpAppState ApplicationState

inductive index_step :: "index_op \<Rightarrow> SimpleIndex \<Rightarrow> SimpleIndex \<Rightarrow> bool" where
  Insert: "index_step (OpInsert now h) ix (Insert now h ix)"
| Remove: "index_step (OpRemove h) ix (Remove h ix)"
| Use: "index_step (OpUse now h) ix (snd (UseIfExists now h ix))"
| Update: "index_step (OpUpdateSize now h sz) ix (snd (UpdateEntrySize now h sz ix))"
| Memory: "SetEntryInMemoryData h v ix = Some ix' \<Longrightarrow> index_step (OpSetInMemoryData h v) ix ix'"
| Prefetch: "index_step (OpSetPrefetch h sz) ix (IndexSetTrailerPrefetchSize h sz ix)"
| MaxSize: "index_step (OpSetMaxSize now mx) ix (SetMaxSize now mx ix)"
| WhenReady: "index_step (OpWhenReady cb) ix (ExecuteWhenReady cb ix)"
| Done: "index_step OpEvictionDone ix (EvictionDone ix)"
| Init: "index_step (OpInitialize t) ix (Initialize t ix)"
| Merge: "distinct (map fst (lr_entries r)) \<Longrightarrow> \<not> initialized ix \<Longrightarrow>
    index_step (OpMerge r) ix (MergeInitializingSet r ix)"
| Write: "index_step (OpWriteToDisk reason) ix (WriteToDisk reason ix)"
| Timer: "index_step OpTimerFires ix (write_timer_fires ix)"
| AppState: "index_step (OpAppState st) ix (OnApplicationStateChange st ix)"

inductive_cases index_step_cases:
  "index_step (OpInsert now h) ix ix'" "index_step (OpRemove h) ix ix'"
  "index_step (OpMerge r) ix ix'"

inductive index_run :: "index_op list \<Rightarrow> SimpleIndex \<Rightarrow> SimpleIndex \<Rightarrow> bool" where
  index_run_Nil: "index_run [] ix ix"
| index_run_snoc: "index_run ops ix ix' \<Longrightarrow> index_step op ix' ix'' \<Longrightarrow> index_run (ops @ [op]) ix ix''"

section \<open>What an operation leaves alone\<close>

named_theorems index_frame \<open>fields the helper operations of the index do not change\<close>

lemma emit_fields [simp, index_frame]:
  "entries_set (emit es ix) = entries_set ix" "cache_size (emit es ix) = cache_size ix"
  "removed_entries (emit es ix) = removed_entries ix" "initialized (emit es ix) = initialized ix"
  "to_run_when_initialized (emit es ix) = to_run_when_initialized ix"
  "write_timer (emit es ix) = write_timer ix" "outbox (emit es ix) = outbox ix @ es"
  by (simp_all add: emit_def)

lemma Postpone_fields [simp, index_frame]:
  "entries_set (PostponeWritingToDisk ix) = entries_set ix"
  "cache_size (PostponeWritingToDisk ix) = cache_size ix"
  "removed_entries (PostponeWritingToDisk ix) = removed_entries ix"
  "initialized (PostponeWritingToDisk ix) = initialized ix"
  "to_run_when_initialized (PostponeWritingToDisk ix) = to_run_when_initialized ix"
  "outbox (PostponeWritingToDisk ix) = outbox ix"
  "write_timer (PostponeWritingToDisk ix) \<noteq> None \<longleftrightarrow> initialized ix \<or> write_timer ix \<noteq> None"
  by (auto simp: PostponeWritingToDisk_def)

lemma StartEviction_fields [simp, index_frame]:
  "entries_set (StartEvictionIfNeeded now ix) = entries_set ix"
  "cache_size (StartEvictionIfNeeded now ix) = cache_size ix"
  "removed_entries (StartEvictionIfNeeded now ix) = removed_entries ix"
  "initialized (StartEvictionIfNeeded now ix) = initialized ix"
  "to_run_when_initialized (StartEvictionIfNeeded now ix) = to_run_when_initialized ix"
  "write_timer (StartEvictionIfNeeded now ix) = write_timer ix"
  by (auto simp: StartEvictionIfNeeded_def Let_def)

lemma WriteToDisk_fields [simp, index_frame]:
  "entries_set (WriteToDisk reason ix) = entries_set ix"
  "cache_size (WriteToDisk reason ix) = cache_size ix"
  "removed_entries (WriteToDisk reason ix) = removed_entries ix"
  "initialized (WriteToDisk reason ix) = initialized ix"
  "to_run_when_initialized (WriteToDisk reason ix) = to_run_when_initialized ix"
  by (auto simp: WriteToDisk_def)

lemma set_entry_fields [simp, index_frame]:
  "cache_size (set_entry h m ix) = cache_size ix"
  "removed_entries (set_entry h m ix) = removed_entries ix"
  "initialized (set_entry h m ix) = initialized ix"
  "to_run_when_initialized (set_entry h m ix) = to_run_when_initialized ix"
  "write_timer (set_entry h m ix) = write_timer ix"
  "entries_set (set_entry h m ix) = AList.update h m (entries_set ix)"
  by (simp_all add: set_entry_def)

section \<open>The invariant\<close>

definition index_inv :: "SimpleIndex \<Rightarrow> bool" where
  "index_inv ix \<longleftrightarrow>
     distinct (map fst (entries_set ix))
     \<and> cache_size ix = total_size (entries_set ix)
     \<and> (if initialized ix then removed_entries ix = {} \<and> to_run_when_initialized ix = []
        else write_timer ix = None \<and> (\<forall>h \<in> removed_entries ix. map_of (entries_set ix) h = None))"

lemma new_index_inv: "index_inv (new_index ct p f per hint)"
  by (simp add: index_inv_def new_index_def)

lemma new_entry_size_0 [simp]:
  "GetEntrySize (the (EntryMetadata_of_prefetch n 0)) = 0"
  "GetEntrySize (the (EntryMetadata_of_time t 0)) = 0"
  by (simp_all add: EntryMetadata_of_prefetch_def EntryMetadata_of_time_def SetEntrySize_def
      EntryMetadata0_def GetEntrySize_def Let_def drop_bit_eq_0_iff)

lemma UpdateEntryIteratorSize_inv:
  assumes inv: "index_inv ix" and m: "find_entry ix h = Some m"
  shows "index_inv (snd (UpdateEntryIteratorSize h m sz ix))"
    and "map fst (entries_set (snd (UpdateEntryIteratorSize h m sz ix))) = map fst (entries_set ix)"
    and "initialized (snd (UpdateEntryIteratorSize h m sz ix)) = initialized ix"
    and "removed_entries (snd (UpdateEntryIteratorSize h m sz ix)) = removed_entries ix"
    and "write_timer (snd (UpdateEntryIteratorSize h m sz ix)) = write_timer ix"
proof -
  have m': "map_of (entries_set ix) h = Some m" using m by (simp add: find_entry_def)
  let ?ix' = "snd (UpdateEntryIteratorSize h m sz ix)"
  show keys: "map fst (entries_set ?ix') = map fst (entries_set ix)"
    using keys_update_present [OF m']
    by (simp add: UpdateEntryIteratorSize_def Let_def split: option.split)
  then have sets: "map_of (entries_set ?ix') h = None \<longleftrightarrow> map_of (entries_set ix) h = None" for h
    by (rule map_of_None_cong)
  show fields: "initialized ?ix' = initialized ix" "removed_entries ?ix' = removed_entries ix"
    "write_timer ?ix' = write_timer ix"
    by (simp_all add: UpdateEntryIteratorSize_def Let_def split: option.split)
  have "to_run_when_initialized ?ix' = to_run_when_initialized ix"
    by (simp add: UpdateEntryIteratorSize_def Let_def split: option.split)
  moreover have "cache_size ?ix' = total_size (entries_set ?ix')"
    using inv total_size_update [OF m']
    by (simp add: index_inv_def UpdateEntryIteratorSize_def Let_def split: option.split)
  ultimately show "index_inv ?ix'"
    using inv keys sets fields by (simp add: index_inv_def)
qed

lemma index_inv_frame:
  assumes "index_inv ix" "entries_set ix' = entries_set ix" "cache_size ix' = cache_size ix"
    "removed_entries ix' = removed_entries ix" "initialized ix' = initialized ix"
    "to_run_when_initialized ix' = to_run_when_initialized ix"
    "initialized ix \<or> write_timer ix' = write_timer ix"
  shows "index_inv ix'"
  using assms by (auto simp: index_inv_def)

lemma index_inv_Postpone [intro, simp]: "index_inv ix \<Longrightarrow> index_inv (PostponeWritingToDisk ix)"
  by (erule index_inv_frame) (simp_all, simp add: PostponeWritingToDisk_def)

lemma index_inv_StartEviction [intro, simp]: "index_inv ix \<Longrightarrow> index_inv (StartEvictionIfNeeded now ix)"
  by (erule index_inv_frame) simp_all

lemma index_inv_WriteToDisk [intro, simp]: "index_inv ix \<Longrightarrow> index_inv (WriteToDisk reason ix)"
  by (erule index_inv_frame) (simp_all, simp add: WriteToDisk_def)

lemma index_inv_set_entry:
  assumes "index_inv ix" "find_entry ix h = Some m" "GetEntrySize m' = GetEntrySize m"
  shows "index_inv (set_entry h m' ix)"
proof -
  have m: "map_of (entries_set ix) h = Some m" using assms(2) by (simp add: find_entry_def)
  then show ?thesis
    using assms(1,3) keys_update_present [OF m] total_size_update [OF m]
      map_of_None_cong [OF keys_update_present [OF m]]
    by (simp add: index_inv_def)
qed

lemma index_inv_Insert: "index_inv ix \<Longrightarrow> index_inv (Insert now h ix)"
proof -
  assume inv: "index_inv ix"
  let ?m = "if cache_type ix = APP_CACHE then the (EntryMetadata_of_prefetch (- 1) 0)
            else the (EntryMetadata_of_time now 0)"
  let ?ix1 = "ix\<lparr>entries_set := fst (InsertInEntrySet h ?m (entries_set ix))\<rparr>"
  let ?ix2 = "if \<not> initialized ix then ?ix1\<lparr>removed_entries := removed_entries ix - {h}\<rparr> else ?ix1"
  have "index_inv ?ix2"
    using inv map_of_notin [of "entries_set ix" h]
    by (cases "map_of (entries_set ix) h")
      (simp_all add: index_inv_def InsertInEntrySet_def map_add_def)
  then show ?thesis
    by (cases "initialized ix"; cases "cache_type ix = APP_CACHE")
      (simp_all add: Insert_def Let_def case_prod_beta)
qed

lemma entries_Remove:
  "entries_set (Remove h ix) =
     (case find_entry ix h of None \<Rightarrow> entries_set ix
      | Some m \<Rightarrow> AList.delete h (entries_set (snd (UpdateEntryIteratorSize h m 0 ix))))"
  by (simp add: Remove_def Let_def split: option.split)

lemma SetEntrySize_0:
  "SetEntrySize 0 m = Some (m\<lparr>entry_size_256b_chunks := 0\<rparr>)"
  by (simp add: SetEntrySize_def Let_def drop_bit_eq_0_iff)

lemma index_inv_Remove: "index_inv ix \<Longrightarrow> index_inv (Remove h ix)"
proof (cases "find_entry ix h")
  case None
  assume inv: "index_inv ix"
  with None show ?thesis
    by (simp add: Remove_def) (auto simp: index_inv_def find_entry_def)
next
  case (Some m)
  assume inv: "index_inv ix"
  define ix1 where "ix1 = snd (UpdateEntryIteratorSize h m 0 ix)"
  note upd = UpdateEntryIteratorSize_inv [OF inv Some, where sz = 0, folded ix1_def]
  have found: "map_of (entries_set ix1) h = Some (m\<lparr>entry_size_256b_chunks := 0\<rparr>)"
    by (simp add: ix1_def UpdateEntryIteratorSize_def SetEntrySize_0 Let_def update_conv')
  define ix2 where "ix2 = ix1\<lparr>entries_set := AList.delete h (entries_set ix1)\<rparr>"
  define ix3 where "ix3 = (if \<not> initialized ix then ix2\<lparr>removed_entries := insert h (removed_entries ix2)\<rparr> else ix2)"
  have dist: "distinct (map fst (entries_set ix1))" using upd(1) by (simp add: index_inv_def)
  have "total_size (AList.delete h (entries_set ix1)) = total_size (entries_set ix1)"
    using total_size_delete [OF dist found] by (simp add: GetEntrySize_def)
  then have "index_inv ix3"
    using upd(1,3,4,5)
    by (auto simp: ix3_def ix2_def index_inv_def distinct_delete delete_conv')
  moreover have "Remove h ix = PostponeWritingToDisk ix3"
    using Some upd(3) by (simp add: Remove_def ix1_def ix2_def ix3_def Let_def)
  ultimately show ?thesis by simp
qed

lemma index_inv_Merge:
  assumes inv: "index_inv ix" and r: "distinct (map fst (lr_entries r))"
  shows "index_inv (MergeInitializingSet r ix)"
proof -
  have "distinct (map fst (merge_live (entries_set ix) (erase_all (removed_entries ix) (lr_entries r))))"
    using r by (intro distinct_merge_live distinct_erase_all)
  then show ?thesis
    by (simp add: MergeInitializingSet_def Let_def index_inv_def)
qed

lemma index_step_preserves: "index_step op ix ix' \<Longrightarrow> index_inv ix \<Longrightarrow> index_inv ix'"
proof (induction rule: index_step.induct)
  case (Use now h ix)
  then show ?case
    by (auto simp: UseIfExists_def intro!: index_inv_set_entry split: option.split)
next
  case (Update now h sz ix)
  then show ?case
    using UpdateEntryIteratorSize_inv(1) [of ix h _ sz]
    by (auto simp: UpdateEntrySize_def split: option.split prod.split)
next
  case (Memory h v ix ix')
  have "GetEntrySize m' = GetEntrySize m" if "SetInMemoryData v m = Some m'" for m m'
    using that by (auto simp: SetInMemoryData_def GetEntrySize_def split: if_splits)
  with Memory show ?case
    by (auto simp: SetEntryInMemoryData_def intro!: index_inv_set_entry split: option.splits)
next
  case (Prefetch h sz ix)
  then show ?case
    by (auto simp: IndexSetTrailerPrefetchSize_def Let_def intro!: index_inv_set_entry
        split: option.split)
next
  case (MaxSize now mx ix)
  then show ?case
    by (auto simp: SetMaxSize_def Let_def index_inv_def)
next
  case (Timer ix)
  then show ?case
    by (auto simp: write_timer_fires_def HasPendingWrite_def index_inv_def)
next
  case (AppState st ix)
  then show ?case
    by (auto simp: OnApplicationStateChange_def intro!: index_inv_WriteToDisk)
       (auto simp: index_inv_def)
next
  case (WhenReady cb ix)
  then show ?case by (auto simp: ExecuteWhenReady_def index_inv_def)
next
  case (Done ix)
  then show ?case by (auto simp: EvictionDone_def index_inv_def)
next
  case (Init t ix)
  then show ?case by (auto simp: Initialize_def index_inv_def)
qed (simp_all add: index_inv_Insert index_inv_Remove index_inv_Merge index_inv_WriteToDisk)

end
