(* ===== verification/Index_History.thy ===== *)
theory Index_History imports Index_Correct begin

text \<open>
  The index between its construction and the end of its initialization: every insertion and removal
  that ran before the index file was loaded decides about its entry, and the file decides about all
  the others. Then the range queries and the pending write.
\<close>

section \<open>Membership after one operation\<close>

lemma find_entry_Insert:
  "find_entry (Insert now h ix) k = None \<longleftrightarrow> k \<noteq> h \<and> find_entry ix k = None"
  by (auto simp: Insert_def find_entry_def InsertInEntrySet_def Let_def map_add_def split: option.splits if_splits)

lemma find_entry_Insert_other:
  "k \<noteq> h \<or> find_entry ix h \<noteq> None \<Longrightarrow> find_entry (Insert now h ix) k = find_entry ix k"
  by (auto simp: Insert_def find_entry_def InsertInEntrySet_def Let_def map_add_def split: option.splits if_splits)

lemma find_entry_Insert_same: "\<exists>m. find_entry (Insert now h ix) h = Some m"
  using find_entry_Insert [of now h ix h] by auto

lemma removed_Insert:
  "removed_entries (Insert now h ix) =
     (if initialized ix then removed_entries ix else removed_entries ix - {h})"
  by (simp add: Insert_def Let_def split: prod.split)

lemma initialized_Insert [simp]: "initialized (Insert now h ix) = initialized ix"
  by (simp add: Insert_def Let_def split: prod.split)

lemma delete_update [simp]: "AList.delete h (AList.update h m es) = AList.delete h es"
  by (induction es) auto

lemma entries_Remove_eq: "entries_set (Remove h ix) = AList.delete h (entries_set ix)"
proof (cases "find_entry ix h")
  case None
  then have "h \<notin> fst ` set (entries_set ix)"
    by (simp add: find_entry_def map_of_eq_None_iff)
  with None show ?thesis by (simp add: entries_Remove delete_absent)
next
  case (Some m)
  then show ?thesis
    by (simp add: entries_Remove UpdateEntryIteratorSize_def SetEntrySize_0 Let_def)
qed

lemma find_entry_Remove: "find_entry (Remove h ix) k = (if k = h then None else find_entry ix k)"
  by (simp add: find_entry_def entries_Remove_eq delete_conv')

lemma Update_0_fields:
  "removed_entries (snd (UpdateEntryIteratorSize h m sz ix)) = removed_entries ix"
  "initialized (snd (UpdateEntryIteratorSize h m sz ix)) = initialized ix"
  by (simp_all add: UpdateEntryIteratorSize_def Let_def split: option.split)

lemma removed_Remove:
  "removed_entries (Remove h ix) =
     (if initialized ix then removed_entries ix else insert h (removed_entries ix))"
  by (simp add: Remove_def Let_def Update_0_fields split: option.split)

lemma initialized_Remove [simp]: "initialized (Remove h ix) = initialized ix"
  by (simp add: Remove_def Let_def Update_0_fields split: option.split)

text \<open>The other operations, the merge apart, neither add nor drop an entry.\<close>

fun membership_op :: "index_op \<Rightarrow> bool" where
  "membership_op (OpInsert now h) = True"
| "membership_op (OpRemove h) = True"
| "membership_op (OpMerge r) = True"
| "membership_op op = False"

lemma find_set_entry:
  "find_entry ix h = Some m \<Longrightarrow> find_entry (set_entry h m' ix) k = None \<longleftrightarrow> find_entry ix k = None"
  by (auto simp: find_entry_def update_conv')

lemma other_ops_frame:
  assumes "index_step op ix ix'" "\<not> membership_op op"
  shows "(find_entry ix' k = None \<longleftrightarrow> find_entry ix k = None)
    \<and> removed_entries ix' = removed_entries ix \<and> initialized ix' = initialized ix"
  using assms
proof (induction rule: index_step.induct)
  case (Use now h ix)
  then show ?case
    by (auto simp: UseIfExists_def find_entry_def update_conv' split: option.split)
next
  case (Update now h sz ix)
  then show ?case
    by (auto simp: UpdateEntrySize_def UpdateEntryIteratorSize_def find_entry_def update_conv' Let_def
        split: option.split)
next
  case (Memory h v ix ix')
  then show ?case
    by (auto simp: SetEntryInMemoryData_def find_entry_def update_conv' split: option.splits if_splits)
next
  case (Prefetch h sz ix)
  then show ?case
    by (auto simp: IndexSetTrailerPrefetchSize_def find_entry_def update_conv' Let_def
        split: option.split)
qed (auto simp: SetMaxSize_def ExecuteWhenReady_def EvictionDone_def Initialize_def find_entry_def
    write_timer_fires_def OnApplicationStateChange_def Let_def)

section \<open>What the index knows before it is initialized\<close>

text \<open>The last insertion (\<open>True\<close>) or removal (\<open>False\<close>) of an entry in a history.\<close>

fun touch :: "u64 \<Rightarrow> index_op \<Rightarrow> bool option \<Rightarrow> bool option" where
  "touch k (OpInsert now h) prev = (if h = k then Some True else prev)"
| "touch k (OpRemove h) prev = (if h = k then Some False else prev)"
| "touch k op prev = prev"

definition last_touch :: "u64 \<Rightarrow> index_op list \<Rightarrow> bool option" where
  "last_touch k ops = fold (touch k) ops None"

lemma last_touch_Nil [simp]: "last_touch k [] = None"
  by (simp add: last_touch_def)

lemma last_touch_snoc [simp]: "last_touch k (ops @ [op]) = touch k op (last_touch k ops)"
  by (simp add: last_touch_def)

lemma touch_other: "\<not> membership_op op \<Longrightarrow> touch k op prev = prev"
  by (cases op) auto

lemma initialized_Merge [simp]: "initialized (MergeInitializingSet r ix)"
  by (simp add: MergeInitializingSet_def Let_def)

lemma initialized_mono: "index_step op ix ix' \<Longrightarrow> initialized ix \<Longrightarrow> initialized ix'"
  by (cases "membership_op op")
    (auto simp: MergeInitializingSet_def Let_def dest: other_ops_frame elim: index_step.cases)

lemma index_run_inv: "index_run ops ix ix' \<Longrightarrow> index_inv ix \<Longrightarrow> index_inv ix'"
  by (induction rule: index_run.induct) (auto intro: index_step_preserves)

lemma uninitialized_history:
  assumes "index_run ops ix0 ix" and "\<not> initialized ix"
    and "find_entry ix0 k = None" "k \<notin> removed_entries ix0"
  shows "(find_entry ix k \<noteq> None \<longleftrightarrow> last_touch k ops = Some True)
    \<and> (k \<in> removed_entries ix \<longleftrightarrow> last_touch k ops = Some False)"
  using assms
proof (induction rule: index_run.induct)
  case (index_run_snoc ops ix0 ix' op ix'')
  then have un: "\<not> initialized ix'" using initialized_mono by blast
  note IH = index_run_snoc.IH [OF un index_run_snoc.prems(2,3)]
  show ?case
  proof (cases "membership_op op")
    case False
    then show ?thesis
      using IH other_ops_frame [OF index_run_snoc.hyps(2) False, of k] by (simp add: touch_other)
  next
    case True
    then show ?thesis
      using IH un index_run_snoc.hyps(2) index_run_snoc.prems(1)
      by (cases op)
        (auto elim!: index_step_cases simp: find_entry_Insert_other find_entry_Insert_same
          find_entry_Remove removed_Insert removed_Remove)
  qed
qed simp

lemma find_entry_Merge:
  assumes "distinct (map fst (entries_set ix))"
  shows "find_entry (MergeInitializingSet r ix) k =
    (case find_entry ix k of Some m \<Rightarrow> Some m
     | None \<Rightarrow> if k \<in> removed_entries ix then None else map_of (lr_entries r) k)"
  using assms
  by (simp add: MergeInitializingSet_def Let_def find_entry_def map_of_merge_live map_of_erase_all
      split: option.split)

text \<open>C18: once the index file is loaded, an entry inserted or removed since the index was created is
  there exactly if its last such operation was the insertion, with the metadata it has in memory;
  every other entry is as the file has it. In particular an insertion after a removal brings the entry
  back, and a removal after an insertion keeps the entry of the file out.\<close>

theorem merge_respects_history:
  assumes run: "index_run ops (new_index ct p f per hint) ix" and un: "\<not> initialized ix"
  shows "case last_touch k ops of
       Some True \<Rightarrow> (\<exists>m. find_entry ix k = Some m \<and> find_entry (MergeInitializingSet r ix) k = Some m)
     | Some False \<Rightarrow> find_entry (MergeInitializingSet r ix) k = None
     | None \<Rightarrow> find_entry (MergeInitializingSet r ix) k = map_of (lr_entries r) k"
proof -
  have "distinct (map fst (entries_set ix))"
    using index_run_inv [OF run new_index_inv] by (simp add: index_inv_def)
  moreover have "(find_entry ix k \<noteq> None \<longleftrightarrow> last_touch k ops = Some True)
      \<and> (k \<in> removed_entries ix \<longleftrightarrow> last_touch k ops = Some False)"
    by (rule uninitialized_history [OF run un]) (simp_all add: new_index_def find_entry_def)
  ultimately show ?thesis
    by (auto simp: find_entry_Merge split: option.split bool.split)
qed

theorem merge_respects_history_witness:
  "let ix = Insert (UnixEpoch + Seconds 5) 3 (Remove 3 (Remove 7 (new_index DISK_CACHE False 1 0 1)));
       r = \<lparr>did_load = True, lr_entries = [(7, EntryMetadata0), (8, EntryMetadata0)],
            index_write_reason = 0, lr_init_method = INITIALIZE_METHOD_LOADED, flush_required = False\<rparr>
   in find_entry (MergeInitializingSet r ix) 7 = None
      \<and> find_entry (MergeInitializingSet r ix) 8 = Some EntryMetadata0
      \<and> (\<exists>m. find_entry ix 3 = Some m \<and> find_entry (MergeInitializingSet r ix) 3 = Some m)"
proof -
  let ?start = "new_index DISK_CACHE False 1 0 1"
  let ?done = "Insert (UnixEpoch + Seconds 5) 3 (Remove 3 (Remove 7 ?start))"
  have "index_run ((([] @ [OpRemove 7]) @ [OpRemove 3]) @ [OpInsert (UnixEpoch + Seconds 5) 3]) ?start ?done"
    by (rule index_run_snoc [OF index_run_snoc [OF index_run_snoc [OF index_run_Nil index_step.Remove]
          index_step.Remove] index_step.Insert])
  then have run: "index_run [OpRemove 7, OpRemove 3, OpInsert (UnixEpoch + Seconds 5) 3] ?start ?done" by simp
  have un: "\<not> initialized ?done" by (simp add: new_index_def)
  show ?thesis
    using merge_respects_history [OF run un, where k = 7] merge_respects_history [OF run un, where k = 8]
      merge_respects_history [OF run un, where k = 3]
    by (simp add: last_touch_def Let_def)
qed

section \<open>Range queries\<close>

text \<open>C32: an entry that was last used at a time in the interval is listed by the query for it, though
  the index keeps whole seconds only.\<close>

theorem GetEntriesBetween_never_misses:
  assumes "find_entry ix h = Some (SetLastUsedTime t m)"
    and "UnixEpoch + Seconds 1 \<le> t" "t < UnixEpoch + Seconds (2 ^ 32)"
    and "initial_time \<le> t" "is_null end_time \<or> t < end_time"
  shows "h \<in> set (GetEntriesBetween initial_time end_time ix)"
proof -
  let ?s = "GetLastUsedTime (SetLastUsedTime t m)"
  note b = stored_time_bounds [OF assms(2,3), of m] GetLastUsedTime_range [of "SetLastUsedTime t m"]
  have "in_range initial_time end_time (SetLastUsedTime t m)"
    using assms(4,5) b
    by (auto simp: in_range_def Let_def is_null_def Seconds_def GetLowerEpsilonForTimeComparisons_def
        GetUpperEpsilonForTimeComparisons_def)
  moreover have "(h, SetLastUsedTime t m) \<in> set (entries_set ix)"
    using assms(1) by (simp add: find_entry_def map_of_SomeD)
  ultimately show ?thesis
    by (force simp: GetEntriesBetween_def)
qed

theorem GetEntriesBetween_never_misses_witness:
  "3 \<in> set (GetEntriesBetween (UnixEpoch + Seconds 5 + 7) (UnixEpoch + Seconds 5 + 9)
      (Insert (UnixEpoch + Seconds 5 + 8) 3 (new_index DISK_CACHE False 1 0 1)))"
proof (rule GetEntriesBetween_never_misses)
  show "find_entry (Insert (UnixEpoch + Seconds 5 + 8) 3 (new_index DISK_CACHE False 1 0 1)) 3
      = Some (SetLastUsedTime (UnixEpoch + Seconds 5 + 8) EntryMetadata0)"
    by (simp add: Insert_def new_index_def InsertInEntrySet_def find_entry_def Let_def
        EntryMetadata_of_time_def SetEntrySize_0)
      (simp add: EntryMetadata0_def)
qed (simp_all add: Seconds_def)

lemma in_range_all: "in_range 0 0 m"
  using GetLastUsedTime_range [of m] by (simp add: in_range_def is_null_def Let_def)

lemma GetAllHashes_entries: "GetAllHashes ix = map fst (entries_set ix)"
  by (simp add: GetAllHashes_def GetEntriesBetween_def in_range_all)

lemma GetCacheSizeBetween_eq:
  "GetCacheSizeBetween t t' ix = total_size (filter (\<lambda>(h, m). in_range t t' m) (entries_set ix))"
proof -
  have "foldl (\<lambda>sz (h, m). if in_range t t' m then sz + GetEntrySize m else sz) a es
      = a + total_size (filter (\<lambda>(h, m). in_range t t' m) es)" for a es
    by (induction es arbitrary: a) (auto simp: algebra_simps)
  then show ?thesis by (simp add: GetCacheSizeBetween_def)
qed

text \<open>C30: in every state the index can reach, whatever operations ran in whatever order, no entry is
  there twice and the cache size is the sum of the sizes of the entries; once initialized, no removal
  is remembered and no callback waits, and before that no write is pending and no removed entry is in
  the index.\<close>

theorem reachable_index_consistent:
  assumes "index_run ops (new_index ct p f per hint) ix"
  shows "distinct (map fst (entries_set ix))
    \<and> cache_size ix = (\<Sum>(h, m)\<leftarrow>entries_set ix. GetEntrySize m)
    \<and> (if initialized ix then removed_entries ix = {} \<and> to_run_when_initialized ix = []
       else \<not> HasPendingWrite ix \<and> (\<forall>h. h \<in> removed_entries ix \<longrightarrow> find_entry ix h = None))"
  using index_run_inv [OF assms new_index_inv]
  by (auto simp: index_inv_def total_size_def foldl_size HasPendingWrite_def find_entry_def)

theorem reachable_index_consistent_witness:
  "distinct (map fst (entries_set (Remove 4 (Insert 5 3 (new_index DISK_CACHE False 1 0 1)))))"
proof -
  have "index_run (([] @ [OpInsert 5 3]) @ [OpRemove 4]) (new_index DISK_CACHE False 1 0 1)
      (Remove 4 (Insert 5 3 (new_index DISK_CACHE False 1 0 1)))"
    by (rule index_run_snoc [OF index_run_snoc [OF index_run_Nil index_step.Insert] index_step.Remove])
  from reachable_index_consistent [OF this] show ?thesis by blast
qed

text \<open>In a state the index can reach, the size it reports for the whole cache is the size of the
  unrestricted range.\<close>

theorem cache_size_is_range_size:
  assumes "index_run ops (new_index ct p f per hint) ix"
  shows "GetCacheSize ix = GetCacheSizeBetween 0 0 ix"
  using index_run_inv [OF assms new_index_inv]
  by (simp add: GetCacheSizeBetween_eq GetCacheSize_def index_inv_def in_range_all)

theorem cache_size_is_range_size_witness:
  "GetCacheSize (Insert 5 3 (new_index DISK_CACHE False 1 0 1))
     = GetCacheSizeBetween 0 0 (Insert 5 3 (new_index DISK_CACHE False 1 0 1))"
proof (rule cache_size_is_range_size)
  show "index_run ([] @ [OpInsert 5 3]) (new_index DISK_CACHE False 1 0 1)
      (Insert 5 3 (new_index DISK_CACHE False 1 0 1))"
    by (rule index_run_snoc [OF index_run_Nil index_step.Insert])
qed

end
