(* ===== verification/Index_Eviction.thy ===== *)
theory Index_Eviction imports Index_History "HOL-Library.Multiset" begin

text \<open>
  What eviction chooses: the victims are a shortest prefix of the entries in the order of their
  scores whose sizes reach the amount to evict, so that removing them brings the cache to its low
  watermark and sparing any entry with a higher score is ruled out.
\<close>

section \<open>Watermarks\<close>

definition watermarks_ok :: "SimpleIndex \<Rightarrow> bool" where
  "watermarks_ok ix \<longleftrightarrow>
     high_watermark ix = max_size ix - max_size ix div 20
     \<and> low_watermark ix = max_size ix - 2 * (max_size ix div 20)"

lemma watermarks_ok_ints:
  assumes "watermarks_ok ix"
  shows "uint (low_watermark ix) = uint (max_size ix) - 2 * (uint (max_size ix) div 20)"
    and "uint (high_watermark ix) = uint (max_size ix) - uint (max_size ix) div 20"
proof -
  define x where "x = uint (max_size ix)"
  have x: "0 \<le> x" "x < 2 ^ 64" by (simp_all add: x_def)
  have d: "uint (max_size ix div 20) = x div 20"
    by (simp add: uint_div x_def)
  show "uint (high_watermark ix) = uint (max_size ix) - uint (max_size ix) div 20"
    using assms x by (simp add: watermarks_ok_def uint_word_ariths d flip: x_def)
  show "uint (low_watermark ix) = uint (max_size ix) - 2 * (uint (max_size ix) div 20)"
    using assms x by (simp add: watermarks_ok_def uint_word_ariths d mod_diff_right_eq flip: x_def)
qed

lemma watermarks_ordered:
  assumes "watermarks_ok ix"
  shows "low_watermark ix \<le> high_watermark ix" "high_watermark ix \<le> max_size ix"
  using watermarks_ok_ints [OF assms] by (simp_all add: word_le_def pos_imp_zdiv_nonneg_iff)

definition marks :: "SimpleIndex \<Rightarrow> u64 \<times> u64 \<times> u64" where
  "marks ix = (max_size ix, high_watermark ix, low_watermark ix)"

lemma marks_simps [simp]:
  "marks (emit es ix) = marks ix" "marks (PostponeWritingToDisk ix) = marks ix"
  "marks (set_entry h m ix) = marks ix" "marks (WriteToDisk r ix) = marks ix"
  "marks (StartEvictionIfNeeded now ix) = marks ix"
  "marks (ix\<lparr>entries_set := es'\<rparr>) = marks ix" "marks (ix\<lparr>removed_entries := rs\<rparr>) = marks ix"
  "marks (ix\<lparr>cache_size := c\<rparr>) = marks ix" "marks (ix\<lparr>write_timer := t\<rparr>) = marks ix"
  "marks (ix\<lparr>to_run_when_initialized := cbs\<rparr>) = marks ix"
  "marks (ix\<lparr>initialized := b\<rparr>) = marks ix" "marks (ix\<lparr>init_method := im\<rparr>) = marks ix"
  "marks (ix\<lparr>app_on_background := b\<rparr>) = marks ix" "marks (ix\<lparr>eviction_in_progress := b\<rparr>) = marks ix"
  by (simp_all add: marks_def emit_def PostponeWritingToDisk_def set_entry_def WriteToDisk_def
      StartEvictionIfNeeded_def Let_def)

lemma watermarks_ok_marks: "marks ix' = marks ix \<Longrightarrow> watermarks_ok ix \<Longrightarrow> watermarks_ok ix'"
  by (simp add: watermarks_ok_def marks_def)

lemma marks_Update [simp]: "marks (snd (UpdateEntryIteratorSize h m sz ix)) = marks ix"
  by (simp add: UpdateEntryIteratorSize_def Let_def split: option.split)

lemma marks_step:
  "index_step op ix ix' \<Longrightarrow> (\<forall>now mx. op \<noteq> OpSetMaxSize now mx) \<Longrightarrow> marks ix' = marks ix"
proof (induction rule: index_step.induct)
  case (Update now h sz ix)
  then show ?case
    by (simp add: UpdateEntrySize_def case_prod_beta split: option.split)
qed (auto simp: Insert_def Remove_def UseIfExists_def SetEntryInMemoryData_def Let_def
    IndexSetTrailerPrefetchSize_def ExecuteWhenReady_def EvictionDone_def Initialize_def
    MergeInitializingSet_def write_timer_fires_def OnApplicationStateChange_def
    split: option.splits prod.splits)

lemma watermarks_ok_step: "index_step op ix ix' \<Longrightarrow> watermarks_ok ix \<Longrightarrow> watermarks_ok ix'"
proof (cases "\<exists>now mx. op = OpSetMaxSize now mx")
  case True
  assume "index_step op ix ix'"
  with True obtain now mx where "ix' = SetMaxSize now mx ix" by (auto elim: index_step.cases)
  moreover have "watermarks_ok (ix\<lparr>max_size := mx, high_watermark := mx - mx div kEvictionMarginDivisor,
      low_watermark := mx - 2 * (mx div kEvictionMarginDivisor)\<rparr>)"
    by (simp add: watermarks_ok_def kEvictionMarginDivisor_def)
  ultimately show ?thesis
    by (auto simp: SetMaxSize_def Let_def intro: watermarks_ok_marks [rotated])
qed (blast intro: watermarks_ok_marks marks_step)

section \<open>The prefix that is evicted\<close>

definition sizes :: "EntrySet \<Rightarrow> int" where
  "sizes es = (\<Sum>(h, m)\<leftarrow>es. uint (GetEntrySize m))"

lemma sizes_simps [simp]:
  "sizes [] = 0" "sizes ((h, m) # es) = uint (GetEntrySize m) + sizes es"
  "sizes (es @ es') = sizes es + sizes es'"
  by (simp_all add: sizes_def)

lemma sizes_nonneg [simp]: "0 \<le> sizes es"
  by (induction es) auto

lemma uint_total_size: "sizes es < 2 ^ 64 \<Longrightarrow> uint (total_size es) = sizes es"
proof (induction es)
  case (Cons e es)
  obtain h m where e: "e = (h, m)" by (cases e)
  have sum: "uint (GetEntrySize m) + sizes es < 2 ^ 64" using Cons.prems by (simp add: e)
  then have "sizes es < 2 ^ 64" using uint_ge_0 [of "GetEntrySize m"] by linarith
  then have "uint (GetEntrySize m + total_size es) = uint (GetEntrySize m) + sizes es"
    using Cons.IH sum by (subst uint_add_no_overflow) simp_all
  then show ?case by (simp add: e)
qed simp

lemma select_victims_prefix:
  assumes "uint s + sizes es < 2 ^ 64"
  shows "\<exists>k \<le> length es. select_victims a s es = map fst (take k es)
    \<and> (k < length es \<longrightarrow> uint a \<le> uint s + sizes (take k es))
    \<and> (\<forall>j < k. uint s + sizes (take j es) < uint a)"
  using assms
proof (induction a s es rule: select_victims.induct)
  case (2 a s h m es)
  show ?case
  proof (cases "a \<le> s")
    case True
    then show ?thesis by (intro exI [of _ 0]) (simp add: word_le_def)
  next
    case False
    have nonneg: "0 \<le> sizes es" by simp
    have s': "uint (s + GetEntrySize m) = uint s + uint (GetEntrySize m)"
      using "2.prems" nonneg by (intro uint_add_no_overflow) (simp only: sizes_simps)
    then have "uint (s + GetEntrySize m) + sizes es < 2 ^ 64" using "2.prems" by simp
    from "2.IH" [OF False this] obtain k where k: "k \<le> length es"
      "select_victims a (s + GetEntrySize m) es = map fst (take k es)"
      "k < length es \<longrightarrow> uint a \<le> uint s + uint (GetEntrySize m) + sizes (take k es)"
      "\<forall>j < k. uint s + uint (GetEntrySize m) + sizes (take j es) < uint a"
      by (auto simp: s')
    have "uint s + sizes (take j ((h, m) # es)) < uint a" if "j < Suc k" for j
      using that k(4) False by (cases j) (simp_all add: word_less_def not_le ac_simps)
    with k False show ?thesis by (intro exI [of _ "Suc k"]) (simp add: ac_simps)
  qed
qed simp

lemma mset_entries_by_score: "mset (entries_by_score ix now) = mset (entries_set ix)"
  by (simp add: entries_by_score_def flip: mset_map)
    (simp add: multiset.map_comp comp_def case_prod_beta)

text \<open>Removing entries one by one is dropping their keys.\<close>

lemma entries_fold_Remove:
  "entries_set (fold Remove hs ix) = filter (\<lambda>(h, m). h \<notin> set hs) (entries_set ix)"
proof (induction hs arbitrary: ix)
  case (Cons h hs)
  show ?case
    by (auto simp: Cons entries_Remove_eq AList.delete_eq filter_filter intro!: filter_cong)
qed (simp add: case_prod_beta)

lemma index_inv_fold_Remove: "index_inv ix \<Longrightarrow> index_inv (fold Remove hs ix)"
  by (induction hs arbitrary: ix) (simp_all add: index_inv_Remove)

lemma marks_fold_Remove [simp]: "marks (fold Remove hs ix) = marks ix"
proof (induction hs arbitrary: ix)
  case (Cons h hs)
  have "marks (Remove h ix) = marks ix" by (rule marks_step [OF index_step.Remove]) simp
  with Cons show ?case by simp
qed simp

lemma sizes_sum_mset: "sizes es = (\<Sum>(h, m)\<in>#mset es. uint (GetEntrySize m))"
  by (induction es) auto

lemma sizes_mset: "mset es = mset es' \<Longrightarrow> sizes es = sizes es'"
  by (simp add: sizes_sum_mset)

lemma drop_prefix_keys:
  assumes "distinct (map fst es)"
  shows "filter (\<lambda>(h, m). h \<notin> set (map fst (take k es))) es = drop k es"
proof -
  have d: "distinct (map fst (take k es) @ map fst (drop k es))"
    using assms by (metis append_take_drop_id map_append)
  have "filter (\<lambda>(h, m). h \<notin> set (map fst (take k es))) (take k es) = []"
    by (auto simp: filter_empty_conv image_iff)
  moreover have "filter (\<lambda>(h, m). h \<notin> set (map fst (take k es))) (drop k es) = drop k es"
    using d by (auto simp: filter_id_conv) (metis disjoint_iff fst_conv image_eqI)
  ultimately show ?thesis
    by (metis append_Nil append_take_drop_id filter_append)
qed

text \<open>The size of the cache without a prefix of the entries in score order.\<close>

lemma cache_size_without_prefix:
  assumes inv: "index_inv ix" and small: "sizes (entries_set ix) < 2 ^ 64"
  shows "uint (cache_size (fold Remove (map fst (take k (entries_by_score ix now))) ix))
    = uint (cache_size ix) - sizes (take k (entries_by_score ix now))"
proof -
  let ?es = "entries_by_score ix now"
  let ?hs = "map fst (take k ?es)"
  have mset: "mset ?es = mset (entries_set ix)" by (rule mset_entries_by_score)
  have dist: "distinct (map fst ?es)"
    using inv mset_eq_imp_distinct_iff [of "map fst ?es" "map fst (entries_set ix)"] mset
    by (simp add: index_inv_def)
  have "mset (filter (\<lambda>(h, m). h \<notin> set ?hs) (entries_set ix)) = mset (drop k ?es)"
    unfolding mset_filter mset [symmetric] unfolding mset_filter [symmetric]
    by (simp only: drop_prefix_keys [OF dist])
  then have "sizes (filter (\<lambda>(h, m). h \<notin> set ?hs) (entries_set ix)) = sizes (drop k ?es)"
    by (rule sizes_mset)
  then have rest: "sizes (entries_set (fold Remove ?hs ix)) = sizes (drop k ?es)"
    by (simp only: entries_fold_Remove)
  have all: "sizes (entries_set ix) = sizes (take k ?es) + sizes (drop k ?es)"
    using sizes_mset [OF mset] sizes_simps(3) [of "take k ?es" "drop k ?es"] by simp
  have "sizes (drop k ?es) < 2 ^ 64"
    using all small sizes_nonneg [of "take k ?es"] by linarith
  then have "uint (total_size (entries_set (fold Remove ?hs ix))) = sizes (drop k ?es)"
    using rest uint_total_size by simp
  then show ?thesis
    using index_inv_fold_Remove [OF inv, of ?hs] inv all uint_total_size [OF small]
    by (simp add: index_inv_def)
qed

section \<open>Eviction\<close>

text \<open>Subtracting from the greatest number reverses the order.\<close>

lemma complement_le: "- 1 - x \<le> - 1 - y \<longleftrightarrow> y \<le> (x :: u64)"
proof -
  have "uint (- 1 - z :: u64) = 2 ^ 64 - 1 - uint z" for z :: u64
  proof -
    have m1: "uint (- 1 :: u64) = 2 ^ 64 - 1" by (simp add: unsigned_minus_1_eq_mask mask_eq_exp_minus_1)
    moreover have "uint z \<le> uint (- 1 :: u64)" using uint_u64_lt [of z] by (simp add: m1 del: uint_u64_lt)
    ultimately show ?thesis by (simp add: uint_sub_if_size)
  qed
  then show ?thesis by (simp add: word_le_def)
qed

lemma StartEviction_emits:
  assumes "\<not> eviction_in_progress ix" "high_watermark ix < cache_size ix"
  shows "outbox (StartEvictionIfNeeded now ix) = outbox ix @ [DoomEntriesCall
    (select_victims (cache_size ix - low_watermark ix) 0
      (entries_by_score ix (word_of_int (InSeconds (now - UnixEpoch)))))]"
  using assms by (simp add: StartEvictionIfNeeded_def Let_def)

lemma victims:
  fixes now :: u32
  assumes inv: "index_inv ix" and small: "sizes (entries_set ix) < 2 ^ 64"
    and low: "low_watermark ix \<le> cache_size ix"
  defines "hs \<equiv> select_victims (cache_size ix - low_watermark ix) 0 (entries_by_score ix now)"
  obtains k where "k \<le> length (entries_by_score ix now)"
    "hs = map fst (take k (entries_by_score ix now))"
    "uint (cache_size (fold Remove hs ix)) \<le> uint (low_watermark ix)"
    "\<And>j. j < k \<Longrightarrow> uint (low_watermark ix) < uint (cache_size (fold Remove (take j hs) ix))"
proof -
  let ?es = "entries_by_score ix now"
  have a: "uint (cache_size ix - low_watermark ix) = uint (cache_size ix) - uint (low_watermark ix)"
    using low by (simp add: uint_sub_if_size word_le_def)
  have mset: "mset ?es = mset (entries_set ix)" by (rule mset_entries_by_score)
  have "uint (0 :: u64) + sizes ?es < 2 ^ 64" using small sizes_mset [OF mset] by simp
  from select_victims_prefix [OF this, of "cache_size ix - low_watermark ix"] obtain k where k:
    "k \<le> length ?es" "hs = map fst (take k ?es)"
    "k < length ?es \<longrightarrow> uint (cache_size ix) - uint (low_watermark ix) \<le> sizes (take k ?es)"
    "\<forall>j < k. sizes (take j ?es) < uint (cache_size ix) - uint (low_watermark ix)"
    by (auto simp: a hs_def)
  have cs: "uint (cache_size ix) = sizes ?es"
    using inv uint_total_size [OF small] sizes_mset [OF mset] by (simp add: index_inv_def)
  show thesis
  proof (rule that [OF k(1,2)])
    show "uint (cache_size (fold Remove hs ix)) \<le> uint (low_watermark ix)"
      using k(1,3) cs cache_size_without_prefix [OF inv small, of k now]
      by (cases "k = length ?es") (simp_all add: k(2))
    show "uint (low_watermark ix) < uint (cache_size (fold Remove (take j hs) ix))" if "j < k" for j
      using that k(4) cache_size_without_prefix [OF inv small, of j now]
      by (auto simp add: k(2) take_map min_def)
  qed
qed

text \<open>A cache with room for 100 bytes that holds two entries, of 1024 and of 512 bytes.\<close>

definition sample_index :: SimpleIndex where
  "sample_index = (new_index DISK_CACHE False 1 0 1)\<lparr>
     entries_set := [(3, \<lparr>time_or_prefetch = 10, entry_size_256b_chunks = 4, in_memory_data = 0\<rparr>),
                     (4, \<lparr>time_or_prefetch = 20, entry_size_256b_chunks = 2, in_memory_data = 0\<rparr>)],
     cache_size := 1536, max_size := 1000, high_watermark := 950, low_watermark := 900\<rparr>"

lemma sample_index_facts:
  "index_inv sample_index" "watermarks_ok sample_index" "sizes (entries_set sample_index) < 2 ^ 64"
  "\<not> eviction_in_progress sample_index" "high_watermark sample_index < cache_size sample_index"
  by (simp_all add: sample_index_def new_index_def index_inv_def watermarks_ok_def GetEntrySize_def)

lemma evicted_hashes:
  assumes inv: "index_inv ix" and marks: "watermarks_ok ix"
    and small: "sizes (entries_set ix) < 2 ^ 64"
    and idle: "\<not> eviction_in_progress ix" and full: "high_watermark ix < cache_size ix"
  shows "\<exists>hs. outbox (StartEvictionIfNeeded now ix) = outbox ix @ [DoomEntriesCall hs]
    \<and> distinct hs \<and> set hs \<subseteq> fst ` set (entries_set ix)
    \<and> cache_size (fold Remove hs ix) \<le> low_watermark ix
    \<and> low_watermark ix < cache_size (fold Remove (butlast hs) ix)"
proof -
  let ?es = "entries_by_score ix (word_of_int (InSeconds (now - UnixEpoch)))"
  let ?hs = "select_victims (cache_size ix - low_watermark ix) 0 ?es"
  have lt: "low_watermark ix < cache_size ix"
    using watermarks_ordered(1) [OF marks] full by (rule order.strict_trans1)
  from victims [OF inv small less_imp_le [OF lt]] obtain k where k: "k \<le> length ?es"
    "?hs = map fst (take k ?es)" "uint (cache_size (fold Remove ?hs ix)) \<le> uint (low_watermark ix)"
    "\<And>j. j < k \<Longrightarrow> uint (low_watermark ix) < uint (cache_size (fold Remove (take j ?hs) ix))"
    by blast
  have "k \<noteq> 0"
  proof
    assume "k = 0"
    with k(2) have "?hs = []" by simp
    then have "uint (cache_size ix) \<le> uint (low_watermark ix)" using k(3) by (simp only: fold_simps)
    with lt show False by (simp add: word_less_def)
  qed
  moreover have "butlast ?hs = take (k - 1) ?hs" using k(1,2) by (simp add: butlast_conv_take)
  ultimately have "uint (low_watermark ix) < uint (cache_size (fold Remove (butlast ?hs) ix))"
    using k(4) [of "k - 1"] by simp
  moreover have "distinct (map fst ?es)" "set ?es = set (entries_set ix)"
    using inv mset_entries_by_score mset_eq_setD [OF mset_entries_by_score]
      mset_eq_imp_distinct_iff [of "map fst ?es" "map fst (entries_set ix)"]
    by (auto simp: index_inv_def)
  then have "distinct ?hs" "set ?hs \<subseteq> fst ` set (entries_set ix)"
    by (auto simp: k(2) take_map [symmetric] dest: in_set_takeD)
  ultimately show ?thesis
    using k(3) StartEviction_emits [OF idle full, of now]
    by (auto simp: word_le_def word_less_def)
qed

text \<open>An entry that is spared does not have a higher score than one that is doomed: the age in seconds,
  times the size where the size counts.\<close>

lemma spared_scores:
  assumes inv: "index_inv ix"
    and doomed: "h \<in> set (select_victims amount 0 (entries_by_score ix now32))"
    and spared: "h' \<notin> set (select_victims amount 0 (entries_by_score ix now32))"
    and small: "sizes (entries_set ix) < 2 ^ 64"
    and found: "find_entry ix h = Some m" "find_entry ix h' = Some m'"
  shows "sort_value ix now32 m' \<le> sort_value ix now32 m"
proof -
  let ?sc = "sort_key fst (map (\<lambda>(h, m). (- 1 - sort_value ix now32 m, (h, m))) (entries_set ix))"
  let ?es = "entries_by_score ix now32"
  have es: "?es = map snd ?sc" by (simp add: entries_by_score_def)
  have "uint (0 :: u64) + sizes ?es < 2 ^ 64"
    using small sizes_mset [OF mset_entries_by_score, of ix now32] by simp
  from select_victims_prefix [OF this, of amount] obtain k where k: "k \<le> length ?es"
    "select_victims amount 0 ?es = map fst (take k ?es)" by auto
  have dist: "distinct (map fst (entries_set ix))" using inv by (simp add: index_inv_def)
  have sc: "set ?sc = (\<lambda>(h, m). (- 1 - sort_value ix now32 m, (h, m))) ` set (entries_set ix)" by simp
  have scored: "a = - 1 - sort_value ix now32 x" if "(a, g, x) \<in> set ?sc" for a g x
    using that sc by auto
  have in_es: "(h, m) \<in> set (entries_set ix)" "(h', m') \<in> set (entries_set ix)"
    using found by (simp_all add: find_entry_def map_of_SomeD)
  from doomed k(2) obtain n where n: "(h, n) \<in> set (take k ?es)" by auto
  then have "(h, n) \<in> set (entries_set ix)"
    using mset_eq_setD [OF mset_entries_by_score, of ix now32] by (auto dest: in_set_takeD)
  then have "n = m" using in_es(1) dist by (metis map_of_is_SomeI option.inject)
  with n obtain a where a: "(a, h, m) \<in> set (take k ?sc)" by (auto simp: es take_map)
  have "a = - 1 - sort_value ix now32 m" by (rule scored [OF in_set_takeD [OF a]])
  with a have 1: "(- 1 - sort_value ix now32 m, h, m) \<in> set (take k ?sc)" by (simp only:)
  have "(h', m') \<in> set ?es"
    using in_es(2) mset_eq_setD [OF mset_entries_by_score, of ix now32] by simp
  moreover have "(h', m') \<notin> set (take k ?es)" using spared k(2) by force
  moreover have "set ?es = set (take k ?es) \<union> set (drop k ?es)"
    using set_append [of "take k ?es" "drop k ?es"] by simp
  ultimately have "(h', m') \<in> set (drop k ?es)" by blast
  then obtain a' where a': "(a', h', m') \<in> set (drop k ?sc)" by (auto simp: es drop_map)
  have "a' = - 1 - sort_value ix now32 m'" by (rule scored [OF in_set_dropD [OF a']])
  with a' have 2: "(- 1 - sort_value ix now32 m', h', m') \<in> set (drop k ?sc)" by (simp only:)
  have "sorted (map fst (take k ?sc @ drop k ?sc))" by simp
  then have "- 1 - sort_value ix now32 m \<le> - 1 - sort_value ix now32 m'"
    using 1 2 unfolding map_append sorted_append by force
  then show ?thesis
    by (simp only: complement_le)
qed

definition spares_lower_scores :: "SimpleIndex \<Rightarrow> u32 \<Rightarrow> u64 list \<Rightarrow> bool" where
  "spares_lower_scores ix now32 hs \<longleftrightarrow>
     (\<forall>h m h' m'. h \<in> set hs \<longrightarrow> find_entry ix h = Some m \<longrightarrow> h' \<notin> set hs \<longrightarrow> find_entry ix h' = Some m' \<longrightarrow>
        sort_value ix now32 m' \<le> sort_value ix now32 m)"

text \<open>C17: When the cache has outgrown its high watermark and no eviction is running, the index asks
  its delegate to doom entries of the index, each once, whose removal brings the cache to its low
  watermark or below; leaving out the last of them would not have been enough; and no entry that is
  spared has a higher score (its age in seconds, times its size where the size counts) than one that
  is doomed.\<close>

theorem eviction_reaches_low_watermark:
  assumes inv: "index_inv ix" and marks: "watermarks_ok ix"
    and small: "sizes (entries_set ix) < 2 ^ 64"
    and idle: "\<not> eviction_in_progress ix" and full: "high_watermark ix < cache_size ix"
  shows "\<exists>hs. outbox (StartEvictionIfNeeded now ix) = outbox ix @ [DoomEntriesCall hs]
    \<and> distinct hs \<and> set hs \<subseteq> fst ` set (entries_set ix)
    \<and> cache_size (fold Remove hs ix) \<le> low_watermark ix
    \<and> low_watermark ix < cache_size (fold Remove (butlast hs) ix)
    \<and> spares_lower_scores ix (word_of_int (InSeconds (now - UnixEpoch))) hs"
proof -
  let ?now = "word_of_int (InSeconds (now - UnixEpoch)) :: u32"
  obtain hs where hs: "outbox (StartEvictionIfNeeded now ix) = outbox ix @ [DoomEntriesCall hs]"
    "distinct hs" "set hs \<subseteq> fst ` set (entries_set ix)" "cache_size (fold Remove hs ix) \<le> low_watermark ix"
    "low_watermark ix < cache_size (fold Remove (butlast hs) ix)"
    using evicted_hashes [OF assms] by blast
  have "hs = select_victims (cache_size ix - low_watermark ix) 0 (entries_by_score ix ?now)"
    using hs(1) StartEviction_emits [OF idle full, of now] by simp
  then have "spares_lower_scores ix ?now hs"
    using spared_scores [OF inv _ _ small] unfolding spares_lower_scores_def by blast
  with hs show ?thesis by blast
qed

theorem eviction_reaches_low_watermark_witness:
  "\<exists>hs. outbox (StartEvictionIfNeeded 0 sample_index) = outbox sample_index @ [DoomEntriesCall hs]
    \<and> distinct hs \<and> set hs \<subseteq> fst ` set (entries_set sample_index)
    \<and> cache_size (fold Remove hs sample_index) \<le> low_watermark sample_index
    \<and> low_watermark sample_index < cache_size (fold Remove (butlast hs) sample_index)
    \<and> spares_lower_scores sample_index (word_of_int (InSeconds (0 - UnixEpoch))) hs"
  by (rule eviction_reaches_low_watermark [OF sample_index_facts])

end
