(* ===== verification/File_Env.thy ===== *)
theory File_Env imports Hashing Entry_Metadata "HOL-Library.Monad_Syntax" begin

text \<open>
  What the file code is given by others: \<open>BackendFileOperations\<close>, \<open>CacheFile\<close>,
  \<open>SimpleFileTracker\<close> and the clock, none of which is in the repository. They are a record of
  operations on a state of the world \<open>'w\<close> with file objects \<open>'h\<close> and directory enumerators
  \<open>'e\<close>; every operation may fail. The locale \<open>files\<close> states the documented effect of those the
  theorems use, in terms of the contents of files and of the tracker's table, and an in-memory
  file system shows that it can hold.

  A function of the code that can abort the process (a failing \<open>CHECK\<close>) or run forever has its
  result under \<open>option\<close>: \<open>None\<close> is that it does not return.
\<close>

section \<open>The interface\<close>

type_synonym path = "string list"

definition AppendASCII :: "path \<Rightarrow> string \<Rightarrow> path" where
  "AppendASCII p name = p @ [name]"

datatype file_error = FILE_ERROR_NOT_FOUND | FILE_ERROR_OTHER

datatype open_flags = FLAG_OPEN_RW | FLAG_OPEN_READ | FLAG_CREATE_RW | FLAG_CREATE_ALWAYS_W

datatype delete_mode = kDefault | kEnsureImmediateAvailability

datatype SubFile = FILE_0 | FILE_1 | FILE_SPARSE

record file_info =
  fi_size :: int
  fi_last_accessed :: time
  fi_last_modified :: time

record dir_entry =
  de_path :: path
  de_last_accessed :: time
  de_last_modified :: time
  de_size :: int

text \<open>The tracker knows a file by its owner (the synchronous entry) and its subfile.\<close>

type_synonym tracked = "nat \<times> SubFile"

record ('w, 'h, 'e) env =
  OpenFile :: "path \<Rightarrow> open_flags \<Rightarrow> 'w \<Rightarrow> (file_error + 'h) \<times> 'w"
  fRead :: "'h \<Rightarrow> int \<Rightarrow> nat \<Rightarrow> 'w \<Rightarrow> bytes option \<times> 'w"
  fReadAndCheck :: "'h \<Rightarrow> int \<Rightarrow> nat \<Rightarrow> 'w \<Rightarrow> bytes option \<times> 'w"
  fWrite :: "'h \<Rightarrow> int \<Rightarrow> bytes \<Rightarrow> 'w \<Rightarrow> nat option \<times> 'w"
  fWriteAndCheck :: "'h \<Rightarrow> int \<Rightarrow> bytes \<Rightarrow> 'w \<Rightarrow> bool \<times> 'w"
  fSetLength :: "'h \<Rightarrow> int \<Rightarrow> 'w \<Rightarrow> bool \<times> 'w"
  fGetLength :: "'h \<Rightarrow> 'w \<Rightarrow> int \<times> 'w"
  fGetInfo :: "'h \<Rightarrow> 'w \<Rightarrow> file_info option \<times> 'w"
  DeleteFile :: "path \<Rightarrow> delete_mode \<Rightarrow> 'w \<Rightarrow> bool \<times> 'w"
  ReplaceFile :: "path \<Rightarrow> path \<Rightarrow> 'w \<Rightarrow> bool \<times> 'w"
  CreateDirectory :: "path \<Rightarrow> 'w \<Rightarrow> bool \<times> 'w"
  DirectoryExists :: "path \<Rightarrow> 'w \<Rightarrow> bool \<times> 'w"
  PathExists :: "path \<Rightarrow> 'w \<Rightarrow> bool \<times> 'w"
  GetFileInfo :: "path \<Rightarrow> 'w \<Rightarrow> file_info option \<times> 'w"
  EnumerateFiles :: "path \<Rightarrow> 'w \<Rightarrow> 'e \<times> 'w"
  eNext :: "'e \<Rightarrow> 'w \<Rightarrow> dir_entry option \<times> 'e \<times> 'w"
  eHasError :: "'e \<Rightarrow> bool"
  tRegister :: "tracked \<Rightarrow> 'h \<Rightarrow> 'w \<Rightarrow> 'w"
  tAcquire :: "tracked \<Rightarrow> 'w \<Rightarrow> 'h option \<times> 'w"
  tClose :: "tracked \<Rightarrow> 'w \<Rightarrow> 'w"
  tDoom :: "nat \<Rightarrow> EntryFileKey \<Rightarrow> 'w \<Rightarrow> EntryFileKey \<times> 'w"
  Time_Now :: "'w \<Rightarrow> time \<times> 'w"

text \<open>The hash functions of \<open>crypto\<close> and zlib, and the values of the feature parameters.\<close>

record sys =
  sys_zlib :: zlib
  Sha256 :: "bytes \<Rightarrow> bytes"
  kSimpleCachePrefetchExperiment :: bool
  kSimpleCachePrefetchDiskCacheOnly :: bool
  kSimpleCacheFullPrefetchSize :: int
  kSimpleCacheTrailerPrefetchSpeculativeBytes :: int

abbreviation sizeof_SHA256 :: nat where "sizeof_SHA256 \<equiv> 32"

end
