(* ===== verification/Index_File.thy ===== *)
theory Index_File imports File_Env Simple_Index begin

text \<open>
  The index file (simple_index_file.cc): its metadata, writing the index to a pickle and reading it
  back, loading it from disk, restoring it from the entry files when it is missing or stale, and
  replacing it on disk. The pickle and the file operations are parameters.
\<close>

section \<open>Constants and data\<close>

definition kEntryFilesHashLength :: nat where "kEntryFilesHashLength = 16"
definition kEntryFilesSuffixLength :: nat where "kEntryFilesSuffixLength = 2"
definition kMaxEntriesInIndex :: nat where "kMaxEntriesInIndex = 1000000"

definition kMaxIndexFileSizeBytes :: int where
  "kMaxIndexFileSizeBytes = int kMaxEntriesInIndex * (8 + int kOnDiskSizeBytes)"

definition kSimpleIndexMagicNumber :: u64 where "kSimpleIndexMagicNumber = 0x656e74657220796f"

definition kIndexFileName :: string where "kIndexFileName = ''the-real-index''"
definition kIndexDirectory :: string where "kIndexDirectory = ''index-dir''"
definition kTempIndexFileName :: string where "kTempIndexFileName = ''temp-index''"

definition kPlaceHolderSizeWhenInvalid :: u32 where "kPlaceHolderSizeWhenInvalid = 32768"

record IndexMetadata =
  magic_number :: u64
  im_version :: u32
  im_reason :: IndexWriteToDiskReason
  entry_count :: u64
  im_cache_size :: u64

definition new_IndexMetadata :: "IndexWriteToDiskReason \<Rightarrow> u64 \<Rightarrow> u64 \<Rightarrow> IndexMetadata" where
  "new_IndexMetadata reason count sz =
     \<lparr>magic_number = kSimpleIndexMagicNumber, im_version = kSimpleIndexFileVersion,
      im_reason = reason, entry_count = count, im_cache_size = sz\<rparr>"

definition Reset :: "SimpleIndexLoadResult \<Rightarrow> SimpleIndexLoadResult" where
  "Reset r = r\<lparr>did_load := False, index_write_reason := INDEX_WRITE_REASON_MAX,
     flush_required := False, lr_entries := []\<rparr>"

section \<open>Writing and reading the pickle\<close>

definition CalculatePickleCRC :: "('p, 'i) pickle_ops \<Rightarrow> zlib \<Rightarrow> 'p \<Rightarrow> u32" where
  "CalculatePickleCRC P Z pickle = Crc32 Z (pk_payload P pickle)"

definition IndexMetadata_Serialize :: "('p, 'i) pickle_ops \<Rightarrow> IndexMetadata \<Rightarrow> 'p \<Rightarrow> 'p" where
  "IndexMetadata_Serialize P md pickle =
     pk_write_u32 P (im_reason md) (pk_write_u64 P (im_cache_size md)
       (pk_write_u64 P (entry_count md) (pk_write_u32 P (im_version md)
         (pk_write_u64 P (magic_number md) pickle))))"

definition IndexMetadata_Deserialize :: "('p, 'i) pickle_ops \<Rightarrow> 'i \<Rightarrow> (IndexMetadata \<times> 'i) option" where
  "IndexMetadata_Deserialize P it =
     do {
       (magic, it) \<leftarrow> pk_read_u64 P it;
       (version, it) \<leftarrow> pk_read_u32 P it;
       (count, it) \<leftarrow> pk_read_u64 P it;
       (sz, it) \<leftarrow> pk_read_u64 P it;
       (tmp_reason, it) \<leftarrow> pk_read_u32 P it;
       Some (\<lparr>magic_number = magic, im_version = version, im_reason = tmp_reason,
              entry_count = count, im_cache_size = sz\<rparr>, it)
     }"

definition CheckIndexMetadata :: "IndexMetadata \<Rightarrow> bool" where
  "CheckIndexMetadata md \<longleftrightarrow>
     \<not> (entry_count md > of_nat kMaxEntriesInIndex \<or> magic_number md \<noteq> kSimpleIndexMagicNumber)
     \<and> im_version md \<ge> kMinSimpleIndexFileVersionSupported
     \<and> im_version md \<le> kSimpleVersion
     \<and> im_reason md < INDEX_WRITE_REASON_MAX"

definition app_cache_has_trailer_prefetch_size :: "IndexMetadata \<Rightarrow> bool" where
  "app_cache_has_trailer_prefetch_size md \<longleftrightarrow> im_version md \<ge> 9"

fun serialize_entries :: "('p, 'i) pickle_ops \<Rightarrow> CacheType \<Rightarrow> EntrySet \<Rightarrow> 'p \<Rightarrow> 'p" where
  "serialize_entries P ct [] pickle = pickle"
| "serialize_entries P ct ((h, m) # es) pickle =
     serialize_entries P ct es (EntryMetadata_Serialize P ct m (pk_write_u64 P h pickle))"

definition Serialize :: "('p, 'i) pickle_ops \<Rightarrow> CacheType \<Rightarrow> IndexMetadata \<Rightarrow> EntrySet \<Rightarrow> 'p" where
  "Serialize P ct md entries = serialize_entries P ct entries (IndexMetadata_Serialize P md (pk_new P))"

definition SerializeFinalData :: "('p, 'i) pickle_ops \<Rightarrow> zlib \<Rightarrow> time \<Rightarrow> 'p \<Rightarrow> 'p" where
  "SerializeFinalData P Z cache_modified pickle =
     (let pickle = pk_write_i64 P cache_modified pickle
      in pk_set_crc P (CalculatePickleCRC P Z pickle) pickle)"

text \<open>
  The loop that reads the entries: it ends when the set has as many as the metadata says, and a hash
  that is already there adds none. Its result is \<open>None\<close> if it does not end, and \<open>Some None\<close> if a read
  fails.
\<close>

partial_function (option) read_entries ::
    "('p, 'i) pickle_ops \<Rightarrow> CacheType \<Rightarrow> IndexMetadata \<Rightarrow> 'i \<Rightarrow> EntrySet \<Rightarrow> (EntrySet \<times> 'i) option option"
  where
  "read_entries P ct md it entries =
     (if \<not> of_nat (length entries) < entry_count md then Some (Some (entries, it))
      else
        (case pk_read_u64 P it of
           None \<Rightarrow> Some None
         | Some (hash_key, it) \<Rightarrow>
             (case EntryMetadata_Deserialize P ct (app_cache_has_trailer_prefetch_size md) it
                     EntryMetadata0 of
                None \<Rightarrow> Some None
              | Some (m, it) \<Rightarrow>
                  read_entries P ct md it (fst (InsertInEntrySet hash_key m entries)))))"

definition Deserialize ::
    "('p, 'i) pickle_ops \<Rightarrow> zlib \<Rightarrow> CacheType \<Rightarrow> bytes \<Rightarrow> time \<Rightarrow> SimpleIndexLoadResult
       \<Rightarrow> (SimpleIndexLoadResult \<times> time) option" where
  "Deserialize P Z ct data out_cache_last_modified out_result =
     (let out_result = Reset out_result
      in case pk_open P data of
           None \<Rightarrow> Some (out_result, out_cache_last_modified)
         | Some pickle \<Rightarrow>
             if pk_header_size P pickle \<noteq> sizeof_PickleHeader
                \<or> pk_crc P pickle \<noteq> CalculatePickleCRC P Z pickle
             then Some (out_result, out_cache_last_modified)
             else
               (case IndexMetadata_Deserialize P (pk_iter P pickle) of
                  None \<Rightarrow> Some (out_result, out_cache_last_modified)
                | Some (md, it) \<Rightarrow>
                    if \<not> CheckIndexMetadata md then Some (out_result, out_cache_last_modified)
                    else
                      do {
                        read \<leftarrow> read_entries P ct md it [];
                        case read of
                          None \<Rightarrow> Some (out_result, out_cache_last_modified)
                        | Some (entries, it) \<Rightarrow>
                            (case pk_read_i64 P it of
                               None \<Rightarrow> Some (out_result, out_cache_last_modified)
                             | Some (cache_last_modified, it) \<Rightarrow>
                                 Some (out_result\<lparr>lr_entries := entries,
                                         index_write_reason := im_reason md, did_load := True\<rparr>,
                                       cache_last_modified))
                      }))"

section \<open>Files\<close>

definition WritePickleFile ::
    "('w, 'h, 'e) env \<Rightarrow> ('p, 'i) pickle_ops \<Rightarrow> 'p \<Rightarrow> path \<Rightarrow> 'w \<Rightarrow> bool \<times> 'w" where
  "WritePickleFile F P pickle file_name w =
     (case OpenFile F file_name FLAG_CREATE_ALWAYS_W w of
        (Inl _, w) \<Rightarrow> (False, w)
      | (Inr file, w) \<Rightarrow>
          (case fWriteAndCheck F file 0 (pk_bytes P pickle) w of
             (write_ok, w) \<Rightarrow>
               if \<not> write_ok then (False, snd (DeleteFile F file_name kEnsureImmediateAvailability w))
               else (True, w)))"

datatype IndexWriteResult =
  kSuccess | kFailedToCreateDir | kFailedToGetFileInfo | kFailedToWritePickle | kFailedToReplaceFile

definition SyncWriteToDiskInternal ::
    "('w, 'h, 'e) env \<Rightarrow> ('p, 'i) pickle_ops \<Rightarrow> zlib \<Rightarrow> path \<Rightarrow> path \<Rightarrow> path \<Rightarrow> 'p \<Rightarrow> 'w
       \<Rightarrow> IndexWriteResult \<times> 'w" where
  "SyncWriteToDiskInternal F P Z cache_directory index_filename temp_index_filename pickle w =
     (let index_file_directory = butlast temp_index_filename;
          (exists, w) = DirectoryExists F index_file_directory w;
          (created, w) = (if exists then (True, w) else CreateDirectory F index_file_directory w)
      in if \<not> created then (kFailedToCreateDir, w)
         else
           (case GetFileInfo F cache_directory w of
              (None, w) \<Rightarrow> (kFailedToGetFileInfo, w)
            | (Some info, w) \<Rightarrow>
                (let pickle = SerializeFinalData P Z (fi_last_modified info) pickle;
                     (ok, w) = WritePickleFile F P pickle temp_index_filename w
                 in if \<not> ok then (kFailedToWritePickle, w)
                    else
                      (case ReplaceFile F temp_index_filename index_filename w of
                         (ok, w) \<Rightarrow> (if ok then kSuccess else kFailedToReplaceFile, w)))))"

text \<open>
  \<open>SimpleIndexFile::WriteToDisk\<close> serializes the entries on the calling sequence and posts the rest.
\<close>

definition WriteToDisk_pickle ::
    "('p, 'i) pickle_ops \<Rightarrow> CacheType \<Rightarrow> IndexWriteToDiskReason \<Rightarrow> EntrySet \<Rightarrow> u64 \<Rightarrow> 'p" where
  "WriteToDisk_pickle P ct reason entry_set sz =
     Serialize P ct (new_IndexMetadata reason (of_nat (length entry_set)) sz) entry_set"

definition LegacyIsIndexFileStale :: "('w, 'h, 'e) env \<Rightarrow> time \<Rightarrow> path \<Rightarrow> 'w \<Rightarrow> bool \<times> 'w" where
  "LegacyIsIndexFileStale F cache_last_modified index_file_path w =
     (case GetFileInfo F index_file_path w of
        (Some info, w) \<Rightarrow> (fi_last_modified info < cache_last_modified, w)
      | (None, w) \<Rightarrow> (True, w))"

text \<open>
  One file of the cache directory. \<open>posix\<close> is the build flag; \<open>base::CheckedNumeric<uint32_t>\<close> is
  an integer that is invalid outside 32 bits, and stays invalid. \<open>None\<close> is the failing \<open>CHECK\<close> in the
  constructor of the metadata.
\<close>

definition checked_u32 :: "int \<Rightarrow> u32 option" where
  "checked_u32 n = (if 0 \<le> n \<and> n < 2 ^ 32 then Some (word_of_int n) else None)"

definition ValueOrDefault :: "u32 \<Rightarrow> u32 option \<Rightarrow> u32" where
  "ValueOrDefault d n = (case n of None \<Rightarrow> d | Some v \<Rightarrow> v)"

definition entry_file_hash :: "(string \<Rightarrow> u64 option) \<Rightarrow> string \<Rightarrow> u64 option" where
  "entry_file_hash hex_parse file_name =
     (if length file_name \<noteq> kEntryFilesHashLength + kEntryFilesSuffixLength then None
      else GetEntryHashKeyFromHexString hex_parse (take kEntryFilesHashLength file_name))"

definition add_entry_file ::
    "CacheType \<Rightarrow> u64 \<Rightarrow> time \<Rightarrow> int \<Rightarrow> EntrySet \<Rightarrow> EntrySet option" where
  "add_entry_file ct hash_key last_used_time file_size entries =
     (let total_entry_size = checked_u32 file_size
      in case map_of entries hash_key of
           None \<Rightarrow>
             do {
               let size_to_use = ValueOrDefault kPlaceHolderSizeWhenInvalid total_entry_size;
               m \<leftarrow> (if ct = APP_CACHE then EntryMetadata_of_prefetch 0 (ucast size_to_use)
                     else EntryMetadata_of_time last_used_time (ucast size_to_use));
               Some (fst (InsertInEntrySet hash_key m entries))
             }
         | Some m \<Rightarrow>
             (let total_entry_size =
                    (case total_entry_size of
                       None \<Rightarrow> None
                     | Some n \<Rightarrow> checked_u32 (uint n + uint (GetEntrySize m)));
                  tmp_entry_size = ValueOrDefault kPlaceHolderSizeWhenInvalid total_entry_size
              in case SetEntrySize (ucast tmp_entry_size) m of
                   None \<Rightarrow> Some entries
                 | Some m' \<Rightarrow> Some (AList.update hash_key m' entries)))"

definition ProcessEntryFile ::
    "('w, 'h, 'e) env \<Rightarrow> (string \<Rightarrow> u64 option) \<Rightarrow> bool \<Rightarrow> CacheType \<Rightarrow> dir_entry \<Rightarrow> EntrySet \<Rightarrow> 'w
       \<Rightarrow> (EntrySet \<times> 'w) option" where
  "ProcessEntryFile F hex_parse posix ct file entries w =
     (let file_name = last (de_path file)
      in if take (length ''todelete_'') file_name = ''todelete_''
         then Some (entries, snd (DeleteFile F (de_path file) kDefault w))
         else
           (case entry_file_hash hex_parse file_name of
              None \<Rightarrow> Some (entries, w)
            | Some hash_key \<Rightarrow>
                (let last_used_time = (if posix then de_last_accessed file else 0);
                     last_used_time = (if is_null last_used_time then de_last_modified file
                                       else last_used_time)
                 in map_option (\<lambda>entries. (entries, w))
                      (add_entry_file ct hash_key last_used_time (de_size file) entries))))"

partial_function (option) process_files ::
    "('w, 'h, 'e) env \<Rightarrow> (string \<Rightarrow> u64 option) \<Rightarrow> bool \<Rightarrow> CacheType \<Rightarrow> 'e \<Rightarrow> EntrySet \<Rightarrow> 'w
       \<Rightarrow> (EntrySet \<times> 'e \<times> 'w) option" where
  "process_files F hex_parse posix ct enumerator entries w =
     (case eNext F enumerator w of
        (None, enumerator, w) \<Rightarrow> Some (entries, enumerator, w)
      | (Some file, enumerator, w) \<Rightarrow>
          do {
            (entries, w) \<leftarrow> ProcessEntryFile F hex_parse posix ct file entries w;
            process_files F hex_parse posix ct enumerator entries w
          })"

definition SyncRestoreFromDisk ::
    "('w, 'h, 'e) env \<Rightarrow> (string \<Rightarrow> u64 option) \<Rightarrow> bool \<Rightarrow> CacheType \<Rightarrow> path \<Rightarrow> path
       \<Rightarrow> SimpleIndexLoadResult \<Rightarrow> 'w \<Rightarrow> (SimpleIndexLoadResult \<times> 'w) option" where
  "SyncRestoreFromDisk F hex_parse posix ct cache_directory index_file_path out_result w =
     do {
       let (_, w) = DeleteFile F index_file_path kEnsureImmediateAvailability w;
       let out_result = Reset out_result;
       let (enumerator, w) = EnumerateFiles F cache_directory w;
       (entries, enumerator, w) \<leftarrow> process_files F hex_parse posix ct enumerator [] w;
       let out_result = out_result\<lparr>lr_entries := entries\<rparr>;
       if eHasError F enumerator then Some (out_result, w)
       else Some (out_result\<lparr>did_load := True, flush_required := True\<rparr>, w)
     }"

definition SyncLoadFromDisk ::
    "('w, 'h, 'e) env \<Rightarrow> ('p, 'i) pickle_ops \<Rightarrow> zlib \<Rightarrow> CacheType \<Rightarrow> path \<Rightarrow> time
       \<Rightarrow> SimpleIndexLoadResult \<Rightarrow> 'w \<Rightarrow> (SimpleIndexLoadResult \<times> time \<times> 'w) option" where
  "SyncLoadFromDisk F P Z ct index_filename last_seen out_result w =
     (let out_result = Reset out_result
      in case OpenFile F index_filename FLAG_OPEN_READ w of
           (Inl _, w) \<Rightarrow> Some (out_result, last_seen, w)
         | (Inr file, w) \<Rightarrow>
             (case fGetLength F file w of
                (file_length, w) \<Rightarrow>
                  if file_length < 0 \<or> file_length > kMaxIndexFileSizeBytes
                  then Some (out_result, last_seen,
                             snd (DeleteFile F index_filename kEnsureImmediateAvailability w))
                  else
                    (case fReadAndCheck F file 0 (nat file_length) w of
                       (None, w) \<Rightarrow>
                         Some (out_result, last_seen,
                               snd (DeleteFile F index_filename kEnsureImmediateAvailability w))
                     | (Some buffer, w) \<Rightarrow>
                         do {
                           (out_result, last_seen) \<leftarrow> Deserialize P Z ct buffer last_seen out_result;
                           Some (out_result, last_seen,
                                 if \<not> did_load out_result
                                 then snd (DeleteFile F index_filename kEnsureImmediateAvailability w)
                                 else w)
                         })))"

text \<open>
  The staleness the histograms record (\<open>LegacyIsIndexFileStale\<close>) is computed and dropped; it can
  change the world only by looking at the files.
\<close>

definition SyncLoadIndexEntries ::
    "('w, 'h, 'e) env \<Rightarrow> ('p, 'i) pickle_ops \<Rightarrow> zlib \<Rightarrow> (string \<Rightarrow> u64 option) \<Rightarrow> bool \<Rightarrow> CacheType
       \<Rightarrow> time \<Rightarrow> path \<Rightarrow> path \<Rightarrow> SimpleIndexLoadResult \<Rightarrow> 'w \<Rightarrow> (SimpleIndexLoadResult \<times> 'w) option" where
  "SyncLoadIndexEntries F P Z hex_parse posix ct cache_last_modified cache_directory index_file_path
     out_result w =
     do {
       (out_result, last_cache_seen_by_index, w) \<leftarrow> SyncLoadFromDisk F P Z ct index_file_path 0 out_result w;
       let (index_file_existed, w) = PathExists F index_file_path w;
       if did_load out_result \<and> cache_last_modified \<le> last_cache_seen_by_index
       then
         (let (info, w) = GetFileInfo F cache_directory w;
              latest_dir_mtime = (case info of None \<Rightarrow> 0 | Some i \<Rightarrow> fi_last_modified i);
              (_, w) = LegacyIsIndexFileStale F latest_dir_mtime index_file_path w
          in Some (out_result\<lparr>lr_init_method := INITIALIZE_METHOD_LOADED\<rparr>, w))
       else
         do {
           (out_result, w) \<leftarrow>
             SyncRestoreFromDisk F hex_parse posix ct cache_directory index_file_path
               (out_result\<lparr>lr_entries := []\<rparr>) w;
           Some (out_result\<lparr>lr_init_method := (if index_file_existed then INITIALIZE_METHOD_RECOVERED
                                               else INITIALIZE_METHOD_NEWCACHE)\<rparr>, w)
         }
     }"

section \<open>SimpleIndexFile\<close>

text \<open>
  The object that knows where the index of a cache is. Its two operations post a task to a sequence; they
  are modelled by what the task does when it runs, with the result of a write, which the code records in a
  histogram.
\<close>

record SimpleIndexFile =
  sif_cache_type :: CacheType
  sif_cache_directory :: path
  sif_index_file :: path
  sif_temp_index_file :: path

definition new_SimpleIndexFile :: "CacheType \<Rightarrow> path \<Rightarrow> SimpleIndexFile" where
  "new_SimpleIndexFile ct cache_directory =
     \<lparr>sif_cache_type = ct, sif_cache_directory = cache_directory,
      sif_index_file = AppendASCII (AppendASCII cache_directory kIndexDirectory) kIndexFileName,
      sif_temp_index_file = AppendASCII (AppendASCII cache_directory kIndexDirectory) kTempIndexFileName\<rparr>"

definition LoadIndexEntries ::
    "('w, 'h, 'e) env \<Rightarrow> ('p, 'i) pickle_ops \<Rightarrow> zlib \<Rightarrow> (string \<Rightarrow> u64 option) \<Rightarrow> bool \<Rightarrow> SimpleIndexFile
       \<Rightarrow> time \<Rightarrow> SimpleIndexLoadResult \<Rightarrow> 'w \<Rightarrow> (SimpleIndexLoadResult \<times> 'w) option" where
  "LoadIndexEntries F P Z hex_parse posix sif cache_last_modified out_result w =
     SyncLoadIndexEntries F P Z hex_parse posix (sif_cache_type sif) cache_last_modified
       (sif_cache_directory sif) (sif_index_file sif) out_result w"

definition SyncWriteToDisk ::
    "('w, 'h, 'e) env \<Rightarrow> ('p, 'i) pickle_ops \<Rightarrow> zlib \<Rightarrow> path \<Rightarrow> path \<Rightarrow> path \<Rightarrow> 'p \<Rightarrow> 'w
       \<Rightarrow> IndexWriteResult \<times> 'w" where
  "SyncWriteToDisk F P Z cache_directory index_filename temp_index_filename pickle w =
     SyncWriteToDiskInternal F P Z cache_directory index_filename temp_index_filename pickle w"

definition WriteIndexToDisk ::
    "('w, 'h, 'e) env \<Rightarrow> ('p, 'i) pickle_ops \<Rightarrow> zlib \<Rightarrow> SimpleIndexFile \<Rightarrow> CacheType \<Rightarrow> IndexWriteToDiskReason
       \<Rightarrow> EntrySet \<Rightarrow> u64 \<Rightarrow> 'w \<Rightarrow> IndexWriteResult \<times> 'w" where
  "WriteIndexToDisk F P Z sif ct reason entry_set sz w =
     SyncWriteToDisk F P Z (sif_cache_directory sif) (sif_index_file sif) (sif_temp_index_file sif)
       (WriteToDisk_pickle P ct reason entry_set sz) w"

end
