(* ===== verification/Index_File_Correct.thy ===== *)
theory Index_File_Correct imports Index_File begin

text \<open>
  The index file is read back as it was written, for every pickle that keeps the documented laws;
  reading always ends; what the reader accepts has the right magic number, version and checksum.
\<close>

section \<open>The items of an index\<close>

definition index_items :: "CacheType \<Rightarrow> IndexMetadata \<Rightarrow> EntrySet \<Rightarrow> pickle_item list" where
  "index_items ct md es =
     [PU64 (magic_number md), PU32 (im_version md), PU64 (entry_count md), PU64 (im_cache_size md),
      PU32 (im_reason md)] @ concat (map (\<lambda>(h, m). PU64 h # metadata_items ct m) es)"

lemma items_size_entries:
  "items_size (concat (map (\<lambda>(h, m). PU64 h # metadata_items ct m) es)) = 24 * length es"
  by (induction es) (auto simp: kOnDiskSizeBytes_def)

lemma items_size_index [simp, size_simps]: "items_size (index_items ct md es) = 32 + 24 * length es"
  by (simp add: index_items_def items_size_entries)

lemma entry_count_less:
  "n \<le> kMaxEntriesInIndex \<Longrightarrow> k < n \<Longrightarrow> (of_nat k :: u64) < of_nat n"
  by (simp add: kMaxEntriesInIndex_def word_less_nat_alt unat_of_nat)

context pickle_laws begin

lemma serialize_entries_holds:
  "holds p its \<Longrightarrow>
   holds (serialize_entries P ct es p) (its @ concat (map (\<lambda>(h, m). PU64 h # metadata_items ct m) es))"
proof (induction es arbitrary: p its)
  case (Cons e es)
  obtain h m where e: "e = (h, m)" by (cases e)
  have "holds (EntryMetadata_Serialize P ct m (pk_write_u64 P h p))
      ((its @ [PU64 h]) @ metadata_items ct m)"
    by (intro Serialize_holds write_u64 Cons.prems)
  from Cons.IH [OF this] show ?case by (simp add: e)
qed simp

lemma Serialize_holds_index: "holds (Serialize P ct md es) (index_items ct md es)"
proof -
  have "holds (IndexMetadata_Serialize P md (pk_new P))
      ((((([] @ [PU64 (magic_number md)]) @ [PU32 (im_version md)]) @ [PU64 (entry_count md)])
        @ [PU64 (im_cache_size md)]) @ [PU32 (im_reason md)])"
    unfolding IndexMetadata_Serialize_def by (intro write_u32 write_u64 new)
  from serialize_entries_holds [OF this] show ?thesis
    by (simp add: Serialize_def index_items_def)
qed

lemma SerializeFinalData_holds:
  assumes "holds p its"
  shows "holds (SerializeFinalData P Z t p) (its @ [PI64 t])"
    and "pk_crc P (SerializeFinalData P Z t p) = CalculatePickleCRC P Z (SerializeFinalData P Z t p)"
  using write_i64 [OF assms] set_crc
  by (simp_all add: SerializeFinalData_def Let_def crc_set_crc payload_set_crc CalculatePickleCRC_def)

lemma IndexMetadata_read:
  assumes "reads it ([PU64 (magic_number md), PU32 (im_version md), PU64 (entry_count md),
    PU64 (im_cache_size md), PU32 (im_reason md)] @ its)"
  shows "\<exists>j. IndexMetadata_Deserialize P it = Some (md, j) \<and> reads j its"
proof -
  obtain i1 where 1: "pk_read_u64 P it = Some (magic_number md, i1)"
    "reads i1 (PU32 (im_version md) # PU64 (entry_count md) # PU64 (im_cache_size md)
      # PU32 (im_reason md) # its)"
    using assms read_u64 by fastforce
  obtain i2 where 2: "pk_read_u32 P i1 = Some (im_version md, i2)"
    "reads i2 (PU64 (entry_count md) # PU64 (im_cache_size md) # PU32 (im_reason md) # its)"
    using 1(2) read_u32 by fastforce
  obtain i3 where 3: "pk_read_u64 P i2 = Some (entry_count md, i3)"
    "reads i3 (PU64 (im_cache_size md) # PU32 (im_reason md) # its)"
    using 2(2) read_u64 by fastforce
  obtain i4 where 4: "pk_read_u64 P i3 = Some (im_cache_size md, i4)" "reads i4 (PU32 (im_reason md) # its)"
    using 3(2) read_u64 by fastforce
  obtain i5 where 5: "pk_read_u32 P i4 = Some (im_reason md, i5)" "reads i5 its"
    using 4(2) read_u32 by fastforce
  show ?thesis
    by (simp add: IndexMetadata_Deserialize_def 1(1) 2(1) 3(1) 4(1) 5)
qed

lemma read_entries_items:
  assumes "reads it (concat (map (\<lambda>(h, m). PU64 h # metadata_items ct m) es) @ its)"
    and "distinct (map fst (acc @ es))"
    and "entry_count md = of_nat (length acc + length es)" "length acc + length es \<le> kMaxEntriesInIndex"
    and "app_cache_has_trailer_prefetch_size md"
  shows "\<exists>j. read_entries P ct md it acc = Some (Some (acc @ es, j)) \<and> reads j its"
  using assms
proof (induction es arbitrary: it acc)
  case Nil
  then show ?case by (subst read_entries.simps) simp
next
  case (Cons e es)
  obtain h m where e: "e = (h, m)" by (cases e)
  obtain i where i: "pk_read_u64 P it = Some (h, i)"
    "reads i (metadata_items ct m @ (concat (map (\<lambda>(h, m). PU64 h # metadata_items ct m) es) @ its))"
    using Cons.prems(1) read_u64 [of it h] by (auto simp: e)
  from Deserialize_metadata_items [OF i(2), of True] obtain j where
    j: "EntryMetadata_Deserialize P ct True i EntryMetadata0 = Some (m, j)"
    "reads j (concat (map (\<lambda>(h, m). PU64 h # metadata_items ct m) es) @ its)" by auto
  have "map_of acc h = None" using Cons.prems(2) by (auto simp: e map_of_eq_None_iff)
  then have ins: "fst (InsertInEntrySet h m acc) = acc @ [(h, m)]" by (simp add: InsertInEntrySet_def)
  have "of_nat (length acc) < entry_count md"
    using Cons.prems(3,4) entry_count_less [of "length acc + length (e # es)" "length acc"]
    by (simp only: length_Cons)
  then have step: "read_entries P ct md it acc = read_entries P ct md j (acc @ [(h, m)])"
    using Cons.prems(5) by (subst read_entries.simps) (simp add: i(1) j(1) ins)
  have "\<exists>j'. read_entries P ct md j (acc @ [(h, m)]) = Some (Some ((acc @ [(h, m)]) @ es, j')) \<and> reads j' its"
    using Cons.prems by (intro Cons.IH [OF j(2)]) (simp_all add: e)
  then show ?case by (simp add: step e)
qed

lemma Deserialize_Serialize:
  assumes dist: "distinct (map fst es)" and len: "length es \<le> kMaxEntriesInIndex"
    and reason: "reason < INDEX_WRITE_REASON_MAX"
  shows "Deserialize P Z ct (pk_bytes P (SerializeFinalData P Z t (WriteToDisk_pickle P ct reason es sz))) t0 r
    = Some ((Reset r)\<lparr>lr_entries := es, index_write_reason := reason, did_load := True\<rparr>, wrap64 t)"
proof -
  let ?md = "new_IndexMetadata reason (of_nat (length es)) sz"
  let ?p = "SerializeFinalData P Z t (WriteToDisk_pickle P ct reason es sz)"
  have p: "holds ?p (index_items ct ?md es @ [PI64 t])" "pk_crc P ?p = CalculatePickleCRC P Z ?p"
    using SerializeFinalData_holds [OF Serialize_holds_index] by (simp_all add: WriteToDisk_pickle_def)
  have "items_size (index_items ct ?md es @ [PI64 t]) < 2 ^ 30"
    using len by (simp add: kMaxEntriesInIndex_def)
  from open_bytes [OF p(1) this] obtain q where q: "pk_open P (pk_bytes P ?p) = Some q"
    "pk_header_size P q = sizeof_PickleHeader" "pk_payload P q = pk_payload P ?p"
    "pk_crc P q = pk_crc P ?p" "reads (pk_iter P q) (index_items ct ?md es @ [PI64 t])" by blast
  from q(5) obtain i where i: "IndexMetadata_Deserialize P (pk_iter P q) = Some (?md, i)"
    "reads i (concat (map (\<lambda>(h, m). PU64 h # metadata_items ct m) es) @ [PI64 t])"
    using IndexMetadata_read [of "pk_iter P q" ?md] by (auto simp: index_items_def)
  have check: "CheckIndexMetadata ?md"
    using len reason
    by (simp add: CheckIndexMetadata_def new_IndexMetadata_def kMaxEntriesInIndex_def word_le_nat_alt
        not_less kMinSimpleIndexFileVersionSupported_def kSimpleIndexFileVersion_def kSimpleVersion_def
        unat_of_nat)
  obtain j where j: "read_entries P ct ?md i [] = Some (Some (es, j))" "reads j [PI64 t]"
    using read_entries_items [OF i(2), of "[]" ?md] dist len
    by (auto simp: new_IndexMetadata_def app_cache_has_trailer_prefetch_size_def
        kSimpleIndexFileVersion_def)
  obtain k where "pk_read_i64 P j = Some (wrap64 t, k)" using read_i64 [OF j(2)] by blast
  then show ?thesis
    using q(1-4) p(2) i(1) check j(1)
    by (simp add: Deserialize_def Let_def CalculatePickleCRC_def new_IndexMetadata_def)
qed

lemma index_file_length:
  "length (pk_bytes P (SerializeFinalData P Z t (WriteToDisk_pickle P ct reason es sz)))
    = 48 + 24 * length es"
proof -
  let ?p = "SerializeFinalData P Z t (WriteToDisk_pickle P ct reason es sz)"
  have "holds ?p (index_items ct (new_IndexMetadata reason (of_nat (length es)) sz) es @ [PI64 t])"
    using SerializeFinalData_holds(1) [OF Serialize_holds_index] by (simp add: WriteToDisk_pickle_def)
  from payload_size [OF this] show ?thesis by (simp add: bytes_size)
qed

lemma read_entries_returns: "\<exists>r. read_entries P ct md it acc = Some r"
proof (induction "left it" arbitrary: it acc rule: less_induct)
  case less
  show ?case
  proof (cases "of_nat (length acc) < entry_count md")
    case False
    then show ?thesis by (subst read_entries.simps) simp
  next
    case True
    show ?thesis
    proof (cases "pk_read_u64 P it")
      case None
      then show ?thesis using True by (subst read_entries.simps) simp
    next
      case (Some a)
      obtain h i where a: "a = (h, i)" by (cases a)
      let ?d = "EntryMetadata_Deserialize P ct (app_cache_has_trailer_prefetch_size md) i EntryMetadata0"
      show ?thesis
      proof (cases ?d)
        case None
        then show ?thesis using True Some a by (subst read_entries.simps) simp
      next
        case (Some b)
        obtain m j where b: "b = (m, j)" by (cases b)
        have "left j < left it"
          using Deserialize_consumes [of ct _ i] consumes [of it h i] Some b \<open>pk_read_u64 P it = Some a\<close> a
          by fastforce
        then obtain r where "read_entries P ct md j (fst (InsertInEntrySet h m acc)) = Some r"
          using less by blast
        then show ?thesis
          using True Some b \<open>pk_read_u64 P it = Some a\<close> a by (subst read_entries.simps) simp
      qed
    qed
  qed
qed

lemma Deserialize_returns: "\<exists>r. Deserialize P Z ct data t out = Some r"
proof -
  define f where "f md it = the (read_entries P ct md it [])" for md it
  have f: "read_entries P ct md it [] = Some (f md it)" for md it
    using read_entries_returns [of ct md it "[]"] by (auto simp: f_def)
  show ?thesis
    by (simp add: Deserialize_def Let_def f split: option.split prod.split)
qed

end

text \<open>The index that was written is the index that is read: for every pickle implementation with the
  documented behaviour, loading the bytes of a written index gives its entries, the reason it was
  written for and the time it recorded.\<close>

theorem index_file_roundtrip:
  assumes "pickle_laws P holds reads left"
    and "distinct (map fst es)" "length es \<le> kMaxEntriesInIndex" "reason < INDEX_WRITE_REASON_MAX"
  shows "Deserialize P Z ct (pk_bytes P (SerializeFinalData P Z t (WriteToDisk_pickle P ct reason es sz))) t0 r
    = Some ((Reset r)\<lparr>lr_entries := es, index_write_reason := reason, did_load := True\<rparr>, wrap64 t)"
  by (rule pickle_laws.Deserialize_Serialize [OF assms])

definition no_result :: SimpleIndexLoadResult where
  "no_result = \<lparr>did_load = False, lr_entries = [], index_write_reason = INDEX_WRITE_REASON_MAX,
     lr_init_method = INITIALIZE_METHOD_MAX, flush_required = False\<rparr>"

theorem index_file_roundtrip_witness:
  "Deserialize java_pickle_ops crc32_zlib APP_CACHE
     (pk_bytes java_pickle_ops (SerializeFinalData java_pickle_ops crc32_zlib 77
        (WriteToDisk_pickle java_pickle_ops APP_CACHE INDEX_WRITE_REASON_IDLE
           [(5, EntryMetadata0), (6, EntryMetadata0)] 0))) 0 no_result
   = Some ((Reset no_result)\<lparr>lr_entries := [(5, EntryMetadata0), (6, EntryMetadata0)],
       index_write_reason := INDEX_WRITE_REASON_IDLE, did_load := True\<rparr>, wrap64 77)"
  by (rule index_file_roundtrip [OF java_pickle.pickle_laws_axioms])
    (simp_all add: kMaxEntriesInIndex_def INDEX_WRITE_REASON_IDLE_def INDEX_WRITE_REASON_MAX_def)

text \<open>Reading an index file of any content ends, for every pickle whose reads consume.\<close>

theorem index_file_read_ends:
  assumes "pickle_laws P holds reads left"
  shows "\<exists>r. Deserialize P Z ct data t out = Some r"
  by (rule pickle_laws.Deserialize_returns [OF assms])

theorem index_file_read_ends_witness:
  "\<exists>r. Deserialize java_pickle_ops crc32_zlib DISK_CACHE [1, 2, 3] 0 no_result = Some r"
  by (rule index_file_read_ends [OF java_pickle.pickle_laws_axioms])

text \<open>C34: the bound on the size of the file is smaller than a full index: the file of an index of more
  than 999998 entries is longer than the loader accepts, though the metadata allows a million.\<close>

theorem full_index_file_too_large:
  assumes "pickle_laws P holds reads left"
  shows "kMaxIndexFileSizeBytes
      < int (length (pk_bytes P (SerializeFinalData P Z t (WriteToDisk_pickle P ct reason es sz))))
    \<longleftrightarrow> kMaxEntriesInIndex - 2 < length es"
  using pickle_laws.index_file_length [OF assms, of Z t ct reason es sz]
  by (simp add: kMaxIndexFileSizeBytes_def kMaxEntriesInIndex_def kOnDiskSizeBytes_def)

theorem full_index_file_too_large_witness:
  "kMaxIndexFileSizeBytes
      < int (length (pk_bytes java_pickle_ops (SerializeFinalData java_pickle_ops crc32_zlib 0
          (WriteToDisk_pickle java_pickle_ops DISK_CACHE 2 (replicate 999999 (0, EntryMetadata0)) 0))))
    \<longleftrightarrow> kMaxEntriesInIndex - 2 < length (replicate 999999 (0 :: u64, EntryMetadata0))"
  by (rule full_index_file_too_large [OF java_pickle.pickle_laws_axioms])

text \<open>C31: an index file is accepted only if its checksum is that of its payload and its metadata has the
  magic number, a supported version and at most a million entries; else nothing is loaded.\<close>

theorem accepted_index_is_checked:
  assumes "Deserialize P Z ct data t out = Some (r, t')" and "did_load r"
  shows "\<exists>pickle md it. pk_open P data = Some pickle
    \<and> pk_crc P pickle = Crc32 Z (pk_payload P pickle)
    \<and> IndexMetadata_Deserialize P (pk_iter P pickle) = Some (md, it)
    \<and> magic_number md = kSimpleIndexMagicNumber \<and> (im_version md = 8 \<or> im_version md = 9)
    \<and> entry_count md \<le> 1000000"
proof -
  have version: "v = 8 \<or> v = 9" if "kMinSimpleIndexFileVersionSupported \<le> v" "v \<le> kSimpleVersion" for v
  proof -
    have "unat v = 8 \<or> unat v = 9"
      using that by (auto simp: kMinSimpleIndexFileVersionSupported_def kSimpleVersion_def word_le_nat_alt)
    then show ?thesis by (auto simp: word_unat_eq_iff)
  qed
  show ?thesis
    using assms version
    by (auto simp: Deserialize_def Let_def Reset_def CalculatePickleCRC_def CheckIndexMetadata_def
        kMaxEntriesInIndex_def not_less split: option.splits prod.splits if_splits)
qed

theorem accepted_index_is_checked_witness:
  "\<exists>pickle md it. pk_open java_pickle_ops (pk_bytes java_pickle_ops
        (SerializeFinalData java_pickle_ops crc32_zlib 0
          (WriteToDisk_pickle java_pickle_ops DISK_CACHE 2 [] 0))) = Some pickle
    \<and> pk_crc java_pickle_ops pickle
        = Crc32 crc32_zlib (pk_payload java_pickle_ops pickle)
    \<and> IndexMetadata_Deserialize java_pickle_ops (pk_iter java_pickle_ops pickle) = Some (md, it)
    \<and> magic_number md = kSimpleIndexMagicNumber \<and> (im_version md = 8 \<or> im_version md = 9)
    \<and> entry_count md \<le> 1000000"
proof -
  have "Deserialize java_pickle_ops crc32_zlib DISK_CACHE (pk_bytes java_pickle_ops
        (SerializeFinalData java_pickle_ops crc32_zlib 0 (WriteToDisk_pickle java_pickle_ops DISK_CACHE 2 [] 0))) 0 no_result
      = Some ((Reset no_result)\<lparr>lr_entries := [], index_write_reason := 2, did_load := True\<rparr>, wrap64 0)"
    by (rule java_pickle.Deserialize_Serialize)
      (simp_all add: INDEX_WRITE_REASON_MAX_def kMaxEntriesInIndex_def)
  from accepted_index_is_checked [OF this] show ?thesis by simp
qed

end
