(* ===== verification/File_Laws.thy ===== *)
theory File_Laws imports File_Env "HOL-Library.AList" begin

text \<open>
  The documented behaviour of the file operations and of the file tracker, as two locales. They speak
  of a view of the world: the directory (which file a name stands for), the contents of the files and
  the table of the tracker. In \<open>files\<close> every operation may fail; in \<open>reliable_files\<close> none does. An
  in-memory file system with an arbitrary schedule of faults has the laws of \<open>files\<close>, and without
  faults those of \<open>reliable_files\<close>.
\<close>

section \<open>The laws\<close>

record fs =
  dir :: "path \<Rightarrow> nat option"
  data :: "nat \<Rightarrow> bytes"
  table :: "tracked \<Rightarrow> nat option"

definition put_data :: "nat \<Rightarrow> bytes \<Rightarrow> fs \<Rightarrow> fs" where
  "put_data n bs v = v\<lparr>data := (data v)(n := bs)\<rparr>"

definition fresh_node :: "nat \<Rightarrow> fs \<Rightarrow> bool" where
  "fresh_node n v \<longleftrightarrow> n \<notin> ran (dir v) \<and> n \<notin> ran (table v)"

lemma put_data_fields [simp]:
  "dir (put_data n bs v) = dir v" "table (put_data n bs v) = table v"
  "data (put_data n bs v) = (data v)(n := bs)"
  by (simp_all add: put_data_def)

lemma put_data_twice [simp]: "put_data n bs (put_data n bs' v) = put_data n bs v"
  by (simp add: put_data_def)

locale files =
  fixes F :: "('w, 'h, 'e) env"
    and view :: "'w \<Rightarrow> fs"
    and node :: "'h \<Rightarrow> nat"
    and remaining :: "'e \<Rightarrow> nat"
  assumes open_law: "OpenFile F p fl w = (ro, w') \<Longrightarrow> fl = FLAG_OPEN_RW \<or> fl = FLAG_OPEN_READ \<Longrightarrow>
      view w' = view w
      \<and> (case ro of Inr h \<Rightarrow> dir (view w) p = Some (node h)
         | Inl e \<Rightarrow> e = FILE_ERROR_NOT_FOUND \<longrightarrow> dir (view w) p = None)"
    and create_law: "OpenFile F p FLAG_CREATE_RW w = (ro, w') \<Longrightarrow>
      (case ro of
         Inr h \<Rightarrow> dir (view w) p = None \<and> fresh_node (node h) (view w)
           \<and> view w' = put_data (node h) [] ((view w)\<lparr>dir := (dir (view w))(p \<mapsto> node h)\<rparr>)
       | Inl e \<Rightarrow> view w' = view w)"
    and create_always_law: "OpenFile F p FLAG_CREATE_ALWAYS_W w = (ro, w') \<Longrightarrow>
      (case ro of
         Inr h \<Rightarrow>
           (case dir (view w) p of Some n \<Rightarrow> node h = n | None \<Rightarrow> fresh_node (node h) (view w))
           \<and> view w' = put_data (node h) [] ((view w)\<lparr>dir := (dir (view w))(p \<mapsto> node h)\<rparr>)
       | Inl e \<Rightarrow> view w' = view w)"
    and read_law: "fRead F h off n w = (rb, w') \<Longrightarrow>
      view w' = view w
      \<and> (case rb of None \<Rightarrow> True
         | Some bs \<Rightarrow> 0 \<le> off \<and> bs = slice (nat off) n (data (view w) (node h)))"
    and read_check_law: "fReadAndCheck F h off n w = (rb, w') \<Longrightarrow>
      view w' = view w
      \<and> (case rb of None \<Rightarrow> True
         | Some bs \<Rightarrow> 0 \<le> off \<and> nat off + n \<le> length (data (view w) (node h))
             \<and> bs = slice (nat off) n (data (view w) (node h)))"
    and write_law: "fWrite F h off bs w = (rn, w') \<Longrightarrow>
      (case rn of None \<Rightarrow> \<exists>c. view w' = put_data (node h) c (view w)
       | Some k \<Rightarrow> 0 \<le> off \<and> k \<le> length bs
           \<and> view w' = put_data (node h)
                 (overwrite (nat off) (take k bs) (data (view w) (node h))) (view w))"
    and write_check_law: "fWriteAndCheck F h off bs w = (ok, w') \<Longrightarrow>
      (if ok
       then 0 \<le> off
         \<and> view w' = put_data (node h) (overwrite (nat off) bs (data (view w) (node h))) (view w)
       else (\<exists>c. view w' = put_data (node h) c (view w)))"
    and set_length_law: "fSetLength F h len w = (ok, w') \<Longrightarrow>
      (if ok
       then 0 \<le> len \<and> view w' = put_data (node h) (resize (nat len) (data (view w) (node h))) (view w)
       else view w' = view w)"
    and get_length_law: "fGetLength F h w = (len, w') \<Longrightarrow>
      view w' = view w \<and> (len < 0 \<or> len = int (length (data (view w) (node h))))"
    and get_info_law: "fGetInfo F h w = (ri, w') \<Longrightarrow>
      view w' = view w
      \<and> (case ri of None \<Rightarrow> True | Some i \<Rightarrow> fi_size i = int (length (data (view w) (node h))))"
    and delete_law: "DeleteFile F p mode w = (ok, w') \<Longrightarrow>
      view w' = (if ok then (view w)\<lparr>dir := (dir (view w))(p := None)\<rparr> else view w)"
    and replace_law: "ReplaceFile F p p' w = (ok, w') \<Longrightarrow>
      (if ok
       then dir (view w) p \<noteq> None
         \<and> view w' = (view w)\<lparr>dir := (dir (view w))(p := None, p' := dir (view w) p)\<rparr>
       else view w' = view w)"
    and create_dir_law: "CreateDirectory F p w = (ok, w') \<Longrightarrow> view w' = view w"
    and dir_exists_law: "DirectoryExists F p w = (ok, w') \<Longrightarrow> view w' = view w"
    and path_exists_law: "PathExists F p w = (ok, w') \<Longrightarrow> view w' = view w"
    and file_info_law: "GetFileInfo F p w = (fi, w') \<Longrightarrow> view w' = view w"
    and enumerate_law: "EnumerateFiles F p w = (e, w') \<Longrightarrow> view w' = view w"
    and next_law: "eNext F e w = (rd, e', w') \<Longrightarrow>
      view w' = view w \<and> (rd = None \<or> remaining e' < remaining e)"
    and register_law: "view (tRegister F t h w) = (view w)\<lparr>table := (table (view w))(t \<mapsto> node h)\<rparr>"
    and acquire_law: "tAcquire F t w = (rh, w') \<Longrightarrow>
      view w' = view w
      \<and> (case rh of None \<Rightarrow> True | Some h \<Rightarrow> table (view w) t = Some (node h))"
    and close_law: "view (tClose F t w) = (view w)\<lparr>table := (table (view w))(t := None)\<rparr>"
    and doom_law: "tDoom F o' key w = (key', w') \<Longrightarrow>
      view w' = view w \<and> entry_hash key' = entry_hash key \<and> doom_generation key' \<noteq> 0"
    and now_law: "Time_Now F w = (now, w') \<Longrightarrow> view w' = view w"

locale reliable_files = files +
  assumes opens: "dir (view w) p \<noteq> None \<Longrightarrow> \<exists>h. fst (OpenFile F p FLAG_OPEN_RW w) = Inr h"
    and opens_read: "dir (view w) p \<noteq> None \<Longrightarrow> \<exists>h. fst (OpenFile F p FLAG_OPEN_READ w) = Inr h"
    and opens_not: "dir (view w) p = None \<Longrightarrow> fst (OpenFile F p FLAG_OPEN_RW w) = Inl FILE_ERROR_NOT_FOUND"
    and creates: "dir (view w) p = None \<Longrightarrow> \<exists>h. fst (OpenFile F p FLAG_CREATE_RW w) = Inr h"
    and reads: "0 \<le> off \<Longrightarrow> fst (fRead F h off n w) \<noteq> None"
    and reads_check: "0 \<le> off \<Longrightarrow> nat off + n \<le> length (data (view w) (node h)) \<Longrightarrow>
      fst (fReadAndCheck F h off n w) \<noteq> None"
    and writes: "0 \<le> off \<Longrightarrow> fst (fWrite F h off bs w) = Some (length bs)"
    and writes_check: "0 \<le> off \<Longrightarrow> fst (fWriteAndCheck F h off bs w)"
    and sets_length: "0 \<le> len \<Longrightarrow> fst (fSetLength F h len w)"
    and gets_length: "0 \<le> fst (fGetLength F h w)"
    and gets_info: "fst (fGetInfo F h w) \<noteq> None"
    and deletes: "fst (DeleteFile F p mode w)"
    and replaces: "dir (view w) p \<noteq> None \<Longrightarrow> fst (ReplaceFile F p p' w)"
    and acquires: "table (view w) t \<noteq> None \<Longrightarrow> fst (tAcquire F t w) \<noteq> None"

text \<open>The files of a directory with their sizes; an enumerator lists each of them once.\<close>

definition dir_sizes :: "fs \<Rightarrow> path \<Rightarrow> (path \<times> int) set" where
  "dir_sizes v p = {(q, int (length (data v n))) | q n. dir v q = Some n \<and> q \<noteq> [] \<and> butlast q = p}"

locale listing_files = reliable_files +
  fixes listed :: "'e \<Rightarrow> dir_entry list"
  assumes lists: "EnumerateFiles F p w = (e, w') \<Longrightarrow>
      distinct (map de_path (listed e)) \<and> (\<lambda>d. (de_path d, de_size d)) ` set (listed e) = dir_sizes (view w) p"
    and next_none: "listed e = [] \<Longrightarrow> fst (eNext F e w) = None"
    and next_some: "listed e = d # ds \<Longrightarrow> \<exists>e' w'. eNext F e w = (Some d, e', w') \<and> listed e' = ds"
    and no_error: "\<not> eHasError F e"

section \<open>A file system in memory\<close>

text \<open>
  The names, the contents, the tracker's table, a clock and the number of operations so far: the
  operation with number \<open>k\<close> fails if \<open>fails k\<close>, and a failing write leaves half of its bytes.
\<close>

record mem =
  m_dir :: "(path \<times> nat) list"
  m_data :: "nat \<Rightarrow> bytes"
  m_table :: "(tracked \<times> nat) list"
  m_clock :: time
  m_step :: nat

definition empty_mem :: mem where
  "empty_mem = \<lparr>m_dir = [], m_data = (\<lambda>_. []), m_table = [], m_clock = 0, m_step = 0\<rparr>"

definition mem_view :: "mem \<Rightarrow> fs" where
  "mem_view w = \<lparr>dir = map_of (m_dir w), data = m_data w, table = map_of (m_table w)\<rparr>"

definition tick :: "mem \<Rightarrow> mem" where "tick w = w\<lparr>m_step := Suc (m_step w)\<rparr>"

definition mem_fresh :: "mem \<Rightarrow> nat" where
  "mem_fresh w = Suc (sum_list (map snd (m_dir w)) + sum_list (map snd (m_table w)))"

definition mem_put :: "nat \<Rightarrow> bytes \<Rightarrow> mem \<Rightarrow> mem" where
  "mem_put n bs w = w\<lparr>m_data := (m_data w)(n := bs)\<rparr>"

definition mem_open :: "(nat \<Rightarrow> bool) \<Rightarrow> path \<Rightarrow> open_flags \<Rightarrow> mem \<Rightarrow> (file_error + nat) \<times> mem" where
  "mem_open fails p fl w =
     (if fails (m_step w) then (Inl FILE_ERROR_OTHER, tick w)
      else (case map_of (m_dir w) p of
              Some n \<Rightarrow>
                if fl = FLAG_CREATE_RW then (Inl FILE_ERROR_OTHER, tick w)
                else if fl = FLAG_CREATE_ALWAYS_W then (Inr n, mem_put n [] (tick w))
                else (Inr n, tick w)
            | None \<Rightarrow>
                if fl = FLAG_OPEN_RW \<or> fl = FLAG_OPEN_READ then (Inl FILE_ERROR_NOT_FOUND, tick w)
                else (Inr (mem_fresh w),
                      mem_put (mem_fresh w) [] ((tick w)\<lparr>m_dir := (p, mem_fresh w) # m_dir w\<rparr>))))"

definition mem_read :: "(nat \<Rightarrow> bool) \<Rightarrow> nat \<Rightarrow> int \<Rightarrow> nat \<Rightarrow> mem \<Rightarrow> bytes option \<times> mem" where
  "mem_read fails h off n w =
     (if fails (m_step w) \<or> off < 0 then None else Some (slice (nat off) n (m_data w h)), tick w)"

definition mem_read_check :: "(nat \<Rightarrow> bool) \<Rightarrow> nat \<Rightarrow> int \<Rightarrow> nat \<Rightarrow> mem \<Rightarrow> bytes option \<times> mem" where
  "mem_read_check fails h off n w =
     (if fails (m_step w) \<or> off < 0 \<or> length (m_data w h) < nat off + n then None
      else Some (slice (nat off) n (m_data w h)), tick w)"

definition mem_write :: "(nat \<Rightarrow> bool) \<Rightarrow> nat \<Rightarrow> int \<Rightarrow> bytes \<Rightarrow> mem \<Rightarrow> nat option \<times> mem" where
  "mem_write fails h off bs w =
     (if off < 0 then (None, tick w)
      else if fails (m_step w)
      then (None, mem_put h (overwrite (nat off) (take (length bs div 2) bs) (m_data w h)) (tick w))
      else (Some (length bs), mem_put h (overwrite (nat off) bs (m_data w h)) (tick w)))"

definition mem_set_length :: "(nat \<Rightarrow> bool) \<Rightarrow> nat \<Rightarrow> int \<Rightarrow> mem \<Rightarrow> bool \<times> mem" where
  "mem_set_length fails h len w =
     (if fails (m_step w) \<or> len < 0 then (False, tick w)
      else (True, mem_put h (resize (nat len) (m_data w h)) (tick w)))"

definition mem_info :: "mem \<Rightarrow> nat \<Rightarrow> file_info" where
  "mem_info w h = \<lparr>fi_size = int (length (m_data w h)), fi_last_accessed = m_clock w,
     fi_last_modified = m_clock w\<rparr>"

definition mem_delete :: "(nat \<Rightarrow> bool) \<Rightarrow> path \<Rightarrow> delete_mode \<Rightarrow> mem \<Rightarrow> bool \<times> mem" where
  "mem_delete fails p mode w =
     (if fails (m_step w) then (False, tick w)
      else (True, (tick w)\<lparr>m_dir := AList.delete p (m_dir w)\<rparr>))"

definition mem_replace :: "(nat \<Rightarrow> bool) \<Rightarrow> path \<Rightarrow> path \<Rightarrow> mem \<Rightarrow> bool \<times> mem" where
  "mem_replace fails p p' w =
     (case map_of (m_dir w) p of
        None \<Rightarrow> (False, tick w)
      | Some n \<Rightarrow> if fails (m_step w) then (False, tick w)
                 else (True, (tick w)\<lparr>m_dir := AList.update p' n (AList.delete p (m_dir w))\<rparr>))"

definition mem_entries :: "path \<Rightarrow> mem \<Rightarrow> dir_entry list" where
  "mem_entries p w =
     map (\<lambda>(q, n). \<lparr>de_path = q, de_last_accessed = m_clock w, de_last_modified = m_clock w,
                    de_size = int (length (m_data w n))\<rparr>)
       (filter (\<lambda>(q, n). q \<noteq> [] \<and> butlast q = p) (AList.clearjunk (m_dir w)))"

definition mem_env :: "(nat \<Rightarrow> bool) \<Rightarrow> (mem, nat, dir_entry list) env" where
  "mem_env fails =
     \<lparr>OpenFile = mem_open fails, fRead = mem_read fails, fReadAndCheck = mem_read_check fails,
      fWrite = mem_write fails,
      fWriteAndCheck = (\<lambda>h off bs w. case mem_write fails h off bs w of (r, w) \<Rightarrow> (r \<noteq> None, w)),
      fSetLength = mem_set_length fails,
      fGetLength = (\<lambda>h w. (if fails (m_step w) then - 1 else int (length (m_data w h)), tick w)),
      fGetInfo = (\<lambda>h w. (if fails (m_step w) then None else Some (mem_info w h), tick w)),
      DeleteFile = mem_delete fails, ReplaceFile = mem_replace fails,
      CreateDirectory = (\<lambda>p w. (\<not> fails (m_step w), tick w)),
      DirectoryExists = (\<lambda>p w. (\<not> fails (m_step w), tick w)),
      PathExists = (\<lambda>p w. (map_of (m_dir w) p \<noteq> None, tick w)),
      GetFileInfo = (\<lambda>p w. (if fails (m_step w) then None
                            else map_option (mem_info w) (map_of (m_dir w) p), tick w)),
      EnumerateFiles = (\<lambda>p w. (mem_entries p w, tick w)),
      eNext = (\<lambda>e w. case e of [] \<Rightarrow> (None, [], tick w) | x # e \<Rightarrow> (Some x, e, tick w)),
      eHasError = (\<lambda>e. False),
      tRegister = (\<lambda>t h w. w\<lparr>m_table := AList.update t h (m_table w)\<rparr>),
      tAcquire = (\<lambda>t w. (if fails (m_step w) then None else map_of (m_table w) t, tick w)),
      tClose = (\<lambda>t w. w\<lparr>m_table := AList.delete t (m_table w)\<rparr>),
      tDoom = (\<lambda>owner key w. (key\<lparr>doom_generation := of_nat (owner mod 1000) + 1\<rparr>, w)),
      Time_Now = (\<lambda>w. (m_clock w, w\<lparr>m_clock := m_clock w + 1\<rparr>))\<rparr>"

lemma mem_view_simps [simp]:
  "mem_view (tick w) = mem_view w"
  "mem_view (mem_put n bs w) = put_data n bs (mem_view w)"
  "mem_view (w\<lparr>m_clock := c\<rparr>) = mem_view w"
  "mem_view (w\<lparr>m_dir := d\<rparr>) = (mem_view w)\<lparr>dir := map_of d\<rparr>"
  "mem_view (w\<lparr>m_table := t\<rparr>) = (mem_view w)\<lparr>table := map_of t\<rparr>"
  "dir (mem_view w) = map_of (m_dir w)" "data (mem_view w) = m_data w"
  "table (mem_view w) = map_of (m_table w)"
  by (simp_all add: mem_view_def tick_def mem_put_def put_data_def)

lemma put_data_same [simp]: "put_data n (data v n) v = v"
  by (simp add: put_data_def)

lemma map_of_le_sum: "map_of xs k = Some n \<Longrightarrow> (n :: nat) \<le> sum_list (map snd xs)"
  using member_le_sum_list [of n "map snd xs"] map_of_SomeD by force

lemma mem_fresh_node: "fresh_node (mem_fresh w) (mem_view w)"
  using map_of_le_sum [of "m_dir w" _ "mem_fresh w"] map_of_le_sum [of "m_table w" _ "mem_fresh w"]
  by (force simp: fresh_node_def ran_def mem_fresh_def)

lemma put_data_exists [intro, simp]: "\<exists>c. v = put_data n c v"
  by (rule exI [of _ "data v n"]) simp

lemma mem_generation [simp]: "(of_nat (n mod 1000) + 1 :: u64) \<noteq> 0"
proof
  assume "(of_nat (n mod 1000) + 1 :: u64) = 0"
  then have "(of_nat (Suc (n mod 1000)) :: u64) = 0" by (simp add: add.commute)
  then have "2 ^ 64 dvd Suc (n mod 1000)" unfolding word_of_nat_eq_0_iff by simp
  then show False using dvd_imp_le [of "2 ^ 64" "Suc (n mod 1000)"] mod_less_divisor [of 1000 n] by simp
qed

lemmas mem_ops = mem_open_def mem_read_def mem_read_check_def mem_write_def mem_set_length_def
  mem_delete_def mem_replace_def mem_info_def

interpretation faulty: files "mem_env fails" mem_view "\<lambda>h. h" length for fails
proof (unfold_locales, goal_cases)
  case (1 p fl w ro w')
  then show ?case
    by (auto simp: mem_env_def mem_open_def split: option.splits if_splits)
next
  case (2 p w ro w')
  then show ?case
    using mem_fresh_node [of w] by (auto simp: mem_env_def mem_open_def split: option.splits if_splits)
next
  case (3 p w ro w')
  then show ?case
    using mem_fresh_node [of w]
    by (auto simp: mem_env_def mem_open_def put_data_def mem_view_def map_upd_triv mem_put_def tick_def
        split: option.splits if_splits)
qed (auto simp: mem_env_def mem_ops delete_conv' update_conv' split: option.splits if_splits list.splits prod.splits)

interpretation mem: reliable_files "mem_env (\<lambda>_. False)" mem_view "\<lambda>h. h" length
  by unfold_locales (auto simp: mem_env_def mem_ops split: option.split)

lemma mem_entries_lists:
  "distinct (map de_path (mem_entries p w))"
  "(\<lambda>d. (de_path d, de_size d)) ` set (mem_entries p w) = dir_sizes (mem_view w) p"
proof -
  let ?xs = "AList.clearjunk (m_dir w)"
  have d: "distinct (map fst ?xs)" by (rule distinct_clearjunk)
  have "map de_path (mem_entries p w) = map fst (filter (\<lambda>(q, n). q \<noteq> [] \<and> butlast q = p) ?xs)"
    by (simp add: mem_entries_def case_prod_unfold)
  then show "distinct (map de_path (mem_entries p w))" using d by (simp add: distinct_map_filter)
  have in_xs: "(q, n) \<in> set ?xs \<longleftrightarrow> map_of (m_dir w) q = Some n" for q n
    using map_of_eq_Some_iff [OF d, of q n] by (simp add: map_of_clearjunk)
  show "(\<lambda>d. (de_path d, de_size d)) ` set (mem_entries p w) = dir_sizes (mem_view w) p"
    by (force simp: mem_entries_def dir_sizes_def in_xs image_iff)
qed

interpretation mem_lists: listing_files "mem_env (\<lambda>_. False)" mem_view "\<lambda>h. h" length "\<lambda>e. e"
  by unfold_locales (use mem_entries_lists in \<open>auto simp: mem_env_def\<close>)

end
