(* ===== verification/Index_File_Disk.thy ===== *)
theory Index_File_Disk imports Index_File_Correct File_Laws begin

text \<open>
  The index file on disk: it is written to a temporary file that then takes its name. Whatever operations
  fail, the file under the name of the index is the old one or the new one, and what is loaded from it
  later is one of the two indexes, whole.
\<close>

section \<open>Writing\<close>

text \<open>The file under a name holds some bytes; a change of the world keeps the file under a name.\<close>

definition holds_file :: "fs \<Rightarrow> path \<Rightarrow> bytes \<Rightarrow> bool" where
  "holds_file v p bs \<longleftrightarrow> (\<exists>n. dir v p = Some n \<and> data v n = bs)"

definition apart_names :: "path \<Rightarrow> path \<Rightarrow> fs \<Rightarrow> bool" where
  "apart_names p p' v \<longleftrightarrow> p \<noteq> p' \<and> (\<forall>n. dir v p = Some n \<longrightarrow> dir v p' \<noteq> Some n)"

context files begin

lemma WritePickleFile_law:
  assumes w: "WritePickleFile F P pickle temp w = (ok, w')" and ne: "apart_names temp index (view w)"
  shows "ok \<Longrightarrow> holds_file (view w') temp (pk_bytes P pickle)"
    and "holds_file (view w) index bs \<Longrightarrow> holds_file (view w') index bs"
proof -
  obtain ro w1 where o: "OpenFile F temp FLAG_CREATE_ALWAYS_W w = (ro, w1)" by force
  note ol = create_always_law [OF o]
  have "(ok \<longrightarrow> holds_file (view w') temp (pk_bytes P pickle))
    \<and> (holds_file (view w) index bs \<longrightarrow> holds_file (view w') index bs)"
  proof (cases ro)
    case (Inl e)
    with w o ol show ?thesis by (simp add: WritePickleFile_def)
  next
    case (Inr h)
    have v1: "view w1 = put_data (node h) [] ((view w)\<lparr>dir := (dir (view w))(temp \<mapsto> node h)\<rparr>)"
      using ol Inr by simp
    have other: "dir (view w) index \<noteq> Some (node h)"
      using ol Inr ne by (auto simp: apart_names_def fresh_node_def ran_def split: option.splits)
    obtain ok1 w2 where wr: "fWriteAndCheck F h 0 (pk_bytes P pickle) w1 = (ok1, w2)" by force
    obtain c where c: "view w2 = put_data (node h) c (view w1)" "ok1 \<longrightarrow> c = pk_bytes P pickle"
      using write_check_law [OF wr] v1 by (cases ok1) (auto simp: overwrite_def)
    have keep: "holds_file (view w2) index bs" if "holds_file (view w) index bs"
      using that other ne c(1) v1 by (auto simp: holds_file_def apart_names_def)
    show ?thesis
    proof (cases ok1)
      case True
      with w o Inr wr c v1 keep show ?thesis by (auto simp: WritePickleFile_def holds_file_def)
    next
      case False
      obtain d w3 where d: "DeleteFile F temp kEnsureImmediateAvailability w2 = (d, w3)" by force
      from w o Inr wr False d have "\<not> ok" "w' = w3" by (simp_all add: WritePickleFile_def)
      with delete_law [OF d] keep ne show ?thesis by (auto simp: holds_file_def apart_names_def)
    qed
  qed
  then show "ok \<Longrightarrow> holds_file (view w') temp (pk_bytes P pickle)"
    and "holds_file (view w) index bs \<Longrightarrow> holds_file (view w') index bs" by blast+
qed

lemma SyncWriteToDisk_law:
  assumes "SyncWriteToDiskInternal F P Z cache_directory index temp pickle w = (res, w')"
    and ne: "apart_names temp index (view w)"
  shows "res = kSuccess \<Longrightarrow> \<exists>t. holds_file (view w') index (pk_bytes P (SerializeFinalData P Z t pickle))"
    and "res \<noteq> kSuccess \<Longrightarrow> holds_file (view w) index bs \<Longrightarrow> holds_file (view w') index bs"
proof -
  obtain ex w1 where e: "DirectoryExists F (butlast temp) w = (ex, w1)" by force
  obtain cr w2 where c: "(if ex then (True, w1) else CreateDirectory F (butlast temp) w1) = (cr, w2)" by force
  have v2: "view w2 = view w" using dir_exists_law [OF e] create_dir_law c by (cases ex) auto
  have "(res = kSuccess \<longrightarrow> (\<exists>t. holds_file (view w') index (pk_bytes P (SerializeFinalData P Z t pickle))))
    \<and> (res \<noteq> kSuccess \<longrightarrow> holds_file (view w) index bs \<longrightarrow> holds_file (view w') index bs)"
  proof (cases cr)
    case False
    with assms(1) e c v2 show ?thesis by (auto simp: SyncWriteToDiskInternal_def Let_def)
  next
    case True
    obtain info w3 where i: "GetFileInfo F cache_directory w2 = (info, w3)" by force
    have v3: "view w3 = view w" using file_info_law [OF i] v2 by simp
    show ?thesis
    proof (cases info)
      case None
      with assms(1) e c i True v3 show ?thesis by (auto simp: SyncWriteToDiskInternal_def Let_def)
    next
      case (Some fi)
      let ?p = "SerializeFinalData P Z (fi_last_modified fi) pickle"
      obtain ok w4 where p: "WritePickleFile F P ?p temp w3 = (ok, w4)" by force
      have ne3: "apart_names temp index (view w3)" using ne v3 by simp
      note wl = WritePickleFile_law [OF p ne3]
      show ?thesis
      proof (cases ok)
        case False
        with assms(1) e c i True Some p wl(2) v3 show ?thesis by (auto simp: SyncWriteToDiskInternal_def Let_def)
      next
        case ok: True
        obtain rk w5 where r: "ReplaceFile F temp index w4 = (rk, w5)" by force
        from assms(1) e c i True Some p ok r have res: "w' = w5" "res = kSuccess \<longleftrightarrow> rk"
          by (auto simp: SyncWriteToDiskInternal_def Let_def split: if_splits)
        have "holds_file (view w5) index (pk_bytes P ?p)" if rk
          using replace_law [OF r] that wl(1) ok by (auto simp: holds_file_def)
        moreover have "view w5 = view w4" if "\<not> rk" using replace_law [OF r] that by simp
        ultimately show ?thesis using res wl(2) v3 by auto
      qed
    qed
  qed
  then show "res = kSuccess \<Longrightarrow> \<exists>t. holds_file (view w') index (pk_bytes P (SerializeFinalData P Z t pickle))"
    and "res \<noteq> kSuccess \<Longrightarrow> holds_file (view w) index bs \<Longrightarrow> holds_file (view w') index bs" by blast+
qed

section \<open>Loading\<close>

lemma SyncLoadFromDisk_law:
  assumes h: "holds_file (view w) index bs" and d: "\<And>t. Deserialize P Z ct bs t (Reset out) = Some (r, seen)"
    and r: "did_load r"
  shows "\<exists>r' seen' w'. SyncLoadFromDisk F P Z ct index last_seen out w = Some (r', seen', w')
    \<and> (if did_load r' then r' = r \<and> seen' = seen \<and> holds_file (view w') index bs else r' = Reset out)"
proof -
  have reset: "\<not> did_load (Reset out)" by (simp add: Reset_def)
  obtain n where n: "dir (view w) index = Some n" "data (view w) n = bs" using h by (auto simp: holds_file_def)
  obtain ro w1 where o: "OpenFile F index FLAG_OPEN_READ w = (ro, w1)" by force
  note ol = open_law [OF o]
  show ?thesis
  proof (cases ro)
    case (Inl e)
    with o reset show ?thesis by (simp add: SyncLoadFromDisk_def Let_def)
  next
    case (Inr f)
    have f: "view w1 = view w" "node f = n" using ol Inr n by simp_all
    obtain len w2 where l: "fGetLength F f w1 = (len, w2)" by force
    note ll = get_length_law [OF l]
    show ?thesis
    proof (cases "len < 0 \<or> len > kMaxIndexFileSizeBytes")
      case True
      with o Inr l reset show ?thesis by (simp add: SyncLoadFromDisk_def Let_def)
    next
      case False
      obtain rb w3 where rb: "fReadAndCheck F f 0 (nat len) w2 = (rb, w3)" by force
      note rl = read_check_law [OF rb]
      show ?thesis
      proof (cases rb)
        case None
        with o Inr l False rb reset show ?thesis by (simp add: SyncLoadFromDisk_def Let_def)
      next
        case (Some buf)
        have "len = int (length bs)" using ll False f n by simp
        then have "buf = bs" "view w3 = view w" using rl Some ll f n by (simp_all add: slice_0)
        with o Inr l False rb Some d [of last_seen] r h show ?thesis by (simp add: SyncLoadFromDisk_def Let_def)
      qed
    qed
  qed
qed

end

text \<open>C13: An index is loaded whole, and it is one that was written. Let the index file be an index \<open>old\<close>, and let the
writing of another one be attempted, with any operation failing at any point. Then the file under the name of the index
is the new one if the writer reports success and the old one otherwise; a load after that returns, and has
loaded exactly the entries and the reason of that index, in a file of at most the size limit, or nothing.\<close>
theorem loaded_index_was_written:
  assumes "files F view node remaining" and "pickle_laws P holds reads left"
    and "apart_names temp index (view w)"
    and "holds_file (view w) index (pk_bytes P (SerializeFinalData P Z t0 (WriteToDisk_pickle P ct reason0 old sz0)))"
    and "distinct (map fst old)" "length old \<le> kMaxEntriesInIndex" "reason0 < INDEX_WRITE_REASON_MAX"
    and "distinct (map fst new)" "length new \<le> kMaxEntriesInIndex" "reason < INDEX_WRITE_REASON_MAX"
  shows "case SyncWriteToDiskInternal F P Z cache_directory index temp (WriteToDisk_pickle P ct reason new sz) w of
      (res, w1) \<Rightarrow>
        (\<exists>r seen w2. SyncLoadFromDisk F P Z ct index last_seen out w1 = Some (r, seen, w2)
          \<and> (if did_load r
             then lr_entries r = (if res = kSuccess then new else old)
               \<and> index_write_reason r = (if res = kSuccess then reason else reason0)
             else r = Reset out))"
proof -
  obtain res w1 where wr: "SyncWriteToDiskInternal F P Z cache_directory index temp
      (WriteToDisk_pickle P ct reason new sz) w = (res, w1)" by force
  note written = files.SyncWriteToDisk_law [OF assms(1) wr assms(3)]
  have load: "\<exists>r seen w2. SyncLoadFromDisk F P Z ct index last_seen out w1 = Some (r, seen, w2)
      \<and> (if did_load r then lr_entries r = es \<and> index_write_reason r = re else r = Reset out)"
    if h: "holds_file (view w1) index (pk_bytes P (SerializeFinalData P Z t (WriteToDisk_pickle P ct re es sz')))"
      and es: "distinct (map fst es)" "length es \<le> kMaxEntriesInIndex" "re < INDEX_WRITE_REASON_MAX" for es re t sz'
  proof -
    let ?r = "(Reset out)\<lparr>lr_entries := es, index_write_reason := re, did_load := True\<rparr>"
    have "Deserialize P Z ct (pk_bytes P (SerializeFinalData P Z t (WriteToDisk_pickle P ct re es sz'))) u (Reset out)
        = Some (?r, wrap64 t)" for u
      using pickle_laws.Deserialize_Serialize [OF assms(2) es] by (simp add: Reset_def)
    moreover have "did_load ?r" by simp
    ultimately obtain r seen w2 where r: "SyncLoadFromDisk F P Z ct index last_seen out w1 = Some (r, seen, w2)"
      "if did_load r then r = ?r \<and> seen = wrap64 t \<and> holds_file (view w2) index
          (pk_bytes P (SerializeFinalData P Z t (WriteToDisk_pickle P ct re es sz'))) else r = Reset out"
      using files.SyncLoadFromDisk_law [OF assms(1) h, of P Z ct out ?r "wrap64 t" last_seen] by blast
    have "if did_load r then lr_entries r = es \<and> index_write_reason r = re else r = Reset out"
      using r(2) by (cases "did_load r") simp_all
    with r(1) show ?thesis by blast
  qed
  show ?thesis
  proof (cases "res = kSuccess")
    case True
    from load [OF _ assms(8-10)] written(1) [OF True] show ?thesis unfolding wr prod.case if_P [OF True] by blast
  next
    case False
    from load [OF written(2) [OF False assms(4)] assms(5-7)] show ?thesis unfolding wr prod.case if_not_P [OF False] .
  qed
qed

text \<open>A world with an index file, and a schedule in which every fourth operation fails.\<close>

definition sample_index_bytes :: bytes where
  "sample_index_bytes = pk_bytes java_pickle_ops (SerializeFinalData java_pickle_ops crc32_zlib 77
     (WriteToDisk_pickle java_pickle_ops DISK_CACHE INDEX_WRITE_REASON_IDLE [(5, EntryMetadata0)] 0))"

definition index_world :: mem where
  "index_world = empty_mem\<lparr>m_dir := [([''c'', ''i''], 1)], m_data := (\<lambda>_. sample_index_bytes)\<rparr>"

lemma loaded_index_was_written_witness:
  "case SyncWriteToDiskInternal (mem_env (\<lambda>k. 4 dvd k)) java_pickle_ops crc32_zlib [''c''] [''c'', ''i''] [''c'', ''t'']
        (WriteToDisk_pickle java_pickle_ops DISK_CACHE INDEX_WRITE_REASON_SHUTDOWN [(6, EntryMetadata0)] 0) index_world of
      (res, w1) \<Rightarrow>
        (\<exists>r seen w2. SyncLoadFromDisk (mem_env (\<lambda>k. 4 dvd k)) java_pickle_ops crc32_zlib DISK_CACHE [''c'', ''i''] 0 no_result w1
            = Some (r, seen, w2)
          \<and> (if did_load r
             then lr_entries r = (if res = kSuccess then [(6, EntryMetadata0)] else [(5, EntryMetadata0)])
               \<and> index_write_reason r = (if res = kSuccess then INDEX_WRITE_REASON_SHUTDOWN else INDEX_WRITE_REASON_IDLE)
             else r = Reset no_result))"
proof (rule loaded_index_was_written [OF faulty.files_axioms java_pickle.pickle_laws_axioms])
  show "apart_names [''c'', ''t''] [''c'', ''i''] (mem_view index_world)"
    by (simp add: apart_names_def index_world_def mem_view_def)
  show "holds_file (mem_view index_world) [''c'', ''i''] (pk_bytes java_pickle_ops (SerializeFinalData java_pickle_ops
      crc32_zlib 77 (WriteToDisk_pickle java_pickle_ops DISK_CACHE INDEX_WRITE_REASON_IDLE [(5, EntryMetadata0)] 0)))"
    by (simp add: holds_file_def index_world_def mem_view_def sample_index_bytes_def)
qed (simp_all add: kMaxEntriesInIndex_def INDEX_WRITE_REASON_IDLE_def INDEX_WRITE_REASON_SHUTDOWN_def INDEX_WRITE_REASON_MAX_def)

end
