(* ===== verification/Sync_State.thy ===== *)
theory Sync_State imports File_Env begin

text \<open>
  The data of simple_synchronous_entry.cc: the stat of an entry and the offsets computed from it, the
  prefetched range of a file, the requests and the entry itself.
\<close>

section \<open>SimpleEntryStat\<close>

record SimpleEntryStat =
  last_used :: time
  data_size :: "int list"
  sparse_data_size :: u64

definition set_data_size :: "nat \<Rightarrow> int \<Rightarrow> SimpleEntryStat \<Rightarrow> SimpleEntryStat" where
  "set_data_size i n st = st\<lparr>data_size := (data_size st)[i := n]\<rparr>"

text \<open>
  Sums of a \<open>size_t\<close> and an \<open>int64_t\<close> are unsigned and converted back; the others are signed and
  their overflow is undefined behaviour, which the sizes the file system can produce exclude.
\<close>

definition GetOffsetInFile :: "SimpleEntryStat \<Rightarrow> nat \<Rightarrow> int \<Rightarrow> nat \<Rightarrow> int" where
  "GetOffsetInFile st key_len offset stream_index =
     (let headers_size = wrap64 (int sizeof_SimpleFileHeader + int key_len);
          additional_offset = (if stream_index = 0
                               then wrap64 (data_size st ! 1 + int sizeof_SimpleFileEOF) else 0)
      in headers_size + offset + additional_offset)"

definition GetEOFOffsetInFile :: "SimpleEntryStat \<Rightarrow> nat \<Rightarrow> nat \<Rightarrow> int" where
  "GetEOFOffsetInFile st key_len stream_index =
     (let additional_offset = (if stream_index = 0 then int sizeof_SHA256 else 0)
      in additional_offset + GetOffsetInFile st key_len (data_size st ! stream_index) stream_index)"

definition GetLastEOFOffsetInFile :: "SimpleEntryStat \<Rightarrow> nat \<Rightarrow> nat \<Rightarrow> int" where
  "GetLastEOFOffsetInFile st key_len stream_index =
     (if stream_index = 1 then GetEOFOffsetInFile st key_len 0
      else GetEOFOffsetInFile st key_len stream_index)"

definition GetFileSize :: "SimpleEntryStat \<Rightarrow> nat \<Rightarrow> nat \<Rightarrow> int" where
  "GetFileSize st key_len file_index =
     (let total_data_size =
            (if file_index = 0
             then wrap64 (data_size st ! 0 + data_size st ! 1 + int sizeof_SHA256
                          + int sizeof_SimpleFileEOF)
             else data_size st ! 2)
      in GetFileSizeFromDataSize key_len total_data_size)"

section \<open>Prefetching\<close>

record PrefetchData =
  pf_file_size :: u64
  pf_buffer :: bytes
  pf_offset_in_file :: u64
  pf_earliest_requested_offset :: u64

definition new_PrefetchData :: "u64 \<Rightarrow> PrefetchData" where
  "new_PrefetchData file_size =
     \<lparr>pf_file_size = file_size, pf_buffer = [], pf_offset_in_file = 0,
      pf_earliest_requested_offset = file_size\<rparr>"

definition UpdateEarliestOffset :: "u64 \<Rightarrow> PrefetchData \<Rightarrow> PrefetchData" where
  "UpdateEarliestOffset offset pf =
     pf\<lparr>pf_earliest_requested_offset := min (pf_earliest_requested_offset pf) offset\<rparr>"

definition HasData :: "u64 \<Rightarrow> u64 \<Rightarrow> PrefetchData \<Rightarrow> bool \<times> PrefetchData" where
  "HasData offset len pf =
     (case CheckAdd64 offset len of
        None \<Rightarrow> (False, pf)
      | Some end_ \<Rightarrow>
          (offset \<ge> pf_offset_in_file pf
             \<and> end_ \<le> pf_offset_in_file pf + of_nat (length (pf_buffer pf)),
           UpdateEarliestOffset offset pf))"

text \<open>The bytes copied to the destination, or \<open>None\<close> if the range was not prefetched.\<close>

definition PrefetchData_ReadData :: "u64 \<Rightarrow> u64 \<Rightarrow> PrefetchData \<Rightarrow> bytes option \<times> PrefetchData" where
  "PrefetchData_ReadData offset len pf =
     (if len = 0 then (Some [], pf)
      else (case HasData offset len pf of
              (has, pf) \<Rightarrow>
                if \<not> has then (None, pf)
                else (let buffer_offset = offset - pf_offset_in_file pf
                      in (Some (slice (unat buffer_offset) (unat len) (pf_buffer pf)), pf))))"

definition PrefetchFromFile ::
    "('w, 'h, 'e) env \<Rightarrow> 'h \<Rightarrow> u64 \<Rightarrow> nat \<Rightarrow> PrefetchData \<Rightarrow> 'w \<Rightarrow> bool \<times> PrefetchData \<times> 'w" where
  "PrefetchFromFile F file offset len pf w =
     (if pf_buffer pf \<noteq> [] then (False, pf, w)
      else (case fReadAndCheck F file (wrap64 (uint offset)) len w of
              (None, w) \<Rightarrow> (False, pf\<lparr>pf_buffer := []\<rparr>, w)
            | (Some bs, w) \<Rightarrow> (True, pf\<lparr>pf_buffer := bs, pf_offset_in_file := offset\<rparr>, w)))"

text \<open>\<open>std::min<uint32_t>\<close> converts the difference to 32 bits before it compares.\<close>

definition GetDesiredTrailerPrefetchSize :: "PrefetchData \<Rightarrow> u32" where
  "GetDesiredTrailerPrefetchSize pf =
     min (- 1) (ucast (pf_file_size pf - pf_earliest_requested_offset pf))"

definition GetSimpleCacheFullPrefetchSize :: "sys \<Rightarrow> CacheType \<Rightarrow> u32" where
  "GetSimpleCacheFullPrefetchSize S type =
     (if \<not> kSimpleCachePrefetchExperiment S then 0
      else if type \<noteq> DISK_CACHE \<and> kSimpleCachePrefetchDiskCacheOnly S then 0
      else word_of_int (kSimpleCacheFullPrefetchSize S))"

definition GetSimpleCacheTrailerPrefetchSize :: "sys \<Rightarrow> int \<Rightarrow> CacheType \<Rightarrow> u32" where
  "GetSimpleCacheTrailerPrefetchSize S hint_size type =
     (if hint_size > 0 then word_of_int hint_size
      else if \<not> kSimpleCachePrefetchExperiment S then 0
      else if type \<noteq> DISK_CACHE \<and> kSimpleCachePrefetchDiskCacheOnly S then 0
      else word_of_int (kSimpleCacheTrailerPrefetchSpeculativeBytes S))"

section \<open>Requests and results\<close>

record SimpleStreamPrefetchData =
  spd_data :: "bytes option"
  stream_crc32 :: u32

record CRCRecord =
  crc_index :: nat
  has_crc32 :: bool
  data_crc32 :: u32

record ReadRequest =
  rr_index :: nat
  rr_offset :: int
  rr_buf_len :: int
  rr_previous_crc32 :: u32
  rr_request_update_crc :: bool
  rr_request_verify_crc :: bool

record ReadResult =
  rd_result :: net_result
  rd_updated_crc32 :: u32
  rd_crc_updated :: bool

record WriteRequest =
  wr_index :: nat
  wr_offset :: int
  wr_buf_len :: int
  wr_previous_crc32 :: u32
  wr_truncate :: bool
  wr_doomed :: bool
  wr_request_update_crc :: bool

record WriteResult =
  wd_result :: net_result
  wd_updated_crc32 :: u32
  wd_crc_updated :: bool

record SparseRequest =
  sparse_offset :: u64
  sparse_buf_len :: u64

record SparseRange =
  range_offset :: u64
  range_length :: u64
  range_data_crc32 :: u32
  range_file_offset :: int

datatype FileRequired = FILE_NOT_REQUIRED | FILE_REQUIRED

definition kInitialHeaderRead :: nat where "kInitialHeaderRead = 64 * 1024"

section \<open>The entry\<close>

text \<open>
  \<open>se_owner\<close> is the identity of the entry for the file tracker. The ranges of the sparse file are
  a \<open>std::map\<close>: an association list in the order of its keys.
\<close>

record SyncEntry =
  se_cache_type :: CacheType
  se_path :: path
  se_owner :: nat
  entry_file_key :: EntryFileKey
  se_key :: "bytes option"
  have_open_files :: bool
  se_initialized :: bool
  header_and_key_check_needed :: "bool list"
  trailer_prefetch_size :: u32
  computed_trailer_prefetch_size :: u32
  empty_file_omitted :: "bool list"
  sparse_ranges :: "(u64 \<times> SparseRange) list"
  sparse_file_open :: bool
  sparse_tail_offset :: u64

definition new_SyncEntry ::
    "CacheType \<Rightarrow> path \<Rightarrow> nat \<Rightarrow> bytes option \<Rightarrow> u64 \<Rightarrow> u32 \<Rightarrow> SyncEntry" where
  "new_SyncEntry ct path owner key hash prefetch_size =
     \<lparr>se_cache_type = ct, se_path = path, se_owner = owner,
      entry_file_key = \<lparr>entry_hash = hash, doom_generation = 0\<rparr>, se_key = key,
      have_open_files = False, se_initialized = False, header_and_key_check_needed = [False, False],
      trailer_prefetch_size = prefetch_size, computed_trailer_prefetch_size = 0,
      empty_file_omitted = [False, False], sparse_ranges = [], sparse_file_open = False,
      sparse_tail_offset = 0\<rparr>"

definition se_key_size :: "SyncEntry \<Rightarrow> nat" where
  "se_key_size E = length (the (se_key E))"

definition set_omitted :: "nat \<Rightarrow> bool \<Rightarrow> SyncEntry \<Rightarrow> SyncEntry" where
  "set_omitted i b E = E\<lparr>empty_file_omitted := (empty_file_omitted E)[i := b]\<rparr>"

definition set_check_needed :: "nat \<Rightarrow> bool \<Rightarrow> SyncEntry \<Rightarrow> SyncEntry" where
  "set_check_needed i b E = E\<lparr>header_and_key_check_needed := (header_and_key_check_needed E)[i := b]\<rparr>"

definition CanOmitEmptyFile :: "nat \<Rightarrow> bool" where
  "CanOmitEmptyFile file_index \<longleftrightarrow> file_index = GetFileIndexFromStreamIndex 2"

definition SubFileForFileIndex :: "nat \<Rightarrow> SubFile" where
  "SubFileForFileIndex file_index = (if file_index = 0 then FILE_0 else FILE_1)"

definition FileIndexForSubFile :: "SubFile \<Rightarrow> nat" where
  "FileIndexForSubFile sub_file = (if sub_file = FILE_0 then 0 else 1)"

definition GetFilenameFromFileIndex :: "SyncEntry \<Rightarrow> nat \<Rightarrow> path" where
  "GetFilenameFromFileIndex E file_index =
     AppendASCII (se_path E)
       (GetFilenameFromEntryFileKeyAndFileIndex (entry_file_key E) (int file_index))"

definition GetFilenameForSubfile :: "SyncEntry \<Rightarrow> SubFile \<Rightarrow> path" where
  "GetFilenameForSubfile E sub_file =
     (if sub_file = FILE_SPARSE
      then AppendASCII (se_path E) (GetSparseFilenameFromEntryFileKey (entry_file_key E))
      else GetFilenameFromFileIndex E (FileIndexForSubFile sub_file))"

definition tracked_file :: "SyncEntry \<Rightarrow> nat \<Rightarrow> tracked" where
  "tracked_file E file_index = (se_owner E, SubFileForFileIndex file_index)"

definition tracked_sparse :: "SyncEntry \<Rightarrow> tracked" where
  "tracked_sparse E = (se_owner E, FILE_SPARSE)"

section \<open>Layout\<close>

text \<open>
  The offsets are those of the layout of simple_entry_format.h: header, key, stream 1 and its EOF
  record, stream 0, the hash of the key and the EOF record of stream 0.
\<close>

definition sizes_ok :: "SimpleEntryStat \<Rightarrow> nat \<Rightarrow> bool" where
  "sizes_ok st k \<longleftrightarrow> length (data_size st) = 3 \<and> k < 2 ^ 32
     \<and> (\<forall>i < 3. 0 \<le> data_size st ! i \<and> data_size st ! i < 2 ^ 60)"

lemma sizes_okD:
  assumes "sizes_ok st k"
  shows "length (data_size st) = 3" "int k < 2 ^ 32"
    "0 \<le> data_size st ! 0" "data_size st ! 0 < 2 ^ 60"
    "0 \<le> data_size st ! Suc 0" "data_size st ! Suc 0 < 2 ^ 60"
    "0 \<le> data_size st ! 2" "data_size st ! 2 < 2 ^ 60"
proof -
  from assms have "\<forall>i < 3. 0 \<le> data_size st ! i \<and> data_size st ! i < 2 ^ 60"
    by (simp add: sizes_ok_def)
  then show "0 \<le> data_size st ! 0" "data_size st ! 0 < 2 ^ 60"
    "0 \<le> data_size st ! Suc 0" "data_size st ! Suc 0 < 2 ^ 60"
    "0 \<le> data_size st ! 2" "data_size st ! 2 < 2 ^ 60"
    by (force simp: numeral_eq_Suc)+
qed (use assms in \<open>simp_all add: sizes_ok_def\<close>)

lemma offsets [size_simps]:
  assumes "sizes_ok st k"
  shows "GetOffsetInFile st k off (Suc 0) = 24 + int k + off"
    "GetOffsetInFile st k off 2 = 24 + int k + off"
    "GetOffsetInFile st k off 0 = 24 + int k + off + data_size st ! 1 + 24"
    "GetEOFOffsetInFile st k (Suc 0) = 24 + int k + data_size st ! 1"
    "GetEOFOffsetInFile st k 2 = 24 + int k + data_size st ! 2"
    "GetEOFOffsetInFile st k 0 = 24 + int k + data_size st ! 1 + 24 + data_size st ! 0 + 32"
    "GetFileSize st k 0 = GetEOFOffsetInFile st k 0 + 24"
    "GetFileSize st k (Suc 0) = GetEOFOffsetInFile st k 2 + 24"
  using sizes_okD [OF assms]
  by (simp_all add: GetOffsetInFile_def GetEOFOffsetInFile_def GetFileSize_def Let_def
      GetFileSizeFromDataSize_def)

end
