(* ===== verification/Sync_Files.thy ===== *)
theory Sync_Files imports Sync_State begin

text \<open>
  The file handling of simple_synchronous_entry.cc: deleting and truncating the files of an entry,
  dooming it, opening, creating and closing its files and checking the header and the key at the
  start of a file; and the sparse file up to single ranges. A member function takes the environment,
  the entry and the world and returns its result with the entry and the world after it. The histogram
  calls and the binding of the file operations to a sequence are left out.
\<close>

section \<open>Deleting and truncating\<close>

definition TruncatePath :: "('w, 'h, 'e) env \<Rightarrow> path \<Rightarrow> 'w \<Rightarrow> bool \<times> 'w" where
  "TruncatePath F filename w =
     (case OpenFile F filename FLAG_OPEN_RW w of
        (Inl _, w) \<Rightarrow> (False, w)
      | (Inr file, w) \<Rightarrow>
          (case fSetLength F file 0 w of (ok, w) \<Rightarrow> if \<not> ok then (False, w) else (True, w)))"

definition plain_key :: "u64 \<Rightarrow> EntryFileKey" where
  "plain_key hash = \<lparr>entry_hash = hash, doom_generation = 0\<rparr>"

definition DeleteFileForEntryHash :: "('w, 'h, 'e) env \<Rightarrow> path \<Rightarrow> u64 \<Rightarrow> nat \<Rightarrow> 'w \<Rightarrow> bool \<times> 'w" where
  "DeleteFileForEntryHash F path hash file_index w =
     DeleteFile F (AppendASCII path
       (GetFilenameFromEntryFileKeyAndFileIndex (plain_key hash) (int file_index))) kDefault w"

fun delete_normal_files ::
    "('w, 'h, 'e) env \<Rightarrow> path \<Rightarrow> u64 \<Rightarrow> nat list \<Rightarrow> bool \<Rightarrow> 'w \<Rightarrow> bool \<times> 'w" where
  "delete_normal_files F path hash [] result w = (result, w)"
| "delete_normal_files F path hash (i # is) result w =
     (case DeleteFileForEntryHash F path hash i w of
        (ok, w) \<Rightarrow>
          delete_normal_files F path hash is (if \<not> ok \<and> \<not> CanOmitEmptyFile i then False else result) w)"

definition DeleteFilesForEntryHash :: "('w, 'h, 'e) env \<Rightarrow> path \<Rightarrow> u64 \<Rightarrow> 'w \<Rightarrow> bool \<times> 'w" where
  "DeleteFilesForEntryHash F path hash w =
     (let (result, w) = delete_normal_files F path hash [0..<kSimpleEntryNormalFileCount] True w;
          to_delete = AppendASCII path (GetSparseFilenameFromEntryFileKey (plain_key hash));
          (_, w) = DeleteFile F to_delete kEnsureImmediateAvailability w
      in (result, w))"

fun truncate_normal_files ::
    "('w, 'h, 'e) env \<Rightarrow> path \<Rightarrow> u64 \<Rightarrow> nat list \<Rightarrow> bool \<Rightarrow> 'w \<Rightarrow> bool \<times> 'w" where
  "truncate_normal_files F path hash [] result w = (result, w)"
| "truncate_normal_files F path hash (i # is) result w =
     (case TruncatePath F (AppendASCII path
             (GetFilenameFromEntryFileKeyAndFileIndex (plain_key hash) (int i))) w of
        (ok, w) \<Rightarrow> truncate_normal_files F path hash is (if \<not> ok then False else result) w)"

definition TruncateFilesForEntryHash :: "('w, 'h, 'e) env \<Rightarrow> path \<Rightarrow> u64 \<Rightarrow> 'w \<Rightarrow> bool \<times> 'w" where
  "TruncateFilesForEntryHash F path hash w =
     (let (result, w) = truncate_normal_files F path hash [0..<kSimpleEntryNormalFileCount] True w;
          to_delete = AppendASCII path (GetSparseFilenameFromEntryFileKey (plain_key hash));
          (_, w) = TruncatePath F to_delete w
      in (result, w))"

definition DeleteEntryFilesInternal :: "('w, 'h, 'e) env \<Rightarrow> path \<Rightarrow> u64 \<Rightarrow> 'w \<Rightarrow> net_result \<times> 'w" where
  "DeleteEntryFilesInternal F path hash w =
     (case DeleteFilesForEntryHash F path hash w of
        (deleted_well, w) \<Rightarrow> (if deleted_well then net_OK else Err ERR_FAILED, w))"

definition DeleteEntryFiles :: "('w, 'h, 'e) env \<Rightarrow> path \<Rightarrow> u64 \<Rightarrow> 'w \<Rightarrow> net_result \<times> 'w" where
  "DeleteEntryFiles F path hash w = DeleteEntryFilesInternal F path hash w"

definition TruncateEntryFiles :: "('w, 'h, 'e) env \<Rightarrow> path \<Rightarrow> u64 \<Rightarrow> 'w \<Rightarrow> net_result \<times> 'w" where
  "TruncateEntryFiles F path hash w =
     (case TruncateFilesForEntryHash F path hash w of
        (deleted_well, w) \<Rightarrow> (if deleted_well then net_OK else Err ERR_FAILED, w))"

fun count_deleted :: "('w, 'h, 'e) env \<Rightarrow> path \<Rightarrow> u64 list \<Rightarrow> nat \<Rightarrow> 'w \<Rightarrow> nat \<times> 'w" where
  "count_deleted F path [] n w = (n, w)"
| "count_deleted F path (h # hs) n w =
     (case DeleteFilesForEntryHash F path h w of
        (ok, w) \<Rightarrow> count_deleted F path hs (if ok then Suc n else n) w)"

definition DeleteEntrySetFiles :: "('w, 'h, 'e) env \<Rightarrow> u64 list \<Rightarrow> path \<Rightarrow> 'w \<Rightarrow> net_result \<times> 'w" where
  "DeleteEntrySetFiles F key_hashes path w =
     (case count_deleted F path key_hashes 0 w of
        (did_delete_count, w) \<Rightarrow>
          (if did_delete_count = length key_hashes then net_OK else Err ERR_FAILED, w))"

section \<open>Dooming\<close>

fun rename_doomed_files ::
    "('w, 'h, 'e) env \<Rightarrow> SyncEntry \<Rightarrow> EntryFileKey \<Rightarrow> nat list \<Rightarrow> bool \<Rightarrow> 'w \<Rightarrow> bool \<times> 'w" where
  "rename_doomed_files F E orig_key [] ok w = (ok, w)"
| "rename_doomed_files F E orig_key (i # is) ok w =
     (if empty_file_omitted E ! i then rename_doomed_files F E orig_key is ok w
      else
        (let old_name = AppendASCII (se_path E)
               (GetFilenameFromEntryFileKeyAndFileIndex orig_key (int i));
             new_name = AppendASCII (se_path E)
               (GetFilenameFromEntryFileKeyAndFileIndex (entry_file_key E) (int i));
             (replaced, w) = ReplaceFile F old_name new_name w
         in rename_doomed_files F E orig_key is (replaced \<and> ok) w))"

definition DoomInternal :: "('w, 'h, 'e) env \<Rightarrow> SyncEntry \<Rightarrow> 'w \<Rightarrow> net_result \<times> SyncEntry \<times> 'w" where
  "DoomInternal F E w =
     (if doom_generation (entry_file_key E) \<noteq> 0 then (Net 1, E, w)
      else if have_open_files E
      then
        (let orig_key = entry_file_key E;
             (new_key, w) = tDoom F (se_owner E) orig_key w;
             E = E\<lparr>entry_file_key := new_key\<rparr>;
             (ok, w) = rename_doomed_files F E orig_key [0..<kSimpleEntryNormalFileCount] True w;
             (ok, w) =
               (if sparse_file_open E
                then (let old_name = AppendASCII (se_path E) (GetSparseFilenameFromEntryFileKey orig_key);
                          new_name = AppendASCII (se_path E)
                            (GetSparseFilenameFromEntryFileKey (entry_file_key E));
                          (replaced, w) = ReplaceFile F old_name new_name w
                      in (replaced \<and> ok, w))
                else (ok, w))
         in (if ok then net_OK else Err ERR_FAILED, E, w))
      else
        (case DeleteEntryFilesInternal F (se_path E) (entry_hash (entry_file_key E)) w of
           (rv, w) \<Rightarrow> (rv, E, w)))"

definition Doom :: "('w, 'h, 'e) env \<Rightarrow> SyncEntry \<Rightarrow> 'w \<Rightarrow> net_result \<times> SyncEntry \<times> 'w" where
  "Doom F E w = DoomInternal F E w"

text \<open>Dooming where the code ignores the result.\<close>

definition doom_entry :: "('w, 'h, 'e) env \<Rightarrow> SyncEntry \<Rightarrow> 'w \<Rightarrow> SyncEntry \<times> 'w" where
  "doom_entry F E w = snd (DoomInternal F E w)"

section \<open>Closing\<close>

definition CloseFile :: "('w, 'h, 'e) env \<Rightarrow> nat \<Rightarrow> SyncEntry \<Rightarrow> 'w \<Rightarrow> SyncEntry \<times> 'w" where
  "CloseFile F i E w =
     (if empty_file_omitted E ! i then (set_omitted i False E, w)
      else
        (let w = (if doom_generation (entry_file_key E) \<noteq> 0
                  then snd (DeleteFile F (AppendASCII (se_path E)
                    (GetFilenameFromEntryFileKeyAndFileIndex (entry_file_key E) (int i))) kDefault w)
                  else w)
         in (E, tClose F (tracked_file E i) w)))"

fun close_each :: "('w, 'h, 'e) env \<Rightarrow> nat list \<Rightarrow> SyncEntry \<Rightarrow> 'w \<Rightarrow> SyncEntry \<times> 'w" where
  "close_each F [] E w = (E, w)"
| "close_each F (i # is) E w = (case CloseFile F i E w of (E, w) \<Rightarrow> close_each F is E w)"

definition CloseSparseFile :: "('w, 'h, 'e) env \<Rightarrow> SyncEntry \<Rightarrow> 'w \<Rightarrow> SyncEntry \<times> 'w" where
  "CloseSparseFile F E w =
     (let w = (if doom_generation (entry_file_key E) \<noteq> 0
               then snd (DeleteFile F (AppendASCII (se_path E)
                 (GetSparseFilenameFromEntryFileKey (entry_file_key E))) kDefault w)
               else w);
          w = tClose F (tracked_sparse E) w
      in (E\<lparr>sparse_file_open := False\<rparr>, w))"

definition CloseFiles :: "('w, 'h, 'e) env \<Rightarrow> SyncEntry \<Rightarrow> 'w \<Rightarrow> SyncEntry \<times> 'w" where
  "CloseFiles F E w =
     (if \<not> have_open_files E then (E, w)
      else
        (let (E, w) = close_each F [0..<kSimpleEntryNormalFileCount] E w;
             (E, w) = (if sparse_file_open E then CloseSparseFile F E w else (E, w))
         in (E\<lparr>have_open_files := False\<rparr>, w)))"

section \<open>Opening and creating\<close>

definition MaybeOpenFile ::
    "('w, 'h, 'e) env \<Rightarrow> nat \<Rightarrow> SyncEntry \<Rightarrow> 'w \<Rightarrow> bool \<times> SyncEntry \<times> 'w" where
  "MaybeOpenFile F i E w =
     (case OpenFile F (GetFilenameFromFileIndex E i) FLAG_OPEN_RW w of
        (Inl error, w) \<Rightarrow>
          if CanOmitEmptyFile i \<and> error = FILE_ERROR_NOT_FOUND then (True, set_omitted i True E, w)
          else (False, E, w)
      | (Inr file, w) \<Rightarrow> (True, E, tRegister F (tracked_file E i) file w))"

definition MaybeCreateFile ::
    "('w, 'h, 'e) env \<Rightarrow> nat \<Rightarrow> FileRequired \<Rightarrow> SyncEntry \<Rightarrow> 'w \<Rightarrow> bool \<times> SyncEntry \<times> 'w" where
  "MaybeCreateFile F i file_required E w =
     (if CanOmitEmptyFile i \<and> file_required = FILE_NOT_REQUIRED then (True, set_omitted i True E, w)
      else
        (let filename = GetFilenameFromFileIndex E i;
             (file, w) = OpenFile F filename FLAG_CREATE_RW w;
             (file, w) =
               (if file = Inl FILE_ERROR_NOT_FOUND
                then OpenFile F filename FLAG_CREATE_RW (snd (CreateDirectory F (se_path E) w))
                else (file, w))
         in case file of
              Inl _ \<Rightarrow> (False, E, w)
            | Inr h \<Rightarrow> (True, set_omitted i False E, tRegister F (tracked_file E i) h w)))"

text \<open>The first file that cannot be opened ends the loop; those before it are closed again.\<close>

fun open_each ::
    "('w, 'h, 'e) env \<Rightarrow> nat list \<Rightarrow> SyncEntry \<Rightarrow> 'w \<Rightarrow> bool \<times> SyncEntry \<times> 'w" where
  "open_each F [] E w = (True, E, w)"
| "open_each F (i # is) E w =
     (case MaybeOpenFile F i E w of
        (ok, E, w) \<Rightarrow>
          if \<not> ok then (case close_each F (rev [0..<i]) E w of (E, w) \<Rightarrow> (False, E, w))
          else open_each F is E w)"

fun stat_each ::
    "('w, 'h, 'e) env \<Rightarrow> nat list \<Rightarrow> SyncEntry \<Rightarrow> SimpleEntryStat \<Rightarrow> 'w \<Rightarrow> SimpleEntryStat \<times> 'w" where
  "stat_each F [] E st w = (st, w)"
| "stat_each F (i # is) E st w =
     (if empty_file_omitted E ! i then stat_each F is E (set_data_size (i + 1) 0 st) w
      else
        (case tAcquire F (tracked_file E i) w of
           (None, w) \<Rightarrow> stat_each F is E st w
         | (Some file, w) \<Rightarrow>
             (case fGetInfo F file w of
                (None, w) \<Rightarrow> stat_each F is E st w
              | (Some info, w) \<Rightarrow>
                  stat_each F is E
                    (set_data_size (i + 1) (fi_size info) (st\<lparr>last_used := fi_last_accessed info\<rparr>)) w)))"

definition OpenFiles ::
    "('w, 'h, 'e) env \<Rightarrow> SyncEntry \<Rightarrow> SimpleEntryStat \<Rightarrow> 'w \<Rightarrow> bool \<times> SyncEntry \<times> SimpleEntryStat \<times> 'w" where
  "OpenFiles F E st w =
     (case open_each F [0..<kSimpleEntryNormalFileCount] E w of
        (ok, E, w) \<Rightarrow>
          if \<not> ok then (False, E, st, w)
          else
            (let E = E\<lparr>have_open_files := True\<rparr>;
                 (st, w) = stat_each F [0..<kSimpleEntryNormalFileCount] E st w
             in (True, E, st, w)))"

fun create_each ::
    "('w, 'h, 'e) env \<Rightarrow> nat list \<Rightarrow> SyncEntry \<Rightarrow> 'w \<Rightarrow> bool \<times> SyncEntry \<times> 'w" where
  "create_each F [] E w = (True, E, w)"
| "create_each F (i # is) E w =
     (case MaybeCreateFile F i FILE_NOT_REQUIRED E w of
        (ok, E, w) \<Rightarrow>
          if \<not> ok then (case close_each F (rev [0..<i]) E w of (E, w) \<Rightarrow> (False, E, w))
          else create_each F is E w)"

definition CreateFiles ::
    "('w, 'h, 'e) env \<Rightarrow> SyncEntry \<Rightarrow> SimpleEntryStat \<Rightarrow> 'w \<Rightarrow> bool \<times> SyncEntry \<times> SimpleEntryStat \<times> 'w" where
  "CreateFiles F E st w =
     (case create_each F [0..<kSimpleEntryNormalFileCount] E w of
        (ok, E, w) \<Rightarrow>
          if \<not> ok then (False, E, st, w)
          else
            (let E = E\<lparr>have_open_files := True\<rparr>;
                 (creation_time, w) = Time_Now F w;
                 st = st\<lparr>last_used := creation_time\<rparr>;
                 st = fold (\<lambda>i. set_data_size i 0) [0..<kSimpleEntryNormalFileCount] st
             in (True, E, st, w)))"

definition entry_header :: "u32 \<Rightarrow> bytes \<Rightarrow> u32 \<Rightarrow> SimpleFileHeader" where
  "entry_header version key hash = empty_header\<lparr>initial_magic_number := kSimpleInitialMagicNumber,
     hdr_version := version, key_length := of_nat (length key), key_hash := hash\<rparr>"

definition InitializeCreatedFile ::
    "('w, 'h, 'e) env \<Rightarrow> nat \<Rightarrow> SyncEntry \<Rightarrow> 'w \<Rightarrow> (bool \<times> 'w) option" where
  "InitializeCreatedFile F i E w =
     (case tAcquire F (tracked_file E i) w of
        (None, w) \<Rightarrow> Some (False, w)
      | (Some file, w) \<Rightarrow>
          do {
            let key = the (se_key E);
            hash \<leftarrow> PersistentHash key;
            let header = entry_header kSimpleEntryVersionOnDisk key hash;
            let (ok, w) = fWriteAndCheck F file 0 (header_bytes header) w;
            if \<not> ok then Some (False, w)
            else (let (ok, w) = fWriteAndCheck F file (int sizeof_SimpleFileHeader) key w
                  in Some (ok, w))
          })"

section \<open>The header and the key\<close>

definition CheckHeaderAndKey ::
    "('w, 'h, 'e) env \<Rightarrow> 'h \<Rightarrow> nat \<Rightarrow> SyncEntry \<Rightarrow> 'w \<Rightarrow> (bool \<times> SyncEntry \<times> 'w) option" where
  "CheckHeaderAndKey F file i E w =
     (let to_read = (case se_key E of None \<Rightarrow> kInitialHeaderRead | Some key \<Rightarrow> GetHeaderSize (length key));
          (maybe_read, w) = fRead F file 0 to_read w;
          header_data = (case maybe_read of None \<Rightarrow> [] | Some bs \<Rightarrow> bs)
      in if length header_data < sizeof_SimpleFileHeader then Some (False, E, w)
         else
           (let header = header_of header_data
            in if initial_magic_number header \<noteq> kSimpleInitialMagicNumber then Some (False, E, w)
               else if hdr_version header \<noteq> kSimpleEntryVersionOnDisk then Some (False, E, w)
               else
                 (let expected_header_size = GetHeaderSize (unat (key_length header));
                      old_size = length header_data;
                      (rest, w) =
                        (if old_size < expected_header_size
                         then fReadAndCheck F file (int old_size) (expected_header_size - old_size) w
                         else (Some [], w))
                  in case rest of
                       None \<Rightarrow> Some (False, E, w)
                     | Some rest \<Rightarrow>
                         do {
                           let key_span = slice sizeof_SimpleFileHeader (unat (key_length header))
                                            (header_data @ rest);
                           hash \<leftarrow> PersistentHash key_span;
                           if hash \<noteq> key_hash header then Some (False, E, w)
                           else (case se_key E of
                                   None \<Rightarrow>
                                     Some (True, set_check_needed i False (E\<lparr>se_key := Some key_span\<rparr>), w)
                                 | Some key \<Rightarrow>
                                     if key \<noteq> key_span then Some (False, E, w)
                                     else Some (True, set_check_needed i False E, w))
                         })))"

end
