(* ===== verification/Index_Restore.thy ===== *)
theory Index_Restore imports Index_File_Disk Sync_Files begin

text \<open>
  Restoring the index from the files of the cache directory: without faults, the index has an entry for
  each hash that a file is named after, with the size of its files, and the files that doomed entries left
  behind are deleted.
\<close>

section \<open>The files of an entry\<close>

text \<open>A file whose name starts with \<open>todelete_\<close> is left over; the other names count if they have a hash.\<close>

definition left_over :: "path \<Rightarrow> bool" where
  "left_over q \<longleftrightarrow> take (length ''todelete_'') (last q) = ''todelete_''"

definition hash_of_file :: "(string \<Rightarrow> u64 option) \<Rightarrow> path \<Rightarrow> u64 option" where
  "hash_of_file hex_parse q = (if left_over q then None else entry_file_hash hex_parse (last q))"

definition rounded :: "int \<Rightarrow> int" where
  "rounded n = (n + 255) div 256 * 256"

definition files_of :: "(string \<Rightarrow> u64 option) \<Rightarrow> u64 \<Rightarrow> fs \<Rightarrow> path \<Rightarrow> (path \<times> int) set" where
  "files_of hex_parse h v p = {x \<in> dir_sizes v p. hash_of_file hex_parse (fst x) = Some h}"

definition size_on_disk :: "(string \<Rightarrow> u64 option) \<Rightarrow> u64 \<Rightarrow> fs \<Rightarrow> path \<Rightarrow> int" where
  "size_on_disk hex_parse h v p = (\<Sum>x\<in>files_of hex_parse h v p. rounded (snd x))"

fun listed_size :: "(string \<Rightarrow> u64 option) \<Rightarrow> u64 \<Rightarrow> dir_entry list \<Rightarrow> int" where
  "listed_size hex_parse h [] = 0"
| "listed_size hex_parse h (d # ds) =
     (if hash_of_file hex_parse (de_path d) = Some h then rounded (de_size d) else 0) + listed_size hex_parse h ds"

definition named :: "(string \<Rightarrow> u64 option) \<Rightarrow> u64 \<Rightarrow> dir_entry list \<Rightarrow> bool" where
  "named hex_parse h ds \<longleftrightarrow> (\<exists>d\<in>set ds. hash_of_file hex_parse (de_path d) = Some h)"

lemma listed_size_append [simp]: "listed_size hex h (ds @ ds') = listed_size hex h ds + listed_size hex h ds'"
  by (induction ds) simp_all

lemma named_append [simp]: "named hex h (ds @ ds') \<longleftrightarrow> named hex h ds \<or> named hex h ds'"
  by (auto simp: named_def)

lemma rounded_props: "0 \<le> n \<Longrightarrow> n \<le> rounded n" "0 \<le> n \<Longrightarrow> 0 \<le> rounded n" "256 dvd rounded n"
  by (simp_all add: rounded_def)

lemma rounded_add: "256 dvd m \<Longrightarrow> rounded (n + m) = rounded n + m"
proof (elim dvdE)
  fix k :: int assume "m = 256 * k"
  then have "n + m + 255 = (n + 255) + k * 256" by simp
  then have "(n + m + 255) div 256 = k + (n + 255) div 256" using div_mult_self1 [of "256 :: int" "n + 255" k] by simp
  with \<open>m = 256 * k\<close> show ?thesis by (simp add: rounded_def)
qed

lemma listed_size_nonneg: "(\<And>d. d \<in> set ds \<Longrightarrow> 0 \<le> de_size d) \<Longrightarrow> 0 \<le> listed_size hex h ds"
  by (induction ds) (auto intro!: add_nonneg_nonneg rounded_props)

lemma listed_size_dvd: "256 dvd listed_size hex h ds"
  by (induction ds) (auto simp: rounded_props)

section \<open>One file\<close>

text \<open>
  The entries so far account for the files so far. The sizes of an entry are added up in 32 bits; where that is not
  possible the entry has a size that stands for an unknown one, and so has the entry of a single larger file.
\<close>

definition sole_size :: "(string \<Rightarrow> u64 option) \<Rightarrow> u64 \<Rightarrow> dir_entry list \<Rightarrow> int option" where
  "sole_size hex_parse h ds =
     (case filter (\<lambda>d. hash_of_file hex_parse (de_path d) = Some h) ds of [d] \<Rightarrow> Some (de_size d) | _ \<Rightarrow> None)"

definition counted_at :: "(string \<Rightarrow> u64 option) \<Rightarrow> EntrySet \<Rightarrow> dir_entry list \<Rightarrow> u64 \<Rightarrow> bool" where
  "counted_at hex_parse es ds h \<longleftrightarrow>
     (case map_of es h of
        None \<Rightarrow> \<not> named hex_parse h ds
      | Some m \<Rightarrow> named hex_parse h ds
          \<and> (listed_size hex_parse h ds < 2 ^ 32 \<longrightarrow> uint (GetEntrySize m) = listed_size hex_parse h ds)
          \<and> (\<forall>n. sole_size hex_parse h ds = Some n \<longrightarrow> 2 ^ 32 \<le> n
                \<longrightarrow> uint (GetEntrySize m) = uint kPlaceHolderSizeWhenInvalid))"

definition counted :: "(string \<Rightarrow> u64 option) \<Rightarrow> EntrySet \<Rightarrow> dir_entry list \<Rightarrow> bool" where
  "counted hex_parse es ds \<longleftrightarrow> (\<forall>h. counted_at hex_parse es ds h)"

lemma not_named_filter: "\<not> named hex h ds \<longleftrightarrow> filter (\<lambda>d. hash_of_file hex (de_path d) = Some h) ds = []"
  by (auto simp: named_def filter_empty_conv)

lemma sole_size_append: "sole_size hex h (ds @ [d]) =
    (if hash_of_file hex (de_path d) \<noteq> Some h then sole_size hex h ds
     else if named hex h ds then None else Some (de_size d))"
  using not_named_filter [of hex h ds] by (auto simp: sole_size_def split: list.split)

lemma named_single: "named hex h [d] \<longleftrightarrow> hash_of_file hex (de_path d) = Some h"
  by (simp add: named_def)

lemma counted_step:
  assumes c: "counted hex es ds" and h: "hash_of_file hex (de_path d) = Some h"
    and m: "\<And>k. map_of es' k = (if k = h then Some m else map_of es k)"
    and size: "listed_size hex h ds + rounded (de_size d) < 2 ^ 32 \<Longrightarrow>
      uint (GetEntrySize m) = listed_size hex h ds + rounded (de_size d)"
    and sole: "\<not> named hex h ds \<Longrightarrow> 2 ^ 32 \<le> de_size d \<Longrightarrow> uint (GetEntrySize m) = uint kPlaceHolderSizeWhenInvalid"
  shows "counted hex es' (ds @ [d])"
  unfolding counted_def
proof
  fix k
  have "counted_at hex es ds k" using c by (simp add: counted_def)
  with h m [of k] size sole show "counted_at hex es' (ds @ [d]) k"
    by (cases "k = h") (auto simp: counted_at_def named_single sole_size_append split: option.splits)
qed

lemma set_size_u32:
  assumes "0 \<le> n" "n < 2 ^ 32"
  obtains m' where "SetEntrySize (ucast (word_of_int n :: u32)) m = Some m'" "uint (GetEntrySize m') = rounded n"
proof -
  let ?s = "ucast (word_of_int n :: u32) :: u64"
  have u: "uint ?s = n" using assms by (simp add: uint_up_ucast is_up uint_word_of_int)
  then have "uint ?s \<le> 2 ^ 64 - 256" using assms(2) by simp
  note s = SetEntrySize_None [OF this, of m] SetEntrySize_Some [OF this, of m]
  obtain m' where m': "SetEntrySize ?s m = Some m'" using s(1) u assms(2) by (cases "SetEntrySize ?s m") auto
  with s(2) [OF m'] u that show thesis by (simp add: rounded_def)
qed

lemma small_sizes:
  fixes s :: u32
  shows "SetEntrySize (ucast s) m \<noteq> None"
  using set_size_u32 [of "uint s" m] uint_lt2p [of s] by fastforce

lemma new_entry_size:
  assumes "0 \<le> n"
  obtains m where "(if ct = APP_CACHE then EntryMetadata_of_prefetch 0 (ucast (ValueOrDefault kPlaceHolderSizeWhenInvalid (checked_u32 n)))
      else EntryMetadata_of_time t (ucast (ValueOrDefault kPlaceHolderSizeWhenInvalid (checked_u32 n)))) = Some m"
    "n < 2 ^ 32 \<longrightarrow> uint (GetEntrySize m) = rounded n"
    "2 ^ 32 \<le> n \<longrightarrow> uint (GetEntrySize m) = uint kPlaceHolderSizeWhenInvalid"
proof -
  let ?s = "ValueOrDefault kPlaceHolderSizeWhenInvalid (checked_u32 n)"
  obtain m0 where m0: "SetEntrySize (ucast ?s) EntryMetadata0 = Some m0" using small_sizes by blast
  have size: "uint (GetEntrySize m0) = rounded n" if lt: "n < 2 ^ 32"
  proof -
    obtain m' where "SetEntrySize (ucast (word_of_int n :: u32)) EntryMetadata0 = Some m'" "uint (GetEntrySize m') = rounded n"
      by (rule set_size_u32 [OF assms lt])
    then show ?thesis using m0 assms lt by (simp add: checked_u32_def ValueOrDefault_def)
  qed
  have big: "uint (GetEntrySize m0) = uint kPlaceHolderSizeWhenInvalid" if "2 ^ 32 \<le> n"
  proof -
    obtain m' where "SetEntrySize (ucast (word_of_int 32768 :: u32)) EntryMetadata0 = Some m'" "uint (GetEntrySize m') = rounded 32768"
      by (rule set_size_u32 [of 32768 EntryMetadata0]) simp_all
    then show ?thesis using m0 that
      by (simp add: checked_u32_def ValueOrDefault_def kPlaceHolderSizeWhenInvalid_def rounded_def)
  qed
  show thesis
  proof (cases "ct = APP_CACHE")
    case True
    with m0 size big that [of "SetTrailerPrefetchSize 0 m0"] show thesis by (simp add: EntryMetadata_of_prefetch_def)
  next
    case False
    with m0 size big that [of "SetLastUsedTime t m0"] show thesis by (simp add: EntryMetadata_of_time_def)
  qed
qed

lemma add_entry_file_counted:
  assumes c: "counted hex es ds" and h: "hash_of_file hex (de_path d) = Some h"
    and n: "\<And>x. x \<in> set (ds @ [d]) \<Longrightarrow> 0 \<le> de_size x"
  obtains es' where "add_entry_file ct h t (de_size d) es = Some es'" "counted hex es' (ds @ [d])"
proof -
  let ?n = "de_size d"
  have n0: "0 \<le> ?n" using n by simp
  show thesis
  proof (cases "map_of es h")
    case None
    obtain m where m: "(if ct = APP_CACHE then EntryMetadata_of_prefetch 0 (ucast (ValueOrDefault kPlaceHolderSizeWhenInvalid (checked_u32 ?n)))
      else EntryMetadata_of_time t (ucast (ValueOrDefault kPlaceHolderSizeWhenInvalid (checked_u32 ?n)))) = Some m"
      "?n < 2 ^ 32 \<longrightarrow> uint (GetEntrySize m) = rounded ?n"
      "2 ^ 32 \<le> ?n \<longrightarrow> uint (GetEntrySize m) = uint kPlaceHolderSizeWhenInvalid" by (rule new_entry_size [OF n0, where ct = ct and t = t])
    have "\<not> named hex h ds" using c None by (auto simp: counted_def counted_at_def dest: spec [of _ h])
    then have z: "listed_size hex h ds = 0" by (induction ds) (auto simp: named_def)
    have "uint (GetEntrySize m) = rounded ?n" if "rounded ?n < 2 ^ 32"
      using m(2) that rounded_props(1) [OF n0] by simp
    then have "counted hex (es @ [(h, m)]) (ds @ [d])"
      using None z m(3) by (intro counted_step [OF c h, of _ m]) (auto simp: map_add_def split: option.split)
    moreover have "add_entry_file ct h t ?n es = Some (es @ [(h, m)])"
      using None m(1) by (simp add: add_entry_file_def InsertInEntrySet_def)
    ultimately show thesis using that by blast
  next
    case (Some m)
    let ?total = "case checked_u32 ?n of None \<Rightarrow> None | Some n \<Rightarrow> checked_u32 (uint n + uint (GetEntrySize m))"
    obtain m' where m': "SetEntrySize (ucast (ValueOrDefault kPlaceHolderSizeWhenInvalid ?total)) m = Some m'"
      using small_sizes by blast
    have old: "uint (GetEntrySize m) = listed_size hex h ds" if "listed_size hex h ds < 2 ^ 32"
      using c Some that by (auto simp: counted_def counted_at_def dest: spec [of _ h])
    have pos: "0 \<le> listed_size hex h ds" by (rule listed_size_nonneg) (use n in simp)
    have "uint (GetEntrySize m') = listed_size hex h ds + rounded ?n" if sum: "listed_size hex h ds + rounded ?n < 2 ^ 32"
    proof -
      let ?k = "?n + listed_size hex h ds"
      have b: "?n < 2 ^ 32" "listed_size hex h ds < 2 ^ 32" "0 \<le> ?k" "?k < 2 ^ 32"
        using sum pos n0 rounded_props(1,2) [OF n0] by linarith+
      then have "?total = Some (word_of_int ?k)"
        using n0 old by (simp add: checked_u32_def uint_word_of_int)
      moreover obtain m'' where "SetEntrySize (ucast (word_of_int ?k :: u32)) m = Some m''" "uint (GetEntrySize m'') = rounded ?k"
        by (rule set_size_u32 [OF b(3,4)])
      ultimately have "uint (GetEntrySize m') = rounded ?k" using m' by (simp add: ValueOrDefault_def)
      also have "rounded ?k = listed_size hex h ds + rounded ?n" using rounded_add [OF listed_size_dvd] by simp
      finally show ?thesis .
    qed
    then have "counted hex (AList.update h m' es) (ds @ [d])"
      using Some c by (intro counted_step [OF c h, of _ m'])
        (auto simp: update_conv' counted_def counted_at_def dest: spec [of _ h])
    moreover have "add_entry_file ct h t ?n es = Some (AList.update h m' es)"
      using Some m' by (simp add: add_entry_file_def Let_def)
    ultimately show thesis using that by blast
  qed
qed

lemma counted_skip: "counted hex es ds \<Longrightarrow> hash_of_file hex (de_path d) = None \<Longrightarrow> counted hex es (ds @ [d])"
  unfolding counted_def
proof
  fix h assume "\<forall>h. counted_at hex es ds h" and none: "hash_of_file hex (de_path d) = None"
  then have "counted_at hex es ds h" by blast
  with none show "counted_at hex es (ds @ [d]) h"
    by (simp add: counted_at_def named_single sole_size_append split: option.splits)
qed

section \<open>The directory\<close>

lemma listed_size_sum:
  "distinct (map de_path ds) \<Longrightarrow> listed_size hex h ds
     = (\<Sum>x\<in>{x \<in> (\<lambda>d. (de_path d, de_size d)) ` set ds. hash_of_file hex (fst x) = Some h}. rounded (snd x))"
proof (induction ds)
  case (Cons d ds)
  let ?pair = "\<lambda>d. (de_path d, de_size d)"
  let ?X = "{x \<in> ?pair ` set ds. hash_of_file hex (fst x) = Some h}"
  have new: "?pair d \<notin> ?X" and fin: "finite ?X" using Cons.prems by force+
  show ?case
  proof (cases "hash_of_file hex (de_path d) = Some h")
    case True
    then have "{x \<in> ?pair ` set (d # ds). hash_of_file hex (fst x) = Some h} = insert (?pair d) ?X" by auto
    with True Cons new fin show ?thesis by simp
  next
    case False
    then have "{x \<in> ?pair ` set (d # ds). hash_of_file hex (fst x) = Some h} = ?X" by auto
    with False Cons show ?thesis by simp
  qed
qed simp

lemma list_of_singleton: "distinct xs \<Longrightarrow> set xs = {x} \<Longrightarrow> xs = [x]"
  by (cases xs; cases "tl xs") auto

lemma sole_size_files:
  assumes "distinct (map de_path ds)"
    and "{x \<in> (\<lambda>d. (de_path d, de_size d)) ` set ds. hash_of_file hex (fst x) = Some h} = {(q, n)}"
  shows "sole_size hex h ds = Some n"
proof -
  let ?f = "filter (\<lambda>d. hash_of_file hex (de_path d) = Some h) ds"
  have "(\<lambda>d. (de_path d, de_size d)) ` set ?f
      = {x \<in> (\<lambda>d. (de_path d, de_size d)) ` set ds. hash_of_file hex (fst x) = Some h}" by auto
  with assms(2) have "(\<lambda>d. (de_path d, de_size d)) ` set ?f = {(q, n)}" by simp
  moreover have "distinct (map (\<lambda>d. (de_path d, de_size d)) ?f)"
    using assms(1) by (auto simp: distinct_map inj_on_def)
  ultimately have "map (\<lambda>d. (de_path d, de_size d)) ?f = [(q, n)]"
    by (intro list_of_singleton) simp_all
  then show ?thesis by (cases ?f) (auto simp: sole_size_def split: list.split)
qed

text \<open>
  The entries that the index should have: one for each hash that a file is named after, whatever the sizes of
  the files. The entry has the size of these files if that is below 4 GiB, and an entry of one file alone that is
  larger has the size that the code puts in its place.
\<close>

definition matches_directory :: "(string \<Rightarrow> u64 option) \<Rightarrow> fs \<Rightarrow> path \<Rightarrow> EntrySet \<Rightarrow> bool" where
  "matches_directory hex v p es \<longleftrightarrow>
     (\<forall>h. case map_of es h of
           None \<Rightarrow> files_of hex h v p = {}
         | Some m \<Rightarrow> files_of hex h v p \<noteq> {}
             \<and> (size_on_disk hex h v p < 2 ^ 32 \<longrightarrow> uint (GetEntrySize m) = size_on_disk hex h v p)
             \<and> (\<forall>q n. files_of hex h v p = {(q, n)} \<longrightarrow> 2 ^ 32 \<le> n
                   \<longrightarrow> uint (GetEntrySize m) = uint kPlaceHolderSizeWhenInvalid))"

lemma last_AppendASCII [simp]: "last (AppendASCII p name) = name" "butlast (AppendASCII p name) = p" "AppendASCII p name \<noteq> []"
  by (simp_all add: AppendASCII_def)

lemma fst_dir_sizes: "fst ` dir_sizes v p = {q. dir v q \<noteq> None \<and> q \<noteq> [] \<and> butlast q = p}"
  by (auto simp: dir_sizes_def image_iff)

context listing_files begin

lemma ProcessEntryFile_counted:
  assumes c: "counted hex es ds" and n: "\<And>x. x \<in> set (ds @ [d]) \<Longrightarrow> 0 \<le> de_size x"
  obtains es' w' where "ProcessEntryFile F hex posix ct d es w = Some (es', w')" "counted hex es' (ds @ [d])"
    "dir (view w') = (\<lambda>q. if q = de_path d \<and> left_over q then None else dir (view w) q)" "data (view w') = data (view w)"
proof -
  let ?t = "if is_null (if posix then de_last_accessed d else 0) then de_last_modified d
      else if posix then de_last_accessed d else 0"
  have keep: "(\<lambda>q. if q = de_path d \<and> left_over q then None else dir (view w) q) = dir (view w)" if "\<not> left_over (de_path d)"
    using that by (intro ext) auto
  consider (left) "left_over (de_path d)" | (none) "\<not> left_over (de_path d)" "entry_file_hash hex (last (de_path d)) = None"
    | (hash) h where "\<not> left_over (de_path d)" "entry_file_hash hex (last (de_path d)) = Some h" by blast
  then show thesis
  proof cases
    case left
    obtain ok w1 where dl: "DeleteFile F (de_path d) kDefault w = (ok, w1)" by force
    with deletes [of "de_path d" kDefault w] have v: "view w1 = (view w)\<lparr>dir := (dir (view w))(de_path d := None)\<rparr>"
      using delete_law [OF dl] by simp
    have "dir (view w1) = (\<lambda>q. if q = de_path d \<and> left_over q then None else dir (view w) q)"
      by (rule ext) (use left v in auto)
    moreover have "ProcessEntryFile F hex posix ct d es w = Some (es, w1)"
      using left dl by (simp add: ProcessEntryFile_def Let_def left_over_def)
    moreover have "counted hex es (ds @ [d])" using left c by (intro counted_skip) (simp_all add: hash_of_file_def)
    ultimately show thesis using v that by simp
  next
    case none
    have "counted hex es (ds @ [d])" using none c by (intro counted_skip) (simp_all add: hash_of_file_def)
    moreover have "ProcessEntryFile F hex posix ct d es w = Some (es, w)"
      using none by (simp add: ProcessEntryFile_def Let_def left_over_def)
    ultimately show thesis using that keep [OF none(1)] by simp
  next
    case hash
    then have h: "hash_of_file hex (de_path d) = Some h" by (simp add: hash_of_file_def)
    obtain es' where es': "add_entry_file ct h ?t (de_size d) es = Some es'" "counted hex es' (ds @ [d])"
      by (rule add_entry_file_counted [OF c h n])
    have "ProcessEntryFile F hex posix ct d es w = Some (es', w)"
      using hash es'(1) by (simp add: ProcessEntryFile_def Let_def left_over_def)
    with es'(2) show thesis using that keep [OF hash(1)] by simp
  qed
qed

lemma process_files_counted:
  assumes "listed e = ds'" and "counted hex es ds" and "\<And>x. x \<in> set (ds @ ds') \<Longrightarrow> 0 \<le> de_size x"
  shows "\<exists>es' e' w'. process_files F hex posix ct e es w = Some (es', e', w') \<and> counted hex es' (ds @ ds')
    \<and> dir (view w') = (\<lambda>q. if q \<in> de_path ` set ds' \<and> left_over q then None else dir (view w) q)
    \<and> data (view w') = data (view w)"
  using assms
proof (induction ds' arbitrary: e es ds w)
  case Nil
  obtain e' w' where "eNext F e w = (None, e', w')" using next_none [OF Nil.prems(1), of w] by (cases "eNext F e w") auto
  moreover from this have "view w' = view w" using next_law by blast
  ultimately show ?case using Nil.prems(2) by (subst process_files.simps) simp
next
  case (Cons d ds')
  obtain e1 w1 where nx: "eNext F e w = (Some d, e1, w1)" "listed e1 = ds'" using next_some [OF Cons.prems(1)] by blast
  have v1: "view w1 = view w" using next_law [OF nx(1)] by simp
  obtain es1 w2 where pf: "ProcessEntryFile F hex posix ct d es w1 = Some (es1, w2)" "counted hex es1 (ds @ [d])"
    "dir (view w2) = (\<lambda>q. if q = de_path d \<and> left_over q then None else dir (view w1) q)" "data (view w2) = data (view w1)"
    by (rule ProcessEntryFile_counted [OF Cons.prems(2)]) (use Cons.prems(3) in auto)
  from Cons.IH [OF nx(2) pf(2), of w2] Cons.prems(3) obtain es' e' w' where
    "process_files F hex posix ct e1 es1 w2 = Some (es', e', w')" "counted hex es' ((ds @ [d]) @ ds')"
    "dir (view w') = (\<lambda>q. if q \<in> de_path ` set ds' \<and> left_over q then None else dir (view w2) q)"
    "data (view w') = data (view w2)" by auto
  with nx(1) pf(1,3,4) v1 show ?case by (subst process_files.simps) auto
qed

lemma SyncRestoreFromDisk_counted:
  assumes index: "butlast index \<noteq> cache_directory"
  obtains r w' where "SyncRestoreFromDisk F hex posix ct cache_directory index out w = Some (r, w')"
    "did_load r" "flush_required r"
    "matches_directory hex (view w) cache_directory (lr_entries r)"
    "dir (view w') = (\<lambda>q. if q = index \<or> q \<noteq> [] \<and> butlast q = cache_directory \<and> left_over q then None else dir (view w) q)"
    "data (view w') = data (view w)"
proof -
  obtain ok w1 where dl: "DeleteFile F index kEnsureImmediateAvailability w = (ok, w1)" by force
  with deletes [of index kEnsureImmediateAvailability w]
  have v1: "view w1 = (view w)\<lparr>dir := (dir (view w))(index := None)\<rparr>" using delete_law [OF dl] by simp
  obtain e w2 where en: "EnumerateFiles F cache_directory w1 = (e, w2)" by force
  have v2: "view w2 = view w1" by (rule enumerate_law [OF en])
  let ?pair = "\<lambda>d. (de_path d, de_size d)"
  have ds: "distinct (map de_path (listed e))" "?pair ` set (listed e) = dir_sizes (view w) cache_directory"
  proof -
    have "dir_sizes (view w1) cache_directory = dir_sizes (view w) cache_directory"
      using index by (auto simp: dir_sizes_def v1)
    with lists [OF en] show "distinct (map de_path (listed e))" "?pair ` set (listed e) = dir_sizes (view w) cache_directory"
      by simp_all
  qed
  have n: "0 \<le> de_size x" if "x \<in> set ([] @ listed e)" for x
  proof -
    have "?pair x \<in> dir_sizes (view w) cache_directory" using that ds(2) by auto
    then show ?thesis by (auto simp: dir_sizes_def)
  qed
  have "counted hex [] []" by (simp add: counted_def counted_at_def named_def)
  from process_files_counted [where e = e and w = w2 and posix = posix and ct = ct, OF refl this n] obtain es e' w3 where
    p: "process_files F hex posix ct e [] w2 = Some (es, e', w3)" "counted hex es (listed e)"
    "dir (view w3) = (\<lambda>q. if q \<in> de_path ` set (listed e) \<and> left_over q then None else dir (view w2) q)"
    "data (view w3) = data (view w2)" by auto
  have entry: "matches_directory hex (view w) cache_directory es"
    unfolding matches_directory_def
  proof
    fix h
    have files: "files_of hex h (view w) cache_directory = {x \<in> ?pair ` set (listed e). hash_of_file hex (fst x) = Some h}"
      by (simp add: files_of_def ds(2))
    have size: "listed_size hex h (listed e) = size_on_disk hex h (view w) cache_directory"
      by (simp add: listed_size_sum [OF ds(1)] size_on_disk_def files)
    have some: "named hex h (listed e) \<longleftrightarrow> files_of hex h (view w) cache_directory \<noteq> {}"
      by (auto simp: named_def files)
    have "counted_at hex es (listed e) h" using p(2) by (simp add: counted_def)
    then show "case map_of es h of
          None \<Rightarrow> files_of hex h (view w) cache_directory = {}
        | Some m \<Rightarrow> files_of hex h (view w) cache_directory \<noteq> {}
            \<and> (size_on_disk hex h (view w) cache_directory < 2 ^ 32
                 \<longrightarrow> uint (GetEntrySize m) = size_on_disk hex h (view w) cache_directory)
            \<and> (\<forall>q n. files_of hex h (view w) cache_directory = {(q, n)} \<longrightarrow> 2 ^ 32 \<le> n
                 \<longrightarrow> uint (GetEntrySize m) = uint kPlaceHolderSizeWhenInvalid)"
      using sole_size_files [OF ds(1), of hex h, folded files]
      by (auto simp: counted_at_def size some split: option.splits)
  qed
  have paths: "q \<in> de_path ` set (listed e) \<longleftrightarrow> dir (view w) q \<noteq> None \<and> q \<noteq> [] \<and> butlast q = cache_directory" for q
  proof -
    have "de_path ` set (listed e) = fst ` dir_sizes (view w) cache_directory"
      unfolding ds(2) [symmetric] by (simp only: image_image fst_conv)
    then show ?thesis by (simp only: fst_dir_sizes mem_Collect_eq)
  qed
  let ?r = "(Reset out)\<lparr>lr_entries := es, did_load := True, flush_required := True\<rparr>"
  show thesis
  proof (rule that [of ?r w3])
    show "SyncRestoreFromDisk F hex posix ct cache_directory index out w = Some (?r, w3)"
      using dl en p(1) no_error by (simp add: SyncRestoreFromDisk_def Let_def)
    show "dir (view w3) = (\<lambda>q. if q = index \<or> q \<noteq> [] \<and> butlast q = cache_directory \<and> left_over q then None else dir (view w) q)"
      by (rule ext) (use paths in \<open>auto simp: p(3) v2 v1\<close>)
    show "data (view w3) = data (view w)" by (simp add: p(4) v2 v1)
  qed (use entry in simp_all)
qed

end

section \<open>Names of entries\<close>

lemma hex_string_not_left_over: "take (length ''todelete_'') (ConvertEntryHashKeyToHexString h @ rest) \<noteq> ''todelete_''"
proof -
  have digit: "hex_digit k \<noteq> CHR ''t''" if "k < 16" for k
  proof -
    have "\<forall>c\<in>set ''0123456789abcdef''. c \<noteq> CHR ''t''" by simp
    then show ?thesis using that nth_mem [of k "''0123456789abcdef''"] unfolding hex_digit_def by fastforce
  qed
  have "hd (ConvertEntryHashKeyToHexString h) = hex_digit (unat (drop_bit (4 * 15) h AND 15))"
    by (simp add: ConvertEntryHashKeyToHexString_def upt_rec)
  then have "hd (ConvertEntryHashKeyToHexString h) \<noteq> CHR ''t''" using digit [OF nibble_less] by simp
  moreover have "hd (take (length ''todelete_'') (ConvertEntryHashKeyToHexString h @ rest)) = hd (ConvertEntryHashKeyToHexString h)"
    using length_ConvertEntryHashKeyToHexString [of h] by (cases "ConvertEntryHashKeyToHexString h") auto
  moreover have "hd ''todelete_'' = CHR ''t''" by simp
  ultimately show ?thesis by metis
qed

lemma hash_of_entry_file:
  assumes "hex_parser hex"
  shows "hash_of_file hex (AppendASCII p (GetFilenameFromEntryFileKeyAndFileIndex (plain_key h) 0)) = Some h"
proof -
  let ?name = "ConvertEntryHashKeyToHexString h @ ''_0''"
  have name: "GetFilenameFromEntryFileKeyAndFileIndex (plain_key h) 0 = ?name"
    by (simp add: GetFilenameFromEntryFileKeyAndFileIndex_def plain_key_def dec_int_def dec_nat.simps hex_digit_def)
  have "take kEntryFilesHashLength ?name = ConvertEntryHashKeyToHexString h"
    by (simp add: kEntryFilesHashLength_def)
  then show ?thesis
    using hex_parser.parse_format [OF assms, of h] hex_string_not_left_over [of h "''_0''"]
    by (simp add: hash_of_file_def left_over_def name entry_file_hash_def kEntryFilesHashLength_def kEntryFilesSuffixLength_def)
qed

text \<open>An index that is restored from the directory agrees with the files. Without faults, \<open>SyncRestoreFromDisk\<close>
returns a loaded index that has to be flushed. It has an entry for a hash exactly if a file in the cache directory is named
after the hash, in particular if the first file of the entry is there, and the size of the entry is the sum of the sizes of
these files, each rounded up to 256 bytes, if that is below 4 GiB. The old index file and the files that doomed entries have
left over are gone; all other files are as before.\<close>
theorem restored_index_matches_files:
  assumes "listing_files F view node remaining listed" and "hex_parser hex"
    and "butlast index \<noteq> cache_directory" and "size_on_disk hex h (view w) cache_directory < 2 ^ 32"
  shows "\<exists>r w'. SyncRestoreFromDisk F hex posix ct cache_directory index out w = Some (r, w')
    \<and> did_load r \<and> flush_required r
    \<and> (case map_of (lr_entries r) h of
         None \<Rightarrow> files_of hex h (view w) cache_directory = {}
           \<and> dir (view w) (AppendASCII cache_directory (GetFilenameFromEntryFileKeyAndFileIndex (plain_key h) 0)) = None
       | Some m \<Rightarrow> files_of hex h (view w) cache_directory \<noteq> {}
           \<and> uint (GetEntrySize m) = size_on_disk hex h (view w) cache_directory)
    \<and> dir (view w') = (\<lambda>q. if q = index \<or> q \<noteq> [] \<and> butlast q = cache_directory \<and> left_over q then None else dir (view w) q)
    \<and> data (view w') = data (view w)"
proof -
  let ?name = "AppendASCII cache_directory (GetFilenameFromEntryFileKeyAndFileIndex (plain_key h) 0)"
  have first: "dir (view w) ?name = None" if "files_of hex h (view w) cache_directory = {}"
  proof (rule ccontr)
    assume "dir (view w) ?name \<noteq> None"
    then obtain n where "dir (view w) ?name = Some n" by blast
    then have "(?name, int (length (data (view w) n))) \<in> files_of hex h (view w) cache_directory"
      using hash_of_entry_file [OF assms(2), of cache_directory h] by (auto simp: files_of_def dir_sizes_def)
    with that show False by simp
  qed
  obtain r w' where r: "SyncRestoreFromDisk F hex posix ct cache_directory index out w = Some (r, w')"
    "did_load r" "flush_required r"
    "matches_directory hex (view w) cache_directory (lr_entries r)"
    "dir (view w') = (\<lambda>q. if q = index \<or> q \<noteq> [] \<and> butlast q = cache_directory \<and> left_over q then None else dir (view w) q)"
    "data (view w') = data (view w)"
    by (rule listing_files.SyncRestoreFromDisk_counted [OF assms(1,3), where hex = hex]) blast
  from r(4) assms(4) have "case map_of (lr_entries r) h of
      None \<Rightarrow> files_of hex h (view w) cache_directory = {}
    | Some m \<Rightarrow> files_of hex h (view w) cache_directory \<noteq> {}
        \<and> uint (GetEntrySize m) = size_on_disk hex h (view w) cache_directory"
    unfolding matches_directory_def by (auto split: option.splits dest!: spec [of _ h])
  with r first show ?thesis by (auto split: option.splits)
qed

text \<open>A directory with the two files of an entry, an index file and a file that a doomed entry has left over.\<close>

definition restore_world :: mem where
  "restore_world = empty_mem\<lparr>
     m_dir := [([''c'', GetFilenameFromEntryFileKeyAndFileIndex (plain_key 5) 0], 1),
       ([''c'', GetSparseFilenameFromEntryFileKey (plain_key 5)], 2),
       ([''c'', ''index-dir'', ''the-real-index''], 3), ([''c'', ''todelete_0000000000000006_0_1''], 4)],
     m_data := (\<lambda>n. if n = 1 then replicate 300 0 else [])\<rparr>"

lemma restore_world_small: "size_on_disk parse_hex_u64 5 (mem_view restore_world) [''c''] < 2 ^ 32"
proof -
  let ?v = "mem_view restore_world"
  have "dir_sizes ?v [''c''] \<subseteq> (\<lambda>(q, n). (q, int (length (m_data restore_world n)))) ` set (m_dir restore_world)"
    by (force simp: dir_sizes_def dest: map_of_SomeD)
  then have sub: "files_of parse_hex_u64 5 ?v [''c'']
      \<subseteq> (\<lambda>(q, n). (q, int (length (m_data restore_world n)))) ` set (m_dir restore_world)" (is "_ \<subseteq> ?X")
    by (auto simp: files_of_def)
  have "size_on_disk parse_hex_u64 5 ?v [''c''] \<le> (\<Sum>x\<in>?X. rounded (snd x))"
    unfolding size_on_disk_def by (rule sum_mono2 [OF _ sub]) (auto simp: rounded_def)
  also have "\<dots> \<le> (\<Sum>x\<in>set (m_dir restore_world). rounded (int (length (m_data restore_world (snd x)))))"
    by (rule order.trans [OF sum_image_le]) (auto simp: rounded_def case_prod_unfold)
  also have "\<dots> \<le> sum_list (map (\<lambda>x. rounded (int (length (m_data restore_world (snd x))))) (m_dir restore_world))"
    by (simp add: restore_world_def rounded_def sum.insert_if)
  also have "\<dots> < 2 ^ 32" by (simp add: restore_world_def rounded_def)
  finally show ?thesis by simp
qed

lemma restored_index_matches_files_witness:
  "\<exists>r w'. SyncRestoreFromDisk (mem_env (\<lambda>_. False)) parse_hex_u64 True DISK_CACHE [''c'']
        [''c'', ''index-dir'', ''the-real-index''] no_result restore_world = Some (r, w')
    \<and> did_load r \<and> flush_required r
    \<and> (case map_of (lr_entries r) 5 of
         None \<Rightarrow> files_of parse_hex_u64 5 (mem_view restore_world) [''c''] = {}
           \<and> dir (mem_view restore_world) (AppendASCII [''c''] (GetFilenameFromEntryFileKeyAndFileIndex (plain_key 5) 0)) = None
       | Some m \<Rightarrow> files_of parse_hex_u64 5 (mem_view restore_world) [''c''] \<noteq> {}
           \<and> uint (GetEntrySize m) = size_on_disk parse_hex_u64 5 (mem_view restore_world) [''c''])
    \<and> dir (mem_view w') = (\<lambda>q. if q = [''c'', ''index-dir'', ''the-real-index''] \<or> q \<noteq> [] \<and> butlast q = [''c''] \<and> left_over q
        then None else dir (mem_view restore_world) q)
    \<and> data (mem_view w') = data (mem_view restore_world)"
  by (rule restored_index_matches_files [OF mem_lists.listing_files_axioms ref_hex.hex_parser_axioms])
    (simp_all add: restore_world_small [simplified])

end
