(* ===== verification/Index_Startup.thy ===== *)
theory Index_Startup imports Index_Restore Index_Correct begin

text \<open>
  What the index is loaded from when the cache starts: the index file if it is valid and not older than the
  directory, and the files of the directory otherwise; and so how an index survives a restart.
\<close>

section \<open>The index file, of any content\<close>

text \<open>The world after an operation that may have deleted one file.\<close>

definition deleted_at_most :: "path \<Rightarrow> fs \<Rightarrow> fs \<Rightarrow> bool" where
  "deleted_at_most p v v' \<longleftrightarrow> v' = v \<or> v' = v\<lparr>dir := (dir v)(p := None)\<rparr>"

lemma deleted_at_most_simps [simp]:
  "deleted_at_most p v v" "deleted_at_most p v (v\<lparr>dir := (dir v)(p := None)\<rparr>)"
  by (simp_all add: deleted_at_most_def)

lemma deleted_at_most_fields:
  assumes "deleted_at_most p v v'"
  shows "data v' = data v" "q \<noteq> p \<Longrightarrow> dir v' q = dir v q"
  using assms by (auto simp: deleted_at_most_def)

context files begin

lemma delete_index: "deleted_at_most p (view w) (view (snd (DeleteFile F p mode w)))"
proof (cases "DeleteFile F p mode w")
  case (Pair ok w')
  with delete_law [OF Pair] show ?thesis by (simp add: deleted_at_most_def)
qed

lemma SyncLoadFromDisk_cases:
  assumes "pickle_laws P holds reads left"
  obtains r seen w' where "SyncLoadFromDisk F P Z ct index last_seen out w = Some (r, seen, w')"
    "deleted_at_most index (view w) (view w')"
    "did_load r \<longrightarrow> (\<exists>bs. holds_file (view w) index bs \<and> int (length bs) \<le> kMaxIndexFileSizeBytes
       \<and> Deserialize P Z ct bs last_seen (Reset out) = Some (r, seen))"
proof -
  have reset: "\<not> did_load (Reset out)" by (simp add: Reset_def)
  obtain ro w1 where o: "OpenFile F index FLAG_OPEN_READ w = (ro, w1)" by force
  note ol = open_law [OF o]
  show thesis
  proof (cases ro)
    case (Inl e)
    with o ol reset that show thesis by (simp add: SyncLoadFromDisk_def Let_def)
  next
    case (Inr f)
    have f: "view w1 = view w" "dir (view w) index = Some (node f)" using ol Inr by simp_all
    obtain len w2 where l: "fGetLength F f w1 = (len, w2)" by force
    note ll = get_length_law [OF l]
    show thesis
    proof (cases "len < 0 \<or> len > kMaxIndexFileSizeBytes")
      case True
      with o Inr l reset that ll f delete_index [of index w2] show thesis by (simp add: SyncLoadFromDisk_def Let_def)
    next
      case False
      obtain rb w3 where rb: "fReadAndCheck F f 0 (nat len) w2 = (rb, w3)" by force
      note rl = read_check_law [OF rb]
      show thesis
      proof (cases rb)
        case None
        with o Inr l False rb rl reset that ll f delete_index [of index w3] show thesis by (simp add: SyncLoadFromDisk_def Let_def)
      next
        case (Some bs)
        have "len = int (length (data (view w) (node f)))" using ll False f by simp
        then have h: "holds_file (view w) index bs" "view w3 = view w" "int (length bs) \<le> kMaxIndexFileSizeBytes"
          using rl Some ll f False by (simp_all add: holds_file_def slice_0)
        obtain r seen where d: "Deserialize P Z ct bs last_seen (Reset out) = Some (r, seen)"
          using pickle_laws.Deserialize_returns [OF assms, of Z ct bs last_seen "Reset out"] by auto
        let ?w = "if \<not> did_load r then snd (DeleteFile F index kEnsureImmediateAvailability w3) else w3"
        have "SyncLoadFromDisk F P Z ct index last_seen out w = Some (r, seen, ?w)"
          using o Inr l False rb Some d by (simp add: SyncLoadFromDisk_def Let_def)
        moreover have "deleted_at_most index (view w) (view ?w)" using h(2) delete_index [of index w3] by simp
        ultimately show thesis using that h(1,3) d by blast
      qed
    qed
  qed
qed

end

lemma holds_file_unique: "holds_file v p bs \<Longrightarrow> holds_file v p bs' \<Longrightarrow> bs' = bs"
  by (auto simp: holds_file_def)

lemma matches_directory_cong:
  assumes "deleted_at_most index v v'" and "butlast index \<noteq> p"
  shows "matches_directory hex v' p es = matches_directory hex v p es"
proof -
  have "dir_sizes v' p = dir_sizes v p"
    using assms by (auto simp: dir_sizes_def deleted_at_most_def split: if_splits)
  then have "files_of hex h v' p = files_of hex h v p" "size_on_disk hex h v' p = size_on_disk hex h v p" for h
    by (simp_all add: files_of_def size_on_disk_def)
  then show ?thesis by (simp add: matches_directory_def cong: option.case_cong)
qed

context reliable_files begin

lemma SyncLoadFromDisk_ok:
  assumes h: "holds_file (view w) index bs" and len: "int (length bs) \<le> kMaxIndexFileSizeBytes"
    and d: "Deserialize P Z ct bs last_seen (Reset out) = Some (r, seen)" "did_load r"
  obtains w' where "SyncLoadFromDisk F P Z ct index last_seen out w = Some (r, seen, w')" "view w' = view w"
proof -
  obtain n where n: "dir (view w) index = Some n" "data (view w) n = bs" using h by (auto simp: holds_file_def)
  obtain ro w1 where o: "OpenFile F index FLAG_OPEN_READ w = (ro, w1)" by force
  with opens_read [of w index] n obtain f where "ro = Inr f" by auto
  with open_law [OF o] n have f: "ro = Inr f" "view w1 = view w" "node f = n" by auto
  obtain l w2 where l: "fGetLength F f w1 = (l, w2)" by force
  with gets_length [of f w1] get_length_law [OF l] f n have ll: "l = int (length bs)" "view w2 = view w" by auto
  have "nat 0 + length bs \<le> length (data (view w2) (node f))" using ll f n by simp
  with reads_check [of 0 "length bs" w2 f] obtain bs' w3 where rb: "fReadAndCheck F f 0 (length bs) w2 = (Some bs', w3)"
    by (cases "fReadAndCheck F f 0 (length bs) w2") auto
  with read_check_law [OF rb] ll f n have "bs' = bs" "view w3 = view w" by (simp_all add: slice_0)
  with o f l ll len rb d that show thesis by (simp add: SyncLoadFromDisk_def Let_def)
qed

end

section \<open>The index at the start\<close>

text \<open>The bytes under a name are an index file that the loader accepts and that is not stale.\<close>

definition fresh_index ::
    "('p, 'i) pickle_ops \<Rightarrow> zlib \<Rightarrow> CacheType \<Rightarrow> fs \<Rightarrow> path \<Rightarrow> time \<Rightarrow> SimpleIndexLoadResult \<Rightarrow> SimpleIndexLoadResult \<Rightarrow> bool" where
  "fresh_index P Z ct v index cache_last_modified out r \<longleftrightarrow>
     (\<exists>bs seen. holds_file v index bs \<and> int (length bs) \<le> kMaxIndexFileSizeBytes
        \<and> Deserialize P Z ct bs 0 (Reset out) = Some (r, seen) \<and> did_load r \<and> cache_last_modified \<le> seen)"

context listing_files begin

lemma LoadIndexEntries_right:
  fixes ct :: CacheType and cache_directory :: path
  defines "sif \<equiv> new_SimpleIndexFile ct cache_directory"
  assumes "pickle_laws P holds reads left"
  obtains r w' where "LoadIndexEntries F P Z hex posix sif cache_last_modified out w = Some (r, w')" "did_load r"
    "if \<exists>r0. fresh_index P Z ct (view w) (sif_index_file sif) cache_last_modified out r0
     then (\<exists>r0. fresh_index P Z ct (view w) (sif_index_file sif) cache_last_modified out r0
            \<and> r = r0\<lparr>lr_init_method := INITIALIZE_METHOD_LOADED\<rparr>) \<and> view w' = view w
     else lr_init_method r \<noteq> INITIALIZE_METHOD_LOADED \<and> flush_required r
       \<and> matches_directory hex (view w) cache_directory (lr_entries r)
       \<and> dir (view w') = (\<lambda>q. if q = sif_index_file sif \<or> q \<noteq> [] \<and> butlast q = cache_directory \<and> left_over q
                            then None else dir (view w) q)
       \<and> data (view w') = data (view w)"
proof -
  define index where "index = sif_index_file sif"
  have sif: "sif_cache_type sif = ct" "sif_cache_directory sif = cache_directory" and apart: "butlast index \<noteq> cache_directory"
    by (simp_all add: index_def sif_def new_SimpleIndexFile_def) (simp add: AppendASCII_def)
  obtain r seen w1 where l: "SyncLoadFromDisk F P Z ct index 0 out w = Some (r, seen, w1)"
    "deleted_at_most index (view w) (view w1)"
    "did_load r \<longrightarrow> (\<exists>bs. holds_file (view w) index bs \<and> int (length bs) \<le> kMaxIndexFileSizeBytes
       \<and> Deserialize P Z ct bs 0 (Reset out) = Some (r, seen))"
    by (rule SyncLoadFromDisk_cases [OF assms(2)])
  have fresh: "(\<exists>r0. fresh_index P Z ct (view w) index cache_last_modified out r0)
      \<longleftrightarrow> did_load r \<and> cache_last_modified \<le> seen \<and> view w1 = view w"
  proof
    assume "\<exists>r0. fresh_index P Z ct (view w) index cache_last_modified out r0"
    then obtain bs r0 seen0 where b: "holds_file (view w) index bs" "int (length bs) \<le> kMaxIndexFileSizeBytes"
      "Deserialize P Z ct bs 0 (Reset out) = Some (r0, seen0)" "did_load r0" "cache_last_modified \<le> seen0"
      by (auto simp: fresh_index_def)
    obtain w2 where "SyncLoadFromDisk F P Z ct index 0 out w = Some (r0, seen0, w2)" "view w2 = view w"
      by (rule SyncLoadFromDisk_ok [OF b(1-4)])
    with l(1) b(4,5) show "did_load r \<and> cache_last_modified \<le> seen \<and> view w1 = view w" by simp
  qed (use l(3) in \<open>auto simp: fresh_index_def\<close>)
  note same = deleted_at_most_fields [OF l(2)]
  obtain ex w2 where p: "PathExists F index w1 = (ex, w2)" by force
  have v2: "view w2 = view w1" by (rule path_exists_law [OF p])
  show thesis
  proof (cases "did_load r \<and> cache_last_modified \<le> seen")
    case True
    obtain info w3 where g: "GetFileInfo F cache_directory w2 = (info, w3)" by force
    obtain st w4 where s: "LegacyIsIndexFileStale F (case info of None \<Rightarrow> 0 | Some i \<Rightarrow> fi_last_modified i) index w3 = (st, w4)"
      by force
    have v4: "view w4 = view w1"
      using s file_info_law [OF g] file_info_law v2
      by (auto simp: LegacyIsIndexFileStale_def split: prod.splits option.splits)
    let ?r = "r\<lparr>lr_init_method := INITIALIZE_METHOD_LOADED\<rparr>"
    have "SyncLoadIndexEntries F P Z hex posix ct cache_last_modified cache_directory index out w = Some (?r, w4)"
      using l(1) p g s True by (simp add: SyncLoadIndexEntries_def Let_def)
    moreover have f: "fresh_index P Z ct (view w) index cache_last_modified out r"
      using l(3) True by (auto simp: fresh_index_def)
    moreover have "view w4 = view w" using fresh f v4 by auto
    ultimately have c: "LoadIndexEntries F P Z hex posix sif cache_last_modified out w = Some (?r, w4)"
      "\<exists>r0. fresh_index P Z ct (view w) index cache_last_modified out r0"
      "(\<exists>r0. fresh_index P Z ct (view w) index cache_last_modified out r0
          \<and> ?r = r0\<lparr>lr_init_method := INITIALIZE_METHOD_LOADED\<rparr>) \<and> view w4 = view w"
      by (auto simp: LoadIndexEntries_def sif simp flip: index_def)
    show thesis
      by (rule that [OF c(1)]) (use True c(2,3) in \<open>simp_all flip: index_def\<close>)
  next
    case False
    obtain r' w3 where d: "SyncRestoreFromDisk F hex posix ct cache_directory index (r\<lparr>lr_entries := []\<rparr>) w2 = Some (r', w3)"
      "did_load r'" "flush_required r'"
      "matches_directory hex (view w2) cache_directory (lr_entries r')"
      "dir (view w3) = (\<lambda>q. if q = index \<or> q \<noteq> [] \<and> butlast q = cache_directory \<and> left_over q then None else dir (view w2) q)"
      "data (view w3) = data (view w2)"
      by (rule SyncRestoreFromDisk_counted [OF apart, where hex = hex]) blast
    let ?r = "r'\<lparr>lr_init_method := (if ex then INITIALIZE_METHOD_RECOVERED else INITIALIZE_METHOD_NEWCACHE)\<rparr>"
    have run: "LoadIndexEntries F P Z hex posix sif cache_last_modified out w = Some (?r, w3)"
      using l(1) p d(1) False by (auto simp: LoadIndexEntries_def SyncLoadIndexEntries_def Let_def sif simp flip: index_def)
    have "matches_directory hex (view w) cache_directory (lr_entries ?r)"
      using d(4) matches_directory_cong [OF l(2) apart] v2 by simp
    moreover have "dir (view w3) = (\<lambda>q. if q = index \<or> q \<noteq> [] \<and> butlast q = cache_directory \<and> left_over q then None
        else dir (view w) q)"
      using d(5) same(2) v2 by (auto simp: fun_eq_iff)
    moreover have "\<not> (\<exists>r0. fresh_index P Z ct (view w) index cache_last_modified out r0)" using fresh False by blast
    moreover have "lr_init_method ?r \<noteq> INITIALIZE_METHOD_LOADED" by simp
    ultimately show thesis
      using d(2,3,6) v2 same(1) that [OF run] by (simp flip: index_def)
  qed
qed

end

text \<open>C15: The index that the cache starts with is loaded from a file that is valid and not stale, or it is that of
the directory. Without faults, whatever is in the index file, \<open>LoadIndexEntries\<close> returns a loaded index. If the
loader accepts the bytes under the name of the index and the directory was not modified after the time
recorded in them, then the index is the one of the file, and no file is touched. Otherwise it has to be flushed,
and it has an entry for a hash exactly if a file of the directory is named after it, however large the files are.
The entry has the size of these files if that is below 4 GiB; if its only file is larger, it has the size that
stands for an unknown one. The old index file and what doomed entries left over in the directory are deleted, and
no other file is touched.\<close>
theorem initial_index_is_right:
  assumes "listing_files F view node remaining listed" and "pickle_laws P holds reads left"
    and "sif = new_SimpleIndexFile ct cache_directory"
  shows "\<exists>r w'. LoadIndexEntries F P Z hex posix sif cache_last_modified out w = Some (r, w') \<and> did_load r
    \<and> (if \<exists>r0. fresh_index P Z ct (view w) (sif_index_file sif) cache_last_modified out r0
       then (\<exists>r0. fresh_index P Z ct (view w) (sif_index_file sif) cache_last_modified out r0
              \<and> r = r0\<lparr>lr_init_method := INITIALIZE_METHOD_LOADED\<rparr>) \<and> view w' = view w
       else lr_init_method r \<noteq> INITIALIZE_METHOD_LOADED \<and> flush_required r
         \<and> matches_directory hex (view w) cache_directory (lr_entries r)
         \<and> dir (view w') = (\<lambda>q. if q = sif_index_file sif \<or> q \<noteq> [] \<and> butlast q = cache_directory \<and> left_over q
                              then None else dir (view w) q)
         \<and> data (view w') = data (view w))"
  unfolding assms(3) by (rule listing_files.LoadIndexEntries_right [OF assms(1,2)]) (intro exI conjI, assumption+)

lemma initial_index_is_right_witness:
  "\<exists>r w'. LoadIndexEntries (mem_env (\<lambda>_. False)) java_pickle_ops crc32_zlib parse_hex_u64 True
        (new_SimpleIndexFile DISK_CACHE [''c'']) 7 no_result restore_world = Some (r, w') \<and> did_load r
    \<and> (if \<exists>r0. fresh_index java_pickle_ops crc32_zlib DISK_CACHE (mem_view restore_world)
             (sif_index_file (new_SimpleIndexFile DISK_CACHE [''c''])) 7 no_result r0
       then (\<exists>r0. fresh_index java_pickle_ops crc32_zlib DISK_CACHE (mem_view restore_world)
                (sif_index_file (new_SimpleIndexFile DISK_CACHE [''c''])) 7 no_result r0
              \<and> r = r0\<lparr>lr_init_method := INITIALIZE_METHOD_LOADED\<rparr>) \<and> mem_view w' = mem_view restore_world
       else lr_init_method r \<noteq> INITIALIZE_METHOD_LOADED \<and> flush_required r
         \<and> matches_directory parse_hex_u64 (mem_view restore_world) [''c''] (lr_entries r)
         \<and> dir (mem_view w') = (\<lambda>q. if q = sif_index_file (new_SimpleIndexFile DISK_CACHE [''c''])
                 \<or> q \<noteq> [] \<and> butlast q = [''c''] \<and> left_over q
               then None else dir (mem_view restore_world) q)
         \<and> data (mem_view w') = data (mem_view restore_world))"
  by (rule initial_index_is_right [OF mem_lists.listing_files_axioms java_pickle.pickle_laws_axioms refl])

section \<open>A restart\<close>

lemma merge_into_new_index:
  fixes ct prioritized factor period hint
  defines "ix0 \<equiv> new_index ct prioritized factor period hint"
  shows "entries_set (MergeInitializingSet r ix0) = lr_entries r" "init_method (MergeInitializingSet r ix0) = lr_init_method r"
    "cache_size (MergeInitializingSet r ix0) = total_size (lr_entries r)"
  by (simp_all add: ix0_def MergeInitializingSet_def Let_def new_index_def erase_all_def WriteToDisk_def emit_def)

text \<open>C14: An index survives a restart. Let an initialized index whose bookkeeping is consistent be written by the call
that \<open>SimpleIndex::WriteToDisk\<close> makes, without faults, and let the writing succeed. Then \<open>LoadIndexEntries\<close>
returns, and a new index that merges what it loaded has exactly the entries and the size of the old one, if it
has at most 999998 entries and the directory was not modified after the time the file records. Otherwise the
new index has the entries of the directory.\<close>
theorem index_survives_restart:
  assumes "listing_files F view node remaining listed" and "pickle_laws P holds reads left"
    and "sif = new_SimpleIndexFile ct cache_directory" and "apart_names (sif_temp_index_file sif) (sif_index_file sif) (view w)"
    and "index_inv ix" and "initialized ix" and "length (entries_set ix) \<le> kMaxEntriesInIndex" and "reason < INDEX_WRITE_REASON_MAX"
    and "ix0 = new_index ct prioritized factor period hint"
  shows "outbox (WriteToDisk reason ix) = outbox ix @ [WriteIndexFileCall reason (entries_set ix) (cache_size ix)]
    \<and> (case WriteIndexToDisk F P Z sif ct reason (entries_set ix) (cache_size ix) w of
         (kSuccess, w1) \<Rightarrow>
           (\<exists>bs r0 seen r w2. holds_file (view w1) (sif_index_file sif) bs
              \<and> Deserialize P Z ct bs 0 (Reset out) = Some (r0, seen)
              \<and> LoadIndexEntries F P Z hex posix sif cache_last_modified out w1 = Some (r, w2)
              \<and> (let ix2 = MergeInitializingSet r ix0
                  in if cache_last_modified \<le> seen \<and> length (entries_set ix) \<le> kMaxEntriesInIndex - 2
                     then init_method ix2 = INITIALIZE_METHOD_LOADED
                       \<and> entries_set ix2 = entries_set ix \<and> cache_size ix2 = cache_size ix
                     else init_method ix2 \<noteq> INITIALIZE_METHOD_LOADED
                       \<and> matches_directory hex (view w1) cache_directory (entries_set ix2)))
       | _ \<Rightarrow> True)"
proof -
  let ?es = "entries_set ix" and ?index = "sif_index_file sif"
  have call: "outbox (WriteToDisk reason ix) = outbox ix @ [WriteIndexFileCall reason ?es (cache_size ix)]"
    using assms(6) by (simp add: WriteToDisk_def emit_def)
  have es: "distinct (map fst ?es)" "cache_size ix = total_size ?es" using assms(5) by (simp_all add: index_inv_def)
  obtain res w1 where wr: "WriteIndexToDisk F P Z sif ct reason ?es (cache_size ix) w = (res, w1)" by force
  show ?thesis
  proof (cases "res = kSuccess")
    case True
    note files = reliable_files.axioms(1) [OF listing_files.axioms(1) [OF assms(1)]]
    from wr have "SyncWriteToDiskInternal F P Z (sif_cache_directory sif) ?index (sif_temp_index_file sif)
        (WriteToDisk_pickle P ct reason ?es (cache_size ix)) w = (res, w1)"
      by (simp add: WriteIndexToDisk_def SyncWriteToDisk_def)
    from files.SyncWriteToDisk_law(1) [OF files this assms(4) True] obtain t where
      h: "holds_file (view w1) ?index (pk_bytes P (SerializeFinalData P Z t (WriteToDisk_pickle P ct reason ?es (cache_size ix))))"
      (is "holds_file _ _ ?bs") by blast
    let ?r0 = "(Reset (Reset out))\<lparr>lr_entries := ?es, index_write_reason := reason, did_load := True\<rparr>"
    have d: "Deserialize P Z ct ?bs 0 (Reset out) = Some (?r0, wrap64 t)"
      by (rule pickle_laws.Deserialize_Serialize [OF assms(2) es(1) assms(7,8)])
    have len: "int (length ?bs) \<le> kMaxIndexFileSizeBytes \<longleftrightarrow> length ?es \<le> kMaxEntriesInIndex - 2"
      by (auto simp: pickle_laws.index_file_length [OF assms(2)] kMaxIndexFileSizeBytes_def kMaxEntriesInIndex_def kOnDiskSizeBytes_def)
    have fresh: "fresh_index P Z ct (view w1) ?index cache_last_modified out r0
        \<longleftrightarrow> r0 = ?r0 \<and> cache_last_modified \<le> wrap64 t \<and> length ?es \<le> kMaxEntriesInIndex - 2" for r0
      using h d len by (auto simp: fresh_index_def dest: holds_file_unique)
    obtain r w2 where l: "LoadIndexEntries F P Z hex posix sif cache_last_modified out w1 = Some (r, w2)"
      "if \<exists>r0. fresh_index P Z ct (view w1) ?index cache_last_modified out r0
       then (\<exists>r0. fresh_index P Z ct (view w1) ?index cache_last_modified out r0
              \<and> r = r0\<lparr>lr_init_method := INITIALIZE_METHOD_LOADED\<rparr>) \<and> view w2 = view w1
       else lr_init_method r \<noteq> INITIALIZE_METHOD_LOADED \<and> flush_required r
         \<and> matches_directory hex (view w1) cache_directory (lr_entries r)
         \<and> dir (view w2) = (\<lambda>q. if q = ?index \<or> q \<noteq> [] \<and> butlast q = cache_directory \<and> left_over q
                              then None else dir (view w1) q)
         \<and> data (view w2) = data (view w1)"
      unfolding assms(3) by (rule listing_files.LoadIndexEntries_right [OF assms(1,2)])
    have "let ix2 = MergeInitializingSet r ix0
        in if cache_last_modified \<le> wrap64 t \<and> length ?es \<le> kMaxEntriesInIndex - 2
           then init_method ix2 = INITIALIZE_METHOD_LOADED \<and> entries_set ix2 = ?es \<and> cache_size ix2 = cache_size ix
           else init_method ix2 \<noteq> INITIALIZE_METHOD_LOADED
             \<and> matches_directory hex (view w1) cache_directory (entries_set ix2)"
      using l(2) unfolding assms(9) Let_def merge_into_new_index by (auto simp: fresh es(2) split: if_splits)
    with h d l(1) have "\<exists>bs r0 seen r w2. holds_file (view w1) ?index bs
      \<and> Deserialize P Z ct bs 0 (Reset out) = Some (r0, seen)
      \<and> LoadIndexEntries F P Z hex posix sif cache_last_modified out w1 = Some (r, w2)
      \<and> (let ix2 = MergeInitializingSet r ix0
          in if cache_last_modified \<le> seen \<and> length ?es \<le> kMaxEntriesInIndex - 2
             then init_method ix2 = INITIALIZE_METHOD_LOADED \<and> entries_set ix2 = ?es \<and> cache_size ix2 = cache_size ix
             else init_method ix2 \<noteq> INITIALIZE_METHOD_LOADED
               \<and> matches_directory hex (view w1) cache_directory (entries_set ix2))" by blast
    with call show ?thesis unfolding wr True prod.case IndexWriteResult.case by (rule conjI)
  next
    case False
    with call wr show ?thesis by (cases res) simp_all
  qed
qed

text \<open>The directory of before with a record of itself, and an index of two entries.\<close>

definition restart_world :: mem where
  "restart_world = restore_world\<lparr>m_dir := ([''c''], 9) # m_dir restore_world\<rparr>"

definition closing_index :: SimpleIndex where
  "closing_index = (new_index DISK_CACHE False 1 0 1)\<lparr>initialized := True, cache_size := 1536,
     entries_set := [(3, \<lparr>time_or_prefetch = 10, entry_size_256b_chunks = 4, in_memory_data = 0\<rparr>),
                     (4, \<lparr>time_or_prefetch = 20, entry_size_256b_chunks = 2, in_memory_data = 0\<rparr>)]\<rparr>"

lemma index_survives_restart_witness:
  "fst (WriteIndexToDisk (mem_env (\<lambda>_. False)) java_pickle_ops crc32_zlib (new_SimpleIndexFile DISK_CACHE [''c''])
         DISK_CACHE INDEX_WRITE_REASON_SHUTDOWN (entries_set closing_index) (cache_size closing_index) restart_world) = kSuccess
    \<and> outbox (WriteToDisk INDEX_WRITE_REASON_SHUTDOWN closing_index) = outbox closing_index
        @ [WriteIndexFileCall INDEX_WRITE_REASON_SHUTDOWN (entries_set closing_index) (cache_size closing_index)]
    \<and> (case WriteIndexToDisk (mem_env (\<lambda>_. False)) java_pickle_ops crc32_zlib (new_SimpleIndexFile DISK_CACHE [''c''])
           DISK_CACHE INDEX_WRITE_REASON_SHUTDOWN (entries_set closing_index) (cache_size closing_index) restart_world of
         (kSuccess, w1) \<Rightarrow>
           (\<exists>bs r0 seen r w2. holds_file (mem_view w1) (sif_index_file (new_SimpleIndexFile DISK_CACHE [''c''])) bs
              \<and> Deserialize java_pickle_ops crc32_zlib DISK_CACHE bs 0 (Reset no_result) = Some (r0, seen)
              \<and> LoadIndexEntries (mem_env (\<lambda>_. False)) java_pickle_ops crc32_zlib parse_hex_u64 True
                  (new_SimpleIndexFile DISK_CACHE [''c'']) 0 no_result w1 = Some (r, w2)
              \<and> (let ix2 = MergeInitializingSet r (new_index DISK_CACHE False 1 0 1)
                  in if 0 \<le> seen \<and> length (entries_set closing_index) \<le> kMaxEntriesInIndex - 2
                     then init_method ix2 = INITIALIZE_METHOD_LOADED
                       \<and> entries_set ix2 = entries_set closing_index \<and> cache_size ix2 = cache_size closing_index
                     else init_method ix2 \<noteq> INITIALIZE_METHOD_LOADED
                       \<and> matches_directory parse_hex_u64 (mem_view w1) [''c''] (entries_set ix2)))
       | _ \<Rightarrow> True)"
proof (rule conjI)
  show "fst (WriteIndexToDisk (mem_env (\<lambda>_. False)) java_pickle_ops crc32_zlib (new_SimpleIndexFile DISK_CACHE [''c''])
         DISK_CACHE INDEX_WRITE_REASON_SHUTDOWN (entries_set closing_index) (cache_size closing_index) restart_world) = kSuccess"
    by (simp add: WriteIndexToDisk_def SyncWriteToDisk_def SyncWriteToDiskInternal_def WritePickleFile_def Let_def
        new_SimpleIndexFile_def AppendASCII_def mem_env_def mem_ops restart_world_def restore_world_def empty_mem_def
        tick_def mem_put_def kIndexDirectory_def kIndexFileName_def kTempIndexFileName_def)
qed (rule index_survives_restart [OF mem_lists.listing_files_axioms java_pickle.pickle_laws_axioms refl _ _ _ _ _ refl],
  simp_all add: closing_index_def new_index_def index_inv_def total_size_def GetEntrySize_def apart_names_def
    new_SimpleIndexFile_def AppendASCII_def restart_world_def restore_world_def empty_mem_def mem_view_def
    kIndexDirectory_def kIndexFileName_def kTempIndexFileName_def kMaxEntriesInIndex_def
    INDEX_WRITE_REASON_SHUTDOWN_def INDEX_WRITE_REASON_MAX_def)

end
