(* ===== verification/Sync_Sparse.thy ===== *)
theory Sync_Sparse imports Sync_Files begin

text \<open>
  The sparse file of an entry (simple_synchronous_entry.cc): its header, the scan of its ranges when
  it is opened, and reading, overwriting and appending ranges; then the sparse read, the sparse write
  and the query for an available range, which walk over the ranges in the order of their offsets.
\<close>

section \<open>The map of ranges\<close>

type_synonym range_map = "(u64 \<times> SparseRange) list"

definition before :: "u64 \<Rightarrow> range_map \<Rightarrow> range_map" where
  "before offset rs = takeWhile (\<lambda>(k, r). k < offset) rs"

definition lower_bound :: "u64 \<Rightarrow> range_map \<Rightarrow> range_map" where
  "lower_bound offset rs = dropWhile (\<lambda>(k, r). k < offset) rs"

text \<open>\<open>emplace\<close> keeps a range that is already there.\<close>

definition emplace :: "u64 \<Rightarrow> SparseRange \<Rightarrow> range_map \<Rightarrow> range_map" where
  "emplace k r rs =
     (case lower_bound k rs of
        [] \<Rightarrow> before k rs @ [(k, r)]
      | (k', r') # later \<Rightarrow> if k' = k then rs else before k rs @ (k, r) # (k', r') # later)"

definition update_range :: "u64 \<Rightarrow> SparseRange \<Rightarrow> range_map \<Rightarrow> range_map" where
  "update_range k r rs = map (\<lambda>(k', r'). if k' = k then (k', r) else (k', r')) rs"

section \<open>The file\<close>

definition InitializeSparseFile ::
    "('w, 'h, 'e) env \<Rightarrow> 'h \<Rightarrow> SyncEntry \<Rightarrow> 'w \<Rightarrow> (bool \<times> SyncEntry \<times> 'w) option" where
  "InitializeSparseFile F sparse_file E w =
     do {
       let key = the (se_key E);
       hash \<leftarrow> PersistentHash key;
       let header = entry_header kSimpleSparseEntryVersion key hash;
       let (ok, w) = fWriteAndCheck F sparse_file 0 (header_bytes header) w;
       if \<not> ok then Some (False, E, w)
       else
         (let (ok, w) = fWriteAndCheck F sparse_file (int sizeof_SimpleFileHeader) key w
          in if \<not> ok then Some (False, E, w)
             else Some (True, E\<lparr>sparse_ranges := [],
                    sparse_tail_offset := of_nat (sizeof_SimpleFileHeader + length key)\<rparr>, w))
     }"

definition TruncateSparseFile ::
    "('w, 'h, 'e) env \<Rightarrow> 'h \<Rightarrow> SyncEntry \<Rightarrow> 'w \<Rightarrow> bool \<times> SyncEntry \<times> 'w" where
  "TruncateSparseFile F sparse_file E w =
     (let header_and_key_length = sizeof_SimpleFileHeader + se_key_size E;
          (ok, w) = fSetLength F sparse_file (int header_and_key_length) w
      in if \<not> ok then (False, E, w)
         else (True, E\<lparr>sparse_ranges := [], sparse_tail_offset := of_nat header_and_key_length\<rparr>, w))"

text \<open>
  The loop over the range headers. Nothing bounds the length a header claims except that the end of
  the range must be a 64-bit number, and the offset of the next header is computed modulo \<open>2 ^ 64\<close>.
\<close>

partial_function (option) scan_ranges ::
    "('w, 'h, 'e) env \<Rightarrow> 'h \<Rightarrow> u64 \<Rightarrow> range_map \<Rightarrow> u64 \<Rightarrow> 'w
       \<Rightarrow> (bool \<times> range_map \<times> u64 \<times> u64 \<times> 'w) option" where
  "scan_ranges F sparse_file range_header_offset rs sparse_size w =
     (let (result, w) = fRead F sparse_file (wrap64 (uint range_header_offset))
                          sizeof_SimpleFileSparseRangeHeader w
      in case result of
           None \<Rightarrow> Some (False, rs, sparse_size, range_header_offset, w)
         | Some bs \<Rightarrow>
             if bs = [] then Some (True, rs, sparse_size, range_header_offset, w)
             else if length bs \<noteq> sizeof_SimpleFileSparseRangeHeader
             then Some (False, rs, sparse_size, range_header_offset, w)
             else
               (let range_header = sparse_range_of bs
                in if sparse_range_magic_number range_header \<noteq> kSimpleSparseRangeMagicNumber
                      \<or> CheckAdd64 (sr_offset range_header) (sr_length range_header) = None
                   then Some (False, rs, sparse_size, range_header_offset, w)
                   else
                     (let data_offset = range_header_offset + of_nat sizeof_SimpleFileSparseRangeHeader;
                          rg = \<lparr>range_offset = sr_offset range_header,
                                   range_length = sr_length range_header,
                                   range_data_crc32 = sr_data_crc32 range_header,
                                   range_file_offset = wrap64 (uint data_offset)\<rparr>
                      in scan_ranges F sparse_file (data_offset + range_length rg)
                           (emplace (range_offset rg) rg rs)
                           (sparse_size + range_length rg) w)))"

definition ScanSparseFile ::
    "('w, 'h, 'e) env \<Rightarrow> 'h \<Rightarrow> SyncEntry \<Rightarrow> u64 \<Rightarrow> 'w \<Rightarrow> (bool \<times> SyncEntry \<times> u64 \<times> 'w) option" where
  "ScanSparseFile F sparse_file E out_size w =
     (case fReadAndCheck F sparse_file 0 sizeof_SimpleFileHeader w of
        (None, w) \<Rightarrow> Some (False, E, out_size, w)
      | (Some bs, w) \<Rightarrow>
          (let header = header_of bs
           in if initial_magic_number header \<noteq> kSimpleInitialMagicNumber
                 \<or> hdr_version header \<noteq> kSimpleSparseEntryVersion
              then Some (False, E, out_size, w)
              else
                do {
                  (ok, rs, sparse_size, tail, w) \<leftarrow>
                    scan_ranges F sparse_file (of_nat (sizeof_SimpleFileHeader + se_key_size E)) [] 0 w;
                  let E = E\<lparr>sparse_ranges := rs\<rparr>;
                  if \<not> ok then Some (False, E, out_size, w)
                  else Some (True, E\<lparr>sparse_tail_offset := tail\<rparr>, sparse_size, w)
                }))"

definition OpenSparseFileIfExists ::
    "('w, 'h, 'e) env \<Rightarrow> SyncEntry \<Rightarrow> u64 \<Rightarrow> 'w \<Rightarrow> (bool \<times> SyncEntry \<times> u64 \<times> 'w) option" where
  "OpenSparseFileIfExists F E out_size w =
     (case OpenFile F (GetFilenameForSubfile E FILE_SPARSE) FLAG_OPEN_RW w of
        (Inl error, w) \<Rightarrow> Some (error = FILE_ERROR_NOT_FOUND, E, out_size, w)
      | (Inr sparse_file, w) \<Rightarrow>
          do {
            (ok, E, out_size, w) \<leftarrow> ScanSparseFile F sparse_file E out_size w;
            if \<not> ok then Some (False, E, out_size, w)
            else Some (True, E\<lparr>sparse_file_open := True\<rparr>, out_size,
                       tRegister F (tracked_sparse E) sparse_file w)
          })"

definition CreateSparseFile ::
    "('w, 'h, 'e) env \<Rightarrow> SyncEntry \<Rightarrow> 'w \<Rightarrow> (bool \<times> SyncEntry \<times> 'w) option" where
  "CreateSparseFile F E w =
     (case OpenFile F (GetFilenameForSubfile E FILE_SPARSE) FLAG_CREATE_RW w of
        (Inl _, w) \<Rightarrow> Some (False, E, w)
      | (Inr sparse_file, w) \<Rightarrow>
          do {
            (ok, E, w) \<leftarrow> InitializeSparseFile F sparse_file E w;
            if \<not> ok then Some (False, E, w)
            else Some (True, E\<lparr>sparse_file_open := True\<rparr>, tRegister F (tracked_sparse E) sparse_file w)
          })"

section \<open>One range\<close>

text \<open>The offset of a byte of a range in the file: an \<open>int64_t\<close> plus a \<open>size_t\<close>.\<close>

definition range_pos :: "SparseRange \<Rightarrow> u64 \<Rightarrow> int" where
  "range_pos rg offset_in_range = wrap64 (range_file_offset rg + uint offset_in_range)"

text \<open>The two \<open>CHECK\<close>s; the sum is a \<open>size_t\<close>.\<close>

definition in_range_check :: "SparseRange \<Rightarrow> u64 \<Rightarrow> u64 \<Rightarrow> bool" where
  "in_range_check rg offset_in_range len \<longleftrightarrow>
     offset_in_range \<le> range_length rg \<and> offset_in_range + len \<le> range_length rg"

definition ReadSparseRange ::
    "('w, 'h, 'e) env \<Rightarrow> sys \<Rightarrow> 'h \<Rightarrow> SparseRange \<Rightarrow> u64 \<Rightarrow> u64 \<Rightarrow> 'w \<Rightarrow> (bytes option \<times> 'w) option" where
  "ReadSparseRange F S sparse_file rg offset_in_range len w =
     (if \<not> in_range_check rg offset_in_range len then None
      else
        (case fReadAndCheck F sparse_file (range_pos rg offset_in_range) (unat len) w of
           (None, w) \<Rightarrow> Some (None, w)
         | (Some bs, w) \<Rightarrow>
             if offset_in_range = 0 \<and> len = range_length rg \<and> range_data_crc32 rg \<noteq> 0
                \<and> Crc32 (sys_zlib S) bs \<noteq> range_data_crc32 rg
             then Some (None, w) else Some (Some bs, w)))"

definition range_header :: "SparseRange \<Rightarrow> SimpleFileSparseRangeHeader" where
  "range_header rg =
     \<lparr>sparse_range_magic_number = kSimpleSparseRangeMagicNumber, sr_offset = range_offset rg,
      sr_length = range_length rg, sr_data_crc32 = range_data_crc32 rg, sr_unused_padding = 0\<rparr>"

definition WriteSparseRange ::
    "('w, 'h, 'e) env \<Rightarrow> sys \<Rightarrow> 'h \<Rightarrow> SparseRange \<Rightarrow> u64 \<Rightarrow> u64 \<Rightarrow> bytes \<Rightarrow> 'w
       \<Rightarrow> (bool \<times> SparseRange \<times> 'w) option" where
  "WriteSparseRange F S sparse_file rg offset_in_range len buf w =
     (if \<not> in_range_check rg offset_in_range len then None
      else
        (let new_crc32 = (if offset_in_range = 0 \<and> len = range_length rg
                          then Crc32 (sys_zlib S) (take (unat len) buf) else 0);
             (ok, rg, w) =
               (if new_crc32 \<noteq> range_data_crc32 rg
                then (let rg = rg\<lparr>range_data_crc32 := new_crc32\<rparr>;
                          (ok, w) = fWriteAndCheck F sparse_file
                            (wrap64 (range_file_offset rg - int sizeof_SimpleFileSparseRangeHeader))
                            (sparse_range_bytes (range_header rg)) w
                      in (ok, rg, w))
                else (True, rg, w))
         in if \<not> ok then Some (False, rg, w)
            else (let (ok, w) = fWriteAndCheck F sparse_file (range_pos rg offset_in_range)
                                  (take (unat len) buf) w
                  in Some (ok, rg, w))))"

definition AppendSparseRange ::
    "('w, 'h, 'e) env \<Rightarrow> sys \<Rightarrow> 'h \<Rightarrow> u64 \<Rightarrow> u64 \<Rightarrow> bytes \<Rightarrow> SyncEntry \<Rightarrow> 'w \<Rightarrow> bool \<times> SyncEntry \<times> 'w" where
  "AppendSparseRange F S sparse_file offset len buf E w =
     (let crc = Crc32 (sys_zlib S) (take (unat len) buf);
          header = range_header \<lparr>range_offset = offset, range_length = len, range_data_crc32 = crc,
                                 range_file_offset = 0\<rparr>
      in case fWrite F sparse_file (wrap64 (uint (sparse_tail_offset E))) (sparse_range_bytes header) w of
           (None, w) \<Rightarrow> (False, E, w)
         | (Some bytes_written, w) \<Rightarrow>
             (let E = E\<lparr>sparse_tail_offset := sparse_tail_offset E + of_nat bytes_written\<rparr>
              in case fWrite F sparse_file (wrap64 (uint (sparse_tail_offset E))) (take (unat len) buf) w of
                   (None, w) \<Rightarrow> (False, E, w)
                 | (Some bytes_written, w) \<Rightarrow>
                     (let data_file_offset = sparse_tail_offset E;
                          rg = \<lparr>range_offset = offset, range_length = len, range_data_crc32 = crc,
                                   range_file_offset = wrap64 (uint data_file_offset)\<rparr>
                      in (True, E\<lparr>sparse_tail_offset := sparse_tail_offset E + of_nat bytes_written,
                                  sparse_ranges := emplace offset rg (sparse_ranges E)\<rparr>, w))))"

section \<open>Reading\<close>

text \<open>The ranges that follow one another from the position reached; \<open>got\<close> is what was read so far.\<close>

fun read_contiguous ::
    "('w, 'h, 'e) env \<Rightarrow> sys \<Rightarrow> 'h \<Rightarrow> u64 \<Rightarrow> u64 \<Rightarrow> range_map \<Rightarrow> u64 \<Rightarrow> bytes \<Rightarrow> 'w
       \<Rightarrow> ((u64 \<times> bytes) option \<times> 'w) option" where
  "read_contiguous F S file offset buf_len [] read_so_far got w = Some (Some (read_so_far, got), w)"
| "read_contiguous F S file offset buf_len ((k, rg) # later) read_so_far got w =
     (if read_so_far < buf_len \<and> range_offset rg = offset + read_so_far
      then
        (if k \<noteq> range_offset rg then None
         else
           (let len_to_read = min (buf_len - read_so_far) (range_length rg)
            in do {
                 (bs, w) \<leftarrow> ReadSparseRange F S file rg 0 len_to_read w;
                 case bs of
                   None \<Rightarrow> Some (None, w)
                 | Some bs \<Rightarrow>
                     read_contiguous F S file offset buf_len later (read_so_far + len_to_read) (got @ bs) w
               }))
      else Some (Some (read_so_far, got), w))"

text \<open>The range before the position, when it reaches over it.\<close>

definition read_overlapping ::
    "('w, 'h, 'e) env \<Rightarrow> sys \<Rightarrow> 'h \<Rightarrow> u64 \<Rightarrow> u64 \<Rightarrow> range_map \<Rightarrow> 'w
       \<Rightarrow> ((u64 \<times> bytes) option \<times> 'w) option" where
  "read_overlapping F S file offset buf_len below w =
     (if below = [] then Some (Some (0, []), w)
      else
        (case last below of
           (k, rg) \<Rightarrow>
             if k \<noteq> range_offset rg
                \<or> CheckAdd64 (range_offset rg) (range_length rg) = None then None
             else if range_offset rg + range_length rg > offset
             then (let offset_in_range = offset - range_offset rg;
                       len_to_read = min buf_len (range_length rg - offset_in_range)
                   in do {
                        (bs, w) \<leftarrow> ReadSparseRange F S file rg offset_in_range len_to_read w;
                        Some (map_option (\<lambda>bs. (len_to_read, bs)) bs, w)
                      })
             else Some (Some (0, []), w)))"

definition ReadSparseData ::
    "('w, 'h, 'e) env \<Rightarrow> sys \<Rightarrow> SparseRequest \<Rightarrow> SyncEntry \<Rightarrow> 'w
       \<Rightarrow> (net_result \<times> bytes \<times> SyncEntry \<times> 'w) option" where
  "ReadSparseData F S in_entry_op E w =
     (let offset = sparse_offset in_entry_op; buf_len = sparse_buf_len in_entry_op
      in if \<not> sparse_file_open E \<or> buf_len = 0 then Some (Net 0, [], E, w)
         else
           (case tAcquire F (tracked_sparse E) w of
              (None, w) \<Rightarrow>
                (case doom_entry F E w of (E, w) \<Rightarrow> Some (Err ERR_CACHE_READ_FAILURE, [], E, w))
            | (Some sparse_file, w) \<Rightarrow>
                do {
                  (first, w) \<leftarrow> read_overlapping F S sparse_file offset buf_len
                                  (before offset (sparse_ranges E)) w;
                  case first of
                    None \<Rightarrow>
                      (case doom_entry F E w of (E, w) \<Rightarrow> Some (Err ERR_CACHE_READ_FAILURE, [], E, w))
                  | Some (read_so_far, got) \<Rightarrow>
                      do {
                        (all, w) \<leftarrow> read_contiguous F S sparse_file offset buf_len
                                      (lower_bound offset (sparse_ranges E)) read_so_far got w;
                        case all of
                          None \<Rightarrow>
                            (case doom_entry F E w of
                               (E, w) \<Rightarrow> Some (Err ERR_CACHE_READ_FAILURE, [], E, w))
                        | Some (read_so_far, got) \<Rightarrow>
                            if uint read_so_far > INT_MAX then None
                            else Some (Net (unat read_so_far), got, E, w)
                      }
                }))"

section \<open>Writing\<close>

text \<open>
  The ranges that start inside the region to write: the gap before each is appended as a new range,
  then the range is overwritten. The iterator of the \<open>std::map\<close> stays on the range it was on when a
  range is inserted before it.
\<close>

fun write_ranges ::
    "('w, 'h, 'e) env \<Rightarrow> sys \<Rightarrow> 'h \<Rightarrow> u64 \<Rightarrow> u64 \<Rightarrow> bytes \<Rightarrow> range_map \<Rightarrow> u64 \<Rightarrow> u64 \<Rightarrow> SyncEntry \<Rightarrow> 'w
       \<Rightarrow> (bool \<times> u64 \<times> u64 \<times> SyncEntry \<times> 'w) option" where
  "write_ranges F S file offset buf_len buf [] written appended E w = Some (True, written, appended, E, w)"
| "write_ranges F S file offset buf_len buf ((k, rg) # later) written appended E w =
     (if written < buf_len \<and> range_offset rg < offset + buf_len
      then
        (let (ok, written, appended, E, w) =
               (if offset + written < range_offset rg
                then (let len_to_append = range_offset rg - (offset + written);
                          (ok, E, w) = AppendSparseRange F S file (offset + written) len_to_append
                                         (drop (unat written) buf) E w
                      in if \<not> ok then (False, written, appended, E, w)
                         else (True, written + len_to_append, appended + len_to_append, E, w))
                else (True, written, appended, E, w))
         in if \<not> ok then Some (False, written, appended, E, w)
            else
              (let len_to_write = min (buf_len - written) (range_length rg)
               in do {
                    (ok, rg, w) \<leftarrow> WriteSparseRange F S file rg 0 len_to_write
                                        (drop (unat written) buf) w;
                    let E = E\<lparr>sparse_ranges := update_range k rg (sparse_ranges E)\<rparr>;
                    if \<not> ok then Some (False, written, appended, E, w)
                    else write_ranges F S file offset buf_len buf later (written + len_to_write)
                           appended E w
                  }))
      else Some (True, written, appended, E, w))"

definition write_overlapping ::
    "('w, 'h, 'e) env \<Rightarrow> sys \<Rightarrow> 'h \<Rightarrow> u64 \<Rightarrow> u64 \<Rightarrow> bytes \<Rightarrow> SyncEntry \<Rightarrow> 'w
       \<Rightarrow> (bool \<times> u64 \<times> SyncEntry \<times> 'w) option" where
  "write_overlapping F S file offset buf_len buf E w =
     (let below = before offset (sparse_ranges E)
      in if below = [] then Some (True, 0, E, w)
         else
           (case last below of
              (k, rg) \<Rightarrow>
                if CheckAdd64 (range_offset rg) (range_length rg) = None then None
                else if range_offset rg + range_length rg > offset
                then (let offset_in_range = offset - range_offset rg;
                          len_to_write = min buf_len (range_length rg - offset_in_range)
                      in do {
                           (ok, rg, w) \<leftarrow> WriteSparseRange F S file rg offset_in_range
                                               len_to_write buf w;
                           let E = E\<lparr>sparse_ranges := update_range k rg (sparse_ranges E)\<rparr>;
                           Some (ok, if ok then len_to_write else 0, E, w)
                         })
                else Some (True, 0, E, w)))"

definition write_failed ::
    "('w, 'h, 'e) env \<Rightarrow> SyncEntry \<Rightarrow> SimpleEntryStat \<Rightarrow> 'w
       \<Rightarrow> (net_result \<times> SyncEntry \<times> SimpleEntryStat \<times> 'w) option" where
  "write_failed F E st w =
     (case doom_entry F E w of (E, w) \<Rightarrow> Some (Err ERR_CACHE_WRITE_FAILURE, E, st, w))"

definition WriteSparseData ::
    "('w, 'h, 'e) env \<Rightarrow> sys \<Rightarrow> SparseRequest \<Rightarrow> bytes \<Rightarrow> u64 \<Rightarrow> SyncEntry \<Rightarrow> SimpleEntryStat \<Rightarrow> 'w
       \<Rightarrow> (net_result \<times> SyncEntry \<times> SimpleEntryStat \<times> 'w) option" where
  "WriteSparseData F S in_entry_op buf max_sparse_data_size E st w =
     (let offset = sparse_offset in_entry_op; buf_len = sparse_buf_len in_entry_op
      in do {
           (ok, E, w) \<leftarrow> (if \<not> sparse_file_open E then CreateSparseFile F E w else Some (True, E, w));
           if \<not> ok then write_failed F E st w
           else
             (case tAcquire F (tracked_sparse E) w of
                (None, w) \<Rightarrow> write_failed F E st w
              | (Some sparse_file, w) \<Rightarrow>
                  (case CheckAdd64 (sparse_data_size st) buf_len of
                     None \<Rightarrow> write_failed F E st w
                   | Some future_sparse_data_size \<Rightarrow>
                       (let (E, st, w) =
                              (if future_sparse_data_size > max_sparse_data_size
                               then (let (_, E, w) = TruncateSparseFile F sparse_file E w
                                     in (E, st\<lparr>sparse_data_size := 0\<rparr>, w))
                               else (E, st, w))
                        in do {
                             let later = lower_bound offset (sparse_ranges E);
                             (ok, written, E, w) \<leftarrow> write_overlapping F S sparse_file offset buf_len buf E w;
                             if \<not> ok then write_failed F E st w
                             else
                               do {
                                 (ok, written, appended, E, w) \<leftarrow>
                                   write_ranges F S sparse_file offset buf_len buf later written 0 E w;
                                 if \<not> ok then write_failed F E st w
                                 else
                                   (let (ok, written, appended, E, w) =
                                          (if written < buf_len
                                           then (let len_to_append = buf_len - written;
                                                     (ok, E, w) = AppendSparseRange F S sparse_file
                                                       (offset + written) len_to_append
                                                       (drop (unat written) buf) E w
                                                 in if \<not> ok then (False, written, appended, E, w)
                                                    else (True, written + len_to_append,
                                                          appended + len_to_append, E, w))
                                           else (True, written, appended, E, w))
                                    in if \<not> ok then write_failed F E st w
                                       else if buf_len \<noteq> written \<or> uint written > INT_MAX then None
                                       else
                                         (let (modification_time, w) = Time_Now F w;
                                              st = st\<lparr>last_used := modification_time,
                                                sparse_data_size := sparse_data_size st + appended\<rparr>
                                          in Some (Net (unat written), E, st, w)))
                               }
                           })))
         })"

section \<open>The available range\<close>

text \<open>The loop that extends the available range over the ranges that follow.\<close>

fun extend_available :: "u64 \<Rightarrow> u64 \<Rightarrow> range_map \<Rightarrow> u64 \<Rightarrow> u64" where
  "extend_available limit start [] avail_so_far = avail_so_far"
| "extend_available limit start ((k, rg) # later) avail_so_far =
     (if start + avail_so_far < limit \<and> range_offset rg = start + avail_so_far
      then extend_available limit start later (avail_so_far + range_length rg)
      else avail_so_far)"

definition GetAvailableRange :: "SparseRequest \<Rightarrow> SyncEntry \<Rightarrow> u64 \<times> u64" where
  "GetAvailableRange in_entry_op E =
     (let offset = sparse_offset in_entry_op; len = sparse_buf_len in_entry_op;
          below = before offset (sparse_ranges E); later = lower_bound offset (sparse_ranges E);
          start = (case later of
                     [] \<Rightarrow> offset
                   | (k, rg) # _ \<Rightarrow>
                       if range_offset rg < offset + len then range_offset rg else offset);
          hop_back = ((case later of [] \<Rightarrow> True | (k, rg) # _ \<Rightarrow> range_offset rg > offset)
                      \<and> below \<noteq> []);
          (start, avail_so_far) =
            (if hop_back
             then (case last below of
                     (k, rg) \<Rightarrow>
                       if range_offset rg + range_length rg > offset
                       then (offset, (range_offset rg + range_length rg) - offset)
                       else (start, 0))
             else (start, 0));
          avail_so_far = extend_available (offset + len) start later avail_so_far
      in (start, min avail_so_far (len - (start - offset))))"

end
