(* ===== verification/Sync_Entry.thy ===== *)
theory Sync_Entry imports Sync_Sparse begin

text \<open>
  The synchronous entry (simple_synchronous_entry.cc): reading and checking the EOF records and the
  streams of a file, opening and creating an entry, reading and writing stream data and closing the
  entry with its EOF records.
\<close>

section \<open>Reading from the file or from what was prefetched\<close>

definition ReadFromFileOrPrefetched ::
    "('w, 'h, 'e) env \<Rightarrow> 'h \<Rightarrow> PrefetchData option \<Rightarrow> nat \<Rightarrow> int \<Rightarrow> nat \<Rightarrow> 'w
       \<Rightarrow> bytes option \<times> PrefetchData option \<times> 'w" where
  "ReadFromFileOrPrefetched F file prefetch_data file_index offset sz w =
     (if offset < 0 then (None, prefetch_data, w)
      else if sz = 0 then (Some [], prefetch_data, w)
      else
        (let (found, prefetch_data) =
               (if file_index = 0
                then (case prefetch_data of
                        None \<Rightarrow> (None, None)
                      | Some pf \<Rightarrow>
                          (case PrefetchData_ReadData (word_of_int offset) (of_nat sz) pf of
                             (bs, pf) \<Rightarrow> (bs, Some pf)))
                else (None, prefetch_data))
         in case found of
              Some bs \<Rightarrow> (Some bs, prefetch_data, w)
            | None \<Rightarrow> (case fReadAndCheck F file offset sz w of (bs, w) \<Rightarrow> (bs, prefetch_data, w))))"

definition GetEOFRecordData ::
    "('w, 'h, 'e) env \<Rightarrow> 'h \<Rightarrow> PrefetchData option \<Rightarrow> nat \<Rightarrow> int \<Rightarrow> 'w
       \<Rightarrow> net_result \<times> SimpleFileEOF \<times> PrefetchData option \<times> 'w" where
  "GetEOFRecordData F file prefetch_data file_index file_offset w =
     (case ReadFromFileOrPrefetched F file prefetch_data file_index file_offset sizeof_SimpleFileEOF w of
        (None, prefetch_data, w) \<Rightarrow>
          (Err ERR_CACHE_CHECKSUM_READ_FAILURE, empty_eof, prefetch_data, w)
      | (Some bs, prefetch_data, w) \<Rightarrow>
          (let eof_record = eof_of bs
           in if final_magic_number eof_record \<noteq> kSimpleFinalMagicNumber
              then (Err ERR_CACHE_CHECKSUM_READ_FAILURE, eof_record, prefetch_data, w)
              else if uint (stream_size eof_record) \<ge> 2 ^ 31
              then (Err ERR_FAILED, eof_record, prefetch_data, w)
              else (net_OK, eof_record, prefetch_data, w)))"

definition eof_crc_mismatch :: "SimpleFileEOF \<Rightarrow> u32 \<Rightarrow> bool" where
  "eof_crc_mismatch eof_record expected_crc32 \<longleftrightarrow>
     eof_flags eof_record AND FLAG_HAS_CRC32 \<noteq> 0 \<and> eof_data_crc32 eof_record \<noteq> expected_crc32"

definition CheckEOFRecord ::
    "('w, 'h, 'e) env \<Rightarrow> 'h \<Rightarrow> nat \<Rightarrow> SimpleEntryStat \<Rightarrow> u32 \<Rightarrow> SyncEntry \<Rightarrow> 'w
       \<Rightarrow> net_result \<times> SyncEntry \<times> 'w" where
  "CheckEOFRecord F file stream_index st expected_crc32 E w =
     (let file_offset = GetEOFOffsetInFile st (se_key_size E) stream_index;
          file_index = GetFileIndexFromStreamIndex stream_index;
          (rv, eof_record, _, w) = GetEOFRecordData F file None file_index file_offset w
      in if rv \<noteq> net_OK then (case doom_entry F E w of (E, w) \<Rightarrow> (rv, E, w))
         else if eof_crc_mismatch eof_record expected_crc32
         then (case doom_entry F E w of (E, w) \<Rightarrow> (Err ERR_CACHE_CHECKSUM_MISMATCH, E, w))
         else (net_OK, E, w))"

definition PreReadStreamPayload ::
    "('w, 'h, 'e) env \<Rightarrow> sys \<Rightarrow> 'h \<Rightarrow> PrefetchData option \<Rightarrow> nat \<Rightarrow> int \<Rightarrow> SimpleEntryStat
       \<Rightarrow> SimpleFileEOF \<Rightarrow> SimpleStreamPrefetchData \<Rightarrow> SyncEntry \<Rightarrow> 'w
       \<Rightarrow> net_result \<times> SimpleStreamPrefetchData \<times> PrefetchData option \<times> 'w" where
  "PreReadStreamPayload F S file prefetch_data stream_index extra_size st eof_record out E w =
     (let str_size = data_size st ! stream_index
      in if str_size + extra_size > INT_MAX \<or> str_size < 0 \<or> extra_size < 0
         then (Err ERR_INVALID_ARGUMENT, out, prefetch_data, w)
         else
           (let read_size = nat (str_size + extra_size);
                file_offset = GetOffsetInFile st (se_key_size E) 0 stream_index
            in case ReadFromFileOrPrefetched F file prefetch_data 0 file_offset read_size w of
                 (None, prefetch_data, w) \<Rightarrow> (Err ERR_FAILED, out\<lparr>spd_data := Some []\<rparr>, prefetch_data, w)
               | (Some bs, prefetch_data, w) \<Rightarrow>
                   (let expected_crc32 = Crc32 (sys_zlib S) (take (nat str_size) bs);
                        out = out\<lparr>spd_data := Some bs\<rparr>
                    in if eof_crc_mismatch eof_record expected_crc32
                       then (Err ERR_CACHE_CHECKSUM_MISMATCH, out, prefetch_data, w)
                       else (net_OK, out\<lparr>stream_crc32 := expected_crc32\<rparr>, prefetch_data, w))))"

section \<open>Opening\<close>

text \<open>The prefetch that is tried first; \<open>None\<close> is the failure of the read.\<close>

definition prefetch_file ::
    "('w, 'h, 'e) env \<Rightarrow> sys \<Rightarrow> 'h \<Rightarrow> u64 \<Rightarrow> SyncEntry \<Rightarrow> 'w \<Rightarrow> PrefetchData option \<times> 'w" where
  "prefetch_file F S file u_file_size E w =
     (let pf = new_PrefetchData u_file_size;
          full_prefetch_size = GetSimpleCacheFullPrefetchSize S (se_cache_type E);
          trailer_size = GetSimpleCacheTrailerPrefetchSize S (sint (trailer_prefetch_size E))
                           (se_cache_type E)
      in if u_file_size \<le> ucast full_prefetch_size \<or> u_file_size \<le> ucast trailer_size
         then (case PrefetchFromFile F file 0 (unat u_file_size) pf w of
                 (ok, pf, w) \<Rightarrow> (if ok then Some pf else None, w))
         else if trailer_size > 0
         then (let len = min (ucast trailer_size) u_file_size; offset = u_file_size - len
               in case PrefetchFromFile F file offset (unat len) pf w of
                    (ok, pf, w) \<Rightarrow> (if ok then Some pf else None, w))
         else (Some pf, w))"

text \<open>
  The sizes of the two streams of file 0, from the EOF record at its end. \<open>False\<close> is the return of
  \<open>ERR_FAILED\<close>, which leaves the sizes set so far.
\<close>

definition eof_has_key_sha256 :: "SimpleFileEOF \<Rightarrow> bool" where
  "eof_has_key_sha256 e \<longleftrightarrow> eof_flags e AND FLAG_HAS_KEY_SHA256 = FLAG_HAS_KEY_SHA256"

definition extra_post_stream_0_read :: "SimpleFileEOF \<Rightarrow> int" where
  "extra_post_stream_0_read e = (if eof_has_key_sha256 e then int sizeof_SHA256 else 0)"

definition set_file_0_sizes ::
    "int \<Rightarrow> SimpleFileEOF \<Rightarrow> nat \<Rightarrow> SimpleEntryStat \<Rightarrow> bool \<times> SimpleEntryStat" where
  "set_file_0_sizes file_size stream_0_eof key_len st =
     (let stream_0_size = sint (stream_size stream_0_eof)
      in if stream_0_size > file_size then (False, st)
         else
           (let st = set_data_size 0 stream_0_size st;
                stream1_size =
                  wrap64 (file_size - 2 * int sizeof_SimpleFileEOF - stream_0_size
                    - int sizeof_SimpleFileHeader - int key_len
                    - extra_post_stream_0_read stream_0_eof)
            in if stream1_size < 0 \<or> stream1_size > file_size then (False, st)
               else (True, set_data_size 1 stream1_size st)))"

text \<open>Stream 1, when all of it has been prefetched and the key is in the footer.\<close>

definition read_prefetched_stream_1 ::
    "('w, 'h, 'e) env \<Rightarrow> sys \<Rightarrow> 'h \<Rightarrow> PrefetchData \<Rightarrow> SimpleFileEOF \<Rightarrow> SyncEntry \<Rightarrow> SimpleEntryStat
       \<Rightarrow> SimpleStreamPrefetchData list \<Rightarrow> 'w \<Rightarrow> net_result \<times> SimpleStreamPrefetchData list \<times> 'w" where
  "read_prefetched_stream_1 F S file pf stream_0_eof E st spd w =
     (let stream_1_offset = GetOffsetInFile st (se_key_size E) 0 1;
          stream_1_read_size = wrap64 (int sizeof_SimpleFileEOF + data_size st ! 1);
          (has, pf) = HasData (word_of_int stream_1_offset) (word_of_int stream_1_read_size) pf
      in if \<not> (eof_has_key_sha256 stream_0_eof \<and> has) then (net_OK, spd, w)
         else
           (let (rv, stream_1_eof, pf, w) =
                  GetEOFRecordData F file (Some pf) 0 (GetEOFOffsetInFile st (se_key_size E) 1) w
            in if rv \<noteq> net_OK then (rv, spd, w)
               else
                 (let (rv, out, pf, w) =
                        PreReadStreamPayload F S file pf 1 0 st stream_1_eof (spd ! 1) E w
                  in (rv, spd[1 := out], w))))"

text \<open>The key: its hash in the footer when there is one, the header otherwise.\<close>

definition check_key ::
    "('w, 'h, 'e) env \<Rightarrow> sys \<Rightarrow> 'h \<Rightarrow> SimpleFileEOF \<Rightarrow> SimpleStreamPrefetchData list \<Rightarrow> SyncEntry \<Rightarrow> 'w
       \<Rightarrow> (net_result \<times> SyncEntry \<times> 'w) option" where
  "check_key F S file stream_0_eof spd E w =
     (if eof_has_key_sha256 stream_0_eof
      then (if Sha256 S (the (se_key E))
                 \<noteq> slice (nat (sint (stream_size stream_0_eof))) sizeof_SHA256 (the (spd_data (spd ! 0)))
            then Some (Err ERR_FAILED, E, w)
            else Some (net_OK, set_check_needed 0 False E, w))
      else if header_and_key_check_needed E ! 0
      then do {
             (ok, E, w) \<leftarrow> CheckHeaderAndKey F file 0 E w;
             Some (if ok then net_OK else Err ERR_FAILED, E, w)
           }
      else Some (net_OK, E, w))"

text \<open>
  \<open>None\<close> where the code does not return: the conversion of a negative file size, or a hash of a key
  that is too long.
\<close>

definition ReadAndValidateStream0AndMaybe1 ::
    "('w, 'h, 'e) env \<Rightarrow> sys \<Rightarrow> int \<Rightarrow> SyncEntry \<Rightarrow> SimpleEntryStat \<Rightarrow> SimpleStreamPrefetchData list \<Rightarrow> 'w
       \<Rightarrow> (net_result \<times> SyncEntry \<times> SimpleEntryStat \<times> SimpleStreamPrefetchData list \<times> 'w) option" where
  "ReadAndValidateStream0AndMaybe1 F S file_size E st spd w =
     (case tAcquire F (tracked_file E 0) w of
        (None, w) \<Rightarrow> Some (Err ERR_FAILED, E, st, spd, w)
      | (Some file, w) \<Rightarrow>
          if file_size < 0 then None
          else
            (case prefetch_file F S file (word_of_int file_size) E w of
               (None, w) \<Rightarrow> Some (Err ERR_FAILED, E, st, spd, w)
             | (Some pf, w) \<Rightarrow>
                 (case GetEOFRecordData F file (Some pf) 0
                         (wrap64 (file_size - int sizeof_SimpleFileEOF)) w of
                    (rv, stream_0_eof, pf, w) \<Rightarrow>
                      if rv \<noteq> net_OK then Some (rv, E, st, spd, w)
                      else
                        (case set_file_0_sizes file_size stream_0_eof (se_key_size E) st of
                           (ok, st) \<Rightarrow>
                             if \<not> ok then Some (Err ERR_FAILED, E, st, spd, w)
                             else
                               (case PreReadStreamPayload F S file pf 0
                                       (extra_post_stream_0_read stream_0_eof) st stream_0_eof (spd ! 0)
                                       E w of
                                  (rv, out, pf, w) \<Rightarrow>
                                    (let spd = spd[0 := out]
                                     in if rv \<noteq> net_OK then Some (rv, E, st, spd, w)
                                        else
                                          (let E = E\<lparr>computed_trailer_prefetch_size :=
                                                     GetDesiredTrailerPrefetchSize (the pf)\<rparr>
                                           in case read_prefetched_stream_1 F S file (the pf) stream_0_eof
                                                     E st spd w of
                                                (rv, spd, w) \<Rightarrow>
                                                  if rv \<noteq> net_OK then Some (rv, E, st, spd, w)
                                                  else
                                                    do {
                                                      (rv, E, w) \<leftarrow>
                                                        check_key F S file stream_0_eof spd E w;
                                                      Some (rv, E, st, spd, w)
                                                    })))))))"

text \<open>
  The size of stream 2 and its EOF record. A stream that is too short or has no valid record counts
  as empty. The handle is used without a check: \<open>None\<close> if it is not there.
\<close>

definition validate_stream_2 ::
    "('w, 'h, 'e) env \<Rightarrow> SyncEntry \<Rightarrow> SimpleEntryStat \<Rightarrow> 'w \<Rightarrow> (SimpleEntryStat \<times> 'w) option" where
  "validate_stream_2 F E st w =
     (let st = set_data_size 2 (GetDataSizeFromFileSize (se_key_size E) (data_size st ! 2)) st;
          data_size_2 = data_size st ! 2
      in if data_size_2 < 0 then Some (set_data_size 2 0 st, w)
         else if data_size_2 > 0
         then (case tAcquire F (tracked_file E 1) w of
                 (None, w) \<Rightarrow> None
               | (Some file, w) \<Rightarrow>
                   (case GetEOFRecordData F file None 1 (GetEOFOffsetInFile st (se_key_size E) 2) w of
                      (rv, eof_record, _, w) \<Rightarrow>
                        Some (if rv \<noteq> net_OK then set_data_size 2 0 st else st, w)))
         else Some (st, w))"

fun validate_each ::
    "('w, 'h, 'e) env \<Rightarrow> sys \<Rightarrow> nat list \<Rightarrow> SyncEntry \<Rightarrow> SimpleEntryStat \<Rightarrow> SimpleStreamPrefetchData list
       \<Rightarrow> 'w
       \<Rightarrow> (net_result \<times> SyncEntry \<times> SimpleEntryStat \<times> SimpleStreamPrefetchData list \<times> 'w) option" where
  "validate_each F S [] E st spd w = Some (net_OK, E, st, spd, w)"
| "validate_each F S (i # is) E st spd w =
     (if empty_file_omitted E ! i then validate_each F S is E st spd w
      else
        do {
          (key_ok, E, w) \<leftarrow>
            (if se_key E = None
             then (case tAcquire F (tracked_file E i) w of
                     (None, w) \<Rightarrow> Some (False, E, w)
                   | (Some file, w) \<Rightarrow> CheckHeaderAndKey F file i E w)
             else Some (True, set_check_needed i True E, w));
          if \<not> key_ok then Some (Err ERR_FAILED, E, st, spd, w)
          else if i = 0
          then do {
                 (rv, E, st, spd, w) \<leftarrow>
                   ReadAndValidateStream0AndMaybe1 F S (data_size st ! 1) E st spd w;
                 if rv \<noteq> net_OK then Some (rv, E, st, spd, w)
                 else validate_each F S is E st spd w
               }
          else do {
                 (st, w) \<leftarrow> validate_stream_2 F E st w;
                 validate_each F S is E st spd w
               }
        })"

definition InitializeForOpen ::
    "('w, 'h, 'e) env \<Rightarrow> sys \<Rightarrow> SyncEntry \<Rightarrow> SimpleEntryStat \<Rightarrow> SimpleStreamPrefetchData list \<Rightarrow> 'w
       \<Rightarrow> (net_result \<times> SyncEntry \<times> SimpleEntryStat \<times> SimpleStreamPrefetchData list \<times> 'w) option" where
  "InitializeForOpen F S E st spd w =
     (case OpenFiles F E st w of
        (ok, E, st, w) \<Rightarrow>
          if \<not> ok then Some (Err ERR_FAILED, E, st, spd, w)
          else
            do {
              (rv, E, st, spd, w) \<leftarrow> validate_each F S [0..<kSimpleEntryNormalFileCount] E st spd w;
              if rv \<noteq> net_OK then Some (rv, E, st, spd, w)
              else
                do {
                  (ok, E, sparse_size, w) \<leftarrow> OpenSparseFileIfExists F E 0 w;
                  if \<not> ok then Some (Err ERR_FAILED, E, st, spd, w)
                  else
                    (let st = st\<lparr>sparse_data_size := sparse_size\<rparr>;
                         stream2_file_index = GetFileIndexFromStreamIndex 2;
                         (E, w) =
                           (if \<not> empty_file_omitted E ! stream2_file_index \<and> data_size st ! 2 = 0
                            then
                              (let (E, w) = CloseFile F stream2_file_index E w;
                                   (_, w) = DeleteFileForEntryHash F (se_path E)
                                     (entry_hash (entry_file_key E)) stream2_file_index w
                               in (set_omitted stream2_file_index True E, w))
                            else (E, w))
                     in Some (net_OK, E\<lparr>se_initialized := True\<rparr>, st, spd, w))
                }
            })"

fun initialize_each ::
    "('w, 'h, 'e) env \<Rightarrow> nat list \<Rightarrow> SyncEntry \<Rightarrow> 'w \<Rightarrow> (net_result \<times> 'w) option" where
  "initialize_each F [] E w = Some (net_OK, w)"
| "initialize_each F (i # is) E w =
     (if empty_file_omitted E ! i then initialize_each F is E w
      else do {
             (ok, w) \<leftarrow> InitializeCreatedFile F i E w;
             if \<not> ok then Some (Err ERR_FAILED, w) else initialize_each F is E w
           })"

definition InitializeForCreate ::
    "('w, 'h, 'e) env \<Rightarrow> SyncEntry \<Rightarrow> SimpleEntryStat \<Rightarrow> 'w
       \<Rightarrow> (net_result \<times> SyncEntry \<times> SimpleEntryStat \<times> 'w) option" where
  "InitializeForCreate F E st w =
     (case CreateFiles F E st w of
        (ok, E, st, w) \<Rightarrow>
          if \<not> ok then Some (Err ERR_FILE_EXISTS, E, st, w)
          else
            do {
              (rv, w) \<leftarrow> initialize_each F [0..<kSimpleEntryNormalFileCount] E w;
              if rv \<noteq> net_OK then Some (rv, E, st, w)
              else Some (net_OK, E\<lparr>se_initialized := True\<rparr>, st, w)
            })"

record SimpleEntryCreationResults =
  cr_sync_entry :: "SyncEntry option"
  cr_stream_prefetch_data :: "SimpleStreamPrefetchData list"
  cr_entry_stat :: SimpleEntryStat
  cr_computed_trailer_prefetch_size :: u32
  cr_result :: net_result
  cr_created :: bool

text \<open>An entry whose initialization failed is doomed and its files are closed.\<close>

definition doom_and_close :: "('w, 'h, 'e) env \<Rightarrow> SyncEntry \<Rightarrow> 'w \<Rightarrow> 'w" where
  "doom_and_close F E w = (case doom_entry F E w of (E, w) \<Rightarrow> snd (CloseFiles F E w))"

definition OpenEntry ::
    "('w, 'h, 'e) env \<Rightarrow> sys \<Rightarrow> CacheType \<Rightarrow> path \<Rightarrow> nat \<Rightarrow> bytes option \<Rightarrow> u64 \<Rightarrow> u32
       \<Rightarrow> SimpleEntryCreationResults \<Rightarrow> 'w \<Rightarrow> (SimpleEntryCreationResults \<times> 'w) option" where
  "OpenEntry F S ct path owner key hash prefetch_size out w =
     do {
       let E = new_SyncEntry ct path owner key hash prefetch_size;
       (rv, E, st, spd, w) \<leftarrow>
         InitializeForOpen F S E (cr_entry_stat out) (cr_stream_prefetch_data out) w;
       let out = out\<lparr>cr_result := rv, cr_entry_stat := st, cr_stream_prefetch_data := spd\<rparr>;
       if rv \<noteq> net_OK
       then Some (out\<lparr>cr_sync_entry := None,
                      cr_stream_prefetch_data := map (\<lambda>d. d\<lparr>spd_data := None\<rparr>) spd\<rparr>,
                  doom_and_close F E w)
       else Some (out\<lparr>cr_sync_entry := Some E,
                      cr_computed_trailer_prefetch_size := computed_trailer_prefetch_size E\<rparr>, w)
     }"

definition CreateEntry ::
    "('w, 'h, 'e) env \<Rightarrow> CacheType \<Rightarrow> path \<Rightarrow> nat \<Rightarrow> bytes \<Rightarrow> u64
       \<Rightarrow> SimpleEntryCreationResults \<Rightarrow> 'w \<Rightarrow> (SimpleEntryCreationResults \<times> 'w) option" where
  "CreateEntry F ct path owner key hash out w =
     do {
       let E = new_SyncEntry ct path owner (Some key) hash 0;
       (rv, E, st, w) \<leftarrow> InitializeForCreate F E (cr_entry_stat out) w;
       let out = out\<lparr>cr_result := rv, cr_entry_stat := st\<rparr>;
       if rv \<noteq> net_OK
       then (let (E, w) = (if rv \<noteq> Err ERR_FILE_EXISTS then doom_entry F E w else (E, w));
                 (E, w) = CloseFiles F E w
             in Some (out\<lparr>cr_sync_entry := None\<rparr>, w))
       else Some (out\<lparr>cr_sync_entry := Some E, cr_created := True\<rparr>, w)
     }"

datatype OpenEntryIndexEnum = INDEX_MISS | INDEX_OTHER

text \<open>
  The owner of the second synchronous entry that may be made is the first one's: it has closed its
  files by then.
\<close>

definition open_then_create ::
    "('w, 'h, 'e) env \<Rightarrow> sys \<Rightarrow> CacheType \<Rightarrow> path \<Rightarrow> nat \<Rightarrow> bytes \<Rightarrow> u64 \<Rightarrow> u32
       \<Rightarrow> SimpleEntryCreationResults \<Rightarrow> 'w \<Rightarrow> (SimpleEntryCreationResults \<times> 'w) option" where
  "open_then_create F S ct path owner key hash prefetch_size out w =
     do {
       (out, w) \<leftarrow> OpenEntry F S ct path owner (Some key) hash prefetch_size out w;
       if cr_sync_entry out \<noteq> None then Some (out, w)
       else CreateEntry F ct path owner key hash out w
     }"

definition OpenOrCreateEntry ::
    "('w, 'h, 'e) env \<Rightarrow> sys \<Rightarrow> CacheType \<Rightarrow> path \<Rightarrow> nat \<Rightarrow> bytes \<Rightarrow> u64 \<Rightarrow> OpenEntryIndexEnum \<Rightarrow> bool \<Rightarrow> u32
       \<Rightarrow> SimpleEntryCreationResults \<Rightarrow> 'w \<Rightarrow> (SimpleEntryCreationResults \<times> 'w) option" where
  "OpenOrCreateEntry F S ct path owner key hash index_state optimistic_create prefetch_size out w =
     (if index_state = INDEX_MISS
      then
        do {
          let E = new_SyncEntry ct path owner (Some key) hash prefetch_size;
          (rv, E, st, w) \<leftarrow> InitializeForCreate F E (cr_entry_stat out) w;
          let out = out\<lparr>cr_result := rv, cr_entry_stat := st\<rparr>;
          if rv = net_OK then Some (out\<lparr>cr_sync_entry := Some E, cr_created := True\<rparr>, w)
          else if rv = Err ERR_FILE_EXISTS
          then (if optimistic_create
                then CreateEntry F ct path owner key hash out (doom_and_close F E w)
                else open_then_create F S ct path owner key hash prefetch_size out w)
          else Some (out, doom_and_close F E w)
        }
      else open_then_create F S ct path owner key hash prefetch_size out w)"

end
