(* ===== verification/Sync_Data.thy ===== *)
theory Sync_Data imports Sync_Entry begin

text \<open>
  Reading and writing the data of a stream and closing an entry (simple_synchronous_entry.cc). Stream
  0 is kept in memory and written when the entry is closed; stream 1 is before it in the same file, so
  a write that extends stream 1 cuts off what follows.
\<close>

section \<open>Reading\<close>

definition read_failed ::
    "('w, 'h, 'e) env \<Rightarrow> net_error \<Rightarrow> ReadResult \<Rightarrow> SyncEntry \<Rightarrow> SimpleEntryStat \<Rightarrow> 'w
       \<Rightarrow> (ReadResult \<times> bytes \<times> SyncEntry \<times> SimpleEntryStat \<times> 'w) option" where
  "read_failed F err out E st w =
     (case doom_entry F E w of (E, w) \<Rightarrow> Some (out\<lparr>rd_result := Err err\<rparr>, [], E, st, w))"

text \<open>After a read that returned bytes: the running checksum, verified when it is complete.\<close>

definition update_read_crc ::
    "('w, 'h, 'e) env \<Rightarrow> sys \<Rightarrow> 'h \<Rightarrow> ReadRequest \<Rightarrow> bytes \<Rightarrow> ReadResult \<Rightarrow> SyncEntry \<Rightarrow> SimpleEntryStat \<Rightarrow> 'w
       \<Rightarrow> net_result \<times> ReadResult \<times> SyncEntry \<times> 'w" where
  "update_read_crc F S file op bs out E st w =
     (if \<not> rr_request_update_crc op then (net_OK, out, E, w)
      else
        (let updated = IncrementalCrc32 (sys_zlib S) (rr_previous_crc32 op) bs;
             out = out\<lparr>rd_updated_crc32 := updated, rd_crc_updated := True\<rparr>
         in if rr_request_verify_crc op
               \<and> rr_offset op + int (length bs) = data_size st ! rr_index op
            then (case CheckEOFRecord F file (rr_index op) st updated E w of
                    (rv, E, w) \<Rightarrow> (rv, out, E, w))
            else (net_OK, out, E, w)))"

definition ReadData ::
    "('w, 'h, 'e) env \<Rightarrow> sys \<Rightarrow> ReadRequest \<Rightarrow> SyncEntry \<Rightarrow> SimpleEntryStat \<Rightarrow> ReadResult \<Rightarrow> 'w
       \<Rightarrow> (ReadResult \<times> bytes \<times> SyncEntry \<times> SimpleEntryStat \<times> 'w) option" where
  "ReadData F S op E st out w =
     (let file_index = GetFileIndexFromStreamIndex (rr_index op);
          (handle, w) = tAcquire F (tracked_file E file_index) w;
          out = out\<lparr>rd_crc_updated := False\<rparr>
      in case handle of
           None \<Rightarrow> read_failed F ERR_FAILED out E st w
         | Some file \<Rightarrow>
             do {
               (ok, E, w) \<leftarrow> (if header_and_key_check_needed E ! file_index
                              then CheckHeaderAndKey F file file_index E w else Some (True, E, w));
               if \<not> ok then read_failed F ERR_FAILED out E st w
               else if rr_buf_len op < 0 then None
               else
                 (let file_offset = GetOffsetInFile st (se_key_size E) (rr_offset op) (rr_index op)
                  in case fRead F file file_offset (nat (rr_buf_len op)) w of
                       (None, w) \<Rightarrow> read_failed F ERR_CACHE_READ_FAILURE out E st w
                     | (Some bs, w) \<Rightarrow>
                         if bs = [] then Some (out\<lparr>rd_result := Net 0\<rparr>, [], E, st, w)
                         else
                           (let (now, w) = Time_Now F w;
                                st = st\<lparr>last_used := now\<rparr>;
                                (rv, out, E, w) = update_read_crc F S file op bs out E st w
                            in case rv of
                                 Err e \<Rightarrow> Some (out\<lparr>rd_result := Err e\<rparr>, bs, E, st, w)
                               | Net _ \<Rightarrow> Some (out\<lparr>rd_result := Net (length bs)\<rparr>, bs, E, st, w)))
             })"

section \<open>Writing\<close>

definition data_write_failed ::
    "('w, 'h, 'e) env \<Rightarrow> net_error \<Rightarrow> WriteResult \<Rightarrow> SyncEntry \<Rightarrow> SimpleEntryStat \<Rightarrow> 'w
       \<Rightarrow> (WriteResult \<times> SyncEntry \<times> SimpleEntryStat \<times> 'w) option" where
  "data_write_failed F err out E st w =
     (case doom_entry F E w of (E, w) \<Rightarrow> Some (out\<lparr>wd_result := Err err\<rparr>, E, st, w))"

text \<open>The check of the header before the first write to a file that was opened without it.\<close>

definition check_before_write ::
    "('w, 'h, 'e) env \<Rightarrow> nat \<Rightarrow> SyncEntry \<Rightarrow> 'w \<Rightarrow> (bool \<times> SyncEntry \<times> 'w) option" where
  "check_before_write F file_index E w =
     (if header_and_key_check_needed E ! file_index \<and> \<not> empty_file_omitted E ! file_index
      then (case tAcquire F (tracked_file E file_index) w of
              (None, w) \<Rightarrow> Some (False, E, w)
            | (Some file, w) \<Rightarrow> CheckHeaderAndKey F file file_index E w)
      else Some (True, E, w))"

text \<open>The file of stream 2 is created by the first write to it.\<close>

definition create_omitted_file ::
    "('w, 'h, 'e) env \<Rightarrow> nat \<Rightarrow> SyncEntry \<Rightarrow> 'w \<Rightarrow> (bool \<times> SyncEntry \<times> 'w) option" where
  "create_omitted_file F file_index E w =
     (if \<not> empty_file_omitted E ! file_index then Some (True, E, w)
      else
        (case MaybeCreateFile F file_index FILE_REQUIRED E w of
           (ok, E, w) \<Rightarrow>
             if \<not> ok then Some (False, E, w)
             else do {
                    (ok, w) \<leftarrow> InitializeCreatedFile F file_index E w;
                    Some (ok, E, w)
                  }))"

text \<open>
  The part of \<open>WriteData\<close> that changes the file: cut at the EOF of the stream when the write extends
  it, write, and set the new size of the stream.
\<close>

definition write_stream ::
    "('w, 'h, 'e) env \<Rightarrow> 'h \<Rightarrow> WriteRequest \<Rightarrow> bytes \<Rightarrow> nat \<Rightarrow> SimpleEntryStat \<Rightarrow> 'w
       \<Rightarrow> bool \<times> SimpleEntryStat \<times> 'w" where
  "write_stream F file op buf key_size st w =
     (let index = wr_index op; offset = wr_offset op; buf_len = wr_buf_len op;
          file_offset = GetOffsetInFile st key_size offset index;
          extending_by_write = offset + buf_len > data_size st ! index;
          (ok, w) = (if extending_by_write
                     then fSetLength F file (GetEOFOffsetInFile st key_size index) w else (True, w))
      in if \<not> ok then (False, st, w)
         else
           (let (ok, w) = (if buf_len > 0
                           then fWriteAndCheck F file file_offset (take (nat buf_len) buf) w
                           else (True, w))
            in if \<not> ok then (False, st, w)
               else if \<not> wr_truncate op \<and> (buf_len > 0 \<or> \<not> extending_by_write)
               then (True, set_data_size index (max (data_size st ! index) (offset + buf_len)) st, w)
               else
                 (let st = set_data_size index (offset + buf_len) st;
                      (ok, w) = fSetLength F file (GetLastEOFOffsetInFile st key_size index) w
                  in (ok, st, w))))"

definition WriteData ::
    "('w, 'h, 'e) env \<Rightarrow> sys \<Rightarrow> WriteRequest \<Rightarrow> bytes \<Rightarrow> SyncEntry \<Rightarrow> SimpleEntryStat \<Rightarrow> WriteResult \<Rightarrow> 'w
       \<Rightarrow> (WriteResult \<times> SyncEntry \<times> SimpleEntryStat \<times> 'w) option" where
  "WriteData F S op buf E st out w =
     (let file_index = GetFileIndexFromStreamIndex (wr_index op)
      in do {
           (ok, E, w) \<leftarrow> check_before_write F file_index E w;
           if \<not> ok then data_write_failed F ERR_FAILED out E st w
           else if empty_file_omitted E ! file_index \<and> wr_doomed op
           then Some (out\<lparr>wd_result := Err ERR_CACHE_WRITE_FAILURE\<rparr>, E, st, w)
           else
             do {
               (ok, E, w) \<leftarrow> create_omitted_file F file_index E w;
               if \<not> ok then data_write_failed F ERR_CACHE_WRITE_FAILURE out E st w
               else
                 (case tAcquire F (tracked_file E file_index) w of
                    (None, w) \<Rightarrow> data_write_failed F ERR_FAILED out E st w
                  | (Some file, w) \<Rightarrow>
                      (case write_stream F file op buf (se_key_size E) st w of
                         (ok, st, w) \<Rightarrow>
                           if \<not> ok then data_write_failed F ERR_CACHE_WRITE_FAILURE out E st w
                           else
                             (let out = (if wr_request_update_crc op \<and> wr_buf_len op > 0
                                         then out\<lparr>wd_updated_crc32 := IncrementalCrc32 (sys_zlib S)
                                                (wr_previous_crc32 op) (take (nat (wr_buf_len op)) buf),
                                              wd_crc_updated := True\<rparr>
                                         else out);
                                  (now, w) = Time_Now F w
                              in Some (out\<lparr>wd_result := Net (nat (wr_buf_len op))\<rparr>, E,
                                       st\<lparr>last_used := now\<rparr>, w))))
             }
         })"

section \<open>Closing\<close>

text \<open>
  Stream 0 and the hash of the key. A failing write dooms the entry but does not end the closing.
\<close>

definition write_stream_0 ::
    "('w, 'h, 'e) env \<Rightarrow> sys \<Rightarrow> 'h \<Rightarrow> SimpleEntryStat \<Rightarrow> bytes \<Rightarrow> SyncEntry \<Rightarrow> 'w \<Rightarrow> SyncEntry \<times> 'w" where
  "write_stream_0 F S file st stream_0_data E w =
     (let key = the (se_key E);
          stream_0_offset = GetOffsetInFile st (length key) 0 0;
          (ok, w) = fWriteAndCheck F file stream_0_offset (take (nat (data_size st ! 0)) stream_0_data) w;
          (E, w) = (if \<not> ok then doom_entry F E w else (E, w));
          (ok, w) = fWriteAndCheck F file (stream_0_offset + data_size st ! 0) (Sha256 S key) w
      in if \<not> ok then doom_entry F E w else (E, w))"

definition close_eof_record :: "SimpleEntryStat \<Rightarrow> nat \<Rightarrow> bool \<Rightarrow> u32 \<Rightarrow> SimpleFileEOF" where
  "close_eof_record st stream_index has_crc crc =
     empty_eof\<lparr>final_magic_number := kSimpleFinalMagicNumber,
       eof_flags := (if has_crc then FLAG_HAS_CRC32 else 0)
                      OR (if stream_index = 0 then FLAG_HAS_KEY_SHA256 else 0),
       eof_data_crc32 := crc,
       stream_size := (if stream_index = 0 then word_of_int (data_size st ! stream_index) else 0)\<rparr>"

text \<open>
  The loop over the CRC records; \<open>None\<close> is a failing \<open>CHECK\<close>: that stream 0 has the size of an \<open>int\<close>, and, where
  its bytes are taken from the buffer, that the buffer has as many. The result is the estimated prefetch size.
\<close>

fun close_streams ::
    "('w, 'h, 'e) env \<Rightarrow> sys \<Rightarrow> SimpleEntryStat \<Rightarrow> bytes \<Rightarrow> CRCRecord list \<Rightarrow> int \<Rightarrow> SyncEntry \<Rightarrow> 'w
       \<Rightarrow> (int \<times> SyncEntry \<times> 'w) option" where
  "close_streams F S st stream_0_data [] estimate E w = Some (estimate, E, w)"
| "close_streams F S st stream_0_data (r # rs) estimate E w =
     (let stream_index = crc_index r; file_index = GetFileIndexFromStreamIndex stream_index
      in if empty_file_omitted E ! file_index then close_streams F S st stream_0_data rs estimate E w
         else
           (case tAcquire F (tracked_file E file_index) w of
              (None, w) \<Rightarrow> (case doom_entry F E w of (E, w) \<Rightarrow> Some (estimate, E, w))
            | (Some file, w) \<Rightarrow>
                if stream_index = 0 \<and> (data_size st ! 0 > INT_MAX \<or> data_size st ! 0 < 0
                                       \<or> data_size st ! 0 > int (length stream_0_data)) then None
                else
                  (let (E, w) = (if stream_index = 0 then write_stream_0 F S file st stream_0_data E w
                                 else (E, w));
                       (has_crc, crc) =
                         (if stream_index = 0 \<and> \<not> has_crc32 r
                          then (True, Crc32 (sys_zlib S) (take (nat (data_size st ! 0)) stream_0_data))
                          else (has_crc32 r, data_crc32 r));
                       estimate =
                         (if stream_index = 0
                          then sint (word_of_int (data_size st ! 0 + int sizeof_SHA256
                                       + int sizeof_SimpleFileEOF) :: u32)
                          else estimate);
                       eof_record = close_eof_record st stream_index has_crc crc;
                       eof_offset = GetEOFOffsetInFile st (se_key_size E) stream_index;
                       (ok, w) = (if stream_index = 0 then fSetLength F file eof_offset w else (True, w))
                   in if \<not> ok then (case doom_entry F E w of (E, w) \<Rightarrow> Some (estimate, E, w))
                      else
                        (case fWriteAndCheck F file eof_offset (eof_bytes eof_record) w of
                           (ok, w) \<Rightarrow>
                             if \<not> ok then (case doom_entry F E w of (E, w) \<Rightarrow> Some (estimate, E, w))
                             else close_streams F S st stream_0_data rs estimate E w))))"

text \<open>The pending checks of the headers, and the files themselves.\<close>

fun close_files_checked ::
    "('w, 'h, 'e) env \<Rightarrow> nat list \<Rightarrow> SyncEntry \<Rightarrow> 'w \<Rightarrow> (SyncEntry \<times> 'w) option" where
  "close_files_checked F [] E w = Some (E, w)"
| "close_files_checked F (i # is) E w =
     (if empty_file_omitted E ! i then close_files_checked F is E w
      else
        do {
          (E, w) \<leftarrow>
            (if header_and_key_check_needed E ! i
             then (case tAcquire F (tracked_file E i) w of
                     (None, w) \<Rightarrow> Some (doom_entry F E w)
                   | (Some file, w) \<Rightarrow>
                       do {
                         (ok, E, w) \<leftarrow> CheckHeaderAndKey F file i E w;
                         Some (if ok then (E, w) else doom_entry F E w)
                       })
             else Some (E, w));
          let (E, w) = CloseFile F i E w;
          close_files_checked F is E w
        })"

text \<open>\<open>Close\<close> deletes the entry: its result is the prefetch estimate and the world.\<close>

definition Close ::
    "('w, 'h, 'e) env \<Rightarrow> sys \<Rightarrow> SimpleEntryStat \<Rightarrow> CRCRecord list \<Rightarrow> bytes \<Rightarrow> SyncEntry \<Rightarrow> 'w
       \<Rightarrow> (int \<times> 'w) option" where
  "Close F S st crc32s_to_write stream_0_data E w =
     do {
       (estimate, E, w) \<leftarrow> close_streams F S st stream_0_data crc32s_to_write (- 1) E w;
       (E, w) \<leftarrow> close_files_checked F [0..<kSimpleEntryNormalFileCount] E w;
       let (E, w) = (if sparse_file_open E then CloseSparseFile F E w else (E, w));
       Some (estimate, w)
     }"

end
