(* ===== verification/Sync_Layout.thy ===== *)
theory Sync_Layout imports Sync_Data File_Laws begin

text \<open>
  The layout of the file of streams 0 and 1 (simple_entry_format.h): what closing an entry writes, and
  that opening accepts it. The lemmas are proved from the laws of reliable files.
\<close>

section \<open>Contents of files\<close>

lemma overwrite_resize: "bs \<noteq> [] \<Longrightarrow> overwrite off bs xs = resize off xs @ bs @ drop (off + length bs) xs"
  by (simp add: overwrite_def resize_def)

lemma resize_overwrite: "resize (off + length bs) (overwrite off bs xs) = resize off xs @ bs"
  by (cases "bs = []") (simp_all add: overwrite_resize, simp add: resize_def)

lemma resize_append_left: "length xs \<le> n \<Longrightarrow> resize n (xs @ ys) = xs @ resize (n - length xs) ys"
  by (simp add: resize_def)

lemma resize_append_exact: "resize (length xs + n) (xs @ ys) = xs @ resize n ys"
  by (simp add: resize_def)

lemma overwrite_middle:
  "length xs = off \<Longrightarrow> length ys = length bs \<Longrightarrow> overwrite off bs (xs @ ys @ zs) = xs @ bs @ zs"
  by (auto simp: overwrite_def)

lemma overwrite_prefix: "off + length bs \<le> length xs \<Longrightarrow> overwrite off bs (xs @ ys) = overwrite off bs xs @ ys"
  by (simp add: overwrite_def)

section \<open>The operations of reliable files\<close>

context files begin

lemma acquire_view [simp]: "view (snd (tAcquire F t w)) = view w"
  using acquire_law [of t w] by (metis prod.collapse)

end

context reliable_files begin

lemma acquire_ok:
  assumes "table (view w) t = Some n"
  obtains h w' where "tAcquire F t w = (Some h, w')" "node h = n" "view w' = view w"
proof -
  obtain r w' where r: "tAcquire F t w = (r, w')" by (cases "tAcquire F t w")
  moreover from r acquires [of w t] assms obtain h where "r = Some h" by auto
  ultimately show thesis using that acquire_law [OF r] assms by auto
qed

lemma write_check_ok:
  assumes "0 \<le> off"
  obtains w' where "fWriteAndCheck F h off bs w = (True, w')"
    "view w' = put_data (node h) (overwrite (nat off) bs (data (view w) (node h))) (view w)"
proof -
  obtain ok w' where r: "fWriteAndCheck F h off bs w = (ok, w')" by (cases "fWriteAndCheck F h off bs w")
  with writes_check [OF assms, of h bs w] have "ok" by simp
  with r write_check_law [OF r] show thesis using that by auto
qed

lemma set_length_ok:
  assumes "0 \<le> len"
  obtains w' where "fSetLength F h len w = (True, w')"
    "view w' = put_data (node h) (resize (nat len) (data (view w) (node h))) (view w)"
proof -
  obtain ok w' where r: "fSetLength F h len w = (ok, w')" by (cases "fSetLength F h len w")
  with sets_length [OF assms, of h w] have "ok" by simp
  with r set_length_law [OF r] show thesis using that by auto
qed

lemma read_ok:
  assumes "0 \<le> off"
  obtains w' where "fRead F h off n w = (Some (slice (nat off) n (data (view w) (node h))), w')"
    "view w' = view w"
proof -
  obtain r w' where r: "fRead F h off n w = (r, w')" by (cases "fRead F h off n w")
  with reads [OF assms, of h n w] obtain bs where "r = Some bs" by auto
  with r read_law [OF r] show thesis using that by auto
qed

lemma read_check_ok:
  assumes "0 \<le> off" "nat off + n \<le> length (data (view w) (node h))"
  obtains w' where "fReadAndCheck F h off n w = (Some (slice (nat off) n (data (view w) (node h))), w')"
    "view w' = view w"
proof -
  obtain r w' where r: "fReadAndCheck F h off n w = (r, w')" by (cases "fReadAndCheck F h off n w")
  with reads_check [OF assms] obtain bs where "r = Some bs" by auto
  with r read_check_law [OF r] show thesis using that by auto
qed

lemma get_info_ok:
  obtains i w' where "fGetInfo F h w = (Some i, w')" "view w' = view w"
    "fi_size i = int (length (data (view w) (node h)))"
proof -
  obtain r w' where r: "fGetInfo F h w = (r, w')" by (cases "fGetInfo F h w")
  with gets_info [of h w] obtain i where "r = Some i" by auto
  with r get_info_law [OF r] show thesis using that by auto
qed

lemma open_ok:
  assumes "dir (view w) p = Some n"
  obtains h w' where "OpenFile F p FLAG_OPEN_RW w = (Inr h, w')" "node h = n" "view w' = view w"
proof -
  obtain r w' where r: "OpenFile F p FLAG_OPEN_RW w = (r, w')" by (cases "OpenFile F p FLAG_OPEN_RW w")
  with opens [of w p] assms obtain h where "r = Inr h" by auto
  with r open_law [OF r] assms show thesis using that by auto
qed

lemma open_missing:
  assumes "dir (view w) p = None"
  obtains w' where "OpenFile F p FLAG_OPEN_RW w = (Inl FILE_ERROR_NOT_FOUND, w')" "view w' = view w"
proof -
  obtain r w' where r: "OpenFile F p FLAG_OPEN_RW w = (r, w')" by (cases "OpenFile F p FLAG_OPEN_RW w")
  with opens_not [of w p] assms have "r = Inl FILE_ERROR_NOT_FOUND" by auto
  with r open_law [OF r] show thesis using that by auto
qed

lemma create_ok:
  assumes "dir (view w) p = None"
  obtains h w' where "OpenFile F p FLAG_CREATE_RW w = (Inr h, w')" "fresh_node (node h) (view w)"
    "view w' = put_data (node h) [] ((view w)\<lparr>dir := (dir (view w))(p \<mapsto> node h)\<rparr>)"
proof -
  obtain r w' where r: "OpenFile F p FLAG_CREATE_RW w = (r, w')" by (cases "OpenFile F p FLAG_CREATE_RW w")
  with creates [of w p] assms obtain h where "r = Inr h" by auto
  with r create_law [OF r] show thesis using that by auto
qed

lemma now_ok: obtains t w' where "Time_Now F w = (t, w')" "view w' = view w"
  using now_law by (cases "Time_Now F w") auto

end

section \<open>The layout\<close>

definition stream_0_footer :: "sys \<Rightarrow> bytes \<Rightarrow> SimpleFileEOF" where
  "stream_0_footer S d0 =
     empty_eof\<lparr>final_magic_number := kSimpleFinalMagicNumber,
       eof_flags := FLAG_HAS_CRC32 OR FLAG_HAS_KEY_SHA256,
       eof_data_crc32 := Crc32 (sys_zlib S) d0, stream_size := of_nat (length d0)\<rparr>"

definition stream_1_footer :: "bool \<Rightarrow> u32 \<Rightarrow> SimpleFileEOF" where
  "stream_1_footer has_crc crc =
     empty_eof\<lparr>final_magic_number := kSimpleFinalMagicNumber,
       eof_flags := (if has_crc then FLAG_HAS_CRC32 else 0), eof_data_crc32 := crc\<rparr>"

definition file_start :: "bytes \<Rightarrow> u32 \<Rightarrow> bytes" where
  "file_start key hash = header_bytes (entry_header kSimpleEntryVersionOnDisk key hash) @ key"

definition entry_file :: "sys \<Rightarrow> bytes \<Rightarrow> u32 \<Rightarrow> bytes \<Rightarrow> SimpleFileEOF \<Rightarrow> bytes \<Rightarrow> bytes" where
  "entry_file S key hash d1 eof1 d0 =
     file_start key hash @ d1 @ eof_bytes eof1 @ d0 @ Sha256 S key @ eof_bytes (stream_0_footer S d0)"

lemma length_file_start [simp]: "length (file_start key hash) = 24 + length key"
  by (simp add: file_start_def)

lemma close_eof_record_0:
  "data_size st ! 0 = int (length d0) \<Longrightarrow>
    close_eof_record st 0 True (Crc32 (sys_zlib S) d0) = stream_0_footer S d0"
  by (simp add: close_eof_record_def stream_0_footer_def)

lemma close_eof_record_1: "close_eof_record st (Suc 0) has crc = stream_1_footer has crc"
  by (simp add: close_eof_record_def stream_1_footer_def empty_eof_def)

context reliable_files begin

lemma write_stream_0_ok:
  assumes sizes: "sizes_ok st (length key)" and key: "se_key E = Some key"
    and d0: "data_size st ! 0 = int (length d0)"
  obtains w' where "write_stream_0 F S h st d0 E w = (E, w')"
    "view w' = put_data (node h)
       (overwrite (48 + length key + nat (data_size st ! 1) + length d0) (Sha256 S key)
         (overwrite (48 + length key + nat (data_size st ! 1)) d0 (data (view w) (node h)))) (view w)"
proof -
  let ?o = "24 + int (length key) + data_size st ! 1 + 24"
  have o: "GetOffsetInFile st (length key) 0 0 = ?o" and "0 \<le> data_size st ! 1"
    using offsets [OF sizes] sizes_okD [OF sizes] by simp_all
  then have nn: "0 \<le> ?o" "0 \<le> ?o + int (length d0)"
    and nat: "nat ?o = 48 + length key + nat (data_size st ! 1)"
      "nat (?o + int (length d0)) = 48 + length key + nat (data_size st ! 1) + length d0" by linarith+
  obtain w1 where w1: "fWriteAndCheck F h ?o d0 w = (True, w1)"
    "view w1 = put_data (node h) (overwrite (nat ?o) d0 (data (view w) (node h))) (view w)"
    using write_check_ok [OF nn(1)] by blast
  obtain w2 where w2: "fWriteAndCheck F h (?o + int (length d0)) (Sha256 S key) w1 = (True, w2)"
    "view w2 = put_data (node h) (overwrite (nat (?o + int (length d0))) (Sha256 S key)
        (data (view w1) (node h))) (view w1)"
    using write_check_ok [OF nn(2)] by blast
  show thesis
  proof (rule that)
    show "write_stream_0 F S h st d0 E w = (E, w2)"
      using w1(1) w2(1) o by (simp add: write_stream_0_def key d0 Let_def)
  qed (simp only: w2 w1 nat put_data_fields fun_upd_same put_data_twice)
qed

lemma close_stream_0_ok:
  assumes sizes: "sizes_ok st (length key)" and key: "se_key E = Some key"
    and d0: "data_size st ! 0 = int (length d0)" "int (length d0) \<le> INT_MAX"
    and sha: "length (Sha256 S key) = 32"
    and opn: "\<not> empty_file_omitted E ! 0" "table (view w) (tracked_file E 0) = Some n"
    and r: "crc_index r = 0" "has_crc32 r \<longrightarrow> data_crc32 r = Crc32 (sys_zlib S) d0"
  obtains estimate' w' where
    "close_streams F S st d0 (r # rs) estimate E w = close_streams F S st d0 rs estimate' E w'"
    "view w' = put_data n (resize (48 + length key + nat (data_size st ! 1)) (data (view w) n)
       @ d0 @ Sha256 S key @ eof_bytes (stream_0_footer S d0)) (view w)"
proof -
  let ?o = "48 + length key + nat (data_size st ! 1)"
  let ?eof = "24 + int (length key) + data_size st ! 1 + 24 + int (length d0) + 32"
  have eof: "GetEOFOffsetInFile st (length key) 0 = ?eof" and "0 \<le> data_size st ! 1"
    using offsets [OF sizes] sizes_okD [OF sizes] d0 by simp_all
  then have nn: "0 \<le> ?eof" and nat: "nat ?eof = ?o + length d0 + 32" by linarith+
  obtain h w0 where h: "tAcquire F (tracked_file E 0) w = (Some h, w0)" "node h = n" "view w0 = view w"
    by (rule acquire_ok [OF opn(2)])
  obtain w1 where w1: "write_stream_0 F S h st d0 E w0 = (E, w1)"
    "view w1 = put_data n (overwrite (?o + length d0) (Sha256 S key)
       (overwrite ?o d0 (data (view w) n))) (view w)"
    using write_stream_0_ok [OF sizes key d0(1), of S h w0] h by metis
  obtain w2 where w2: "fSetLength F h ?eof w1 = (True, w2)"
    "view w2 = put_data n (resize (nat ?eof) (data (view w1) n)) (view w1)"
    using set_length_ok [OF nn, of h w1] h(2) by metis
  obtain w3 where w3: "fWriteAndCheck F h ?eof (eof_bytes (stream_0_footer S d0)) w2 = (True, w3)"
    "view w3 = put_data n (overwrite (nat ?eof) (eof_bytes (stream_0_footer S d0)) (data (view w2) n)) (view w2)"
    using write_check_ok [OF nn, of h _ w2] h(2) by metis
  have e: "nat ?eof = (?o + length d0) + length (Sha256 S key)" using nat sha by simp
  have cut: "resize (nat ?eof) (data (view w1) n) = resize ?o (data (view w) n) @ d0 @ Sha256 S key"
    unfolding e by (simp only: w1(2) put_data_fields fun_upd_same resize_overwrite append_assoc)
  have data: "overwrite (nat ?eof) (eof_bytes (stream_0_footer S d0)) (data (view w2) n)
      = resize ?o (data (view w) n) @ d0 @ Sha256 S key @ eof_bytes (stream_0_footer S d0)"
  proof -
    have "length (resize ?o (data (view w) n) @ d0 @ Sha256 S key) = nat ?eof"
      unfolding e by (simp only: length_append length_resize add.assoc)
    from overwrite_append_end [OF this] show ?thesis
      by (simp only: w2(2) put_data_fields fun_upd_same cut append_assoc)
  qed
  show thesis
  proof (rule that)
    show "close_streams F S st d0 (r # rs) estimate E w = close_streams F S st d0 rs
        (sint (word_of_int (int (length d0) + 32 + 24) :: u32)) E w3"
      using r d0 w1(1) w2(1) w3(1) h(1) opn(1) eof
      by (cases "has_crc32 r")
        (simp_all add: Let_def close_eof_record_0 GetFileIndexFromStreamIndex_def se_key_size_def key)
  qed (simp only: w3(2) data, simp add: w1 w2)
qed

lemma close_stream_1_ok:
  assumes sizes: "sizes_ok st (length key)" and key: "se_key E = Some key"
    and opn: "\<not> empty_file_omitted E ! 0" "table (view w) (tracked_file E 0) = Some n"
    and r: "crc_index r = 1"
  obtains w' where
    "close_streams F S st d0 (r # rs) estimate E w = close_streams F S st d0 rs estimate E w'"
    "view w' = put_data n (overwrite (24 + length key + nat (data_size st ! 1))
       (eof_bytes (stream_1_footer (has_crc32 r) (data_crc32 r))) (data (view w) n)) (view w)"
proof -
  let ?eof = "24 + int (length key) + data_size st ! 1"
  have eof: "GetEOFOffsetInFile st (length key) (Suc 0) = ?eof" and "0 \<le> data_size st ! 1"
    using offsets [OF sizes] sizes_okD [OF sizes] by simp_all
  then have nn: "0 \<le> ?eof" and nat: "nat ?eof = 24 + length key + nat (data_size st ! 1)" by linarith+
  obtain h w0 where h: "tAcquire F (tracked_file E 0) w = (Some h, w0)" "node h = n" "view w0 = view w"
    by (rule acquire_ok [OF opn(2)])
  let ?e = "eof_bytes (stream_1_footer (has_crc32 r) (data_crc32 r))"
  obtain w1 where w1: "fWriteAndCheck F h ?eof ?e w0 = (True, w1)"
    "view w1 = put_data n (overwrite (nat ?eof) ?e (data (view w) n)) (view w)"
    using write_check_ok [OF nn, of h ?e w0] h(2,3) by metis
  show thesis
  proof (rule that)
    show "close_streams F S st d0 (r # rs) estimate E w = close_streams F S st d0 rs estimate E w1"
      using r w1(1) h(1) opn(1) eof
      by (simp add: Let_def close_eof_record_1 GetFileIndexFromStreamIndex_def se_key_size_def key)
  qed (simp only: w1(2) nat)
qed

lemma close_streams_layout:
  assumes sizes: "sizes_ok st (length key)" and key: "se_key E = Some key"
    and d0: "data_size st ! 0 = int (length d0)" "int (length d0) \<le> INT_MAX"
    and sha: "length (Sha256 S key) = 32"
    and opn: "\<not> empty_file_omitted E ! 0" "table (view w) (tracked_file E 0) = Some n"
    and r0: "crc_index r0 = 0" "has_crc32 r0 \<longrightarrow> data_crc32 r0 = Crc32 (sys_zlib S) d0"
    and r1: "crc_index r1 = 1"
    and content: "data (view w) n = file_start key hash @ d1 @ rest" "data_size st ! 1 = int (length d1)"
  obtains estimate' w' where
    "close_streams F S st d0 [r0, r1] estimate E w = Some (estimate', E, w')"
    "view w' = put_data n (entry_file S key hash d1
       (stream_1_footer (has_crc32 r1) (data_crc32 r1)) d0) (view w)"
proof -
  obtain e1 w1 where w1:
    "close_streams F S st d0 (r0 # [r1]) estimate E w = close_streams F S st d0 [r1] e1 E w1"
    "view w1 = put_data n (resize (48 + length key + nat (data_size st ! 1)) (data (view w) n)
       @ d0 @ Sha256 S key @ eof_bytes (stream_0_footer S d0)) (view w)"
    by (rule close_stream_0_ok [OF sizes key d0 sha opn r0])
  have "table (view w1) (tracked_file E 0) = Some n" by (simp add: w1(2) opn(2))
  then obtain w2 where w2:
    "close_streams F S st d0 (r1 # []) e1 E w1 = close_streams F S st d0 [] e1 E w2"
    "view w2 = put_data n (overwrite (24 + length key + nat (data_size st ! 1))
       (eof_bytes (stream_1_footer (has_crc32 r1) (data_crc32 r1))) (data (view w1) n)) (view w1)"
    by (rule close_stream_1_ok [OF sizes key opn(1) _ r1])
  let ?tail = "d0 @ Sha256 S key @ eof_bytes (stream_0_footer S d0)"
  have len: "48 + length key + nat (data_size st ! 1) = length (file_start key hash @ d1) + 24"
    and c: "data (view w) n = (file_start key hash @ d1) @ rest" by (simp_all add: content del: One_nat_def)
  have "resize (48 + length key + nat (data_size st ! 1)) (data (view w) n) @ ?tail
      = (file_start key hash @ d1) @ resize 24 rest @ ?tail"
    unfolding len c resize_append_exact by simp
  then have "overwrite (24 + length key + nat (data_size st ! 1))
        (eof_bytes (stream_1_footer (has_crc32 r1) (data_crc32 r1))) (data (view w1) n)
      = entry_file S key hash d1 (stream_1_footer (has_crc32 r1) (data_crc32 r1)) d0"
    by (simp only: w1(2) put_data_fields fun_upd_same)
      (subst overwrite_middle, simp_all add: content entry_file_def del: One_nat_def)
  then show thesis using that [of e1 w2] w1 w2 by simp
qed

lemma close_files_unchecked:
  assumes "doom_generation (entry_file_key E) = 0" "length (empty_file_omitted E) = 2"
    and "\<forall>i \<in> set is. \<not> empty_file_omitted E ! i \<longrightarrow> \<not> header_and_key_check_needed E ! i"
  shows "\<exists>w'. close_files_checked F is E w = Some (E, w')
    \<and> dir (view w') = dir (view w) \<and> data (view w') = data (view w)"
  using assms(3)
proof (induction "is" arbitrary: w)
  case (Cons i "is")
  show ?case
  proof (cases "empty_file_omitted E ! i")
    case False
    let ?w = "tClose F (tracked_file E i) w"
    from Cons obtain w' where "close_files_checked F is E ?w = Some (E, w')"
      "dir (view w') = dir (view ?w)" "data (view w') = data (view ?w)" by auto
    then show ?thesis
      using False Cons.prems assms(1) by (simp add: CloseFile_def close_law)
  qed (use Cons in auto)
qed simp

lemma CloseSparse_view:
  "doom_generation (entry_file_key E) = 0 \<Longrightarrow> CloseSparseFile F E w = (E', w') \<Longrightarrow>
    dir (view w') = dir (view w) \<and> data (view w') = data (view w)"
  by (auto simp: CloseSparseFile_def close_law)

lemma Close_layout:
  assumes sizes: "sizes_ok st (length key)" and key: "se_key E = Some key"
    and d0: "data_size st ! 0 = int (length d0)" "int (length d0) \<le> INT_MAX"
    and sha: "length (Sha256 S key) = 32"
    and opn: "empty_file_omitted E = [False, b]" "table (view w) (tracked_file E 0) = Some n"
    and checked: "\<not> header_and_key_check_needed E ! 0" "b \<or> \<not> header_and_key_check_needed E ! 1"
    and alive: "doom_generation (entry_file_key E) = 0"
    and r0: "crc_index r0 = 0" "has_crc32 r0 \<longrightarrow> data_crc32 r0 = Crc32 (sys_zlib S) d0"
    and r1: "crc_index r1 = 1"
    and content: "data (view w) n = file_start key hash @ d1 @ rest" "data_size st ! 1 = int (length d1)"
  shows "\<exists>estimate w'. Close F S st [r0, r1] d0 E w = Some (estimate, w')
    \<and> dir (view w') = dir (view w)
    \<and> data (view w') = (data (view w))(n := entry_file S key hash d1
         (stream_1_footer (has_crc32 r1) (data_crc32 r1)) d0)"
proof -
  have "\<not> empty_file_omitted E ! 0" by (simp add: opn)
  from close_streams_layout [OF sizes key d0 sha this opn(2) r0 r1 content]
  obtain e1 w1 where w1: "close_streams F S st d0 [r0, r1] (- 1) E w = Some (e1, E, w1)"
    "view w1 = put_data n (entry_file S key hash d1
       (stream_1_footer (has_crc32 r1) (data_crc32 r1)) d0) (view w)" by blast
  have "\<exists>w'. close_files_checked F [0..<kSimpleEntryNormalFileCount] E w1 = Some (E, w')
      \<and> dir (view w') = dir (view w1) \<and> data (view w') = data (view w1)"
    by (rule close_files_unchecked [OF alive])
      (use opn(1) checked in \<open>auto simp: kSimpleEntryNormalFileCount_def less_Suc_eq numeral_eq_Suc\<close>)
  then obtain w2 where w2: "close_files_checked F [0..<kSimpleEntryNormalFileCount] E w1 = Some (E, w2)"
    "dir (view w2) = dir (view w1)" "data (view w2) = data (view w1)" by blast
  show ?thesis
    using w1 w2 CloseSparse_view [OF alive, of w2]
    by (auto simp: Close_def Let_def split: prod.split)
qed

end

end
