(* ===== verification/Sync_Open.thy ===== *)
theory Sync_Open imports Sync_Layout begin

text \<open>
  Opening an entry: what a successful open has checked, whatever the files hold and whichever
  operations fail, and that the files which closing writes are accepted, with any setting of the
  prefetch parameters.
\<close>

section \<open>The prefetch buffer\<close>

text \<open>What was prefetched is the part of the file at its offset.\<close>

definition pf_ok :: "bytes \<Rightarrow> PrefetchData \<Rightarrow> bool" where
  "pf_ok c pf \<longleftrightarrow> length c < 2 ^ 63
     \<and> unat (pf_offset_in_file pf) + length (pf_buffer pf) \<le> length c
     \<and> pf_buffer pf = slice (unat (pf_offset_in_file pf)) (length (pf_buffer pf)) c"

definition pfo_ok :: "bytes \<Rightarrow> PrefetchData option \<Rightarrow> bool" where
  "pfo_ok c pf \<longleftrightarrow> (case pf of None \<Rightarrow> True | Some pf \<Rightarrow> pf_ok c pf)"

lemma pfo_ok_simps [simp]: "pfo_ok c None" "pfo_ok c (Some pf) = pf_ok c pf"
  by (simp_all add: pfo_ok_def)

lemma pf_ok_UpdateEarliest [simp]: "pf_ok c (UpdateEarliestOffset off pf) = pf_ok c pf"
  by (simp add: pf_ok_def UpdateEarliestOffset_def)

lemma pf_ok_HasData: "HasData off len pf = (b, pf') \<Longrightarrow> pf_ok c pf' = pf_ok c pf"
  by (auto simp: HasData_def split: option.splits)

lemma HasData_range:
  assumes "HasData off len pf = (True, pf')" and pf: "pf_ok c pf"
  shows "unat (pf_offset_in_file pf) \<le> unat off"
    "unat off + unat len \<le> unat (pf_offset_in_file pf) + length (pf_buffer pf)"
    "pf_buffer pf' = pf_buffer pf" "pf_offset_in_file pf' = pf_offset_in_file pf"
proof -
  from assms(1) have sum: "uint off + uint len < 2 ^ 64" and le: "pf_offset_in_file pf \<le> off"
    and "end": "off + len \<le> pf_offset_in_file pf + of_nat (length (pf_buffer pf))"
    and pf': "pf' = UpdateEarliestOffset off pf"
    by (auto simp: HasData_def CheckAdd64_def split: option.splits if_splits)
  show "unat (pf_offset_in_file pf) \<le> unat off" using le by (simp add: word_le_nat_alt)
  have "int (unat off + unat len) < int (2 ^ 64)" using sum by simp
  then have "unat off + unat len < 2 ^ 64" by (simp only: of_nat_less_iff)
  then have l: "unat (off + len) = unat off + unat len" by (simp add: unat_word_ariths)
  have b: "unat (pf_offset_in_file pf) + length (pf_buffer pf) < 2 ^ 63" using pf by (simp add: pf_ok_def)
  then have "unat (of_nat (length (pf_buffer pf)) :: u64) = length (pf_buffer pf)"
    by (simp add: unat_of_nat)
  then have "unat (pf_offset_in_file pf + of_nat (length (pf_buffer pf)))
      = unat (pf_offset_in_file pf) + length (pf_buffer pf)"
    using b by (simp add: unat_word_ariths)
  with "end" l show "unat off + unat len \<le> unat (pf_offset_in_file pf) + length (pf_buffer pf)"
    by (simp add: word_le_nat_alt)
  show "pf_buffer pf' = pf_buffer pf" "pf_offset_in_file pf' = pf_offset_in_file pf"
    by (simp_all add: pf' UpdateEarliestOffset_def)
qed

lemma PrefetchData_ReadData_sound:
  assumes r: "PrefetchData_ReadData off len pf = (r, pf')" and pf: "pf_ok c pf"
  shows "pf_ok c pf'"
    and "r = Some bs \<Longrightarrow> bs = slice (unat off) (unat len) c \<and> (len = 0 \<or> unat off + unat len \<le> length c)"
proof -
  obtain b pf1 where h: "HasData off len pf = (b, pf1)" by (cases "HasData off len pf")
  with r pf pf_ok_HasData [OF h] show "pf_ok c pf'"
    by (auto simp: PrefetchData_ReadData_def split: if_splits)
  assume bs: "r = Some bs"
  show "bs = slice (unat off) (unat len) c \<and> (len = 0 \<or> unat off + unat len \<le> length c)"
  proof (cases "len = 0")
    case True
    with r bs show ?thesis by (simp add: PrefetchData_ReadData_def slice_def)
  next
    case False
    with r bs h have h': "HasData off len pf = (True, pf1)"
      and b: "bs = slice (unat (off - pf_offset_in_file pf1)) (unat len) (pf_buffer pf1)"
      by (auto simp: PrefetchData_ReadData_def split: if_splits)
    note rng = HasData_range [OF h' pf]
    have "unat (off - pf_offset_in_file pf) = unat off - unat (pf_offset_in_file pf)"
      using rng(1) by (simp add: unat_sub word_le_nat_alt)
    moreover have "pf_buffer pf = slice (unat (pf_offset_in_file pf)) (length (pf_buffer pf)) c"
      "unat (pf_offset_in_file pf) + length (pf_buffer pf) \<le> length c"
      using pf by (simp_all add: pf_ok_def)
    ultimately show ?thesis
      using rng slice_slice [of "unat off - unat (pf_offset_in_file pf)" "unat len"
          "length (pf_buffer pf)" "unat (pf_offset_in_file pf)" c]
      by (simp add: b)
  qed
qed

section \<open>Reading parts of a file\<close>

context files begin

lemma RFP_sound:
  assumes r: "ReadFromFileOrPrefetched F h pf i off sz w = (r, pf', w')"
    and pf: "pfo_ok (data (view w) (node h)) pf" and b: "off < 2 ^ 63" "sz < 2 ^ 63"
  shows "view w' = view w" "pfo_ok (data (view w) (node h)) pf'" "pf' = None \<longleftrightarrow> pf = None"
    and "r = Some bs \<Longrightarrow> 0 \<le> off \<and> bs = slice (nat off) sz (data (view w) (node h))
      \<and> (sz = 0 \<or> nat off + sz \<le> length (data (view w) (node h)))"
proof -
  let ?c = "data (view w) (node h)"
  have all: "view w' = view w \<and> pfo_ok ?c pf' \<and> (pf' = None \<longleftrightarrow> pf = None)
    \<and> (\<forall>bs. r = Some bs \<longrightarrow> 0 \<le> off \<and> bs = slice (nat off) sz ?c \<and> (sz = 0 \<or> nat off + sz \<le> length ?c))"
  proof (cases "off < 0 \<or> sz = 0")
    case True
    with r pf show ?thesis by (auto simp: ReadFromFileOrPrefetched_def slice_def split: if_splits)
  next
    case False
    obtain r1 w1 where d: "fReadAndCheck F h off sz w = (r1, w1)" by (cases "fReadAndCheck F h off sz w")
    note dl = read_check_law [OF d]
    show ?thesis
    proof (cases "i = 0 \<and> pf \<noteq> None")
      case no: False
      with False r d dl pf show ?thesis
        by (auto simp: ReadFromFileOrPrefetched_def split: option.splits if_splits)
    next
      case True
      then obtain p where p: "pf = Some p" by auto
      obtain r2 p2 where q: "PrefetchData_ReadData (word_of_int off) (of_nat sz) p = (r2, p2)"
        by (cases "PrefetchData_ReadData (word_of_int off) (of_nat sz) p")
      have "pf_ok ?c p" using pf p by simp
      note s = PrefetchData_ReadData_sound [OF q this]
      have "uint (word_of_int off :: u64) = off" using b False by (simp add: uint_word_of_int)
      then have u: "unat (word_of_int off :: u64) = nat off" by (metis nat_uint_eq)
      have u': "unat (of_nat sz :: u64) = sz" using b by (simp add: unat_of_nat)
      then have "sz \<noteq> 0 \<Longrightarrow> (of_nat sz :: u64) \<noteq> 0" by auto
      show ?thesis
      proof (cases r2)
        case None
        then have "r = r1" "pf' = Some p2" "w' = w1"
          using False True r d p q by (simp_all add: ReadFromFileOrPrefetched_def)
        with dl s(1) p show ?thesis by (auto split: option.splits)
      next
        case (Some bs2)
        then have "r = Some bs2" "pf' = Some p2" "w' = w"
          using False True r d p q by (simp_all add: ReadFromFileOrPrefetched_def)
        with s(1) s(2) [OF Some] p u u' False show ?thesis by auto
      qed
    qed
  qed
  then show "view w' = view w" "pfo_ok ?c pf'" "pf' = None \<longleftrightarrow> pf = None" by simp_all
  assume "r = Some bs"
  with all show "0 \<le> off \<and> bs = slice (nat off) sz ?c \<and> (sz = 0 \<or> nat off + sz \<le> length ?c)" by simp
qed

end

section \<open>The header and the key\<close>

text \<open>The file starts with a valid header of the key.\<close>

definition header_ok :: "bytes \<Rightarrow> bytes \<Rightarrow> bool" where
  "header_ok c key \<longleftrightarrow>
     24 + length key \<le> length c \<and> slice 24 (length key) c = key
     \<and> initial_magic_number (header_of c) = kSimpleInitialMagicNumber
     \<and> hdr_version (header_of c) = kSimpleEntryVersionOnDisk
     \<and> unat (key_length (header_of c)) = length key
     \<and> PersistentHash key = Some (key_hash (header_of c))"

lemma slice_take: "k + j \<le> m \<Longrightarrow> slice k j (take m c) = slice k j c"
  by (simp add: slice_def drop_take min_def)

lemma header_of_take: "24 \<le> m \<Longrightarrow> header_of (take m c) = header_of c"
  by (simp add: header_of_def slice_take)

lemma same_key: "se_key E = Some k \<Longrightarrow> E\<lparr>se_key := Some k\<rparr> = E"
  by (cases E) simp

lemma slice_0: "slice 0 m c = take m c"
  by (simp add: slice_def)

lemma take_append_slice: "take m c @ slice m k c = take (m + k) c"
  by (simp add: slice_def take_add)

context files begin

lemma CheckHeaderAndKey_sound:
  assumes r: "CheckHeaderAndKey F h i E w = Some (ok, E', w')"
  shows "view w' = view w"
    and "\<not> ok \<Longrightarrow> E' = E"
    and "ok \<Longrightarrow> \<exists>key. header_ok (data (view w) (node h)) key \<and> (se_key E = None \<or> se_key E = Some key)
      \<and> E' = set_check_needed i False (E\<lparr>se_key := Some key\<rparr>)"
proof -
  let ?c = "data (view w) (node h)"
  define m where "m = (case se_key E of None \<Rightarrow> kInitialHeaderRead | Some key \<Rightarrow> GetHeaderSize (length key))"
  obtain rd w1 where rd: "fRead F h 0 m w = (rd, w1)" by (cases "fRead F h 0 m w")
  note rl = read_law [OF rd]
  define hd where "hd = (case rd of None \<Rightarrow> [] | Some bs \<Rightarrow> bs)"
  define kl where "kl = unat (key_length (header_of hd))"
  obtain rest w2 where rest: "(if length hd < 24 + kl
      then fReadAndCheck F h (int (length hd)) (24 + kl - length hd) w1 else (Some [], w1)) = (rest, w2)"
    by force
  have v2: "view w2 = view w"
    using rest rl read_check_law [of h "int (length hd)" "24 + kl - length hd" w1]
    by (auto split: if_splits)
  note u = r [unfolded CheckHeaderAndKey_def Let_def GetHeaderSize_def, folded GetHeaderSize_def,
      folded m_def, unfolded rd prod.case, folded hd_def, unfolded GetHeaderSize_def,
      folded kl_def, unfolded rest prod.case]
  show "view w' = view w" "\<not> ok \<Longrightarrow> E' = E"
    using u v2 rl by (auto split: if_splits option.splits Option.bind_splits)
  assume ok
  with u obtain x where x: "24 \<le> length hd" "initial_magic_number (header_of hd) = kSimpleInitialMagicNumber"
    "hdr_version (header_of hd) = kSimpleEntryVersionOnDisk" "rest = Some x"
    "PersistentHash (slice 24 kl (hd @ x)) = Some (key_hash (header_of hd))"
    "se_key E = None \<or> se_key E = Some (slice 24 kl (hd @ x))"
    "E' = set_check_needed i False (E\<lparr>se_key := Some (slice 24 kl (hd @ x))\<rparr>)"
    by (auto simp: same_key split: if_splits option.splits Option.bind_splits)
  have hd: "hd = take m ?c" using x(1) rl by (auto simp: hd_def slice_0 split: option.splits)
  then have len: "length hd = min m (length ?c)" by simp
  have m: "24 \<le> m" using x(1) hd by simp
  have eq: "header_of hd = header_of ?c" using header_of_take [OF m] hd by simp
  have all: "24 + kl \<le> length ?c \<and> slice 24 kl (hd @ x) = slice 24 kl ?c"
  proof (cases "length hd < 24 + kl")
    case True
    then have rc: "fReadAndCheck F h (int (length hd)) (24 + kl - length hd) w1 = (Some x, w2)"
      using rest x(4) by simp
    note rcl = read_check_law [OF rc]
    have "view w1 = view w" using rl by simp
    with rcl have b: "24 + kl \<le> length ?c" and xs: "x = slice (length hd) (24 + kl - length hd) ?c"
      using True by auto
    have "hd @ x = take (24 + kl) ?c"
      using True take_append_slice [of "length hd" ?c "24 + kl - length hd"] hd
      by (simp add: xs min_def split: if_splits)
    then show ?thesis using b by (simp add: slice_take)
  next
    case False
    then have "x = []" using rest x(4) by simp
    then show ?thesis using False len by (simp add: hd slice_take)
  qed
  have l: "length (slice 24 kl ?c) = kl" using conjunct1 [OF all] by (simp add: length_slice)
  have "header_ok ?c (slice 24 kl ?c)"
    unfolding header_ok_def l using x all eq kl_def by simp
  with x all show "\<exists>key. header_ok ?c key \<and> (se_key E = None \<or> se_key E = Some key)
      \<and> E' = set_check_needed i False (E\<lparr>se_key := Some key\<rparr>)" by auto
qed

end

context reliable_files begin

lemma CheckHeaderAndKey_complete:
  assumes ok: "header_ok (data (view w) (node h)) key" and key: "se_key E = None \<or> se_key E = Some key"
  obtains w' where "CheckHeaderAndKey F h i E w
      = Some (True, set_check_needed i False (E\<lparr>se_key := Some key\<rparr>), w')" "view w' = view w"
proof -
  let ?c = "data (view w) (node h)"
  define m where "m = (case se_key E of None \<Rightarrow> kInitialHeaderRead | Some key \<Rightarrow> GetHeaderSize (length key))"
  define hd where "hd = take m ?c"
  obtain w1 where rd: "fRead F h 0 m w = (Some hd, w1)" "view w1 = view w"
    using read_ok [of 0 h m w] by (auto simp: slice_0 hd_def)
  have m: "24 \<le> m" by (simp add: m_def kInitialHeaderRead_def GetHeaderSize_def split: option.split)
  note hdr = header_of_take [OF m, of ?c, folded hd_def]
  let ?k = "length key"
  have len: "24 + ?k \<le> length ?c" and kl: "unat (key_length (header_of ?c)) = ?k"
    using ok by (simp_all add: header_ok_def)
  obtain x w2 where x: "(if length hd < 24 + ?k
      then fReadAndCheck F h (int (length hd)) (24 + ?k - length hd) w1
      else (Some [], w1)) = (Some x, w2)" "view w2 = view w" "slice 24 ?k (hd @ x) = slice 24 ?k ?c"
  proof (cases "length hd < 24 + ?k")
    case True
    then have mk: "m < 24 + ?k" using len by (simp add: hd_def)
    obtain w2 where rc: "fReadAndCheck F h (int m) (24 + ?k - m) w1 = (Some (slice m (24 + ?k - m) ?c), w2)"
      "view w2 = view w1"
      using read_check_ok [of "int m" "24 + ?k - m" w1 h] rd(2) len mk by auto
    have "hd @ slice m (24 + ?k - m) ?c = take (24 + ?k) ?c" unfolding hd_def
      using take_append_slice [of m ?c "24 + ?k - m"] mk by simp
    then show ?thesis using that [of "slice m (24 + ?k - m) ?c" w2] rc rd(2) mk len
      by (simp add: slice_take min_def hd_def)
  next
    case False
    then show ?thesis using that [of "[]" w1] rd(2) by (simp add: slice_take hd_def)
  qed
  have long: "\<not> length hd < 24" using m len by (simp add: hd_def)
  show thesis
  proof (rule that [of w2])
    show "CheckHeaderAndKey F h i E w = Some (True, set_check_needed i False (E\<lparr>se_key := Some key\<rparr>), w2)"
      unfolding CheckHeaderAndKey_def Let_def m_def [symmetric] rd(1) prod.case option.case
      using ok key x(1,3) hdr kl long
      by (auto simp: header_ok_def GetHeaderSize_def same_key)
  qed (fact x)
qed

end

section \<open>What a successful open of file 0 has checked\<close>

definition footer :: "bytes \<Rightarrow> SimpleFileEOF" where
  "footer c = eof_of (slice (length c - 24) 24 c)"

definition footer_extra :: "SimpleFileEOF \<Rightarrow> nat" where
  "footer_extra e = (if eof_has_key_sha256 e then 32 else 0)"

text \<open>
  The file \<open>c\<close> belongs to the key and holds streams of the sizes \<open>s0\<close> and \<open>s1\<close>: its last record
  has the magic number and the size of stream 0, the sizes add up, stream 0 has its checksum, and the
  hash of the key is in the footer or the key is in the header.
\<close>

definition valid_file :: "sys \<Rightarrow> bytes \<Rightarrow> bytes \<Rightarrow> nat \<Rightarrow> nat \<Rightarrow> bool" where
  "valid_file S c key s0 s1 \<longleftrightarrow>
     length c = 24 + length key + s1 + 24 + s0 + footer_extra (footer c) + 24
     \<and> final_magic_number (footer c) = kSimpleFinalMagicNumber
     \<and> unat (stream_size (footer c)) = s0
     \<and> \<not> eof_crc_mismatch (footer c) (Crc32 (sys_zlib S) (slice (48 + length key + s1) s0 c))
     \<and> (if eof_has_key_sha256 (footer c)
        then slice (48 + length key + s1 + s0) 32 c = Sha256 S key else header_ok c key)"

context files begin

lemma GetEOF_sound:
  assumes r: "GetEOFRecordData F h pf i off w = (rv, e, pf', w')"
    and pf: "pfo_ok (data (view w) (node h)) pf" and b: "off < 2 ^ 63"
  shows "view w' = view w" "pfo_ok (data (view w) (node h)) pf'" "pf' = None \<longleftrightarrow> pf = None"
    and "rv = Net 0 \<Longrightarrow> 0 \<le> off \<and> nat off + 24 \<le> length (data (view w) (node h))
      \<and> e = eof_of (slice (nat off) 24 (data (view w) (node h)))
      \<and> final_magic_number e = kSimpleFinalMagicNumber \<and> uint (stream_size e) < 2 ^ 31"
proof -
  obtain rd pf1 w1 where d: "ReadFromFileOrPrefetched F h pf i off sizeof_SimpleFileEOF w = (rd, pf1, w1)"
    by (metis prod_cases3)
  note rs = RFP_sound [OF d pf b]
  show "view w' = view w" "pfo_ok (data (view w) (node h)) pf'" "pf' = None \<longleftrightarrow> pf = None"
    using r rs(1-3) by (auto simp: GetEOFRecordData_def d Let_def split: option.splits if_splits)
  assume "rv = Net 0"
  with r obtain bs where "rd = Some bs" "e = eof_of bs"
    "final_magic_number e = kSimpleFinalMagicNumber" "uint (stream_size e) < 2 ^ 31"
    by (auto simp: GetEOFRecordData_def d Let_def not_le split: option.splits if_splits)
  with rs(4) [of bs]
  show "0 \<le> off \<and> nat off + 24 \<le> length (data (view w) (node h))
      \<and> e = eof_of (slice (nat off) 24 (data (view w) (node h)))
      \<and> final_magic_number e = kSimpleFinalMagicNumber \<and> uint (stream_size e) < 2 ^ 31" by simp
qed

lemma PreRead_sound:
  assumes r: "PreReadStreamPayload F S h pf si extra st e out E w = (rv, out', pf', w')"
    and pf: "pfo_ok (data (view w) (node h)) pf"
    and off: "GetOffsetInFile st (se_key_size E) 0 si = int off" "off < 2 ^ 62"
  shows "view w' = view w" "pfo_ok (data (view w) (node h)) pf'" "pf' = None \<longleftrightarrow> pf = None"
    and "rv = Net 0 \<Longrightarrow> 0 \<le> data_size st ! si \<and> 0 \<le> extra
      \<and> spd_data out' = Some (slice off (nat (data_size st ! si + extra)) (data (view w) (node h)))
      \<and> (data_size st ! si + extra = 0
         \<or> off + nat (data_size st ! si + extra) \<le> length (data (view w) (node h)))
      \<and> stream_crc32 out' = Crc32 (sys_zlib S) (slice off (nat (data_size st ! si)) (data (view w) (node h)))
      \<and> \<not> eof_crc_mismatch e (stream_crc32 out')"
proof -
  let ?c = "data (view w) (node h)" and ?n = "data_size st ! si"
  obtain rd pf1 w1 where d: "ReadFromFileOrPrefetched F h pf 0 (int off) (nat (?n + extra)) w = (rd, pf1, w1)"
    by (metis prod_cases3)
  show all: "view w' = view w" "pfo_ok ?c pf'" "pf' = None \<longleftrightarrow> pf = None"
    and "rv = Net 0 \<Longrightarrow> 0 \<le> ?n \<and> 0 \<le> extra \<and> spd_data out' = Some (slice off (nat (?n + extra)) ?c)
      \<and> (?n + extra = 0 \<or> off + nat (?n + extra) \<le> length ?c)
      \<and> stream_crc32 out' = Crc32 (sys_zlib S) (slice off (nat ?n) ?c)
      \<and> \<not> eof_crc_mismatch e (stream_crc32 out')"
  proof -
    have "view w' = view w \<and> pfo_ok ?c pf' \<and> (pf' = None \<longleftrightarrow> pf = None) \<and> (rv = Net 0 \<longrightarrow>
      0 \<le> ?n \<and> 0 \<le> extra \<and> spd_data out' = Some (slice off (nat (?n + extra)) ?c)
      \<and> (?n + extra = 0 \<or> off + nat (?n + extra) \<le> length ?c)
      \<and> stream_crc32 out' = Crc32 (sys_zlib S) (slice off (nat ?n) ?c)
      \<and> \<not> eof_crc_mismatch e (stream_crc32 out'))"
    proof (cases "?n + extra > INT_MAX \<or> ?n < 0 \<or> extra < 0")
      case True
      with r pf show ?thesis by (auto simp: PreReadStreamPayload_def Let_def)
    next
      case False
      then have b: "int off < 2 ^ 63" "nat (?n + extra) < 2 ^ 63" using off(2) by (auto simp: INT_MAX_def)
      note rs = RFP_sound [OF d pf b]
      have tk: "take (nat ?n) (slice off (nat (?n + extra)) ?c) = slice off (nat ?n) ?c"
        using False by (simp add: slice_def nat_mono min_def)
      show ?thesis
      proof (cases rd)
        case None
        with r False d off(1) rs show ?thesis by (auto simp: PreReadStreamPayload_def Let_def)
      next
        case (Some bs)
        with r False d off(1) rs(1-3) rs(4) [OF Some] tk show ?thesis
          by (auto simp: PreReadStreamPayload_def Let_def split: if_splits)
      qed
    qed
    then show "view w' = view w" "pfo_ok ?c pf'" "pf' = None \<longleftrightarrow> pf = None"
      "rv = Net 0 \<Longrightarrow> 0 \<le> ?n \<and> 0 \<le> extra \<and> spd_data out' = Some (slice off (nat (?n + extra)) ?c)
      \<and> (?n + extra = 0 \<or> off + nat (?n + extra) \<le> length ?c)
      \<and> stream_crc32 out' = Crc32 (sys_zlib S) (slice off (nat ?n) ?c)
      \<and> \<not> eof_crc_mismatch e (stream_crc32 out')" by blast+
  qed
qed

lemma PrefetchFromFile_sound:
  assumes "PrefetchFromFile F h off len (new_PrefetchData n) w = (ok, pf, w')"
    and "length (data (view w) (node h)) < 2 ^ 63" "uint off < 2 ^ 63"
  shows "view w' = view w" "ok \<Longrightarrow> pf_ok (data (view w) (node h)) pf"
proof -
  obtain r w1 where r: "fReadAndCheck F h (wrap64 (uint off)) len w = (r, w1)"
    by (cases "fReadAndCheck F h (wrap64 (uint off)) len w")
  have "- (2 ^ 63) \<le> uint off" by (rule order_trans [of _ 0]) simp_all
  then have o: "wrap64 (uint off) = uint off" using assms(3) by (rule wrap64_id)
  note rl = read_check_law [OF r, unfolded o]
  show "view w' = view w" "ok \<Longrightarrow> pf_ok (data (view w) (node h)) pf"
    using assms(1,2) rl
    by (auto simp: PrefetchFromFile_def new_PrefetchData_def r pf_ok_def length_slice min_def
        split: option.splits)
qed

lemma prefetch_file_sound:
  assumes "prefetch_file F S h n E w = (r, w')"
    and "length (data (view w) (node h)) < 2 ^ 62" "uint n < 2 ^ 63"
  shows "view w' = view w" "r = Some pf \<Longrightarrow> pf_ok (data (view w) (node h)) pf"
proof -
  have sub: "uint (n - min t n) < 2 ^ 63" for t
  proof -
    have "n - min t n \<le> n" by (simp add: word_sub_le)
    then show ?thesis using assms(3) by (simp add: word_le_def)
  qed
  have sub': "uint (n - t) < 2 ^ 63" if "\<not> n \<le> t" for t using sub [of t] that by (auto simp: min_def not_le split: if_splits)
  have new: "pf_ok (data (view w) (node h)) (new_PrefetchData n)"
    using assms(2) by (simp add: pf_ok_def new_PrefetchData_def slice_def)
  have big: "length (data (view w) (node h)) < 2 ^ 63" using assms(2) by simp
  have step: "view w' = view w \<and> (\<forall>pf. r = Some pf \<longrightarrow> pf_ok (data (view w) (node h)) pf)"
    if "(case PrefetchFromFile F h off len (new_PrefetchData n) w of
          (ok, pf, w) \<Rightarrow> (if ok then Some pf else None, w)) = (r, w')" "uint off < 2 ^ 63" for off len
  proof -
    obtain ok pf w1 where p: "PrefetchFromFile F h off len (new_PrefetchData n) w = (ok, pf, w1)"
      by (metis prod_cases3)
    from PrefetchFromFile_sound [OF p big that(2)] that(1) p show ?thesis by (auto split: if_splits)
  qed
  have all: "view w' = view w \<and> (\<forall>pf. r = Some pf \<longrightarrow> pf_ok (data (view w) (node h)) pf)"
    using assms(1) unfolding prefetch_file_def Let_def
    by (split if_splits) (use step [of 0 "unat n"] step [OF _ sub'] new in \<open>auto split: if_splits\<close>)
  then show "view w' = view w" "r = Some pf \<Longrightarrow> pf_ok (data (view w) (node h)) pf" by simp_all
qed

lemma check_key_sound:
  assumes r: "check_key F S h e spd E w = Some (rv, E', w')" and key: "se_key E = Some key"
    and len: "length (header_and_key_check_needed E) = 2"
  shows "view w' = view w"
    and "\<exists>chk. E' = E\<lparr>header_and_key_check_needed := chk\<rparr> \<and> length chk = 2"
    and "rv = Net 0 \<Longrightarrow> \<not> header_and_key_check_needed E' ! 0
      \<and> (if eof_has_key_sha256 e
         then slice (nat (sint (stream_size e))) 32 (the (spd_data (spd ! 0))) = Sha256 S key
         else \<not> header_and_key_check_needed E ! 0 \<or> header_ok (data (view w) (node h)) key)"
proof -
  have all: "view w' = view w \<and> (\<exists>chk. E' = E\<lparr>header_and_key_check_needed := chk\<rparr> \<and> length chk = 2)
    \<and> (rv = Net 0 \<longrightarrow> \<not> header_and_key_check_needed E' ! 0
      \<and> (if eof_has_key_sha256 e
         then slice (nat (sint (stream_size e))) 32 (the (spd_data (spd ! 0))) = Sha256 S key
         else \<not> header_and_key_check_needed E ! 0 \<or> header_ok (data (view w) (node h)) key))"
  proof (cases "eof_has_key_sha256 e \<or> \<not> header_and_key_check_needed E ! 0")
    case True
    have "E = E\<lparr>header_and_key_check_needed := header_and_key_check_needed E\<rparr>" by simp
    with True r key len show ?thesis
      by (auto simp: check_key_def set_check_needed_def split: if_splits intro: exI [of _ "header_and_key_check_needed E"])
  next
    case False
    with r obtain ok where c: "CheckHeaderAndKey F h 0 E w = Some (ok, E', w')"
      and rv: "rv = (if ok then Net 0 else Err ERR_FAILED)"
      by (auto simp: check_key_def split: Option.bind_splits)
    note cs = CheckHeaderAndKey_sound [OF c]
    show ?thesis
    proof (cases ok)
      case True
      with cs(3) key have "header_ok (data (view w) (node h)) key" "E' = set_check_needed 0 False E"
        by (auto simp: same_key)
      with cs(1) False rv len show ?thesis
        by (auto simp: set_check_needed_def)
    next
      case no: False
      with cs rv len show ?thesis
        by (auto intro: exI [of _ "header_and_key_check_needed E"])
    qed
  qed
  then show "view w' = view w" "\<exists>chk. E' = E\<lparr>header_and_key_check_needed := chk\<rparr> \<and> length chk = 2"
    "rv = Net 0 \<Longrightarrow> \<not> header_and_key_check_needed E' ! 0
      \<and> (if eof_has_key_sha256 e
         then slice (nat (sint (stream_size e))) 32 (the (spd_data (spd ! 0))) = Sha256 S key
         else \<not> header_and_key_check_needed E ! 0 \<or> header_ok (data (view w) (node h)) key)" by blast+
qed

lemma read_prefetched_stream_1_sound:
  assumes r: "read_prefetched_stream_1 F S h pf e E st spd w = (rv, spd', w')"
    and pf: "pf_ok (data (view w) (node h)) pf" and sizes: "sizes_ok st (se_key_size E)"
    and len: "length spd = 2"
  shows "view w' = view w" "spd' ! 0 = spd ! 0"
    and "spd' ! 1 = spd ! 1 \<or> (rv = Net 0 \<longrightarrow> spd_data (spd' ! 1)
      = Some (slice (24 + se_key_size E) (nat (data_size st ! 1)) (data (view w) (node h))))"
proof -
  let ?c = "data (view w) (node h)"
  have off: "GetOffsetInFile st (se_key_size E) 0 1 = int (24 + se_key_size E)" "24 + se_key_size E < 2 ^ 62"
    and eof: "GetEOFOffsetInFile st (se_key_size E) 1 < 2 ^ 63"
    using offsets [OF sizes] sizes_okD [OF sizes] by simp_all
  obtain b pf1 where h: "HasData (word_of_int (GetOffsetInFile st (se_key_size E) 0 1))
      (word_of_int (wrap64 (int sizeof_SimpleFileEOF + data_size st ! 1))) pf = (b, pf1)" by force
  have pf1: "pfo_ok ?c (Some pf1)" using pf pf_ok_HasData [OF h] by simp
  have "view w' = view w \<and> spd' ! 0 = spd ! 0 \<and> (spd' ! 1 = spd ! 1 \<or> (rv = Net 0 \<longrightarrow>
      spd_data (spd' ! 1) = Some (slice (24 + se_key_size E) (nat (data_size st ! 1)) ?c)))"
  proof (cases "eof_has_key_sha256 e \<and> b")
    case False
    with r h show ?thesis by (auto simp: read_prefetched_stream_1_def)
  next
    case True
    obtain rv1 e1 pf2 w1 where g: "GetEOFRecordData F h (Some pf1) 0
        (GetEOFOffsetInFile st (se_key_size E) 1) w = (rv1, e1, pf2, w1)" by (metis prod_cases4)
    note gs = GetEOF_sound [OF g pf1 eof]
    show ?thesis
    proof (cases "rv1 = Net 0")
      case no: False
      with r h g True gs show ?thesis by (auto simp: read_prefetched_stream_1_def Let_def)
    next
      case yes: True
      obtain rv2 o2 pf3 w2 where p: "PreReadStreamPayload F S h pf2 1 0 st e1 (spd ! 1) E w1 = (rv2, o2, pf3, w2)"
        by (metis prod_cases4)
      have "pfo_ok (data (view w1) (node h)) pf2" using gs(1,2) by simp
      note ps = PreRead_sound [OF p this off]
      have "rv = rv2" "spd' = spd[1 := o2]" "w' = w2"
        using r h g True yes p by (simp_all add: read_prefetched_stream_1_def)
      with ps gs(1) len show ?thesis by auto
    qed
  qed
  then show "view w' = view w" "spd' ! 0 = spd ! 0" "spd' ! 1 = spd ! 1 \<or> (rv = Net 0 \<longrightarrow> spd_data (spd' ! 1)
      = Some (slice (24 + se_key_size E) (nat (data_size st ! 1)) ?c))" by blast+
qed

lemma All_less_3: "(\<forall>i < (3 :: nat). P i) \<longleftrightarrow> P 0 \<and> P 1 \<and> P 2"
  by (auto simp: numeral_3_eq_3 less_Suc_eq numeral_2_eq_2)

lemma set_file_0_sizes_sound:
  assumes r: "set_file_0_sizes fs e k st = (True, st')"
    and e: "uint (stream_size e) < 2 ^ 31" and b: "0 \<le> fs" "fs < 2 ^ 60" "k < 2 ^ 32"
    and len: "length (data_size st) = 3" "0 \<le> data_size st ! 2" "data_size st ! 2 < 2 ^ 60"
  obtains s1 where "st' = set_data_size 1 (int s1) (set_data_size 0 (uint (stream_size e)) st)"
    "fs = 24 + int k + int s1 + 24 + uint (stream_size e) + int (footer_extra e) + 24"
    "sizes_ok st' k" "data_size st' ! 0 = uint (stream_size e)" "data_size st' ! 1 = int s1"
    "int (footer_extra e) = extra_post_stream_0_read e" "sint (stream_size e) = uint (stream_size e)"
proof -
  have s0: "sint (stream_size e) = uint (stream_size e)"
    using e order_trans [of "- (2 ^ 31)" 0 "uint (stream_size e)"]
    by (simp add: sint_uint signed_take_bit_int_eq_self)
  have ex: "int (footer_extra e) = extra_post_stream_0_read e" "extra_post_stream_0_read e \<le> 32"
    "0 \<le> extra_post_stream_0_read e"
    by (simp_all add: footer_extra_def extra_post_stream_0_read_def)
  let ?s1 = "fs - 2 * 24 - uint (stream_size e) - 24 - int k - extra_post_stream_0_read e"
  have num: "fs < 1152921504606846976" "uint (stream_size e) < 2147483648" "int k < 4294967296"
    using b e by simp_all
  have "- 9223372036854775808 \<le> ?s1" "?s1 < 9223372036854775808"
    using num b(1) ex(2,3) uint_ge_0 [of "stream_size e"] by linarith+
  then have "wrap64 ?s1 = ?s1" by (intro wrap64_id) simp_all
  then have "0 \<le> ?s1" "?s1 \<le> fs" and st': "st' = set_data_size 1 ?s1 (set_data_size 0 (uint (stream_size e)) st)"
    using r by (auto simp: set_file_0_sizes_def Let_def s0 split: if_splits)
  define s1 where "s1 = nat ?s1"
  have s1: "?s1 = int s1" using \<open>0 \<le> ?s1\<close> by (simp only: s1_def nat_0_le)
  have st'': "st' = set_data_size 1 (int s1) (set_data_size 0 (uint (stream_size e)) st)"
    using st' by (simp only: s1)
  obtain a b c where abc: "data_size st = [a, b, c]"
    using len(1) by (auto simp: length_Suc_conv numeral_3_eq_3)
  then have ds: "data_size st' = [uint (stream_size e), int s1, c]" by (simp add: st'' set_data_size_def)
  have small: "int s1 < 2 ^ 60" using \<open>?s1 \<le> fs\<close> b(2) s1 by linarith
  show thesis
  proof (rule that [of s1])
    show "fs = 24 + int k + int s1 + 24 + uint (stream_size e) + int (footer_extra e) + 24"
      using s1 ex(1) by linarith
    show "sizes_ok st' k"
      using small b(3) e len(2,3) abc by (simp add: sizes_ok_def All_less_3 ds)
  qed (simp_all only: st'' ds nth_Cons_0 One_nat_def nth_Cons_Suc s0 ex(1), simp_all add: set_data_size_def abc)
qed

lemma ReadAndValidate_sound:
  assumes r: "ReadAndValidateStream0AndMaybe1 F S fs E st spd w = Some (rv, E', st', spd', w')"
    and tab: "table (view w) (tracked_file E 0) = Some n"
    and fs: "fs = int (length (data (view w) n))" "fs < 2 ^ 60"
    and key: "se_key E = Some key" "length key < 2 ^ 32"
    and chk: "length (header_and_key_check_needed E) = 2"
      "header_and_key_check_needed E ! 0 \<or> header_ok (data (view w) n) key"
    and len: "length spd = 2" "length (data_size st) = 3" "0 \<le> data_size st ! 2" "data_size st ! 2 < 2 ^ 60"
  shows "view w' = view w"
    "\<exists>chk pre. E' = E\<lparr>header_and_key_check_needed := chk, computed_trailer_prefetch_size := pre\<rparr> \<and> length chk = 2"
    and "rv = Net 0 \<Longrightarrow> \<exists>s0 s1. st' = set_data_size 1 (int s1) (set_data_size 0 (int s0) st)
      \<and> valid_file S (data (view w) n) key s0 s1
      \<and> spd_data (spd' ! 0) = Some (slice (48 + length key + s1)
            (s0 + footer_extra (footer (data (view w) n))) (data (view w) n))
      \<and> stream_crc32 (spd' ! 0) = Crc32 (sys_zlib S) (slice (48 + length key + s1) s0 (data (view w) n))
      \<and> (spd' ! 1 = spd ! 1 \<or> spd_data (spd' ! 1) = Some (slice (24 + length key) s1 (data (view w) n)))
      \<and> \<not> header_and_key_check_needed E' ! 0"
proof -
  let ?c = "data (view w) n"
  have E0: "\<exists>chk pre. E = E\<lparr>header_and_key_check_needed := chk, computed_trailer_prefetch_size := pre\<rparr> \<and> length chk = 2"
    using chk(1) by (intro exI [of _ "header_and_key_check_needed E"] exI [of _ "computed_trailer_prefetch_size E"]) simp
  have goal: "view w' = view w
    \<and> (\<exists>chk pre. E' = E\<lparr>header_and_key_check_needed := chk, computed_trailer_prefetch_size := pre\<rparr> \<and> length chk = 2)
    \<and> (rv = Net 0 \<longrightarrow> (\<exists>s0 s1. st' = set_data_size 1 (int s1) (set_data_size 0 (int s0) st)
      \<and> valid_file S ?c key s0 s1
      \<and> spd_data (spd' ! 0) = Some (slice (48 + length key + s1) (s0 + footer_extra (footer ?c)) ?c)
      \<and> stream_crc32 (spd' ! 0) = Crc32 (sys_zlib S) (slice (48 + length key + s1) s0 ?c)
      \<and> (spd' ! 1 = spd ! 1 \<or> spd_data (spd' ! 1) = Some (slice (24 + length key) s1 ?c))
      \<and> \<not> header_and_key_check_needed E' ! 0))" (is ?G)
  proof (cases "tAcquire F (tracked_file E 0) w")
    case (Pair ho w0)
    note acq = acquire_law [OF Pair]
    show ?thesis
    proof (cases ho)
      case None
      with r Pair acq E0 show ?thesis by (auto simp: ReadAndValidateStream0AndMaybe1_def)
    next
      case (Some h)
      with acq tab have hn: "node h = n" "view w0 = view w" by auto
      obtain po w1 where p: "prefetch_file F S h (word_of_int fs) E w0 = (po, w1)"
        by (cases "prefetch_file F S h (word_of_int fs) E w0")
      have "0 \<le> fs" using fs by simp
      then have "uint (word_of_int fs :: u64) = fs" using fs(2) by (simp add: uint_word_of_int)
      then have "uint (word_of_int fs :: u64) < 2 ^ 63" using fs(2) by simp
      moreover have "length (data (view w0) (node h)) < 2 ^ 62" using fs hn by simp
      ultimately have ps: "view w1 = view w" "\<And>pf. po = Some pf \<Longrightarrow> pf_ok ?c pf"
        using prefetch_file_sound [OF p] hn by simp_all
      show ?thesis
      proof (cases po)
        case None
        with r Pair Some p ps E0 fs show ?thesis by (auto simp: ReadAndValidateStream0AndMaybe1_def)
      next
        case pf: (Some pf)
        obtain rv1 e pf1 w2 where g: "GetEOFRecordData F h (Some pf) 0 (wrap64 (fs - int sizeof_SimpleFileEOF)) w1
            = (rv1, e, pf1, w2)" by (metis prod_cases4)
        have wr: "wrap64 (fs - int sizeof_SimpleFileEOF) = fs - 24" using fs by (subst wrap64_id) simp_all
        have "pfo_ok (data (view w1) (node h)) (Some pf)" using ps(1) ps(2) [OF pf] hn by simp
        note gs = GetEOF_sound [OF g this, unfolded wr]
        have gb: "fs - 24 < 2 ^ 63" using fs by simp
        show ?thesis
        proof (cases "rv1 = Net 0")
          case False
          with r Pair Some p pf g gs(1) [OF gb] ps(1) E0 fs show ?thesis
            by (auto simp: ReadAndValidateStream0AndMaybe1_def)
        next
          case rv1: True
          have nn: "nat (fs - 24) = length ?c - 24" using fs(1) by linarith
          from gs(4) [OF gb rv1, unfolded nn] have e: "24 \<le> length ?c" "e = footer ?c"
            "final_magic_number e = kSimpleFinalMagicNumber" "uint (stream_size e) < 2 ^ 31"
            using fs ps(1) hn by (auto simp: footer_def)
          obtain ok st1 where z: "set_file_0_sizes fs e (length key) st = (ok, st1)" by force
          have ksz: "se_key_size E = length key" by (simp add: se_key_size_def key)
          show ?thesis
          proof (cases ok)
            case False
            with r Pair Some p pf g rv1 gs(1) [OF gb] ps(1) E0 fs z ksz show ?thesis
              by (auto simp: ReadAndValidateStream0AndMaybe1_def)
          next
            case ok: True
            from z ok have z': "set_file_0_sizes fs e (length key) st = (True, st1)" by simp
            have fs0: "0 \<le> fs" using fs(1) by simp
            obtain s1 where st1: "st1 = set_data_size 1 (int s1) (set_data_size 0 (uint (stream_size e)) st)"
              "fs = 24 + int (length key) + int s1 + 24 + uint (stream_size e) + int (footer_extra e) + 24"
              "sizes_ok st1 (length key)" "data_size st1 ! 0 = uint (stream_size e)" "data_size st1 ! 1 = int s1"
              "int (footer_extra e) = extra_post_stream_0_read e" "sint (stream_size e) = uint (stream_size e)"
              by (rule set_file_0_sizes_sound [OF z' e(4) fs0 fs(2) key(2) len(2-4)])
            define s0 where "s0 = unat (stream_size e)"
            have s0: "uint (stream_size e) = int s0" by (simp add: s0_def)
            obtain rv2 o2 pf2 w3 where q: "PreReadStreamPayload F S h pf1 0 (extra_post_stream_0_read e) st1 e
                (spd ! 0) E w2 = (rv2, o2, pf2, w3)" by (metis prod_cases4)
            have v2: "view w2 = view w" "pfo_ok ?c pf1" "pf1 \<noteq> None" using gs(1-3) [OF gb] ps(1) hn by simp_all
            have off: "GetOffsetInFile st1 (se_key_size E) 0 0 = int (48 + length key + s1)"
              "48 + length key + s1 < 2 ^ 62"
              using offsets [OF st1(3)] sizes_okD [OF st1(3)] st1(5) by (simp_all add: ksz)
            note qs = PreRead_sound [OF q _ off, unfolded v2(1) hn(1), OF v2(2)]
            show ?thesis
            proof (cases "rv2 = Net 0")
              case False
              with r Pair Some p pf g rv1 z ok ksz q qs(1) E0 fs show ?thesis
                by (auto simp: ReadAndValidateStream0AndMaybe1_def Let_def)
            next
              case rv2: True
              have n0: "nat (data_size st1 ! 0 + extra_post_stream_0_read e) = s0 + footer_extra e"
                by (simp add: st1(4) s0 flip: st1(6))
              note q0 = qs(4) [OF rv2, unfolded n0]
              have v3: "view w3 = view w" using qs(1) v2(1) by simp
              obtain pf3 where pf3: "pf2 = Some pf3" "pf_ok ?c pf3" using qs(2,3) v2(3) by auto
              let ?E = "E\<lparr>computed_trailer_prefetch_size := GetDesiredTrailerPrefetchSize pf3\<rparr>"
              obtain rv3 spd3 w4 where t: "read_prefetched_stream_1 F S h pf3 e ?E st1 (spd[0 := o2]) w3
                  = (rv3, spd3, w4)" by (metis prod_cases3)
              have "pf_ok (data (view w3) (node h)) pf3" "sizes_ok st1 (se_key_size ?E)"
                "length (spd[0 := o2]) = 2"
                using pf3 v3 hn st1(3) len(1) by (simp_all add: se_key_size_def key)
              note ts = read_prefetched_stream_1_sound [OF t this, unfolded v3 hn(1)]
              show ?thesis
              proof (cases "rv3 = Net 0")
                case False
                with r Pair Some p pf g rv1 z ok ksz q rv2 pf3 t ts(1) fs chk(1) show ?thesis
                  by (auto simp: ReadAndValidateStream0AndMaybe1_def Let_def
                      intro!: exI [of _ "header_and_key_check_needed E"] exI [of _ "GetDesiredTrailerPrefetchSize pf3"])
              next
                case rv3: True
                obtain rv4 E4 w5 where c: "check_key F S h e spd3 ?E w4 = Some (rv4, E4, w5)"
                  and res: "rv = rv4" "E' = E4" "st' = st1" "spd' = spd3" "w' = w5"
                  using r Pair Some p pf g rv1 z ok ksz q rv2 pf3 t rv3 fs
                  by (auto simp: ReadAndValidateStream0AndMaybe1_def Let_def split: Option.bind_splits)
                have kE: "se_key ?E = Some key" "length (header_and_key_check_needed ?E) = 2"
                  using key chk by simp_all
                note cs = check_key_sound [OF c kE]
                obtain ck where ck: "E' = ?E\<lparr>header_and_key_check_needed := ck\<rparr>" "length ck = 2"
                  using cs(2) res(2) by auto
                have v5: "view w' = view w" using cs(1) ts(1) res by simp
                have spd0: "spd_data (spd' ! 0) = Some (slice (48 + length key + s1) (s0 + footer_extra e) ?c)"
                  "stream_crc32 (spd' ! 0) = Crc32 (sys_zlib S) (slice (48 + length key + s1) s0 ?c)"
                  using q0 ts(2) res(4) len(1) st1(4) s0 by simp_all
                have spd1: "spd' ! 1 = spd ! 1 \<or> spd_data (spd' ! 1) = Some (slice (24 + length key) s1 ?c)"
                  using ts(3) rv3 res(4) st1(5) by (simp add: se_key_size_def key)
                have "valid_file S ?c key s0 s1 \<and> \<not> header_and_key_check_needed E' ! 0" if rv: "rv = Net 0"
                proof -
                  have ckr: "\<not> header_and_key_check_needed E4 ! 0"
                    "if eof_has_key_sha256 e
                     then slice (nat (sint (stream_size e))) 32 (the (spd_data (spd3 ! 0))) = Sha256 S key
                     else \<not> header_and_key_check_needed ?E ! 0 \<or> header_ok (data (view w4) (node h)) key"
                    using cs(3) rv res(1) by blast+
                  have "length ?c = 24 + length key + s1 + 24 + s0 + footer_extra e + 24"
                    using st1(2) fs(1) s0 by linarith
                  moreover have "slice (48 + length key + s1 + s0) 32 ?c = Sha256 S key" if sha: "eof_has_key_sha256 e"
                    using ckr(2) sha spd0(1) res(4) st1(7) s0
                    by (simp add: slice_slice footer_extra_def)
                  moreover have "header_ok ?c key" if "\<not> eof_has_key_sha256 e"
                    using ckr(2) that chk(2) ts(1) hn by auto
                  moreover have "\<not> eof_crc_mismatch e (Crc32 (sys_zlib S) (slice (48 + length key + s1) s0 ?c))"
                    using q0 by (auto simp: st1(4) s0)
                  ultimately show ?thesis
                    using e s0_def ckr(1) res(2) by (simp add: valid_file_def)
                qed
                moreover have "\<exists>chk pre. E' = E\<lparr>header_and_key_check_needed := chk,
                    computed_trailer_prefetch_size := pre\<rparr> \<and> length chk = 2"
                  using ck by (intro exI [of _ ck] exI [of _ "GetDesiredTrailerPrefetchSize pf3"]) simp
                ultimately show ?thesis
                  using v5 spd0 spd1 st1(1) s0 e(2) res(3) by (intro conjI impI exI [of _ s0] exI [of _ s1]) simp_all
              qed
            qed
          qed
        qed
      qed
    qed
  qed
  then show "view w' = view w"
    "\<exists>chk pre. E' = E\<lparr>header_and_key_check_needed := chk, computed_trailer_prefetch_size := pre\<rparr> \<and> length chk = 2"
    "rv = Net 0 \<Longrightarrow> \<exists>s0 s1. st' = set_data_size 1 (int s1) (set_data_size 0 (int s0) st)
      \<and> valid_file S ?c key s0 s1
      \<and> spd_data (spd' ! 0) = Some (slice (48 + length key + s1) (s0 + footer_extra (footer ?c)) ?c)
      \<and> stream_crc32 (spd' ! 0) = Crc32 (sys_zlib S) (slice (48 + length key + s1) s0 ?c)
      \<and> (spd' ! 1 = spd ! 1 \<or> spd_data (spd' ! 1) = Some (slice (24 + length key) s1 ?c))
      \<and> \<not> header_and_key_check_needed E' ! 0" by blast+
qed

end

end
