(* ===== verification/Sync_Open_Entry.thy ===== *)
theory Sync_Open_Entry imports Sync_Open begin

text \<open>
  Opening a whole entry: the files it opens, their validation and the sparse file. From the laws of
  files that may fail follows what a successful open has checked; from those of reliable files, that
  an entry which was closed is opened again with its data.
\<close>

section \<open>Opening the files\<close>

lemma tracked_file_update [simp]:
  "tracked_file (E\<lparr>have_open_files := b\<rparr>) i = tracked_file E i"
  "tracked_file (E\<lparr>empty_file_omitted := om\<rparr>) i = tracked_file E i"
  "tracked_file (E\<lparr>se_key := key\<rparr>) i = tracked_file E i"
  "tracked_file (E\<lparr>header_and_key_check_needed := chk\<rparr>) i = tracked_file E i"
  "tracked_file (E\<lparr>computed_trailer_prefetch_size := pre\<rparr>) i = tracked_file E i"
  by (simp_all add: tracked_file_def)

lemma tracked_file_inj [simp]: "tracked_file E 0 = tracked_file E (Suc 0) \<longleftrightarrow> False"
  by (simp add: tracked_file_def SubFileForFileIndex_def)

lemma filename_update [simp]:
  "GetFilenameFromFileIndex (E\<lparr>empty_file_omitted := om\<rparr>) i = GetFilenameFromFileIndex E i"
  by (simp add: GetFilenameFromFileIndex_def)

lemma omit_index [simp]: "CanOmitEmptyFile 0 = False" "CanOmitEmptyFile (Suc 0) = True"
  by (simp_all add: CanOmitEmptyFile_def GetFileIndexFromStreamIndex_def)

lemma two_files: "[0..<kSimpleEntryNormalFileCount] = [0, Suc 0]"
  by (simp add: kSimpleEntryNormalFileCount_def upt_rec numeral_2_eq_2)

lemma stat_each_append:
  "stat_each F (is @ js) E st w = (case stat_each F is E st w of (st, w) \<Rightarrow> stat_each F js E st w)"
  by (induction "is" arbitrary: st w) (auto split: option.split prod.split)

context files begin

definition same_disk :: "'w \<Rightarrow> 'w \<Rightarrow> bool" where
  "same_disk w w' \<longleftrightarrow> dir (view w') = dir (view w) \<and> data (view w') = data (view w)"

lemma same_disk_refl [simp]: "same_disk w w"
  by (simp add: same_disk_def)

lemma same_disk_view: "view w' = view w \<Longrightarrow> same_disk w w'"
  by (simp add: same_disk_def)

lemma same_disk_trans [trans]: "same_disk w w' \<Longrightarrow> same_disk w' w'' \<Longrightarrow> same_disk w w''"
  by (simp add: same_disk_def)

lemma MaybeOpenFile_0:
  assumes "MaybeOpenFile F 0 E w = (ok, E', w')"
  shows "same_disk w w'" "E' = E"
    and "ok \<Longrightarrow> \<exists>n. dir (view w) (GetFilenameFromFileIndex E 0) = Some n
      \<and> table (view w') = (table (view w))(tracked_file E 0 \<mapsto> n)"
proof -
  obtain r w1 where r: "OpenFile F (GetFilenameFromFileIndex E 0) FLAG_OPEN_RW w = (r, w1)" by force
  note o = open_law [OF r]
  have "same_disk w w' \<and> E' = E \<and> (ok \<longrightarrow> (\<exists>n. dir (view w) (GetFilenameFromFileIndex E 0) = Some n
      \<and> table (view w') = (table (view w))(tracked_file E 0 \<mapsto> n)))"
    using assms o by (auto simp: MaybeOpenFile_def r same_disk_def register_law split: sum.splits)
  then show "same_disk w w'" "E' = E" "ok \<Longrightarrow> \<exists>n. dir (view w) (GetFilenameFromFileIndex E 0) = Some n
      \<and> table (view w') = (table (view w))(tracked_file E 0 \<mapsto> n)" by blast+
qed

lemma MaybeOpenFile_1:
  assumes "MaybeOpenFile F (Suc 0) E w = (ok, E', w')"
  shows "same_disk w w'"
    and "ok \<Longrightarrow> (\<exists>n. E' = E \<and> dir (view w) (GetFilenameFromFileIndex E 1) = Some n
        \<and> table (view w') = (table (view w))(tracked_file E 1 \<mapsto> n))
      \<or> (E' = set_omitted 1 True E \<and> dir (view w) (GetFilenameFromFileIndex E 1) = None
        \<and> table (view w') = table (view w))"
    and "\<not> ok \<Longrightarrow> E' = E"
proof -
  obtain r w1 where r: "OpenFile F (GetFilenameFromFileIndex E 1) FLAG_OPEN_RW w = (r, w1)" by force
  note o = open_law [OF r]
  have "same_disk w w' \<and> (ok \<longrightarrow> (\<exists>n. E' = E \<and> dir (view w) (GetFilenameFromFileIndex E 1) = Some n
        \<and> table (view w') = (table (view w))(tracked_file E 1 \<mapsto> n))
      \<or> (E' = set_omitted 1 True E \<and> dir (view w) (GetFilenameFromFileIndex E 1) = None
        \<and> table (view w') = table (view w))) \<and> (\<not> ok \<longrightarrow> E' = E)"
    using assms o r
    by (auto simp: MaybeOpenFile_def same_disk_def register_law split: sum.splits if_splits)
  then show "same_disk w w'" "ok \<Longrightarrow> (\<exists>n. E' = E \<and> dir (view w) (GetFilenameFromFileIndex E 1) = Some n
        \<and> table (view w') = (table (view w))(tracked_file E 1 \<mapsto> n))
      \<or> (E' = set_omitted 1 True E \<and> dir (view w) (GetFilenameFromFileIndex E 1) = None
        \<and> table (view w') = table (view w))" "\<not> ok \<Longrightarrow> E' = E" by blast+
qed

lemma stat_step:
  assumes "stat_each F [i] E st w = (st', w')" and "\<not> empty_file_omitted E ! i"
    and "table (view w) (tracked_file E i) = Some n"
  shows "view w' = view w"
    and "data_size st' = data_size st
      \<or> data_size st' = (data_size st)[i + 1 := int (length (data (view w) n))]"
proof -
  obtain r w1 where a: "tAcquire F (tracked_file E i) w = (r, w1)" by force
  note al = acquire_law [OF a]
  have "view w' = view w \<and> (data_size st' = data_size st
      \<or> data_size st' = (data_size st)[i + 1 := int (length (data (view w) n))])"
  proof (cases r)
    case None
    with assms a al show ?thesis by auto
  next
    case (Some h)
    obtain ri w2 where g: "fGetInfo F h w1 = (ri, w2)" by force
    from assms al Some get_info_law [OF g] a g show ?thesis
      by (auto simp: set_data_size_def split: option.splits)
  qed
  then show "view w' = view w" "data_size st' = data_size st
      \<or> data_size st' = (data_size st)[i + 1 := int (length (data (view w) n))]" by simp_all
qed

lemma close_each_disk:
  assumes "doom_generation (entry_file_key E) = 0"
  shows "same_disk w (snd (close_each F is E w))"
  using assms
proof (induction "is" arbitrary: E w)
  case (Cons i "is")
  obtain E1 w1 where c: "CloseFile F i E w = (E1, w1)" by force
  with Cons.prems have "same_disk w w1" "doom_generation (entry_file_key E1) = 0"
    by (auto simp: CloseFile_def same_disk_def close_law set_omitted_def split: if_splits)
  with Cons.IH [of E1 w1] c show ?case by (auto intro: same_disk_trans)
qed simp

lemma OpenFiles_sound:
  assumes r: "OpenFiles F E st w = (ok, E', st', w')"
    and E: "empty_file_omitted E = [False, False]" "doom_generation (entry_file_key E) = 0"
    and st: "length (data_size st) = 3"
  shows "same_disk w w'"
    and "ok \<Longrightarrow> \<exists>n b. dir (view w) (GetFilenameFromFileIndex E 0) = Some n
      \<and> table (view w') (tracked_file E 0) = Some n
      \<and> E' = E\<lparr>have_open_files := True, empty_file_omitted := [False, b]\<rparr>
      \<and> (b \<or> (\<exists>n1. dir (view w) (GetFilenameFromFileIndex E 1) = Some n1
                 \<and> table (view w') (tracked_file E 1) = Some n1
                 \<and> (data_size st' ! 2 = data_size st ! 2
                    \<or> data_size st' ! 2 = int (length (data (view w) n1)))))
      \<and> (b \<longrightarrow> data_size st' ! 2 = 0)
      \<and> data_size st' ! 0 = data_size st ! 0 \<and> length (data_size st') = 3
      \<and> (data_size st' ! 1 = data_size st ! 1 \<or> data_size st' ! 1 = int (length (data (view w) n)))"
proof -
  obtain x y z where st': "data_size st = [x, y, z]"
    using st by (auto simp: length_Suc_conv numeral_3_eq_3)
  obtain ok0 E0 w0 where m0: "MaybeOpenFile F 0 E w = (ok0, E0, w0)" by (metis prod_cases3)
  note l0 = MaybeOpenFile_0 [OF m0]
  have "same_disk w w' \<and> (ok \<longrightarrow> (\<exists>n b. dir (view w) (GetFilenameFromFileIndex E 0) = Some n
      \<and> table (view w') (tracked_file E 0) = Some n
      \<and> E' = E\<lparr>have_open_files := True, empty_file_omitted := [False, b]\<rparr>
      \<and> (b \<or> (\<exists>n1. dir (view w) (GetFilenameFromFileIndex E 1) = Some n1
                 \<and> table (view w') (tracked_file E 1) = Some n1
                 \<and> (data_size st' ! 2 = data_size st ! 2
                    \<or> data_size st' ! 2 = int (length (data (view w) n1)))))
      \<and> (b \<longrightarrow> data_size st' ! 2 = 0)
      \<and> data_size st' ! 0 = data_size st ! 0 \<and> length (data_size st') = 3
      \<and> (data_size st' ! 1 = data_size st ! 1 \<or> data_size st' ! 1 = int (length (data (view w) n)))))"
  proof (cases ok0)
    case False
    with r m0 l0 show ?thesis by (auto simp: OpenFiles_def two_files)
  next
    case ok0: True
    from l0 ok0 obtain n where n: "dir (view w) (GetFilenameFromFileIndex E 0) = Some n"
      "table (view w0) = (table (view w))(tracked_file E 0 \<mapsto> n)" and E0: "E0 = E" by blast
    obtain ok1 E1 w1 where m1: "MaybeOpenFile F (Suc 0) E w0 = (ok1, E1, w1)" by (metis prod_cases3)
    note l1 = MaybeOpenFile_1 [OF m1]
    have d1: "same_disk w w1" using l0(1) l1(1) by (rule same_disk_trans)
    show ?thesis
    proof (cases ok1)
      case False
      then have "E1 = E" using l1(3) by simp
      with False r m0 ok0 E0 m1 d1 close_each_disk [OF E(2), of w1 "[0]"] show ?thesis
        by (auto simp: OpenFiles_def two_files simp del: close_each.simps split: prod.splits
            intro: same_disk_trans)
    next
      case ok1: True
      let ?E = "E1\<lparr>have_open_files := True\<rparr>"
      from ok1 l1(2) n(2) have t0: "table (view w1) (tracked_file E 0) = Some n"
        by auto
      have om: "\<not> empty_file_omitted ?E ! 0" "tracked_file ?E i = tracked_file E i" for i
        using l1(2) ok1 E(1) by (auto simp: set_omitted_def)
      obtain st2 w2 where s0: "stat_each F [0] ?E st w1 = (st2, w2)" by force
      have t0': "table (view w1) (tracked_file ?E 0) = Some n" using t0 om by simp
      note q0 = stat_step [OF s0 om(1) t0']
      obtain st3 w3 where s1: "stat_each F [Suc 0] ?E st2 w2 = (st3, w3)" by force
      have split: "stat_each F [0, Suc 0] ?E st w1 = stat_each F [Suc 0] ?E st2 w2"
        using stat_each_append [of F "[0]" "[Suc 0]" ?E st w1] s0
        by (simp only: append_Cons append_Nil prod.case)
      have oe: "open_each F [0, Suc 0] E w = (True, E1, w1)" using m0 m1 ok0 ok1 E0 by simp
      have res: "ok" "E' = ?E" "st' = st3" "w' = w3"
        using r by (simp_all add: OpenFiles_def two_files oe split s1 del: stat_each.simps open_each.simps)
      have dn: "data (view w1) = data (view w)" using d1 by (simp add: same_disk_def)
      from l1(2) [OF ok1] show ?thesis
      proof (elim disjE exE conjE)
        assume o: "E1 = set_omitted 1 True E"
        then have "empty_file_omitted ?E ! Suc 0" using E(1) by (simp add: set_omitted_def)
        with s1 have w3: "st3 = set_data_size 2 0 st2" "w3 = w2" by (simp_all add: numeral_2_eq_2)
        have "same_disk w w2" using d1 same_disk_view [OF q0(1)] by (rule same_disk_trans)
        moreover have "data_size st2 = [x, y, z] \<or> data_size st2 = [x, int (length (data (view w) n)), z]"
          using q0(2) st' dn by simp
        then have "data_size st3 = [x, y, 0] \<or> data_size st3 = [x, int (length (data (view w) n)), 0]"
          by (auto simp: w3 set_data_size_def)
        moreover have "?E = E\<lparr>have_open_files := True, empty_file_omitted := [False, True]\<rparr>"
          using o E(1) by (simp add: set_omitted_def)
        moreover have "table (view w2) (tracked_file E 0) = Some n" using q0(1) t0 by simp
        ultimately show ?thesis
          using res n(1) st' w3(2) by (intro conjI impI exI [of _ n] exI [of _ True]) auto
      next
        fix n1
        assume o: "E1 = E" and d: "dir (view w0) (GetFilenameFromFileIndex E 1) = Some n1"
          and t: "table (view w1) = (table (view w0))(tracked_file E 1 \<mapsto> n1)"
        have no: "\<not> empty_file_omitted ?E ! Suc 0" using E(1) o by simp
        have "table (view w2) (tracked_file ?E (Suc 0)) = Some n1" using q0(1) t by (simp add: o)
        note q1 = stat_step [OF s1 no this]
        have dd: "dir (view w0) = dir (view w)" "data (view w2) = data (view w)"
          using l0(1) d1 q0(1) by (simp_all add: same_disk_def)
        have "same_disk w w3" using d1 same_disk_view [OF q0(1)] same_disk_view [OF q1(1)]
          by (blast intro: same_disk_trans)
        moreover have "data_size st2 = [x, y, z] \<or> data_size st2 = [x, int (length (data (view w) n)), z]"
          using q0(2) st' dn by simp
        then obtain y' where st2: "data_size st2 = [x, y', z]" "y' = y \<or> y' = int (length (data (view w) n))"
          by auto
        then have "data_size st3 = [x, y', z] \<or> data_size st3 = [x, y', int (length (data (view w) n1))]"
          using q1(2) dd(2) by auto
        moreover have "?E = E\<lparr>have_open_files := True, empty_file_omitted := [False, False]\<rparr>"
          using o E(1) by simp
        moreover have "table (view w3) (tracked_file E 0) = Some n"
          "table (view w3) (tracked_file E 1) = Some n1"
          using q0(1) q1(1) t0 t by simp_all
        moreover have "dir (view w) (GetFilenameFromFileIndex E 1) = Some n1" using d dd(1) by simp
        ultimately show ?thesis
          using res n(1) st' st2(2) by - (rule conjI, simp, rule impI, rule exI [of _ n], rule exI [of _ False],
            elim disjE, simp_all)
      qed
    qed
  qed
  then show "same_disk w w'" "ok \<Longrightarrow> \<exists>n b. dir (view w) (GetFilenameFromFileIndex E 0) = Some n
      \<and> table (view w') (tracked_file E 0) = Some n
      \<and> E' = E\<lparr>have_open_files := True, empty_file_omitted := [False, b]\<rparr>
      \<and> (b \<or> (\<exists>n1. dir (view w) (GetFilenameFromFileIndex E 1) = Some n1
                 \<and> table (view w') (tracked_file E 1) = Some n1
                 \<and> (data_size st' ! 2 = data_size st ! 2
                    \<or> data_size st' ! 2 = int (length (data (view w) n1)))))
      \<and> (b \<longrightarrow> data_size st' ! 2 = 0)
      \<and> data_size st' ! 0 = data_size st ! 0 \<and> length (data_size st') = 3
      \<and> (data_size st' ! 1 = data_size st ! 1 \<or> data_size st' ! 1 = int (length (data (view w) n)))" by blast+
qed

section \<open>Validating the files\<close>

lemma GetEOF_before_start:
  assumes "off < 0"
  shows "GetEOFRecordData F h pf i off w = (Err ERR_CACHE_CHECKSUM_READ_FAILURE, empty_eof, pf, w)"
  using assms by (simp add: GetEOFRecordData_def ReadFromFileOrPrefetched_def)

lemma ReadAndValidate_empty:
  assumes r: "ReadAndValidateStream0AndMaybe1 F S 0 E st spd w = Some (rv, E', st', spd', w')"
  shows "rv \<noteq> Net 0"
proof -
  have before: "wrap64 (0 - int sizeof_SimpleFileEOF) < 0" by simp
  obtain ho w0 where a: "tAcquire F (tracked_file E 0) w = (ho, w0)" by force
  show ?thesis
  proof (cases ho)
    case None
    with r a show ?thesis by (auto simp: ReadAndValidateStream0AndMaybe1_def)
  next
    case (Some h)
    obtain po w1 where p: "prefetch_file F S h 0 E w0 = (po, w1)" by force
    show ?thesis
    proof (cases po)
      case None
      with r a Some p show ?thesis by (auto simp: ReadAndValidateStream0AndMaybe1_def)
    next
      case pf: (Some pf)
      from r a Some p pf GetEOF_before_start [OF before, of h "Some pf" 0 w1] show ?thesis
        by (auto simp: ReadAndValidateStream0AndMaybe1_def simp del: wrap64_id)
    qed
  qed
qed

lemma GetEOF_view:
  assumes "GetEOFRecordData F h None i off w = (rv, e, pf, w')"
  shows "view w' = view w"
  using assms read_check_law [of h off sizeof_SimpleFileEOF w]
  by (auto simp: GetEOFRecordData_def ReadFromFileOrPrefetched_def Let_def
      split: option.splits prod.splits if_splits)

lemma validate_stream_2_sound:
  assumes "validate_stream_2 F E st w = Some (st', w')" and "length (data_size st) = 3"
  shows "view w' = view w" "length (data_size st') = 3"
    "data_size st' ! 0 = data_size st ! 0" "data_size st' ! 1 = data_size st ! 1"
proof -
  let ?st = "set_data_size 2 (GetDataSizeFromFileSize (se_key_size E) (data_size st ! 2)) st"
  have sizes: "length (data_size (set_data_size 2 x st1)) = 3 \<longleftrightarrow> length (data_size st1) = 3"
    "data_size (set_data_size 2 x st1) ! 0 = data_size st1 ! 0"
    "data_size (set_data_size 2 x st1) ! 1 = data_size st1 ! 1" for x st1
    by (simp_all add: set_data_size_def)
  have "view w' = view w \<and> (\<exists>x. st' = set_data_size 2 x ?st) \<or> view w' = view w \<and> st' = ?st"
  proof (cases "data_size ?st ! 2 > 0")
    case False
    with assms(1) show ?thesis by (auto simp: validate_stream_2_def Let_def split: if_splits)
  next
    case True
    obtain r w1 where a: "tAcquire F (tracked_file E 1) w = (r, w1)" by force
    from assms(1) True a obtain h where h: "r = Some h"
      by (cases r) (auto simp: validate_stream_2_def Let_def)
    obtain rv e pf w2 where g: "GetEOFRecordData F h None 1 (GetEOFOffsetInFile ?st (se_key_size E) 2) w1
        = (rv, e, pf, w2)" by (metis prod_cases4)
    have "view w2 = view w1" by (rule GetEOF_view [OF g])
    with assms(1) True a h g acquire_law [OF a] show ?thesis
      by (auto simp: validate_stream_2_def Let_def split: if_splits)
  qed
  with assms(2) sizes show "view w' = view w" "length (data_size st') = 3"
    "data_size st' ! 0 = data_size st ! 0" "data_size st' ! 1 = data_size st ! 1" by auto
qed

lemma scan_ranges_view_step:
  assumes "scan_ranges F' h off rs sz w = Some r"
  shows "F' = F \<longrightarrow> view (snd (snd (snd (snd r)))) = view w"
proof (rule scan_ranges.raw_induct [OF _ assms], goal_cases)
  case (1 scan F' h off rs sz w r)
  show ?case
  proof
    assume F: "F' = F"
    obtain rb w1 where d: "fRead F h (wrap64 (uint off)) sizeof_SimpleFileSparseRangeHeader w = (rb, w1)"
      by force
    note v = conjunct1 [OF read_law [OF d]]
    from 1 F d v show "view (snd (snd (snd (snd r)))) = view w"
      by (auto simp: Let_def split: option.splits if_splits)
  qed
qed

lemma scan_ranges_view:
  "scan_ranges F h off rs sz w = Some (ok, rs', sz', tail, w') \<Longrightarrow> view w' = view w"
  using scan_ranges_view_step by fastforce

lemma OpenSparse_sound:
  assumes "OpenSparseFileIfExists F E sz w = Some (ok, E', sz', w')"
  shows "same_disk w w'" "entry_file_key E' = entry_file_key E" "se_path E' = se_path E"
    "empty_file_omitted E' = empty_file_omitted E"
proof -
  obtain ro w1 where o: "OpenFile F (GetFilenameForSubfile E FILE_SPARSE) FLAG_OPEN_RW w = (ro, w1)" by force
  have v1: "view w1 = view w" using open_law [OF o] by simp
  have "same_disk w w' \<and> entry_file_key E' = entry_file_key E \<and> se_path E' = se_path E
    \<and> empty_file_omitted E' = empty_file_omitted E"
  proof (cases ro)
    case (Inl e)
    with assms o v1 show ?thesis by (auto simp: OpenSparseFileIfExists_def same_disk_def)
  next
    case (Inr h)
    from assms o Inr obtain ok1 E1 sz1 w2 where s: "ScanSparseFile F h E sz w1 = Some (ok1, E1, sz1, w2)"
      and res: "(ok, E', sz', w') = (if ok1 then (True, E1\<lparr>sparse_file_open := True\<rparr>, sz1,
        tRegister F (tracked_sparse E1) h w2) else (False, E1, sz1, w2))"
      by (auto simp: OpenSparseFileIfExists_def split: Option.bind_splits if_splits)
    obtain rb w3 where c: "fReadAndCheck F h 0 sizeof_SimpleFileHeader w1 = (rb, w3)" by force
    have v3: "view w3 = view w" using read_check_law [OF c] v1 by simp
    from s c v3 have "view w2 = view w \<and> entry_file_key E1 = entry_file_key E \<and> se_path E1 = se_path E
      \<and> empty_file_omitted E1 = empty_file_omitted E"
      by (auto simp: ScanSparseFile_def Let_def dest!: scan_ranges_view split: option.splits if_splits Option.bind_splits)
    then show ?thesis using res by (auto simp: same_disk_def register_law split: if_splits)
  qed
  then show "same_disk w w'" "entry_file_key E' = entry_file_key E" "se_path E' = se_path E"
    "empty_file_omitted E' = empty_file_omitted E"
    by blast+
qed

lemma validate_each_sound:
  assumes r: "validate_each F S [0, Suc 0] E st spd w = Some (rv, E', st', spd', w')" and rv: "rv = Net 0"
    and E: "empty_file_omitted E = [False, b]" "se_key E = Some key" "length key < 2 ^ 32"
      "header_and_key_check_needed E = [False, False]"
    and tab: "table (view w) (tracked_file E 0) = Some n" and small: "length (data (view w) n) < 2 ^ 60"
    and st: "data_size st = [0, z, y]" "z = 0 \<or> z = int (length (data (view w) n))" "0 \<le> y" "y < 2 ^ 60"
    and spd: "length spd = 2"
  shows "view w' = view w" "entry_file_key E' = entry_file_key E" "se_path E' = se_path E"
    "empty_file_omitted E' = empty_file_omitted E"
    and "\<exists>s0 s1. valid_file S (data (view w) n) key s0 s1
      \<and> data_size st' ! 0 = int s0 \<and> data_size st' ! 1 = int s1
      \<and> spd_data (spd' ! 0) = Some (slice (48 + length key + s1)
            (s0 + footer_extra (footer (data (view w) n))) (data (view w) n))
      \<and> stream_crc32 (spd' ! 0) = Crc32 (sys_zlib S) (slice (48 + length key + s1) s0 (data (view w) n))"
proof -
  let ?c = "data (view w) n" and ?E = "set_check_needed 0 True E"
  obtain rv1 E1 st1 spd1 w1 where v: "ReadAndValidateStream0AndMaybe1 F S z ?E st spd w
      = Some (rv1, E1, st1, spd1, w1)"
    and r1: "if rv1 \<noteq> Net 0 then (rv1, E1, st1, spd1, w1) = (rv, E', st', spd', w')
       else validate_each F S [Suc 0] E1 st1 spd1 w1 = Some (rv, E', st', spd', w')"
    using r E(1,2) st(1) by (auto simp del: validate_each.simps(1) simp: Let_def split: Option.bind_splits if_splits)
  have rv1: "rv1 = Net 0" using r1 rv by (auto split: if_splits)
  have z: "z = int (length ?c)" using st(2) ReadAndValidate_empty v rv1 by blast
  have pre: "table (view w) (tracked_file ?E 0) = Some n" "z < 2 ^ 60" "se_key ?E = Some key"
    "length (header_and_key_check_needed ?E) = 2"
    "header_and_key_check_needed ?E ! 0 \<or> header_ok ?c key" "length (data_size st) = 3"
    "0 \<le> data_size st ! 2" "data_size st ! 2 < 2 ^ 60"
    using tab small z E st by (simp_all add: set_check_needed_def)
  note vs = ReadAndValidate_sound [OF v pre(1) z pre(2,3) E(3) pre(4,5) spd pre(6-8)]
  obtain s0 s1 where s: "st1 = set_data_size 1 (int s1) (set_data_size 0 (int s0) st)"
    "valid_file S ?c key s0 s1"
    "spd_data (spd1 ! 0) = Some (slice (48 + length key + s1) (s0 + footer_extra (footer ?c)) ?c)"
    "stream_crc32 (spd1 ! 0) = Crc32 (sys_zlib S) (slice (48 + length key + s1) s0 ?c)"
    using vs(3) [OF rv1] by blast
  have ds: "data_size st1 = [int s0, int s1, y]" using s(1) st(1) by (simp add: set_data_size_def)
  have E1: "entry_file_key E1 = entry_file_key E" "se_path E1 = se_path E" "empty_file_omitted E1 = [False, b]"
    "se_key E1 = Some key"
    using vs(2) E by (auto simp: set_check_needed_def)
  have fin: "view w' = view w1 \<and> entry_file_key E' = entry_file_key E1 \<and> se_path E' = se_path E1
    \<and> empty_file_omitted E' = empty_file_omitted E1 \<and> spd' = spd1
    \<and> data_size st' ! 0 = int s0 \<and> data_size st' ! 1 = int s1"
  proof (cases b)
    case True
    with r1 rv1 E1 ds show ?thesis by auto
  next
    case False
    with r1 rv1 E1 obtain w2 st2 where q: "validate_stream_2 F (set_check_needed (Suc 0) True E1) st1 w1 = Some (st2, w2)"
      and res: "E' = set_check_needed (Suc 0) True E1" "st' = st2" "spd' = spd1" "w' = w2"
      by (auto split: Option.bind_splits)
    have "length (data_size st1) = 3" using ds by simp
    from validate_stream_2_sound [OF q this] res ds show ?thesis by (simp add: set_check_needed_def)
  qed
  show "view w' = view w" "entry_file_key E' = entry_file_key E" "se_path E' = se_path E"
    "empty_file_omitted E' = empty_file_omitted E"
    using fin E1 vs(1) E(1) by simp_all
  show "\<exists>s0 s1. valid_file S ?c key s0 s1 \<and> data_size st' ! 0 = int s0 \<and> data_size st' ! 1 = int s1
      \<and> spd_data (spd' ! 0) = Some (slice (48 + length key + s1) (s0 + footer_extra (footer ?c)) ?c)
      \<and> stream_crc32 (spd' ! 0) = Crc32 (sys_zlib S) (slice (48 + length key + s1) s0 ?c)"
    using fin s by (intro exI [of _ s0] exI [of _ s1]) simp
qed

lemma InitializeForOpen_sound:
  assumes r: "InitializeForOpen F S E st spd w = Some (rv, E', st', spd', w')" and rv: "rv = Net 0"
    and E: "empty_file_omitted E = [False, False]" "se_key E = Some key" "length key < 2 ^ 32"
      "header_and_key_check_needed E = [False, False]" "doom_generation (entry_file_key E) = 0"
    and small: "\<And>n. length (data (view w) n) < 2 ^ 60"
    and st: "data_size st = [0, 0, 0]" and spd: "length spd = 2"
  obtains n s0 s1 where "dir (view w) (GetFilenameFromFileIndex E 0) = Some n"
    "valid_file S (data (view w) n) key s0 s1" "data_size st' ! 0 = int s0" "data_size st' ! 1 = int s1"
    "spd_data (spd' ! 0) = Some (slice (48 + length key + s1)
            (s0 + footer_extra (footer (data (view w) n))) (data (view w) n))"
    "stream_crc32 (spd' ! 0) = Crc32 (sys_zlib S) (slice (48 + length key + s1) s0 (data (view w) n))"
    "data (view w') = data (view w)"
proof -
  obtain ok E1 st1 w1 where o: "OpenFiles F E st w = (ok, E1, st1, w1)" by (metis prod_cases4)
  have len: "length (data_size st) = 3" using st by simp
  note os = OpenFiles_sound [OF o E(1,5) len]
  have ok: "ok" using r rv o by (cases ok) (auto simp: InitializeForOpen_def)
  from os(2) [OF ok] obtain n b where n: "dir (view w) (GetFilenameFromFileIndex E 0) = Some n"
    "table (view w1) (tracked_file E 0) = Some n"
    and E1: "E1 = E\<lparr>have_open_files := True, empty_file_omitted := [False, b]\<rparr>"
    and s2: "b \<or> (\<exists>n1. data_size st1 ! 2 = 0 \<or> data_size st1 ! 2 = int (length (data (view w) n1)))"
      "b \<longrightarrow> data_size st1 ! 2 = 0"
    and s01: "data_size st1 ! 0 = 0" "length (data_size st1) = 3"
      "data_size st1 ! 1 = 0 \<or> data_size st1 ! 1 = int (length (data (view w) n))"
    using st by auto
  obtain z y where zy: "data_size st1 = [0, z, y]"
    using s01(1,2) by (auto simp: length_Suc_conv numeral_3_eq_3)
  have d1: "data (view w1) = data (view w)" using os(1) by (simp add: same_disk_def)
  have y: "0 \<le> y" "y < 2 ^ 60" using s2 zy small by (auto simp: of_nat_less_numeral_power_cancel_iff)
  obtain rv2 E2 st2 spd2 w2 where v: "validate_each F S [0, Suc 0] E1 st1 spd w1 = Some (rv2, E2, st2, spd2, w2)"
    using r o ok by (cases "validate_each F S [0, Suc 0] E1 st1 spd w1") (auto simp: InitializeForOpen_def two_files)
  have rv2: "rv2 = Net 0" using r rv o ok v by (cases "rv2 = Net 0") (simp_all add: InitializeForOpen_def two_files)
  obtain ok3 E3 sz w3 where sp: "OpenSparseFileIfExists F E2 0 w2 = Some (ok3, E3, sz, w3)"
    using r o ok v rv2
    by (cases "OpenSparseFileIfExists F E2 0 w2") (auto simp: InitializeForOpen_def two_files simp del: validate_each.simps)
  have ok3: "ok3" using r rv o ok v rv2 sp
    by (cases ok3) (simp_all add: InitializeForOpen_def two_files del: validate_each.simps)
  let ?w4 = "snd (CloseFile F (Suc 0) E3 w3)"
  have res: "data_size st' = data_size st2" "spd' = spd2"
    "w' = w3 \<or> w' = snd (DeleteFileForEntryHash F (se_path (fst (CloseFile F (Suc 0) E3 w3)))
       (entry_hash (entry_file_key (fst (CloseFile F (Suc 0) E3 w3)))) (Suc 0) ?w4)"
    using r rv o ok v rv2 sp ok3
    by (auto simp: InitializeForOpen_def two_files GetFileIndexFromStreamIndex_def Let_def split_beta
        simp del: validate_each.simps split: if_splits)
  have pre: "empty_file_omitted E1 = [False, b]" "se_key E1 = Some key"
    "header_and_key_check_needed E1 = [False, False]" "table (view w1) (tracked_file E1 0) = Some n"
    "length (data (view w1) n) < 2 ^ 60" "z = 0 \<or> z = int (length (data (view w1) n))"
    using E n d1 small zy s01(3) by (simp_all add: E1)
  note vs = validate_each_sound [OF v rv2 pre(1,2) E(3) pre(3-5) zy pre(6) y spd, unfolded d1]
  note ss = OpenSparse_sound [OF sp]
  have "doom_generation (entry_file_key E3) = 0" using ss(2) vs(2) E(5) by (simp add: E1)
  then have "data (view ?w4) = data (view w3)"
    by (auto simp: CloseFile_def close_law)
  moreover have "data (view (snd (DeleteFileForEntryHash F p k i w))) = data (view w)" for p k i w
    unfolding DeleteFileForEntryHash_def using delete_law [OF prod.collapse [symmetric]] by simp
  ultimately have "data (view w') = data (view w)" using res(3) ss(1) vs(1) d1 by (auto simp: same_disk_def)
  with vs(5) n(1) res(1,2) that show thesis by auto
qed

end

text \<open>C1: When opening an entry by its key succeeds, in any file system whose operations may fail, then
the directory holds a file under the name of the entry, its last record has the magic number, the sizes
of the header, the key, the two streams and the records add up to its length, the checksum of stream 0
matches where it is recorded, and either the footer's hash of the key or the key in the header agrees
with the caller's key; the reported sizes and the data handed to the caller are those of this file, and
no file has been written to.\<close>
theorem opened_entry_is_validated:
  assumes "files F view node remaining"
    and "OpenEntry F S ct path owner (Some key) hash prefetch_size out w = Some (out', w')"
    and "cr_result out' = Net 0"
    and "data_size (cr_entry_stat out) = [0, 0, 0]" and "length (cr_stream_prefetch_data out) = 2"
    and "length key < 2 ^ 32" and "\<And>n. length (data (view w) n) < 2 ^ 60"
  shows "\<exists>n s0 s1.
      dir (view w) (AppendASCII path (GetFilenameFromEntryFileKeyAndFileIndex (plain_key hash) 0)) = Some n
      \<and> valid_file S (data (view w) n) key s0 s1
      \<and> data_size (cr_entry_stat out') ! 0 = int s0 \<and> data_size (cr_entry_stat out') ! 1 = int s1
      \<and> spd_data (cr_stream_prefetch_data out' ! 0)
          = Some (slice (48 + length key + s1) (s0 + footer_extra (footer (data (view w) n))) (data (view w) n))
      \<and> stream_crc32 (cr_stream_prefetch_data out' ! 0)
          = Crc32 (sys_zlib S) (slice (48 + length key + s1) s0 (data (view w) n))
      \<and> data (view w') = data (view w)"
proof -
  let ?E = "new_SyncEntry ct path owner (Some key) hash prefetch_size"
  obtain rv E st spd w1 where i: "InitializeForOpen F S ?E (cr_entry_stat out) (cr_stream_prefetch_data out) w
      = Some (rv, E, st, spd, w1)"
    using assms(2) by (auto simp: OpenEntry_def split: Option.bind_splits)
  have res: "rv = Net 0" "cr_entry_stat out' = st" "cr_stream_prefetch_data out' = spd" "w' = w1"
    using assms(2,3) i by (auto simp: OpenEntry_def Let_def split: if_splits)
  have E: "empty_file_omitted ?E = [False, False]" "se_key ?E = Some key"
    "header_and_key_check_needed ?E = [False, False]" "doom_generation (entry_file_key ?E) = 0"
    "GetFilenameFromFileIndex ?E 0 = AppendASCII path (GetFilenameFromEntryFileKeyAndFileIndex (plain_key hash) 0)"
    by (simp_all add: new_SyncEntry_def GetFilenameFromFileIndex_def plain_key_def)
  show ?thesis
    by (rule files.InitializeForOpen_sound [OF assms(1) i res(1) E(1,2) assms(6) E(3,4) assms(7,4,5), unfolded E(5)])
       (use res in auto)
qed

text \<open>Concrete parameters and a cache with one entry, for evaluation.\<close>

definition sample_sys :: sys where
  "sample_sys = \<lparr>sys_zlib = crc32_zlib, Sha256 = (\<lambda>bs. replicate 32 (if bs = [] then 0 else hd bs)),
     kSimpleCachePrefetchExperiment = False, kSimpleCachePrefetchDiskCacheOnly = False,
     kSimpleCacheFullPrefetchSize = 0, kSimpleCacheTrailerPrefetchSpeculativeBytes = 0\<rparr>"

definition no_results :: SimpleEntryCreationResults where
  "no_results = \<lparr>cr_sync_entry = None,
     cr_stream_prefetch_data = replicate 2 \<lparr>spd_data = None, stream_crc32 = 0\<rparr>,
     cr_entry_stat = \<lparr>last_used = 0, data_size = [0, 0, 0], sparse_data_size = 0\<rparr>,
     cr_computed_trailer_prefetch_size = 0, cr_result = Net 0, cr_created = False\<rparr>"

definition sample_mem :: mem where
  "sample_mem = empty_mem
     \<lparr>m_dir := [([''c'', GetFilenameFromEntryFileKeyAndFileIndex (plain_key 5) 0], 1)],
      m_data := (\<lambda>n. if n = 1 then entry_file sample_sys [104] 9 [1, 2] (stream_1_footer False 0) [3] else [])\<rparr>"

abbreviation sample_open :: "(SimpleEntryCreationResults \<times> mem) option" where
  "sample_open \<equiv> OpenEntry (mem_env (\<lambda>_. False)) sample_sys DISK_CACHE [''c''] 0 (Some [104]) 5 0 no_results
     sample_mem"

lemma opened_entry_is_validated_witness:
  "\<exists>n s0 s1.
      dir (mem_view sample_mem) (AppendASCII [''c''] (GetFilenameFromEntryFileKeyAndFileIndex (plain_key 5) 0)) = Some n
      \<and> valid_file sample_sys (data (mem_view sample_mem) n) [104] s0 s1
      \<and> data_size (cr_entry_stat (fst (the sample_open))) ! 0 = int s0
      \<and> data_size (cr_entry_stat (fst (the sample_open))) ! 1 = int s1
      \<and> spd_data (cr_stream_prefetch_data (fst (the sample_open)) ! 0)
          = Some (slice (48 + length [104 :: byte] + s1)
                (s0 + footer_extra (footer (data (mem_view sample_mem) n))) (data (mem_view sample_mem) n))
      \<and> stream_crc32 (cr_stream_prefetch_data (fst (the sample_open)) ! 0)
          = Crc32 (sys_zlib sample_sys) (slice (48 + length [104 :: byte] + s1) s0 (data (mem_view sample_mem) n))
      \<and> data (mem_view (snd (the sample_open))) = data (mem_view sample_mem)"
proof (rule opened_entry_is_validated [OF faulty.files_axioms [of "\<lambda>_. False"]])
  have "map_option (\<lambda>(out, w). cr_result out) sample_open = Some (Net 0)" by code_simp
  then show "sample_open = Some (fst (the sample_open), snd (the sample_open))"
    "cr_result (fst (the sample_open)) = Net 0" by auto
  have "length (data (mem_view sample_mem) 1) = 108" by code_simp
  then show "length (data (mem_view sample_mem) n) < 2 ^ 60" for n
    by (cases "n = 1") (simp_all add: sample_mem_def)
qed (simp_all add: no_results_def)

end
