(* ===== verification/Sync_Refine.thy ===== *)
theory Sync_Refine imports Sync_Open_Entry begin

text \<open>
  The data of stream 1 as a list of bytes: on reliable files, writing and reading the stream through
  its file are the writing and reading of the list, whatever follows the stream in the file.
\<close>

section \<open>The abstract stream\<close>

text \<open>
  A write puts bytes at an offset and fills a gap before it with zeros; it ends the stream behind the
  bytes when it truncates. An empty write behind the end only extends the stream.
\<close>

definition stream_write :: "nat \<Rightarrow> bytes \<Rightarrow> bool \<Rightarrow> bytes \<Rightarrow> bytes" where
  "stream_write off bs trunc d =
     (if trunc \<or> bs = [] \<and> length d < off then resize (off + length bs) (overwrite off bs d)
      else overwrite off bs d)"

text \<open>The open file of the entry starts with header, key and the stream, whose size the entry knows.\<close>

definition has_stream_1 ::
    "SyncEntry \<Rightarrow> SimpleEntryStat \<Rightarrow> fs \<Rightarrow> nat \<Rightarrow> bytes \<Rightarrow> u32 \<Rightarrow> bytes \<Rightarrow> bool" where
  "has_stream_1 E st v n key hash d \<longleftrightarrow>
     table v (tracked_file E 0) = Some n \<and> (\<exists>rest. data v n = file_start key hash @ d @ rest)
     \<and> se_key E = Some key \<and> sizes_ok st (length key) \<and> data_size st ! 1 = int (length d)
     \<and> \<not> empty_file_omitted E ! 0 \<and> \<not> header_and_key_check_needed E ! 0"

section \<open>Bytes\<close>

lemma overwrite_shift: "overwrite (length xs + off) bs (xs @ ys) = xs @ overwrite off bs ys"
  by (simp add: overwrite_def)

lemma length_overwrite_ne: "bs \<noteq> [] \<Longrightarrow> length (overwrite off bs d) = max (length d) (off + length bs)"
  by (simp add: length_overwrite)

lemma resize_more: "resize (m + j) xs = resize m xs @ drop m (resize (m + j) xs)"
proof -
  have "resize m xs = take m (resize (m + j) xs)" by (auto simp: resize_def take_Cons' min_def)
  then show ?thesis by simp
qed

lemma resize_append_cut: "m \<le> length xs \<Longrightarrow> resize m (xs @ ys) = resize m xs"
  by (simp add: resize_def)

lemma slice_shift: "slice (length xs + off) m (xs @ ys) = slice off m ys"
  by (simp add: slice_def)

section \<open>Writing\<close>

lemma set_stream_1_size:
  assumes "sizes_ok st k" and "0 \<le> m" and "m < 2 ^ 60"
  shows "sizes_ok (set_data_size (Suc 0) m st) k"
  using assms by (auto simp: sizes_ok_def set_data_size_def nth_list_update)

context reliable_files begin

lemma write_stream_1:
  assumes st: "sizes_ok st (length key)" and d: "data_size st ! 1 = int (length d)"
    and c: "data (view w) (node h) = file_start key hash @ d @ rest"
    and op: "wr_index op = 1" "wr_offset op = int off" "wr_buf_len op = int (length buf)"
    and small: "off + length buf < 2 ^ 60"
  obtains st' w' rest' where "write_stream F h op buf (length key) st w = (True, st', w')"
    and "view w' = put_data (node h) (file_start key hash @ stream_write off buf (wr_truncate op) d @ rest') (view w)"
    and "data_size st' = (data_size st)[1 := int (length (stream_write off buf (wr_truncate op) d))]"
    and "sizes_ok st' (length key)"
proof -
  let ?fs = "file_start key hash"
  define H where "H = length ?fs"
  have H: "int H = 24 + int (length key)" by (simp add: H_def)
  let ?ext = "length d < off + length buf"
  define X where "X = overwrite off buf d @ (if ?ext then [] else rest)"
  \<comment> \<open>after the cut\<close>
  obtain w1 where w1: "(if ?ext then fSetLength F h (int (H + length d)) w else (True, w)) = (True, w1)"
    "view w1 = put_data (node h) (?fs @ d @ (if ?ext then [] else rest)) (view w)"
  proof (cases ?ext)
    case True
    obtain w1 where "fSetLength F h (int (H + length d)) w = (True, w1)"
      "view w1 = put_data (node h) (resize (nat (int (H + length d))) (data (view w) (node h))) (view w)"
      using set_length_ok [of "int (H + length d)" h w] by auto
    moreover have "resize (H + length d) (?fs @ d @ rest) = ?fs @ d"
      by (simp add: resize_def H_def)
    ultimately show thesis using that [of w1] True c by (simp only: nat_int if_True append_Nil2)
  next
    case False
    moreover have "view w = put_data (node h) (?fs @ d @ rest) (view w)" using put_data_same [of "node h" "view w"] c by simp
    ultimately show thesis using that [of w] by simp
  qed
  \<comment> \<open>after the write\<close>
  obtain w2 where w2: "(if buf \<noteq> [] then fWriteAndCheck F h (int (H + off)) buf w1 else (True, w1)) = (True, w2)"
    "view w2 = put_data (node h) (?fs @ X) (view w)"
  proof (cases "buf = []")
    case True
    then show thesis using that [of w1] w1(2) by (simp add: X_def)
  next
    case False
    obtain w2 where w2: "fWriteAndCheck F h (int (H + off)) buf w1 = (True, w2)"
      "view w2 = put_data (node h) (overwrite (nat (int (H + off))) buf (data (view w1) (node h))) (view w1)"
      using write_check_ok [of "int (H + off)" h buf w1] by auto
    have "overwrite (H + off) buf (?fs @ d @ (if ?ext then [] else rest)) = ?fs @ X"
      unfolding H_def overwrite_shift X_def by (simp add: overwrite_prefix)
    then have "view w2 = put_data (node h) (?fs @ X) (view w)"
      by (simp only: w2(2) w1(2) nat_int put_data_fields fun_upd_same put_data_twice)
    then show thesis using that [of w2] False w2(1) by (simp only: if_True not_False_eq_True)
  qed
  have offs: "GetOffsetInFile st (length key) (int off) (Suc 0) = int (H + off)"
    "GetEOFOffsetInFile st (length key) (Suc 0) = int (H + length d)"
    using offsets [OF st] d by (simp_all add: H)
  let ?keep = "\<not> wr_truncate op \<and> (buf \<noteq> [] \<or> \<not> ?ext)"
  show thesis
  proof (cases ?keep)
    case True
    then have s: "stream_write off buf (wr_truncate op) d = overwrite off buf d" by (auto simp: stream_write_def)
    have len: "length (overwrite off buf d) = max (length d) (off + length buf)"
      using True by (cases "buf = []") (simp_all add: length_overwrite_ne)
    let ?st = "set_data_size (Suc 0) (int (max (length d) (off + length buf))) st"
    show thesis
    proof (rule that)
      show "write_stream F h op buf (length key) st w = (True, ?st, w2)"
        using True w1(1) w2(1) op d offs
        by (cases ?ext; cases "buf = []"; simp add: write_stream_def Let_def of_nat_max)
      show "view w2 = put_data (node h)
              (?fs @ stream_write off buf (wr_truncate op) d @ (if ?ext then [] else rest)) (view w)"
        using w2(2) s by (simp add: X_def)
      show "data_size ?st = (data_size st)[1 := int (length (stream_write off buf (wr_truncate op) d))]"
        by (simp add: s len set_data_size_def)
      have "length d < 2 ^ 60" using sizes_okD(6) [OF st] d by simp
      then show "sizes_ok ?st (length key)" using set_stream_1_size [OF st] small by simp
    qed
  next
    case False
    let ?m = "off + length buf"
    let ?st = "set_data_size (Suc 0) (int ?m) st"
    have st': "sizes_ok ?st (length key)" using set_stream_1_size [OF st] small by simp
    have last: "GetLastEOFOffsetInFile ?st (length key) (Suc 0) = int (H + ?m) + 56 + data_size st ! 0"
      using offsets(6) [OF st'] sizes_okD(1) [OF st]
      by (simp add: GetLastEOFOffsetInFile_def set_data_size_def H)
    define j where "j = nat (56 + data_size st ! 0)"
    have j: "int (H + ?m) + 56 + data_size st ! 0 = int (H + ?m + j)"
      using sizes_okD(3) [OF st] by (simp add: j_def)
    obtain w3 where w3: "fSetLength F h (int (H + ?m + j)) w2 = (True, w3)"
      "view w3 = put_data (node h) (resize (nat (int (H + ?m + j))) (data (view w2) (node h))) (view w2)"
      using set_length_ok [of "int (H + ?m + j)" h w2] by auto
    have cut: "resize ?m X = stream_write off buf (wr_truncate op) d"
    proof (cases ?ext)
      case True
      then show ?thesis using False by (auto simp: stream_write_def X_def)
    next
      case no: False
      then have "?m \<le> length (overwrite off buf d)" by (simp add: length_overwrite)
      moreover have "wr_truncate op" using no False by simp
      ultimately show ?thesis using no by (simp add: stream_write_def X_def resize_append_cut)
    qed
    have "resize (H + ?m + j) (?fs @ X) = ?fs @ stream_write off buf (wr_truncate op) d @ drop ?m (resize (?m + j) X)"
      using resize_append_exact [of ?fs "?m + j" X] resize_more [of ?m j X] cut
      by (simp only: add.assoc append_assoc H_def)
    then have view: "view w3 = put_data (node h)
        (?fs @ stream_write off buf (wr_truncate op) d @ drop ?m (resize (?m + j) X)) (view w)"
      by (simp only: w3(2) w2(2) nat_int put_data_fields fun_upd_same put_data_twice)
    show thesis
    proof (rule that [OF _ view _ st'])
      show "write_stream F h op buf (length key) st w = (True, ?st, w3)"
        using False w1(1) w2(1) w3(1) op d offs last [unfolded j]
        by (cases ?ext; cases "buf = []"; simp add: write_stream_def Let_def)
      have "length (stream_write off buf (wr_truncate op) d) = ?m" by (simp flip: cut)
      then show "data_size ?st = (data_size st)[1 := int (length (stream_write off buf (wr_truncate op) d))]"
        by (simp add: set_data_size_def)
    qed
  qed
qed

lemma has_stream_1_update:
  assumes "has_stream_1 E st v n key hash d" and "data v' n = file_start key hash @ d' @ rest"
    and "table v' = table v" and "sizes_ok st' (length key)" and "data_size st' ! 1 = int (length d')"
  shows "has_stream_1 E st' v' n key hash d'"
  using assms by (auto simp: has_stream_1_def)

lemma WriteData_stream_1:
  assumes s: "has_stream_1 E st (view w) n key hash d"
    and op: "wr_index op = 1" "wr_offset op = int off" "wr_buf_len op = int (length buf)"
    and small: "off + length buf < 2 ^ 60"
  shows "\<exists>out' st' w'. WriteData F S op buf E st out w = Some (out', E, st', w')
    \<and> wd_result out' = Net (length buf)
    \<and> has_stream_1 E st' (view w') n key hash (stream_write off buf (wr_truncate op) d)
    \<and> data_size st' ! 0 = data_size st ! 0 \<and> data_size st' ! 2 = data_size st ! 2
    \<and> dir (view w') = dir (view w) \<and> (\<forall>m. m \<noteq> n \<longrightarrow> data (view w') m = data (view w) m)"
proof -
  obtain rest where c: "table (view w) (tracked_file E 0) = Some n" "data (view w) n = file_start key hash @ d @ rest"
    and st: "se_key E = Some key" "sizes_ok st (length key)" "data_size st ! 1 = int (length d)"
    and E: "\<not> empty_file_omitted E ! 0" "\<not> header_and_key_check_needed E ! 0"
    using s by (auto simp: has_stream_1_def)
  obtain h w0 where h: "tAcquire F (tracked_file E 0) w = (Some h, w0)" "node h = n" "view w0 = view w"
    by (rule acquire_ok [OF c(1)])
  have c0: "data (view w0) (node h) = file_start key hash @ d @ rest" using h c by simp
  obtain st1 w1 rest' where ws: "write_stream F h op buf (length key) st w0 = (True, st1, w1)"
    "view w1 = put_data n (file_start key hash @ stream_write off buf (wr_truncate op) d @ rest') (view w)"
    "data_size st1 = (data_size st)[1 := int (length (stream_write off buf (wr_truncate op) d))]"
    "sizes_ok st1 (length key)"
    by (rule write_stream_1 [OF st(2,3) c0 op small]) (simp_all add: h)
  obtain t w2 where t: "Time_Now F w1 = (t, w2)" "view w2 = view w1" using now_ok .
  let ?st = "st1\<lparr>last_used := t\<rparr>"
  have len: "length (data_size st) = 3" using sizes_okD(1) [OF st(2)] .
  have "has_stream_1 E ?st (view w2) n key hash (stream_write off buf (wr_truncate op) d)"
    using ws len by (intro has_stream_1_update [OF s, where rest = rest']) (simp_all add: t(2) sizes_ok_def)
  moreover have "data_size ?st ! 0 = data_size st ! 0" "data_size ?st ! 2 = data_size st ! 2" using ws(3) by simp_all
  moreover have "dir (view w2) = dir (view w)" "\<forall>m. m \<noteq> n \<longrightarrow> data (view w2) m = data (view w) m"
    by (simp_all add: t(2) ws(2))
  moreover have "\<exists>out'. WriteData F S op buf E st out w = Some (out', E, ?st, w2) \<and> wd_result out' = Net (length buf)"
    using op E h(1) ws(1) t(1) st(1)
    by (simp add: WriteData_def check_before_write_def create_omitted_file_def GetFileIndexFromStreamIndex_def
        se_key_size_def Let_def)
  ultimately show ?thesis by blast
qed

lemma ReadData_stream_1:
  assumes s: "has_stream_1 E st (view w) n key hash d"
    and op: "rr_index op = 1" "rr_offset op = int off" "rr_buf_len op = int m" and bound: "off + m \<le> length d"
    and crc: "\<not> rr_request_verify_crc op"
  shows "\<exists>out' st' w'. ReadData F S op E st out w = Some (out', slice off m d, E, st', w')
    \<and> rd_result out' = Net m \<and> view w' = view w \<and> data_size st' = data_size st"
proof -
  obtain rest where c: "table (view w) (tracked_file E 0) = Some n" "data (view w) n = file_start key hash @ d @ rest"
    and st: "se_key E = Some key" "sizes_ok st (length key)" "data_size st ! 1 = int (length d)"
    and E: "\<not> empty_file_omitted E ! 0" "\<not> header_and_key_check_needed E ! 0"
    using s by (auto simp: has_stream_1_def)
  obtain h w0 where h: "tAcquire F (tracked_file E 0) w = (Some h, w0)" "node h = n" "view w0 = view w"
    by (rule acquire_ok [OF c(1)])
  let ?o = "int (length (file_start key hash) + off)"
  have o: "GetOffsetInFile st (length key) (int off) (Suc 0) = ?o" using offsets [OF st(2)] by simp
  have same: "slice (length (file_start key hash) + off) m (file_start key hash @ d @ rest) = slice off m d"
    unfolding slice_shift using bound by (simp add: slice_append_left)
  obtain w1 where rd: "fRead F h ?o m w0 = (Some (slice off m d), w1)" "view w1 = view w"
    using read_ok [of ?o h m w0] h c(2) same by (auto simp only: nat_int of_nat_0_le_iff)
  have len: "length (slice off m d) = m" using bound by (simp add: length_slice)
  obtain t w2 where t: "Time_Now F w1 = (t, w2)" "view w2 = view w1" using now_ok .
  show ?thesis
  proof (cases "m = 0")
    case True
    then have "slice off m d = []" using len by simp
    then show ?thesis
      using op E h(1) rd o True
      by (simp add: ReadData_def GetFileIndexFromStreamIndex_def se_key_size_def st(1) Let_def slice_def)
  next
    case False
    then have ne: "slice off m d \<noteq> []" using len by auto
    obtain out' where u: "update_read_crc F S h op (slice off m d) (out\<lparr>rd_crc_updated := False\<rparr>) E
        (st\<lparr>last_used := t\<rparr>) w2 = (net_OK, out', E, w2)"
      using crc by (cases "rr_request_update_crc op") (simp_all add: update_read_crc_def Let_def)
    show ?thesis
      using op E h(1) rd o ne t u len
      by (simp add: ReadData_def GetFileIndexFromStreamIndex_def se_key_size_def st(1) Let_def)
  qed
qed

end

text \<open>C8: On files without faults, a write to stream 1 of an open entry is the write of a list of bytes:
if the entry's file holds the stream \<open>d\<close>, of the size the entry has recorded, behind its header and key,
then \<open>WriteData\<close> at an offset reports all bytes as written and leaves a file that holds
\<open>stream_write off buf trunc d\<close>, of the size it now records, with a gap before the offset filled with
zeros and the stream cut behind the bytes when the write truncates; the sizes of the other streams, the
directory and all other files are as before.\<close>
theorem stream_1_write_refines:
  assumes "reliable_files F view node remaining"
    and "has_stream_1 E st (view w) n key hash d"
    and "wr_index op = 1" and "wr_offset op = int off" and "wr_buf_len op = int (length buf)"
    and "off + length buf < 2 ^ 60"
  shows "\<exists>out' st' w'. WriteData F S op buf E st out w = Some (out', E, st', w')
    \<and> wd_result out' = Net (length buf)
    \<and> has_stream_1 E st' (view w') n key hash (stream_write off buf (wr_truncate op) d)
    \<and> data_size st' ! 0 = data_size st ! 0 \<and> data_size st' ! 2 = data_size st ! 2
    \<and> dir (view w') = dir (view w) \<and> (data (view w'))(n := []) = (data (view w))(n := [])"
proof -
  have same: "f(n := []) = g(n := [])" if "\<forall>m. m \<noteq> n \<longrightarrow> f m = g m" for f g :: "nat \<Rightarrow> bytes"
    using that by auto
  from reliable_files.WriteData_stream_1 [OF assms, of S out] same show ?thesis by blast
qed

text \<open>An open entry with the key \<open>[104]\<close> and the bytes \<open>[1, 2]\<close> in stream 1, for evaluation.\<close>

definition sample_entry :: SyncEntry where
  "sample_entry = new_SyncEntry DISK_CACHE [''c''] 0 (Some [104]) 5 0"

definition sample_stat :: SimpleEntryStat where
  "sample_stat = \<lparr>last_used = 0, data_size = [1, 2, 0], sparse_data_size = 0\<rparr>"

definition sample_world :: mem where
  "sample_world = sample_mem\<lparr>m_table := [(tracked_file sample_entry 0, 1)]\<rparr>"

lemma sample_has_stream_1: "has_stream_1 sample_entry sample_stat (mem_view sample_world) 1 [104] 9 [1, 2]"
  by (auto simp: has_stream_1_def sample_entry_def sample_stat_def sample_world_def sample_mem_def
      new_SyncEntry_def entry_file_def sizes_ok_def numeral_3_eq_3 less_Suc_eq)

definition write_at_5 :: WriteRequest where
  "write_at_5 = \<lparr>wr_index = 1, wr_offset = 5, wr_buf_len = 2, wr_previous_crc32 = 0, wr_truncate = False,
     wr_doomed = False, wr_request_update_crc = False\<rparr>"

definition no_write :: WriteResult where
  "no_write = \<lparr>wd_result = Net 0, wd_updated_crc32 = 0, wd_crc_updated = False\<rparr>"

lemma stream_1_write_refines_witness:
  "\<exists>out' st' w'. WriteData (mem_env (\<lambda>_. False)) sample_sys write_at_5 [8, 9] sample_entry sample_stat no_write
      sample_world = Some (out', sample_entry, st', w')
    \<and> wd_result out' = Net (length ([8, 9] :: bytes))
    \<and> has_stream_1 sample_entry st' (mem_view w') 1 [104] 9
        (stream_write 5 [8, 9] (wr_truncate write_at_5) [1, 2])
    \<and> data_size st' ! 0 = data_size sample_stat ! 0 \<and> data_size st' ! 2 = data_size sample_stat ! 2
    \<and> dir (mem_view w') = dir (mem_view sample_world)
    \<and> (data (mem_view w'))(1 := []) = (data (mem_view sample_world))(1 := [])"
  by (rule stream_1_write_refines [OF mem.reliable_files_axioms sample_has_stream_1]) (simp_all add: write_at_5_def)

text \<open>C9: On files without faults, a read of stream 1 of an open entry returns exactly the bytes of the
stream in its range, whatever follows the stream in the file: if the entry's file holds the stream \<open>d\<close> behind
its header and key, then \<open>ReadData\<close> of a range inside the stream reports its length, hands over that part of \<open>d\<close>,
changes no file and leaves the entry with the same stream.\<close>
theorem stream_1_read_refines:
  assumes "reliable_files F view node remaining"
    and "has_stream_1 E st (view w) n key hash d"
    and "rr_index op = 1" and "rr_offset op = int off" and "rr_buf_len op = int m" and "off + m \<le> length d"
    and "\<not> rr_request_verify_crc op"
  shows "\<exists>out' st' w'. ReadData F S op E st out w = Some (out', slice off m d, E, st', w')
    \<and> rd_result out' = Net m \<and> view w' = view w \<and> has_stream_1 E st' (view w') n key hash d"
proof -
  have "has_stream_1 E st' v n key hash d" if "data_size st' = data_size st" "v = view w" for st' v
    using assms(2) that by (simp add: has_stream_1_def sizes_ok_def)
  with reliable_files.ReadData_stream_1 [OF assms, of S out] show ?thesis by blast
qed

definition read_second :: ReadRequest where
  "read_second = \<lparr>rr_index = 1, rr_offset = 1, rr_buf_len = 1, rr_previous_crc32 = 0,
     rr_request_update_crc = True, rr_request_verify_crc = False\<rparr>"

definition no_read :: ReadResult where
  "no_read = \<lparr>rd_result = Net 0, rd_updated_crc32 = 0, rd_crc_updated = False\<rparr>"

lemma stream_1_read_refines_witness:
  "\<exists>out' st' w'. ReadData (mem_env (\<lambda>_. False)) sample_sys read_second sample_entry sample_stat no_read
      sample_world = Some (out', slice 1 1 [1, 2], sample_entry, st', w')
    \<and> rd_result out' = Net 1 \<and> mem_view w' = mem_view sample_world
    \<and> has_stream_1 sample_entry st' (mem_view w') 1 [104] 9 [1, 2]"
  by (rule stream_1_read_refines [OF mem.reliable_files_axioms sample_has_stream_1]) (simp_all add: read_second_def)

end
