(* ===== verification/Sync_Reopen.thy ===== *)
theory Sync_Reopen imports Sync_Refine begin

text \<open>
  Opening succeeds: on files without faults, a file with a valid layout is accepted for its key,
  whatever is prefetched of it, and so closing an entry and opening it again gives back its streams.
\<close>

section \<open>Reads that succeed\<close>

context reliable_files begin

lemma RFP_complete:
  assumes pf: "pfo_ok (data (view w) (node h)) pf"
    and b: "off + sz \<le> length (data (view w) (node h))" "length (data (view w) (node h)) < 2 ^ 62"
  obtains pf' w' where "ReadFromFileOrPrefetched F h pf i (int off) sz w
      = (Some (slice off sz (data (view w) (node h))), pf', w')"
    "view w' = view w" "pfo_ok (data (view w) (node h)) pf'" "pf' = None \<longleftrightarrow> pf = None"
proof -
  let ?c = "data (view w) (node h)"
  obtain r pf' w' where r: "ReadFromFileOrPrefetched F h pf i (int off) sz w = (r, pf', w')" by (metis prod_cases3)
  obtain w1 where d: "fReadAndCheck F h (int off) sz w = (Some (slice off sz ?c), w1)"
    using read_check_ok [of "int off" sz w h] b by auto
  have "r \<noteq> None" using r d by (auto simp: ReadFromFileOrPrefetched_def split: if_splits option.splits prod.splits)
  then obtain bs where bs: "r = Some bs" by auto
  have lt: "int off < 2 ^ 63" "sz < 2 ^ 63" using b by simp_all
  note s = RFP_sound [OF r pf lt]
  from s(4) [OF bs] have "r = Some (slice off sz ?c)" using bs by simp
  with r s(1-3) that show thesis by simp
qed

lemma GetEOF_complete:
  assumes pf: "pfo_ok (data (view w) (node h)) pf"
    and b: "off + 24 \<le> length (data (view w) (node h))" "length (data (view w) (node h)) < 2 ^ 62"
    and e: "e = eof_of (slice off 24 (data (view w) (node h)))"
      "final_magic_number e = kSimpleFinalMagicNumber" "uint (stream_size e) < 2 ^ 31"
  obtains pf' w' where "GetEOFRecordData F h pf i (int off) w = (Net 0, e, pf', w')"
    "view w' = view w" "pfo_ok (data (view w) (node h)) pf'" "pf' = None \<longleftrightarrow> pf = None"
proof -
  obtain pf' w' where r: "ReadFromFileOrPrefetched F h pf i (int off) 24 w
      = (Some (slice off 24 (data (view w) (node h))), pf', w')"
    "view w' = view w" "pfo_ok (data (view w) (node h)) pf'" "pf' = None \<longleftrightarrow> pf = None"
    by (rule RFP_complete [OF pf b])
  have "GetEOFRecordData F h pf i (int off) w = (Net 0, e, pf', w')"
    using r(1) e by (simp add: GetEOFRecordData_def Let_def)
  with r that show thesis by blast
qed

lemma PreRead_complete:
  assumes pf: "pfo_ok (data (view w) (node h)) pf"
    and off: "GetOffsetInFile st (se_key_size E) 0 si = int off"
    and b: "off + (n + x) \<le> length (data (view w) (node h))" "length (data (view w) (node h)) < 2 ^ 31"
    and n: "data_size st ! si = int n" "extra = int x"
    and crc: "\<not> eof_crc_mismatch e (Crc32 (sys_zlib S) (slice off n (data (view w) (node h))))"
  obtains out' pf' w' where "PreReadStreamPayload F S h pf si extra st e out E w = (Net 0, out', pf', w')"
    "view w' = view w" "pfo_ok (data (view w) (node h)) pf'" "pf' = None \<longleftrightarrow> pf = None"
    "spd_data out' = Some (slice off (n + x) (data (view w) (node h)))"
proof -
  let ?c = "data (view w) (node h)"
  have b': "length ?c < 2 ^ 62" using b(2) by simp
  obtain pf' w' where r: "ReadFromFileOrPrefetched F h pf 0 (int off) (n + x) w = (Some (slice off (n + x) ?c), pf', w')"
    "view w' = view w" "pfo_ok ?c pf'" "pf' = None \<longleftrightarrow> pf = None"
    by (rule RFP_complete [OF pf b(1) b'])
  have le: "int n + int x \<le> INT_MAX" using b by (simp add: INT_MAX_def)
  have tk: "take n (slice off (n + x) ?c) = slice off n ?c" by (simp add: slice_def min_def)
  let ?out = "out\<lparr>spd_data := Some (slice off (n + x) ?c), stream_crc32 := Crc32 (sys_zlib S) (slice off n ?c)\<rparr>"
  have "PreReadStreamPayload F S h pf si extra st e out E w = (Net 0, ?out, pf', w')"
    using r(1) off n le crc tk by (simp add: PreReadStreamPayload_def Let_def nat_add_distrib)
  from that [OF this r(2-4)] show thesis by simp
qed

lemma PrefetchFromFile_complete:
  assumes b: "unat off + len \<le> length (data (view w) (node h))" "length (data (view w) (node h)) < 2 ^ 62"
  obtains pf w' where "PrefetchFromFile F h off len (new_PrefetchData n) w = (True, pf, w')"
proof -
  have "wrap64 (int k) = int k" if "k + len \<le> length (data (view w) (node h))" for k
    using that b(2) by (intro wrap64_id) simp_all
  from this [OF b(1)] have "wrap64 (uint off) = int (unat off)" by simp
  moreover obtain w' where "fReadAndCheck F h (int (unat off)) len w
      = (Some (slice (unat off) len (data (view w) (node h))), w')"
    using read_check_ok [of "int (unat off)" len w h] b by auto
  ultimately show thesis using that by (simp add: PrefetchFromFile_def new_PrefetchData_def)
qed

lemma prefetch_file_complete:
  assumes n: "unat n = length (data (view w) (node h))" "length (data (view w) (node h)) < 2 ^ 62"
  obtains pf w' where "prefetch_file F S h n E w = (Some pf, w')" "view w' = view w"
    "pf_ok (data (view w) (node h)) pf"
proof -
  let ?t = "GetSimpleCacheTrailerPrefetchSize S (sint (trailer_prefetch_size E)) (se_cache_type E)"
  let ?f = "GetSimpleCacheFullPrefetchSize S (se_cache_type E)"
  let ?full = "n \<le> ucast ?f \<or> n \<le> ucast ?t"
  have lt: "uint n < 2 ^ 63"
  proof -
    have "uint n = int (unat n)" by simp
    then show ?thesis using n by simp
  qed
  obtain r w' where r: "prefetch_file F S h n E w = (r, w')" by force
  have "r \<noteq> None"
  proof (cases "?full \<or> \<not> ?t > 0")
    case True
    obtain pf w1 where "PrefetchFromFile F h 0 (unat n) (new_PrefetchData n) w = (True, pf, w1)"
      using PrefetchFromFile_complete [of 0 "unat n" w h n] n by auto
    with r True show ?thesis by (auto simp: prefetch_file_def Let_def split: if_splits)
  next
    case False
    let ?len = "min (ucast ?t) n :: u64"
    have "unat ?len \<le> unat n" by (simp add: min_def word_le_nat_alt)
    then have "unat (n - ?len) + unat ?len = unat n" by (simp add: unat_sub word_le_nat_alt)
    then obtain pf w1 where "PrefetchFromFile F h (n - ?len) (unat ?len) (new_PrefetchData n) w = (True, pf, w1)"
      using PrefetchFromFile_complete [of "n - ?len" "unat ?len" w h n] n by auto
    with r False show ?thesis by (auto simp: prefetch_file_def Let_def)
  qed
  then obtain pf where "r = Some pf" by auto
  with prefetch_file_sound [OF r n(2) lt] r that show thesis by blast
qed

lemma read_prefetched_stream_1_complete:
  assumes pf: "pf_ok (data (view w) (node h)) pf" and sizes: "sizes_ok st k" "se_key_size E = k"
    and s1: "data_size st ! 1 = int s1" and len: "length (data (view w) (node h)) < 2 ^ 31"
    and b: "24 + k + s1 + 24 \<le> length (data (view w) (node h))"
    and e: "e1 = eof_of (slice (24 + k + s1) 24 (data (view w) (node h)))"
      "final_magic_number e1 = kSimpleFinalMagicNumber" "uint (stream_size e1) < 2 ^ 31"
      "\<not> eof_crc_mismatch e1 (Crc32 (sys_zlib S) (slice (24 + k) s1 (data (view w) (node h))))"
  obtains spd' w' where "read_prefetched_stream_1 F S h pf e E st spd w = (Net 0, spd', w')"
proof -
  let ?c = "data (view w) (node h)"
  obtain has pf1 where h: "HasData (word_of_int (GetOffsetInFile st (se_key_size E) 0 1))
      (word_of_int (wrap64 (int sizeof_SimpleFileEOF + data_size st ! 1))) pf = (has, pf1)" by force
  show thesis
  proof (cases "eof_has_key_sha256 e \<and> has")
    case False
    with h that show thesis by (auto simp: read_prefetched_stream_1_def)
  next
    case True
    have pf1: "pfo_ok ?c (Some pf1)" using pf pf_ok_HasData [OF h] by simp
    have big: "length ?c < 2 ^ 62" using len by simp
    obtain pf2 w1 where g: "GetEOFRecordData F h (Some pf1) 0 (int (24 + k + s1)) w = (Net 0, e1, pf2, w1)"
      "view w1 = view w" "pfo_ok ?c pf2"
      by (rule GetEOF_complete [OF pf1 b big e(1-3)])
    have off: "GetOffsetInFile st (se_key_size E) 0 1 = int (24 + k)"
      "GetEOFOffsetInFile st (se_key_size E) 1 = int (24 + k + s1)"
      using offsets [OF sizes(1)] sizes(2) s1 by simp_all
    have b1: "24 + k + (s1 + 0) \<le> length (data (view w1) (node h))" "length (data (view w1) (node h)) < 2 ^ 31"
      using b len g(2) by simp_all
    have c1: "\<not> eof_crc_mismatch e1 (Crc32 (sys_zlib S) (slice (24 + k) s1 (data (view w1) (node h))))"
      "pfo_ok (data (view w1) (node h)) pf2"
      using e(4) g(2,3) by simp_all
    obtain out pf3 w2 where "PreReadStreamPayload F S h pf2 1 0 st e1 (spd ! 1) E w1 = (Net 0, out, pf3, w2)"
      by (rule PreRead_complete [OF c1(2) off(1) b1 s1 _ c1(1)]) simp_all
    with h g(1) True off that show thesis by (simp add: read_prefetched_stream_1_def Let_def)
  qed
qed

end

section \<open>Validating a file\<close>

text \<open>The record of stream 1 of the file \<open>c\<close> is intact.\<close>

definition valid_record_1 :: "sys \<Rightarrow> bytes \<Rightarrow> nat \<Rightarrow> nat \<Rightarrow> bool" where
  "valid_record_1 S c k s1 \<longleftrightarrow>
     (let e1 = eof_of (slice (24 + k + s1) 24 c)
      in final_magic_number e1 = kSimpleFinalMagicNumber \<and> uint (stream_size e1) < 2 ^ 31
         \<and> \<not> eof_crc_mismatch e1 (Crc32 (sys_zlib S) (slice (24 + k) s1 c)))"

lemma sizes_ok_three:
  assumes "data_size st = [int a, int b, c]" and "a < 2 ^ 60" "b < 2 ^ 60" "0 \<le> c" "c < 2 ^ 60" "k < 2 ^ 32"
  shows "sizes_ok st k"
  using assms by (auto simp: sizes_ok_def numeral_3_eq_3 less_Suc_eq)

lemma set_file_0_sizes_complete:
  assumes fs: "fs = int (24 + k + s1 + 24 + s0 + footer_extra e + 24)" "fs < 2 ^ 31"
    and e: "unat (stream_size e) = s0"
  shows "set_file_0_sizes fs e k st = (True, set_data_size 1 (int s1) (set_data_size 0 (int s0) st))"
proof -
  have u: "uint (stream_size e) = int s0" using e by auto
  have "uint (stream_size e) < 2 ^ 31" using fs by (simp add: u)
  then have s0: "sint (stream_size e) = int s0"
    using u order_trans [of "- (2 ^ 31)" 0 "uint (stream_size e)"]
    by (simp add: sint_uint signed_take_bit_int_eq_self)
  have ex: "extra_post_stream_0_read e = int (footer_extra e)"
    by (simp add: footer_extra_def extra_post_stream_0_read_def)
  have "fs - 2 * 24 - int s0 - 24 - int k - int (footer_extra e) = int s1" using fs(1) by simp
  moreover have "wrap64 (int s1) = int s1" using fs by (intro wrap64_id) simp_all
  moreover have "int s0 \<le> fs" "int s1 \<le> fs" using fs(1) by simp_all
  ultimately show ?thesis by (simp add: set_file_0_sizes_def Let_def s0 ex)
qed

context reliable_files begin

lemma check_key_complete:
  assumes valid: "valid_file S (data (view w) (node h)) key s0 s1" and e: "e = footer (data (view w) (node h))"
    and key: "se_key E = Some key" and s0: "sint (stream_size e) = int s0"
    and spd: "spd_data (spd ! 0) = Some (slice (48 + length key + s1) (s0 + footer_extra e) (data (view w) (node h)))"
  obtains E' w' where "check_key F S h e spd E w = Some (Net 0, E', w')"
proof (cases "eof_has_key_sha256 e")
  case True
  then have "slice s0 32 (the (spd_data (spd ! 0))) = Sha256 S key"
    using valid e spd by (simp add: valid_file_def slice_slice footer_extra_def)
  with True key s0 that show thesis by (simp add: check_key_def)
next
  case False
  then have "header_ok (data (view w) (node h)) key" using valid e by (simp add: valid_file_def)
  moreover have "se_key E = None \<or> se_key E = Some key" using key by simp
  ultimately obtain w' where "CheckHeaderAndKey F h 0 E w
      = Some (True, set_check_needed 0 False (E\<lparr>se_key := Some key\<rparr>), w')"
    by (rule CheckHeaderAndKey_complete [where i = 0])
  with False that show thesis by (cases "header_and_key_check_needed E ! 0") (simp_all add: check_key_def)
qed

lemma ReadAndValidate_complete:
  assumes tab: "table (view w) (tracked_file E 0) = Some n" and key: "se_key E = Some key" "length key < 2 ^ 32"
    and valid: "valid_file S (data (view w) n) key s0 s1" "valid_record_1 S (data (view w) n) (length key) s1"
    and small: "length (data (view w) n) < 2 ^ 31"
    and len: "length spd = 2" "length (data_size st) = 3" "0 \<le> data_size st ! 2" "data_size st ! 2 < 2 ^ 60"
  obtains E' st' spd' w' where "ReadAndValidateStream0AndMaybe1 F S (int (length (data (view w) n))) E st spd w
      = Some (Net 0, E', st', spd', w')"
proof -
  let ?c = "data (view w) n"
  let ?e = "footer ?c" and ?k = "length key"
  have big: "length ?c < 2 ^ 62" using small by simp
  have fs: "length ?c = 24 + ?k + s1 + 24 + s0 + footer_extra ?e + 24"
    and e: "final_magic_number ?e = kSimpleFinalMagicNumber" "unat (stream_size ?e) = s0"
    and crc: "\<not> eof_crc_mismatch ?e (Crc32 (sys_zlib S) (slice (48 + ?k + s1) s0 ?c))"
    using valid(1) by (simp_all add: valid_file_def)
  have s0: "uint (stream_size ?e) = int s0" using e(2) by auto
  have sm: "uint (stream_size ?e) < 2 ^ 31" using fs small by (simp add: s0)
  have ss0: "sint (stream_size ?e) = int s0"
    using s0 sm order_trans [of "- (2 ^ 31)" 0 "uint (stream_size ?e)"]
    by (simp add: sint_uint signed_take_bit_int_eq_self)
  obtain h w0 where h: "tAcquire F (tracked_file E 0) w = (Some h, w0)" "node h = n" "view w0 = view w"
    by (rule acquire_ok [OF tab])
  let ?n = "word_of_int (int (length ?c)) :: u64"
  have un: "unat ?n = length (data (view w0) (node h))" using big h by (simp add: unat_of_nat)
  have big0: "length (data (view w0) (node h)) < 2 ^ 62" using big h by simp
  obtain pf w1 where p: "prefetch_file F S h ?n E w0 = (Some pf, w1)" "view w1 = view w"
    "pfo_ok (data (view w1) (node h)) (Some pf)"
    by (rule prefetch_file_complete [OF un big0, of S E]) (use h that in simp)
  have at: "length ?c - 24 + 24 \<le> length (data (view w1) (node h))" "length (data (view w1) (node h)) < 2 ^ 62"
    "?e = eof_of (slice (length ?c - 24) 24 (data (view w1) (node h)))"
    using fs big p h by (simp_all add: footer_def)
  obtain pf1 w2 where g: "GetEOFRecordData F h (Some pf) 0 (int (length ?c - 24)) w1 = (Net 0, ?e, pf1, w2)"
    "view w2 = view w" "pfo_ok ?c pf1" "pf1 \<noteq> None"
    by (rule GetEOF_complete [OF p(3) at(1,2) at(3) e(1) sm, of 0]) (use p h that in simp)
  have eof_at: "wrap64 (int (length ?c) - 24) = int (length ?c - 24)"
  proof -
    have "int (length ?c) - 24 = int (length ?c - 24)" using fs by simp
    moreover have "wrap64 (int (length ?c - 24)) = int (length ?c - 24)" using big by (intro wrap64_id) simp_all
    ultimately show ?thesis by (simp only:)
  qed
  let ?st = "set_data_size 1 (int s1) (set_data_size 0 (int s0) st)"
  have "int (length ?c) < 2 ^ 31" using small by simp
  from set_file_0_sizes_complete [OF arg_cong [OF fs] this e(2)]
  have z: "set_file_0_sizes (int (length ?c)) ?e ?k st = (True, ?st)" .
  obtain a b c where abc: "data_size st = [a, b, c]" using len(2) by (auto simp: length_Suc_conv numeral_3_eq_3)
  have ds: "data_size ?st = [int s0, int s1, c]" by (simp add: abc set_data_size_def)
  have sizes: "sizes_ok ?st ?k"
    by (rule sizes_ok_three [OF ds]) (use fs small key(2) len(3,4) in \<open>simp_all add: abc\<close>)
  have ksz: "se_key_size E = ?k" by (simp add: se_key_size_def key)
  have off: "GetOffsetInFile ?st (se_key_size E) 0 0 = int (48 + ?k + s1)"
    using offsets [OF sizes] by (simp add: ksz ds [unfolded One_nat_def])
  have b0: "48 + ?k + s1 + (s0 + footer_extra ?e) \<le> length (data (view w2) (node h))"
    "length (data (view w2) (node h)) < 2 ^ 31" "pfo_ok (data (view w2) (node h)) pf1"
    "\<not> eof_crc_mismatch ?e (Crc32 (sys_zlib S) (slice (48 + ?k + s1) s0 (data (view w2) (node h))))"
    using fs small g h crc by simp_all
  have x: "extra_post_stream_0_read ?e = int (footer_extra ?e)" "data_size ?st ! 0 = int s0"
    by (simp_all add: footer_extra_def extra_post_stream_0_read_def ds [unfolded One_nat_def])
  obtain o0 pf2 w3 where q: "PreReadStreamPayload F S h pf1 0 (extra_post_stream_0_read ?e) ?st ?e (spd ! 0) E w2
      = (Net 0, o0, pf2, w3)" "view w3 = view w" "pfo_ok ?c pf2" "pf2 \<noteq> None"
    "spd_data o0 = Some (slice (48 + ?k + s1) (s0 + footer_extra ?e) ?c)"
    using PreRead_complete [OF b0(3) off b0(1,2) x(2,1) b0(4)] g h by metis
  obtain pf3 where pf3: "pf2 = Some pf3" "pf_ok ?c pf3" using q by auto
  let ?E = "E\<lparr>computed_trailer_prefetch_size := GetDesiredTrailerPrefetchSize pf3\<rparr>"
  have r1: "pf_ok (data (view w3) (node h)) pf3" "se_key_size ?E = ?k" "data_size ?st ! 1 = int s1"
    "length (data (view w3) (node h)) < 2 ^ 31" "24 + ?k + s1 + 24 \<le> length (data (view w3) (node h))"
    "valid_record_1 S (data (view w3) (node h)) ?k s1"
    using pf3 q h small fs valid(2) by (simp_all add: se_key_size_def key ds [unfolded One_nat_def])
  obtain spd' w4 where t: "read_prefetched_stream_1 F S h pf3 ?e ?E ?st (spd[0 := o0]) w3 = (Net 0, spd', w4)"
    using r1(6) unfolding valid_record_1_def Let_def
    by (elim conjE) (rule read_prefetched_stream_1_complete [OF r1(1) sizes r1(2,3,4,5) refl])
  have sz: "sizes_ok ?st (se_key_size ?E)" "length (spd[0 := o0]) = 2" using sizes len(1) by (simp_all add: se_key_size_def key)
  note ts = read_prefetched_stream_1_sound [OF t r1(1) sz]
  have ck: "valid_file S (data (view w4) (node h)) key s0 s1" "?e = footer (data (view w4) (node h))" "se_key ?E = Some key"
    "spd_data (spd' ! 0) = Some (slice (48 + ?k + s1) (s0 + footer_extra ?e) (data (view w4) (node h)))"
    using ts q h valid(1) key len(1) by simp_all
  obtain E' w5 where c: "check_key F S h ?e spd' ?E w4 = Some (Net 0, E', w5)"
    by (rule check_key_complete [OF ck(1-3) ss0 ck(4)])
  show thesis
    by (rule that [of E' ?st spd' w5])
       (use h(1) p(1) g(1) eof_at z ksz q(1) pf3(1) t c in
         \<open>simp add: ReadAndValidateStream0AndMaybe1_def Let_def del: of_nat_diff\<close>)
qed

end

section \<open>Opening the entry\<close>

lemma stat_each_Cons: "stat_each F (i # is) E st w = (case stat_each F [i] E st w of (st, w) \<Rightarrow> stat_each F is E st w)"
  using stat_each_append [of F "[i]" "is" E st w] by simp

context reliable_files begin

lemma stat_file:
  assumes "\<not> empty_file_omitted E ! i" and "table (view w) (tracked_file E i) = Some n"
  obtains st' w' where "stat_each F [i] E st w = (st', w')" "view w' = view w"
    "data_size st' = (data_size st)[i + 1 := int (length (data (view w) n))]"
proof -
  obtain h w0 where h: "tAcquire F (tracked_file E i) w = (Some h, w0)" "node h = n" "view w0 = view w"
    by (rule acquire_ok [OF assms(2)])
  obtain info w1 where g: "fGetInfo F h w0 = (Some info, w1)" "view w1 = view w0"
    "fi_size info = int (length (data (view w0) (node h)))" by (rule get_info_ok)
  have "stat_each F [i] E st w
      = (set_data_size (i + 1) (fi_size info) (st\<lparr>last_used := fi_last_accessed info\<rparr>), w1)"
    using h g assms(1) by simp
  then show thesis by (rule that) (simp_all add: g h set_data_size_def)
qed

lemma OpenFiles_complete:
  assumes E: "empty_file_omitted E = [False, False]"
    and d: "dir (view w) (GetFilenameFromFileIndex E 0) = Some n" "dir (view w) (GetFilenameFromFileIndex E 1) = None"
    and st: "data_size st = [x, y, z]"
  obtains st' w' where "OpenFiles F E st w
      = (True, E\<lparr>empty_file_omitted := [False, True], have_open_files := True\<rparr>, st', w')"
    "same_disk w w'" "table (view w') (tracked_file E 0) = Some n"
    "data_size st' = [x, int (length (data (view w) n)), 0]"
proof -
  let ?E = "E\<lparr>empty_file_omitted := [False, True], have_open_files := True\<rparr>"
  obtain h w1 where o0: "OpenFile F (GetFilenameFromFileIndex E 0) FLAG_OPEN_RW w = (Inr h, w1)" "node h = n"
    "view w1 = view w" by (rule open_ok [OF d(1)])
  let ?w = "tRegister F (tracked_file E 0) h w1"
  have v: "dir (view ?w) = dir (view w)" "data (view ?w) = data (view w)" "table (view ?w) (tracked_file E 0) = Some n"
    by (simp_all add: register_law o0)
  have d1: "dir (view ?w) (GetFilenameFromFileIndex E 1) = None" using d(2) v(1) by simp
  obtain w2 where o1: "OpenFile F (GetFilenameFromFileIndex E 1) FLAG_OPEN_RW ?w = (Inl FILE_ERROR_NOT_FOUND, w2)"
    "view w2 = view ?w" by (rule open_missing [OF d1])
  have oe: "open_each F [0, Suc 0] E w = (True, E\<lparr>empty_file_omitted := [False, True]\<rparr>, w2)"
    using o0 o1 E by (simp add: MaybeOpenFile_def set_omitted_def)
  have t: "table (view w2) (tracked_file ?E 0) = Some n" "\<not> empty_file_omitted ?E ! 0"
    using v(3) o1(2) by simp_all
  obtain st1 w3 where s: "stat_each F [0] ?E st w2 = (st1, w3)" "view w3 = view w2"
    "data_size st1 = (data_size st)[0 + 1 := int (length (data (view w2) n))]"
    by (rule stat_file [OF t(2,1)])
  have s2: "stat_each F [0, Suc 0] ?E st w2 = (set_data_size 2 0 st1, w3)"
    using stat_each_Cons [of F 0 "[Suc 0]" ?E st w2] s(1) by (simp add: numeral_2_eq_2)
  show thesis
  proof (rule that)
    show "OpenFiles F E st w = (True, ?E, set_data_size 2 0 st1, w3)"
      using s2 by (simp add: OpenFiles_def two_files oe Let_def del: stat_each.simps open_each.simps)
    show "same_disk w w3" "table (view w3) (tracked_file E 0) = Some n"
      using v o1(2) s(2) by (simp_all add: same_disk_def)
    show "data_size (set_data_size 2 0 st1) = [x, int (length (data (view w) n)), 0]"
      using s(3) v(2) o1(2) by (simp add: st set_data_size_def)
  qed
qed

lemma InitializeForOpen_complete:
  assumes E: "empty_file_omitted E = [False, False]" "se_key E = Some key" "length key < 2 ^ 32"
      "header_and_key_check_needed E = [False, False]"
    and d: "dir (view w) (GetFilenameFromFileIndex E 0) = Some n" "dir (view w) (GetFilenameFromFileIndex E 1) = None"
      "dir (view w) (GetFilenameForSubfile E FILE_SPARSE) = None"
    and valid: "valid_file S (data (view w) n) key s0 s1" "valid_record_1 S (data (view w) n) (length key) s1"
    and small: "length (data (view w) n) < 2 ^ 31"
    and st: "data_size st = [0, 0, 0]" and spd: "length spd = 2"
  obtains E' st' spd' w' where "InitializeForOpen F S E st spd w = Some (Net 0, E', st', spd', w')"
    "data_size st' = [int s0, int s1, 0]"
    "spd_data (spd' ! 0) = Some (slice (48 + length key + s1)
            (s0 + footer_extra (footer (data (view w) n))) (data (view w) n))"
    "same_disk w w'" "table (view w') (tracked_file E' 0) = Some n" "se_key E' = Some key"
    "\<not> empty_file_omitted E' ! 0" "\<not> header_and_key_check_needed E' ! 0"
proof -
  let ?c = "data (view w) n"
  let ?E = "E\<lparr>empty_file_omitted := [False, True], have_open_files := True\<rparr>"
  let ?E1 = "set_check_needed 0 True ?E"
  obtain st1 w1 where o: "OpenFiles F E st w = (True, ?E, st1, w1)" "same_disk w w1"
    "table (view w1) (tracked_file E 0) = Some n" "data_size st1 = [0, int (length ?c), 0]"
    by (rule OpenFiles_complete [OF E(1) d(1,2) st])
  have v1: "data (view w1) n = ?c" "dir (view w1) = dir (view w)" using o(2) by (simp_all add: same_disk_def)
  have pre: "table (view w1) (tracked_file ?E1 0) = Some n" "se_key ?E1 = Some key"
    "valid_file S (data (view w1) n) key s0 s1" "valid_record_1 S (data (view w1) n) (length key) s1"
    "length (data (view w1) n) < 2 ^ 31" "length (data_size st1) = 3" "0 \<le> data_size st1 ! 2" "data_size st1 ! 2 < 2 ^ 60"
    "int (length (data (view w1) n)) < 2 ^ 60" "length (header_and_key_check_needed ?E1) = 2"
    "header_and_key_check_needed ?E1 ! 0 \<or> header_ok (data (view w1) n) key"
    using o(3,4) E(2,4) valid v1 small by (simp_all add: set_check_needed_def)
  obtain E2 st2 spd2 w2 where r: "ReadAndValidateStream0AndMaybe1 F S (int (length (data (view w1) n))) ?E1 st1 spd w1
      = Some (Net 0, E2, st2, spd2, w2)"
    by (rule ReadAndValidate_complete [OF pre(1,2) E(3) pre(3,4,5) spd pre(6,7,8)])
  note rs = ReadAndValidate_sound [OF r pre(1) refl pre(9,2) E(3) pre(10,11) spd pre(6,7,8)]
  obtain chk pre' where E2: "E2 = ?E1\<lparr>header_and_key_check_needed := chk, computed_trailer_prefetch_size := pre'\<rparr>"
    using rs(2) by blast
  obtain s0' s1' where s: "st2 = set_data_size 1 (int s1') (set_data_size 0 (int s0') st1)" "valid_file S ?c key s0' s1'"
    "spd_data (spd2 ! 0) = Some (slice (48 + length key + s1') (s0' + footer_extra (footer ?c)) ?c)"
    "\<not> header_and_key_check_needed E2 ! 0"
    using rs(3) [OF refl] v1(1) by auto
  have eq: "s0' = s0" "s1' = s1" using s(2) valid(1) by (simp_all add: valid_file_def)
  have ds: "data_size st2 = [int s0, int s1, 0]" using s(1) o(4) by (simp add: eq set_data_size_def)
  have ve: "validate_each F S [0, Suc 0] ?E st1 spd w1 = Some (Net 0, E2, st2, spd2, w2)"
    using r E(2) o(4) v1(1) by (simp add: E2 set_check_needed_def)
  have "dir (view w2) (GetFilenameForSubfile E2 FILE_SPARSE) = None"
    using d(3) rs(1) v1(2) by (simp add: E2 GetFilenameForSubfile_def set_check_needed_def)
  then obtain w3 where sp: "OpenFile F (GetFilenameForSubfile E2 FILE_SPARSE) FLAG_OPEN_RW w2
      = (Inl FILE_ERROR_NOT_FOUND, w3)" "view w3 = view w2" by (rule open_missing)
  have om: "empty_file_omitted E2 ! Suc 0" by (simp add: E2 set_check_needed_def)
  let ?st = "st2\<lparr>sparse_data_size := 0\<rparr>"
  have "InitializeForOpen F S E st spd w = Some (Net 0, E2\<lparr>se_initialized := True\<rparr>, ?st, spd2, w3)"
    using om by (simp add: InitializeForOpen_def o(1) two_files ve OpenSparseFileIfExists_def sp(1)
        GetFileIndexFromStreamIndex_def del: validate_each.simps)
  moreover have "same_disk w w3" using o(2) rs(1) sp(2) by (simp add: same_disk_def)
  moreover have "table (view w3) (tracked_file (E2\<lparr>se_initialized := True\<rparr>) 0) = Some n"
    "se_key (E2\<lparr>se_initialized := True\<rparr>) = Some key" "\<not> empty_file_omitted (E2\<lparr>se_initialized := True\<rparr>) ! 0"
    using o(3) rs(1) sp(2) E(2) by (simp_all add: E2 set_check_needed_def tracked_file_def)
  ultimately show thesis using that ds s(3,4) eq by simp
qed

end

section \<open>The file that closing writes\<close>

lemma footer_entry_file: "footer (entry_file S key hash d1 eof1 d0) = stream_0_footer S d0"
proof -
  define xs where "xs = file_start key hash @ d1 @ eof_bytes eof1 @ d0 @ Sha256 S key"
  have "slice (length (xs @ eof_bytes (stream_0_footer S d0)) - 24) 24 (xs @ eof_bytes (stream_0_footer S d0))
      = eof_bytes (stream_0_footer S d0)"
    using slice_field [of xs "length xs" "eof_bytes (stream_0_footer S d0)" 24 "[]"] by simp
  moreover have "entry_file S key hash d1 eof1 d0 = xs @ eof_bytes (stream_0_footer S d0)"
    by (simp add: entry_file_def xs_def)
  moreover have "eof_of (eof_bytes x) = x" for x using eof_codec.dec_enc_exact by simp
  ultimately show ?thesis by (simp only: footer_def)
qed

lemma entry_file_parts:
  fixes hash d1 eof1 d0
  assumes "length (Sha256 S key) = 32"
  defines "c \<equiv> entry_file S key hash d1 eof1 d0"
  shows "length c = 104 + length key + length d1 + length d0"
    "slice (24 + length key) (length d1) c = d1"
    "slice (24 + length key + length d1) 24 c = eof_bytes eof1"
    "slice (48 + length key + length d1) (length d0) c = d0"
    "slice (48 + length key + length d1 + length d0) 32 c = Sha256 S key"
    "slice (48 + length key + length d1) (length d0 + 32) c = d0 @ Sha256 S key"
  unfolding c_def entry_file_def
  using assms(1) slice_field [of "file_start key hash" "24 + length key" d1]
    slice_field [of "file_start key hash @ d1" "24 + length key + length d1" "eof_bytes eof1" 24]
    slice_field [of "file_start key hash @ d1 @ eof_bytes eof1" "48 + length key + length d1" d0]
    slice_field [of "file_start key hash @ d1 @ eof_bytes eof1 @ d0" "48 + length key + length d1 + length d0" "Sha256 S key"]
    slice_field [of "file_start key hash @ d1 @ eof_bytes eof1" "48 + length key + length d1" "d0 @ Sha256 S key"]
  by simp_all

lemma entry_file_valid:
  fixes hash
  assumes sha: "length (Sha256 S key) = 32" and d0: "length d0 < 2 ^ 31"
    and crc: "has \<longrightarrow> crc1 = Crc32 (sys_zlib S) d1"
  defines "c \<equiv> entry_file S key hash d1 (stream_1_footer has crc1) d0"
  shows "valid_file S c key (length d0) (length d1)" "valid_record_1 S c (length key) (length d1)"
    "footer_extra (footer c) = 32"
proof -
  note parts = entry_file_parts [OF sha, where hash = hash and ?d1.0 = d1 and ?eof1.0 = "stream_1_footer has crc1"
      and ?d0.0 = d0, folded c_def]
  have f: "footer c = stream_0_footer S d0" unfolding c_def by (rule footer_entry_file)
  have e1: "eof_of (eof_bytes x) = x" for x using eof_codec.dec_enc_exact by simp
  have flag: "eof_has_key_sha256 (stream_0_footer S d0)"
    by (simp add: eof_has_key_sha256_def stream_0_footer_def FLAG_HAS_CRC32_def FLAG_HAS_KEY_SHA256_def)
  then show x: "footer_extra (footer c) = 32" by (simp add: footer_extra_def f)
  have "unat (stream_size (stream_0_footer S d0)) = length d0"
    using d0 by (simp add: stream_0_footer_def unat_of_nat)
  then show "valid_file S c key (length d0) (length d1)"
    using parts f x flag by (simp add: valid_file_def eof_crc_mismatch_def stream_0_footer_def)
  show "valid_record_1 S c (length key) (length d1)"
    using parts crc by (auto simp: valid_record_1_def Let_def e1 stream_1_footer_def eof_crc_mismatch_def empty_eof_def)
qed

lemma OpenEntry_entry_file:
  fixes hash
  assumes "reliable_files F view node remaining"
    and "data (view w) n = entry_file S key hash d1 (stream_1_footer has crc1) d0"
    and "has \<longrightarrow> crc1 = Crc32 (sys_zlib S) d1" and "104 + length key + length d1 + length d0 < 2 ^ 31"
    and "length (Sha256 S key) = 32"
    and "dir (view w) (AppendASCII path (GetFilenameFromEntryFileKeyAndFileIndex (plain_key h) 0)) = Some n"
    and "dir (view w) (AppendASCII path (GetFilenameFromEntryFileKeyAndFileIndex (plain_key h) 1)) = None"
    and "dir (view w) (AppendASCII path (GetSparseFilenameFromEntryFileKey (plain_key h))) = None"
    and "data_size (cr_entry_stat out) = [0, 0, 0]" and "length (cr_stream_prefetch_data out) = 2"
  obtains out' w' E' where "OpenEntry F S ct path owner (Some key) h prefetch_size out w = Some (out', w')"
    "cr_result out' = Net 0" "cr_created out' = cr_created out"
    "data_size (cr_entry_stat out') = [int (length d0), int (length d1), 0]"
    "spd_data (cr_stream_prefetch_data out' ! 0) = Some (d0 @ Sha256 S key)"
    "cr_sync_entry out' = Some E'" "has_stream_1 E' (cr_entry_stat out') (view w') n key hash d1"
    "dir (view w') = dir (view w)"
proof -
  have d0: "length d0 < 2 ^ 31" "length key < 2 ^ 32" using assms(4) by simp_all
  note parts = entry_file_parts [OF assms(5), where hash = hash and ?d1.0 = d1 and ?d0.0 = d0
      and ?eof1.0 = "stream_1_footer has crc1"]
  note valid = entry_file_valid [OF assms(5) d0(1) assms(3), where hash = hash]
  let ?E = "new_SyncEntry ct path owner (Some key) h prefetch_size"
  have E: "empty_file_omitted ?E = [False, False]" "se_key ?E = Some key" "header_and_key_check_needed ?E = [False, False]"
    by (simp_all add: new_SyncEntry_def)
  have d: "dir (view w) (GetFilenameFromFileIndex ?E 0) = Some n" "dir (view w) (GetFilenameFromFileIndex ?E 1) = None"
    "dir (view w) (GetFilenameForSubfile ?E FILE_SPARSE) = None"
    using assms(6-8)
    by (simp_all add: new_SyncEntry_def GetFilenameFromFileIndex_def GetFilenameForSubfile_def plain_key_def)
  have v: "valid_file S (data (view w) n) key (length d0) (length d1)"
    "valid_record_1 S (data (view w) n) (length key) (length d1)" "length (data (view w) n) < 2 ^ 31"
    using valid(1,2) parts(1) assms(2,4) by simp_all
  obtain E' st' spd' w2 where i: "InitializeForOpen F S ?E (cr_entry_stat out) (cr_stream_prefetch_data out) w
      = Some (Net 0, E', st', spd', w2)" "data_size st' = [int (length d0), int (length d1), 0]"
    "spd_data (spd' ! 0) = Some (slice (48 + length key + length d1)
       (length d0 + footer_extra (footer (data (view w) n))) (data (view w) n))"
    "data (view w2) = data (view w)" "dir (view w2) = dir (view w)"
    "table (view w2) (tracked_file E' 0) = Some n" "se_key E' = Some key"
    "\<not> empty_file_omitted E' ! 0" "\<not> header_and_key_check_needed E' ! 0"
    by (rule reliable_files.InitializeForOpen_complete [OF assms(1) E(1,2) d0(2) E(3) d v assms(9,10)])
       (use that files.same_disk_def [OF reliable_files.axioms(1) [OF assms(1)]] in auto)
  have "spd_data (spd' ! 0) = Some (d0 @ Sha256 S key)"
    using i(3) assms(2) valid(3) parts(6) by simp
  moreover have "has_stream_1 E' st' (view w2) n key hash d1"
    using i(2,4,6-9) assms(2,4) by (simp add: has_stream_1_def sizes_ok_def entry_file_def less_Suc_eq numeral_3_eq_3)
  ultimately show thesis
    by (intro that [of "out\<lparr>cr_result := Net 0, cr_entry_stat := st', cr_stream_prefetch_data := spd',
        cr_sync_entry := Some E', cr_computed_trailer_prefetch_size := computed_trailer_prefetch_size E'\<rparr>" w2 E'])
      (use i in \<open>simp_all add: OpenEntry_def\<close>)
qed

lemma close_and_open:
  assumes "reliable_files F view node remaining"
    and "has_stream_1 E st (view w) n key hash d1"
    and "data_size st ! 0 = int (length d0)" and "104 + length key + length d1 + length d0 < 2 ^ 31"
    and "length (Sha256 S key) = 32"
    and "empty_file_omitted E = [False, True]" and "entry_file_key E = plain_key h" and "se_path E = path"
    and "dir (view w) (AppendASCII path (GetFilenameFromEntryFileKeyAndFileIndex (plain_key h) 0)) = Some n"
    and "dir (view w) (AppendASCII path (GetFilenameFromEntryFileKeyAndFileIndex (plain_key h) 1)) = None"
    and "dir (view w) (AppendASCII path (GetSparseFilenameFromEntryFileKey (plain_key h))) = None"
    and "crc_index r0 = 0" and "has_crc32 r0 \<longrightarrow> data_crc32 r0 = Crc32 (sys_zlib S) d0"
    and "crc_index r1 = 1" and "has_crc32 r1 \<longrightarrow> data_crc32 r1 = Crc32 (sys_zlib S) d1"
    and "data_size (cr_entry_stat out) = [0, 0, 0]" and "length (cr_stream_prefetch_data out) = 2"
  shows "\<exists>estimate w1 out' w2. Close F S st [r0, r1] d0 E w = Some (estimate, w1)
    \<and> OpenEntry F S ct path owner (Some key) h prefetch_size out w1 = Some (out', w2)
    \<and> cr_result out' = Net 0
    \<and> data_size (cr_entry_stat out') = [int (length d0), int (length d1), 0]
    \<and> spd_data (cr_stream_prefetch_data out' ! 0) = Some (d0 @ Sha256 S key)
    \<and> (\<exists>E'. cr_sync_entry out' = Some E' \<and> has_stream_1 E' (cr_entry_stat out') (view w2) n key hash d1)"
proof -
  obtain rest where s: "table (view w) (tracked_file E 0) = Some n" "data (view w) n = file_start key hash @ d1 @ rest"
    "se_key E = Some key" "sizes_ok st (length key)" "data_size st ! 1 = int (length d1)"
    "\<not> header_and_key_check_needed E ! 0"
    using assms(2) by (auto simp: has_stream_1_def)
  let ?c = "entry_file S key hash d1 (stream_1_footer (has_crc32 r1) (data_crc32 r1)) d0"
  have pre: "int (length d0) \<le> INT_MAX" "True \<or> \<not> header_and_key_check_needed E ! 1"
    "doom_generation (entry_file_key E) = 0"
    using assms(4,7) by (simp_all add: INT_MAX_def plain_key_def)
  obtain estimate w1 where c: "Close F S st [r0, r1] d0 E w = Some (estimate, w1)" "dir (view w1) = dir (view w)"
    "data (view w1) = (data (view w))(n := ?c)"
    using reliable_files.Close_layout [OF assms(1) s(4,3) assms(3) pre(1) assms(5,6) s(1,6) pre(2,3) assms(12-14) s(2,5)]
    by blast
  have f: "data (view w1) n = ?c" and d: "dir (view w1) (AppendASCII path (GetFilenameFromEntryFileKeyAndFileIndex (plain_key h) 0)) = Some n"
    "dir (view w1) (AppendASCII path (GetFilenameFromEntryFileKeyAndFileIndex (plain_key h) 1)) = None"
    "dir (view w1) (AppendASCII path (GetSparseFilenameFromEntryFileKey (plain_key h))) = None"
    using c(2,3) assms(9-11) by simp_all
  obtain out' w2 E' where "OpenEntry F S ct path owner (Some key) h prefetch_size out w1 = Some (out', w2)"
    "cr_result out' = Net 0" "data_size (cr_entry_stat out') = [int (length d0), int (length d1), 0]"
    "spd_data (cr_stream_prefetch_data out' ! 0) = Some (d0 @ Sha256 S key)"
    "cr_sync_entry out' = Some E'" "has_stream_1 E' (cr_entry_stat out') (view w2) n key hash d1"
    by (rule OpenEntry_entry_file [OF assms(1) f assms(15,4,5) d assms(16,17)])
  with c(1) show ?thesis by blast
qed

text \<open>C2: Closing an entry and opening it again gives back its streams. Let an open entry that has not been
doomed and whose stream 2 has no file hold the stream \<open>d1\<close> in its file and \<open>d0\<close> in memory, with checksum
records that are right where they are present. Then \<open>Close\<close> returns, and \<open>OpenEntry\<close> with the key, from the world
that it leaves and with any prefetch setting, succeeds: it reports the sizes of the two streams, hands over
\<open>d0\<close> (with the hash of the key that follows it on disk), and the entry it opens holds the stream \<open>d1\<close>.\<close>
theorem closed_entry_reopens:
  assumes "reliable_files F view node remaining"
    and "has_stream_1 E st (view w) n key hash d1"
    and "data_size st ! 0 = int (length d0)" and "104 + length key + length d1 + length d0 < 2 ^ 31"
    and "length (Sha256 S key) = 32"
    and "empty_file_omitted E = [False, True]" and "entry_file_key E = plain_key h" and "se_path E = path"
    and "dir (view w) (AppendASCII path (GetFilenameFromEntryFileKeyAndFileIndex (plain_key h) 0)) = Some n"
    and "dir (view w) (AppendASCII path (GetFilenameFromEntryFileKeyAndFileIndex (plain_key h) 1)) = None"
    and "dir (view w) (AppendASCII path (GetSparseFilenameFromEntryFileKey (plain_key h))) = None"
    and "crc_index r0 = 0" and "has_crc32 r0 \<longrightarrow> data_crc32 r0 = Crc32 (sys_zlib S) d0"
    and "crc_index r1 = 1" and "has_crc32 r1 \<longrightarrow> data_crc32 r1 = Crc32 (sys_zlib S) d1"
    and "data_size (cr_entry_stat out) = [0, 0, 0]" and "length (cr_stream_prefetch_data out) = 2"
  shows "\<exists>estimate w1 out' w2. Close F S st [r0, r1] d0 E w = Some (estimate, w1)
    \<and> OpenEntry F S ct path owner (Some key) h prefetch_size out w1 = Some (out', w2)
    \<and> cr_result out' = Net 0
    \<and> data_size (cr_entry_stat out') = [int (length d0), int (length d1), 0]
    \<and> spd_data (cr_stream_prefetch_data out' ! 0) = Some (d0 @ Sha256 S key)
    \<and> (\<exists>E'. cr_sync_entry out' = Some E' \<and> has_stream_1 E' (cr_entry_stat out') (view w2) n key hash d1)"
  by (rule close_and_open [OF assms])

text \<open>The sample entry without a file for stream 2, for evaluation.\<close>

definition sample_closing :: SyncEntry where
  "sample_closing = sample_entry\<lparr>empty_file_omitted := [False, True]\<rparr>"

lemma sample_names:
  "map_of (m_dir sample_mem) (AppendASCII [''c''] (GetFilenameFromEntryFileKeyAndFileIndex (plain_key 5) 0)) = Some 1"
  "map_of (m_dir sample_mem) (AppendASCII [''c''] (GetFilenameFromEntryFileKeyAndFileIndex (plain_key 5) 1)) = None"
  "map_of (m_dir sample_mem) (AppendASCII [''c''] (GetSparseFilenameFromEntryFileKey (plain_key 5))) = None"
  by code_simp+

lemma closed_entry_reopens_witness:
  "\<exists>estimate w1 out' w2. Close (mem_env (\<lambda>_. False)) sample_sys sample_stat
       [\<lparr>crc_index = 0, has_crc32 = False, data_crc32 = 0\<rparr>, \<lparr>crc_index = 1, has_crc32 = True, data_crc32 = Crc32 crc32_zlib [1, 2]\<rparr>]
       [7] sample_closing sample_world = Some (estimate, w1)
    \<and> OpenEntry (mem_env (\<lambda>_. False)) sample_sys DISK_CACHE [''c''] 3 (Some [104]) 5 100 no_results w1 = Some (out', w2)
    \<and> cr_result out' = Net 0
    \<and> data_size (cr_entry_stat out') = [int (length ([7] :: bytes)), int (length ([1, 2] :: bytes)), 0]
    \<and> spd_data (cr_stream_prefetch_data out' ! 0) = Some ([7] @ Sha256 sample_sys [104])
    \<and> (\<exists>E'. cr_sync_entry out' = Some E' \<and> has_stream_1 E' (cr_entry_stat out') (mem_view w2) 1 [104] 9 [1, 2])"
proof (rule closed_entry_reopens [OF mem.reliable_files_axioms])
  show "has_stream_1 sample_closing sample_stat (mem_view sample_world) 1 [104] 9 [1, 2]"
    using sample_has_stream_1 by (simp add: has_stream_1_def sample_closing_def)
  show "dir (mem_view sample_world) (AppendASCII [''c''] (GetFilenameFromEntryFileKeyAndFileIndex (plain_key 5) 0)) = Some 1"
    "dir (mem_view sample_world) (AppendASCII [''c''] (GetFilenameFromEntryFileKeyAndFileIndex (plain_key 5) 1)) = None"
    "dir (mem_view sample_world) (AppendASCII [''c''] (GetSparseFilenameFromEntryFileKey (plain_key 5))) = None"
    using sample_names by (simp_all add: sample_world_def)
  show "entry_file_key sample_closing = plain_key 5"
    by (simp add: sample_closing_def sample_entry_def new_SyncEntry_def plain_key_def)
qed (simp_all add: sample_stat_def sample_closing_def sample_entry_def new_SyncEntry_def sample_sys_def no_results_def)

end
