(* ===== verification/Sync_Sparse_Log.thy ===== *)
theory Sync_Sparse_Log imports Sync_Reopen begin

text \<open>
  The sparse stream as a partial map from positions to bytes. The sparse file is a log of ranges in the
  order in which they were appended; the entry's map of ranges has the same ranges in the order of
  their offsets, with the places of their data in the file.
\<close>

section \<open>The abstract stream\<close>

type_synonym sparse_map = "nat \<Rightarrow> byte option"

definition sparse_update :: "nat \<Rightarrow> bytes \<Rightarrow> sparse_map \<Rightarrow> sparse_map" where
  "sparse_update off bs f = (\<lambda>p. if off \<le> p \<and> p < off + length bs then Some (bs ! (p - off)) else f p)"

text \<open>The bytes from a position up to the first gap, and no more than a number of them.\<close>

fun sparse_run :: "sparse_map \<Rightarrow> nat \<Rightarrow> nat \<Rightarrow> bytes" where
  "sparse_run f p 0 = []"
| "sparse_run f p (Suc n) = (case f p of None \<Rightarrow> [] | Some b \<Rightarrow> b # sparse_run f (Suc p) n)"

lemma sparse_run_gap: "f p = None \<Longrightarrow> sparse_run f p n = []"
  by (cases n) simp_all

lemma length_sparse_run: "length (sparse_run f p n) \<le> n"
  by (induction f p n rule: sparse_run.induct) (auto split: option.split)

lemma sparse_run_append:
  "(\<And>i. i < length bs \<Longrightarrow> f (p + i) = Some (bs ! i)) \<Longrightarrow>
     sparse_run f p (length bs + n) = bs @ sparse_run f (p + length bs) n"
proof (induction bs arbitrary: p)
  case (Cons b bs)
  from Cons.prems [of 0] have "f p = Some b" by simp
  moreover have "f (Suc p + i) = Some (bs ! i)" if "i < length bs" for i
    using Cons.prems [of "Suc i"] that by simp
  ultimately show ?case using Cons.IH [of "Suc p"] by simp
qed simp

lemma sparse_update_Nil [simp]: "sparse_update off [] f = f"
  by (rule ext) (auto simp: sparse_update_def)

lemma sparse_update_extend:
  "sparse_update (off + length bs) bs' (sparse_update off bs f) = sparse_update off (bs @ bs') f"
  by (rule ext) (auto simp: sparse_update_def nth_append)

section \<open>The log of a sparse file\<close>

text \<open>A range of the log: where it starts, its bytes and the checksum in its header, 0 for none.\<close>

type_synonym sparse_log = "(nat \<times> bytes \<times> u32) list"

definition rng :: "nat \<Rightarrow> bytes \<Rightarrow> u32 \<Rightarrow> nat \<Rightarrow> SparseRange" where
  "rng a d crc pos = \<lparr>range_offset = of_nat a, range_length = of_nat (length d), range_data_crc32 = crc,
     range_file_offset = int pos\<rparr>"

definition record_header :: "nat \<Rightarrow> bytes \<Rightarrow> u32 \<Rightarrow> bytes" where
  "record_header a d crc = sparse_range_bytes (range_header (rng a d crc 0))"

fun log_record :: "nat \<times> bytes \<times> u32 \<Rightarrow> bytes" where
  "log_record (a, d, crc) = record_header a d crc @ d"

definition log_bytes :: "sparse_log \<Rightarrow> bytes" where
  "log_bytes log = concat (map log_record log)"

fun log_ranges :: "nat \<Rightarrow> sparse_log \<Rightarrow> range_map" where
  "log_ranges pos [] = []"
| "log_ranges pos ((a, d, crc) # log) = (of_nat a, rng a d crc (pos + 32)) # log_ranges (pos + 32 + length d) log"

fun log_size :: "sparse_log \<Rightarrow> nat" where
  "log_size [] = 0"
| "log_size ((a, d, crc) # log) = length d + log_size log"

fun sparse_byte :: "sparse_log \<Rightarrow> sparse_map" where
  "sparse_byte [] p = None"
| "sparse_byte ((a, d, crc) # log) p = (if a \<le> p \<and> p < a + length d then Some (d ! (p - a)) else sparse_byte log p)"

fun apart :: "nat \<times> bytes \<times> u32 \<Rightarrow> nat \<times> bytes \<times> u32 \<Rightarrow> bool" where
  "apart (a, d, crc) (a', d', crc') \<longleftrightarrow> a + length d \<le> a' \<or> a' + length d' \<le> a"

fun record_ok :: "sys \<Rightarrow> nat \<times> bytes \<times> u32 \<Rightarrow> bool" where
  "record_ok S (a, d, crc) \<longleftrightarrow> d \<noteq> [] \<and> a + length d < 2 ^ 63 \<and> (crc = 0 \<or> crc = Crc32 (sys_zlib S) d)"

text \<open>The ranges of a log are not empty and do not overlap, and the checksums that are there are right.\<close>

definition log_ok :: "sys \<Rightarrow> sparse_log \<Rightarrow> bool" where
  "log_ok S log \<longleftrightarrow> list_all (record_ok S) log \<and> sorted_wrt apart log"

lemma record_header: "sparse_range_bytes (range_header (rng a d crc pos)) = record_header a d crc"
  by (simp add: record_header_def range_header_def rng_def)

lemma length_record_header [simp]: "length (record_header a d crc) = 32"
  by (simp add: record_header_def)

lemma rng_fields [simp]:
  "range_offset (rng a d crc pos) = of_nat a" "range_length (rng a d crc pos) = of_nat (length d)"
  "range_data_crc32 (rng a d crc pos) = crc" "range_file_offset (rng a d crc pos) = int pos"
  by (simp_all add: rng_def)

lemma log_bytes_simps [simp]:
  "log_bytes [] = []" "log_bytes (x # log) = log_record x @ log_bytes log"
  "log_bytes (l @ l') = log_bytes l @ log_bytes l'"
  by (simp_all add: log_bytes_def)

lemma length_log_record [simp]: "length (log_record (a, d, crc)) = 32 + length d"
  by simp

lemma log_size_append [simp]: "log_size (l @ l') = log_size l + log_size l'"
  by (induction l rule: log_size.induct) simp_all

lemma log_size_le: "log_size log + 32 * length log = length (log_bytes log)"
  by (induction log rule: log_size.induct) simp_all

lemma log_ranges_append: "log_ranges pos (l @ l') = log_ranges pos l @ log_ranges (pos + length (log_bytes l)) l'"
  by (induction pos l rule: log_ranges.induct) (simp_all add: add.assoc)

lemma length_log_ranges [simp]: "length (log_ranges pos log) = length log"
  by (induction pos log rule: log_ranges.induct) simp_all

lemma in_log_ranges:
  assumes "x \<in> set (log_ranges pos log)"
  obtains l a d crc l' where "log = l @ (a, d, crc) # l'" "x = (of_nat a, rng a d crc (pos + length (log_bytes l) + 32))"
  using assms
proof (induction pos log arbitrary: thesis rule: log_ranges.induct)
  case (2 pos a d crc log)
  from 2(3) consider "x = (of_nat a, rng a d crc (pos + 32))" | "x \<in> set (log_ranges (pos + 32 + length d) log)" by auto
  then show thesis
  proof cases
    case 1
    with 2(2) [of "[]" a d crc log] show thesis by simp
  next
    case 2
    obtain l a' d' crc' l' where "log = l @ (a', d', crc') # l'"
      "x = (of_nat a', rng a' d' crc' (pos + 32 + length d + length (log_bytes l) + 32))"
      by (rule "2.IH" [OF _ 2])
    with "2.prems"(1) [of "(a, d, crc) # l"] show thesis by (simp add: ac_simps)
  qed
qed simp

lemma log_ranges_mem:
  "(of_nat a, rng a d crc (pos + length (log_bytes l) + 32)) \<in> set (log_ranges pos (l @ (a, d, crc) # l'))"
  by (simp add: log_ranges_append)

section \<open>Positions as words\<close>

lemma u64_of_nat:
  assumes "a < 2 ^ 63" and "b < 2 ^ 63"
  shows "unat (of_nat a :: u64) = a" "of_nat a \<le> (of_nat b :: u64) \<longleftrightarrow> a \<le> b" "of_nat a < (of_nat b :: u64) \<longleftrightarrow> a < b"
    "of_nat a = (of_nat b :: u64) \<longleftrightarrow> a = b"
    "min (of_nat a) (of_nat b) = (of_nat (min a b) :: u64)"
proof -
  have u: "unat (of_nat n :: u64) = n" if "n < 2 ^ 63" for n using that by (simp add: unat_of_nat)
  show le: "of_nat a \<le> (of_nat b :: u64) \<longleftrightarrow> a \<le> b" and "of_nat a < (of_nat b :: u64) \<longleftrightarrow> a < b"
    "of_nat a = (of_nat b :: u64) \<longleftrightarrow> a = b"
    using u [OF assms(1)] u [OF assms(2)] by (simp_all add: word_le_nat_alt word_less_nat_alt) (metis+)?
  show "unat (of_nat a :: u64) = a" by (rule u [OF assms(1)])
  show "min (of_nat a) (of_nat b) = (of_nat (min a b) :: u64)" using le by (simp add: min_def)
qed

lemma u64_diff: "b \<le> a \<Longrightarrow> of_nat a - (of_nat b :: u64) = of_nat (a - b)"
  by (simp add: of_nat_diff)

definition rstart :: "u64 \<times> SparseRange \<Rightarrow> nat" where "rstart x = unat (fst x)"
definition rend :: "u64 \<times> SparseRange \<Rightarrow> nat" where "rend x = unat (fst x) + unat (range_length (snd x))"

lemma log_okD:
  assumes "log_ok S (l @ (a, d, crc) # l')"
  shows "d \<noteq> []" "a + length d < 2 ^ 63" "crc = 0 \<or> crc = Crc32 (sys_zlib S) d"
  using assms by (simp_all add: log_ok_def)

lemma log_ok_Cons: "log_ok S (x # log) \<longleftrightarrow> record_ok S x \<and> (\<forall>y\<in>set log. apart x y) \<and> log_ok S log"
  by (auto simp: log_ok_def)

lemma in_log_ranges_ok:
  assumes "x \<in> set (log_ranges pos log)" and ok: "log_ok S log"
  obtains l a d crc l' where "log = l @ (a, d, crc) # l'" "x = (of_nat a, rng a d crc (pos + length (log_bytes l) + 32))"
    "d \<noteq> []" "a + length d < 2 ^ 63" "rstart x = a" "rend x = a + length d" "crc = 0 \<or> crc = Crc32 (sys_zlib S) d"
proof -
  obtain l a d crc l' where x: "log = l @ (a, d, crc) # l'" "x = (of_nat a, rng a d crc (pos + length (log_bytes l) + 32))"
    by (rule in_log_ranges [OF assms(1)])
  note d = log_okD [OF ok [unfolded x(1)]]
  have "a < 2 ^ 63" "length d < 2 ^ 63" using d(2) by linarith+
  then have "unat (of_nat a :: u64) = a" "unat (of_nat (length d) :: u64) = length d" using u64_of_nat(1) by blast+
  then have "rstart x = a" "rend x = a + length d" by (simp_all add: rstart_def rend_def x(2))
  with that [OF x] d show thesis by blast
qed

lemma sparse_byte_Some:
  "log_ok S log \<Longrightarrow> (a, d, crc) \<in> set log \<Longrightarrow> a \<le> p \<Longrightarrow> p < a + length d \<Longrightarrow> sparse_byte log p = Some (d ! (p - a))"
  by (induction log rule: log_size.induct) (fastforce simp: log_ok_Cons)+

lemma sparse_byte_None:
  "(\<And>a d crc. (a, d, crc) \<in> set log \<Longrightarrow> \<not> (a \<le> p \<and> p < a + length d)) \<Longrightarrow> sparse_byte log p = None"
  by (induction log rule: log_size.induct) auto

lemma sparse_byte_no_range:
  assumes ok: "log_ok S log" and none: "\<And>x. x \<in> set (log_ranges pos log) \<Longrightarrow> rend x \<le> p \<or> p < rstart x"
  shows "sparse_byte log p = None"
proof (rule sparse_byte_None)
  fix a d crc assume "(a, d, crc) \<in> set log"
  then obtain l l' where log: "log = l @ (a, d, crc) # l'" by (auto simp: in_set_conv_decomp)
  let ?x = "(of_nat a, rng a d crc (pos + length (log_bytes l) + 32)) :: u64 \<times> SparseRange"
  have x: "?x \<in> set (log_ranges pos log)" unfolding log by (rule log_ranges_mem)
  have "a < 2 ^ 63" "length d < 2 ^ 63" using log_okD(2) [OF ok [unfolded log]] by linarith+
  then have "unat (of_nat a :: u64) = a" "unat (of_nat (length d) :: u64) = length d" using u64_of_nat(1) by blast+
  then show "\<not> (a \<le> p \<and> p < a + length d)" using none [OF x] by (auto simp: rstart_def rend_def)
qed

lemma ranges_apart:
  assumes "log_ok S log" "x \<in> set (log_ranges pos log)" "y \<in> set (log_ranges pos log)" "x \<noteq> y"
  shows "rend x \<le> rstart y \<or> rend y \<le> rstart x"
  using assms
proof (induction pos log rule: log_ranges.induct)
  case (2 pos a d crc log)
  let ?h = "(of_nat a, rng a d crc (pos + 32)) :: u64 \<times> SparseRange"
  have h: "?h \<in> set (log_ranges pos ((a, d, crc) # log))" by simp
  have head: "rend ?h \<le> rstart z \<or> rend z \<le> rstart ?h" if z: "z \<in> set (log_ranges (pos + 32 + length d) log)" for z
  proof -
    have ok: "log_ok S log" using "2.prems"(1) by (simp add: log_ok_Cons)
    obtain l a' d' crc' l' where e: "log = l @ (a', d', crc') # l'" "rstart z = a'" "rend z = a' + length d'"
      using in_log_ranges_ok [OF z ok] by metis
    have "a + length d < 2 ^ 63" using "2.prems"(1) by (simp add: log_ok_Cons)
    then have "a < 2 ^ 63" "length d < 2 ^ 63" by linarith+
    then have "rstart ?h = a" "rend ?h = a + length d" using u64_of_nat(1) by (simp_all add: rstart_def rend_def)
    moreover have "apart (a, d, crc) (a', d', crc')" using "2.prems"(1) e(1) by (simp add: log_ok_Cons)
    ultimately show ?thesis using e by auto
  qed
  have "log_ok S log" using "2.prems"(1) by (simp add: log_ok_Cons)
  note IH = "2.IH" [OF this]
  from "2.prems"(2,3) consider "x = ?h" "y = ?h" | "x = ?h" "y \<in> set (log_ranges (pos + 32 + length d) log)"
    | "y = ?h" "x \<in> set (log_ranges (pos + 32 + length d) log)"
    | "x \<in> set (log_ranges (pos + 32 + length d) log)" "y \<in> set (log_ranges (pos + 32 + length d) log)"
    by auto
  then show ?case
  proof cases
    case 1 with "2.prems"(4) show ?thesis by simp
  next
    case 2 with head [OF 2(2)] show ?thesis by simp
  next
    case 3 with head [OF 3(2)] show ?thesis by blast
  next
    case 4 with IH "2.prems"(4) show ?thesis by simp
  qed
qed simp

section \<open>The map of ranges\<close>

definition ordered :: "range_map \<Rightarrow> bool" where
  "ordered rs \<longleftrightarrow> sorted_wrt (\<lambda>x y. fst x < fst y) rs"

lemma ordered_Cons: "ordered (x # rs) \<longleftrightarrow> (\<forall>y\<in>set rs. fst x < fst y) \<and> ordered rs"
  by (simp add: ordered_def)

lemma ordered_append: "ordered (rs @ rs') \<longleftrightarrow> ordered rs \<and> ordered rs' \<and> (\<forall>x\<in>set rs. \<forall>y\<in>set rs'. fst x < fst y)"
  by (auto simp: ordered_def sorted_wrt_append)

lemma before_lower_bound: "before k rs @ lower_bound k rs = rs"
  by (simp add: before_def lower_bound_def)

lemma in_before: "x \<in> set (before k rs) \<Longrightarrow> x \<in> set rs \<and> fst x < k"
  by (auto simp: before_def dest: set_takeWhileD)

lemma in_lower_bound: "ordered rs \<Longrightarrow> x \<in> set (lower_bound k rs) \<Longrightarrow> x \<in> set rs \<and> k \<le> fst x"
proof (induction rs)
  case (Cons y rs)
  show ?case
  proof (cases "fst y < k")
    case True
    with Cons show ?thesis by (cases y) (auto simp: lower_bound_def ordered_Cons)
  next
    case False
    with Cons.prems have "x \<in> set (y # rs)" by (cases y) (auto simp: lower_bound_def)
    with Cons.prems(1) False show ?thesis by (auto simp: ordered_Cons not_less)
  qed
qed (simp add: lower_bound_def)

lemma ordered_parts:
  assumes "ordered rs"
  shows "ordered (before k rs)" "ordered (lower_bound k rs)"
  using assms before_lower_bound [of k rs] ordered_append by metis+

lemma emplace_new:
  assumes "ordered rs" and "k \<notin> fst ` set rs"
  shows "set (emplace k r rs) = insert (k, r) (set rs)" "ordered (emplace k r rs)"
proof -
  let ?b = "before k rs" and ?l = "lower_bound k rs"
  have "set ?b \<union> set ?l = set rs" using arg_cong [OF before_lower_bound [of k rs], of set] by simp
  moreover have e: "emplace k r rs = ?b @ (k, r) # ?l"
    using assms in_lower_bound [of rs _ k] by (cases ?l) (force simp: emplace_def)+
  ultimately show "set (emplace k r rs) = insert (k, r) (set rs)" by auto
  have "k < fst y" if "y \<in> set ?l" for y
    using in_lower_bound [OF assms(1) that] assms(2) by (metis imageI le_neq_trans)
  moreover have "fst x < fst y" if "x \<in> set ?b" "y \<in> set ?l" for x y
    using in_before [OF that(1)] in_lower_bound [OF assms(1) that(2)] by auto
  ultimately show "ordered (emplace k r rs)"
    using ordered_parts [OF assms(1), of k] in_before [of _ k rs] by (auto simp: e ordered_append ordered_Cons)
qed

lemma update_range_keys: "map fst (update_range k r rs) = map fst rs"
  by (auto simp: update_range_def)

lemma ordered_keys: "ordered rs \<longleftrightarrow> sorted_wrt (<) (map fst rs)"
  by (simp add: ordered_def sorted_wrt_map)

lemma ordered_update_range: "ordered (update_range k r rs) = ordered rs"
  by (simp add: ordered_keys update_range_keys)

lemma set_update_range: "set (update_range k r rs) = (\<lambda>(k', r'). if k' = k then (k', r) else (k', r')) ` set rs"
  by (simp add: update_range_def)

lemma in_update_range:
  "y \<in> set (update_range k r rs) \<longleftrightarrow> y \<in> set rs \<and> fst y \<noteq> k \<or> y = (k, r) \<and> k \<in> fst ` set rs"
proof
  assume "y \<in> set (update_range k r rs)"
  then show "y \<in> set rs \<and> fst y \<noteq> k \<or> y = (k, r) \<and> k \<in> fst ` set rs"
    by (auto simp: set_update_range split: if_splits intro: rev_image_eqI)
next
  assume "y \<in> set rs \<and> fst y \<noteq> k \<or> y = (k, r) \<and> k \<in> fst ` set rs"
  then show "y \<in> set (update_range k r rs)"
    by (cases y) (auto simp: set_update_range intro: rev_image_eqI)
qed

end
