(* ===== verification/Sync_Sparse_Read.thy ===== *)
theory Sync_Sparse_Read imports Sync_Sparse_Log begin

text \<open>
  The sparse stream of an entry on files without faults: reading returns the bytes up to the first gap,
  writing puts bytes at their positions, and a sparse file that is opened again has the same stream.
\<close>

definition sparse_start :: "bytes \<Rightarrow> u32 \<Rightarrow> bytes" where
  "sparse_start key hash = header_bytes (entry_header kSimpleSparseEntryVersion key hash) @ key"

text \<open>The map has the ranges of a log that starts at a place in the file.\<close>

definition log_map :: "sys \<Rightarrow> sparse_log \<Rightarrow> nat \<Rightarrow> range_map \<Rightarrow> bool" where
  "log_map S log pos rs \<longleftrightarrow> log_ok S log \<and> ordered rs \<and> set rs = set (log_ranges pos log)"

text \<open>
  The open sparse file starts with header and key and goes on with a log of ranges up to its end, where
  the entry appends the next one, and the entry's map has the ranges of the log.
\<close>

definition has_sparse ::
    "sys \<Rightarrow> SyncEntry \<Rightarrow> fs \<Rightarrow> nat \<Rightarrow> bytes \<Rightarrow> u32 \<Rightarrow> sparse_log \<Rightarrow> bool" where
  "has_sparse S E v n key hash log \<longleftrightarrow>
     sparse_file_open E \<and> table v (tracked_sparse E) = Some n \<and> se_key E = Some key
     \<and> data v n = sparse_start key hash @ log_bytes log \<and> length (data v n) < 2 ^ 62
     \<and> sparse_tail_offset E = of_nat (length (data v n)) \<and> log_map S log (length (sparse_start key hash)) (sparse_ranges E)"

lemma length_sparse_start [simp]: "length (sparse_start key hash) = 24 + length key"
  by (simp add: sparse_start_def)

lemma uint_small: assumes "a < 2 ^ 63" shows "uint (of_nat a :: u64) = int a"
proof -
  have "uint (of_nat a :: u64) = int (unat (of_nat a :: u64))" by simp
  also have "\<dots> = int a" using assms by (simp only: u64_of_nat(1))
  finally show ?thesis .
qed

lemma has_sparseD:
  assumes "has_sparse S E v n key hash log"
  shows "sparse_file_open E" "table v (tracked_sparse E) = Some n" "se_key E = Some key"
    "data v n = sparse_start key hash @ log_bytes log" "length (data v n) < 2 ^ 62"
    "sparse_tail_offset E = of_nat (length (data v n))"
    "log_map S log (length (sparse_start key hash)) (sparse_ranges E)"
  using assms unfolding has_sparse_def by blast+

section \<open>One range\<close>

text \<open>The place of a range of the log in the file.\<close>

lemma range_bytes:
  assumes "c = start @ log_bytes (l @ (a, d, crc) # l')" and "x + m \<le> length d"
  shows "slice (length start + length (log_bytes l) + 32 + x) m c = slice x m d"
    "length start + length (log_bytes l) + 32 + length d \<le> length c"
proof -
  let ?xs = "start @ log_bytes l @ record_header a d crc"
  have c: "c = ?xs @ d @ log_bytes l'" using assms(1) by simp
  have "slice (length ?xs + x) m (?xs @ d @ log_bytes l') = slice x m d"
    unfolding slice_shift using assms(2) by (simp add: slice_append_left)
  then show "slice (length start + length (log_bytes l) + 32 + x) m c = slice x m d"
    by (simp only: c length_append length_record_header add.assoc)
  show "length start + length (log_bytes l) + 32 + length d \<le> length c" by (simp add: c)
qed

lemma in_range_check_of_nat:
  assumes "x + m \<le> length d" "length d < 2 ^ 63"
  shows "in_range_check (rng a d crc pos) (of_nat x) (of_nat m)"
proof -
  have "x + m < 2 ^ 63" "x < 2 ^ 63" using assms by linarith+
  then have "of_nat x \<le> (of_nat (length d) :: u64)" "of_nat (x + m) \<le> (of_nat (length d) :: u64)"
    using assms u64_of_nat(2) [of x "length d"] u64_of_nat(2) [of "x + m" "length d"] by simp_all
  then show ?thesis by (simp only: in_range_check_def rng_fields of_nat_add)
qed

lemma range_pos_of_nat: "pos + x < 2 ^ 63 \<Longrightarrow> range_pos (rng a d crc pos) (of_nat x) = int (pos + x)"
proof -
  assume b: "pos + x < 2 ^ 63"
  then have "wrap64 (int (pos + x)) = int (pos + x)" by (intro wrap64_id) simp_all
  with b show ?thesis by (simp add: range_pos_def uint_small)
qed

context reliable_files begin

lemma ReadSparseRange_ok:
  assumes c: "data (view w) (node h) = start @ log_bytes (l @ (a, d, crc) # l')" "length (data (view w) (node h)) < 2 ^ 62"
    and ok: "log_ok S (l @ (a, d, crc) # l')" and m: "x + m \<le> length d"
  obtains w' where "ReadSparseRange F S h (rng a d crc (length start + length (log_bytes l) + 32)) (of_nat x) (of_nat m) w
      = Some (Some (slice x m d), w')" "view w' = view w"
proof -
  let ?p = "length start + length (log_bytes l) + 32"
  note rb = range_bytes [OF c(1) m]
  have b: "?p + x < 2 ^ 63" "m < 2 ^ 63" "length d < 2 ^ 63" using rb(2) c(2) m by simp_all
  have fit: "nat (int (?p + x)) + m \<le> length (data (view w) (node h))" using rb(2) m by simp
  obtain w' where rd: "fReadAndCheck F h (int (?p + x)) m w = (Some (slice x m d), w')" "view w' = view w"
    using read_check_ok [OF _ fit] rb(1) by (metis nat_int of_nat_0_le_iff)
  have full: "slice x m d = d" if "(of_nat x :: u64) = 0" "(of_nat m :: u64) = of_nat (length d)"
  proof -
    have "x = 0" using that(1) b(1) u64_of_nat(4) [of x 0] by simp
    moreover have "m = length d" using that(2) b u64_of_nat(4) by blast
    ultimately show ?thesis by (simp add: slice_def)
  qed
  have "ReadSparseRange F S h (rng a d crc ?p) (of_nat x) (of_nat m) w = Some (Some (slice x m d), w')"
    using in_range_check_of_nat [OF m b(3)] range_pos_of_nat [OF b(1)] rd(1) full log_okD(3) [OF ok]
      u64_of_nat(1) [OF b(2,2)]
    by (auto simp: ReadSparseRange_def)
  with that rd(2) show thesis by blast
qed

end

section \<open>Reading\<close>

lemma later_starts:
  assumes "log_ok S log" and "x \<in> set (log_ranges pos log)" "y \<in> set (log_ranges pos log)" and "fst x < fst y"
  shows "rend x \<le> rstart y"
proof -
  have "rstart x < rstart y" using assms(4) by (simp add: rstart_def word_less_nat_alt)
  moreover have "x \<noteq> y" using assms(4) by auto
  moreover have "rstart y \<le> rend y" by (simp add: rstart_def rend_def)
  ultimately show ?thesis using ranges_apart [OF assms(1-3)] by linarith
qed

context reliable_files begin

lemma read_contiguous_run:
  assumes c: "data (view w) (node h) = start @ log_bytes log" "length (data (view w) (node h)) < 2 ^ 62"
    and ok: "log_ok S log" and b: "length got \<le> len" "off + len < 2 ^ 63"
    and later: "ordered later" "set later \<subseteq> set (log_ranges (length start) log)"
      "\<And>x. x \<in> set later \<Longrightarrow> off + length got \<le> rstart x"
    and others: "\<And>x. x \<in> set (log_ranges (length start) log) \<Longrightarrow> x \<notin> set later \<Longrightarrow> length got < len \<Longrightarrow>
      rend x \<le> off + length got"
    and r: "r = got @ sparse_run (sparse_byte log) (off + length got) (len - length got)"
  shows "\<exists>w'. read_contiguous F S h (of_nat off) (of_nat len) later (of_nat (length got)) got w
      = Some (Some (of_nat (length r), r), w') \<and> view w' = view w"
  using assms
proof (induction later arbitrary: got w)
  case Nil
  have "sparse_run (sparse_byte log) (off + length got) (len - length got) = []"
  proof (cases "length got < len")
    case True
    then have "sparse_byte log (off + length got) = None"
      using Nil.prems(9) by (intro sparse_byte_no_range [OF Nil.prems(3), of "length start"]) auto
    then show ?thesis by (rule sparse_run_gap)
  qed simp
  with Nil.prems show ?case by simp
next
  case (Cons x later)
  obtain k rg where x: "x = (k, rg)" by force
  have "x \<in> set (log_ranges (length start) log)" using Cons.prems(7) by simp
  from in_log_ranges_ok [OF this Cons.prems(3)] obtain l a d crc l' where
    log: "log = l @ (a, d, crc) # l'" and xr: "x = (of_nat a, rng a d crc (length start + length (log_bytes l) + 32))"
    and d: "d \<noteq> []" "a + length d < 2 ^ 63" and ends: "rstart x = a" "rend x = a + length d"
    by metis
  let ?f = "sparse_byte log"
  have lt: "of_nat (length got) < (of_nat len :: u64) \<longleftrightarrow> length got < len"
    using Cons.prems(4,5) by (intro u64_of_nat(3)) linarith+
  have eq: "of_nat a = (of_nat off + of_nat (length got) :: u64) \<longleftrightarrow> a = off + length got"
  proof -
    have "of_nat a = (of_nat (off + length got) :: u64) \<longleftrightarrow> a = off + length got"
      using Cons.prems(4,5) d(2) by (intro u64_of_nat(4)) linarith+
    then show ?thesis by simp
  qed
  have le: "off + length got \<le> a" using Cons.prems(8) [of x] ends by simp
  show ?case
  proof (cases "length got < len \<and> a = off + length got")
    case False
    have "sparse_run ?f (off + length got) (len - length got) = []"
    proof (cases "length got < len")
      case True
      then have "off + length got < a" using le False by simp
      moreover have "a < rstart y" if "y \<in> set later" for y
        using Cons.prems(6) that ends by (auto simp: ordered_Cons rstart_def word_less_nat_alt)
      ultimately have "?f (off + length got) = None"
        using Cons.prems(9) True ends
        by (intro sparse_byte_no_range [OF Cons.prems(3), of "length start"]) fastforce
      then show ?thesis by (rule sparse_run_gap)
    qed simp
    then have "r = got" using Cons.prems(10) by simp
    with False show ?thesis using lt eq by (auto simp: xr)
  next
    case True
    let ?m = "min (len - length got) (length d)"
    let ?bs = "take ?m d"
    have m: "0 + ?m \<le> length d" "length ?bs = ?m" by simp_all
    obtain w1 where rd: "ReadSparseRange F S h (rng a d crc (length start + length (log_bytes l) + 32)) (of_nat 0)
        (of_nat ?m) w = Some (Some (slice 0 ?m d), w1)" "view w1 = view w"
      by (rule ReadSparseRange_ok [OF Cons.prems(1,2) [unfolded log] Cons.prems(3) [unfolded log] m(1)])
    have bs: "slice 0 ?m d = ?bs" by (simp add: slice_0)
    have mw: "min (of_nat len - of_nat (length got)) (of_nat (length d)) = (of_nat ?m :: u64)"
    proof -
      have "of_nat len - of_nat (length got) = (of_nat (len - length got) :: u64)"
        using True by (intro u64_diff) simp
      moreover have "min (of_nat (len - length got)) (of_nat (length d)) = (of_nat ?m :: u64)"
        using Cons.prems(5) d(2) by (intro u64_of_nat(5)) linarith+
      ultimately show ?thesis by (simp only:)
    qed
    have f: "?f (off + length got + i) = Some (?bs ! i)" if "i < length ?bs" for i
      using that True sparse_byte_Some [OF Cons.prems(3), of a d crc "a + i"] by (simp add: log)
    have "len - length got = length ?bs + (len - length got - ?m)" by simp
    then have run: "sparse_run ?f (off + length got) (len - length got)
        = ?bs @ sparse_run ?f (off + length (got @ ?bs)) (len - length (got @ ?bs))"
      using sparse_run_append [of ?bs ?f "off + length got" "len - length got - ?m", OF f]
      by (simp add: add.assoc)
    have "\<exists>w'. read_contiguous F S h (of_nat off) (of_nat len) later (of_nat (length (got @ ?bs))) (got @ ?bs) w1
        = Some (Some (of_nat (length r), r), w') \<and> view w' = view w1"
    proof (rule Cons.IH)
      show "r = (got @ ?bs) @ sparse_run ?f (off + length (got @ ?bs)) (len - length (got @ ?bs))"
        using Cons.prems(10) run by (simp del: take_take length_take)
      fix y assume y: "y \<in> set later"
      then have "rend x \<le> rstart y"
        using Cons.prems(6,7) by (intro later_starts [OF Cons.prems(3)]) (auto simp: ordered_Cons)
      then show "off + length (got @ ?bs) \<le> rstart y" using True ends m by simp
    next
      fix y assume y: "y \<in> set (log_ranges (length start) log)" "y \<notin> set later" "length (got @ ?bs) < len"
      then have "?m = length d" by simp
      moreover have "length got < len" using True by simp
      ultimately show "rend y \<le> off + length (got @ ?bs)"
        using Cons.prems(9) [of y] y ends True by (cases "y = x") auto
    qed (use Cons.prems rd(2) True in \<open>auto simp: ordered_Cons\<close>)
    then show ?thesis
      using True rd lt eq mw bs by (simp add: xr rd(1) [unfolded of_nat_0])
  qed
qed

end

text \<open>The ranges on the two sides of a position: only the last one before it can reach over it.\<close>

lemma log_mapD:
  assumes "log_map S log pos rs"
  shows "log_ok S log" "ordered rs" "x \<in> set rs \<longleftrightarrow> x \<in> set (log_ranges pos log)"
  using assms by (simp_all add: log_map_def)

lemma in_before_range: "log_map S log pos rs \<Longrightarrow> x \<in> set (before k rs) \<Longrightarrow> x \<in> set (log_ranges pos log)"
  using in_before log_mapD(3) by blast

lemma in_lower_bound_range: "log_map S log pos rs \<Longrightarrow> x \<in> set (lower_bound k rs) \<Longrightarrow> x \<in> set (log_ranges pos log)"
  using in_lower_bound log_mapD(2,3) by blast

lemma range_cases:
  assumes "log_map S log pos rs" and "x \<in> set (log_ranges pos log)"
  shows "x \<in> set (before k rs) \<or> x \<in> set (lower_bound k rs)"
proof -
  have "set (before k rs) \<union> set (lower_bound k rs) = set rs"
    using arg_cong [OF before_lower_bound [of k rs], of set] by simp
  with assms log_mapD(3) show ?thesis by blast
qed

lemma across:
  assumes m: "log_map S log pos rs" and x: "x \<in> set (before k rs)" and y: "y \<in> set (lower_bound k rs)"
  shows "rend x \<le> rstart y"
  using in_before [OF x] in_lower_bound [OF log_mapD(2) [OF m] y]
  by (intro later_starts [OF log_mapD(1) [OF m] in_before_range [OF m x] in_lower_bound_range [OF m y]]) auto

lemma before_less: "off < 2 ^ 63 \<Longrightarrow> x \<in> set (before (of_nat off) rs) \<Longrightarrow> rstart x < off"
  using in_before [of x "of_nat off" rs] u64_of_nat(1) [of off 0] by (simp add: rstart_def word_less_nat_alt)

lemma lower_bound_le: "log_map S log pos rs \<Longrightarrow> off < 2 ^ 63 \<Longrightarrow> y \<in> set (lower_bound (of_nat off) rs) \<Longrightarrow> off \<le> rstart y"
  using in_lower_bound [OF log_mapD(2), of S log pos rs y "of_nat off"] u64_of_nat(1) [of off 0]
  by (simp add: rstart_def word_le_nat_alt)

lemma before_not_last:
  assumes m: "log_map S log pos rs" and off: "off < 2 ^ 63"
    and x: "x \<in> set (before (of_nat off) rs)" "x \<noteq> last (before (of_nat off) rs)"
  shows "rend x \<le> off"
proof -
  define b where "b = before (of_nat off) rs"
  have x': "x \<in> set b" "x \<noteq> last b" using x by (simp_all add: b_def)
  then have ne: "b \<noteq> []" by auto
  then have e: "butlast b @ [last b] = b" by simp
  have "x \<in> set (butlast b @ [last b])" using x'(1) by (simp only: e)
  then have "x \<in> set (butlast b)" using x'(2) by simp
  moreover have "ordered (butlast b @ [last b])"
    unfolding e unfolding b_def by (rule ordered_parts(1) [OF log_mapD(2) [OF m]])
  ultimately have "fst x < fst (last b)" by (simp add: ordered_append)
  moreover have l: "last b \<in> set b" using ne by simp
  ultimately have "rend x \<le> rstart (last b)"
    using later_starts [OF log_mapD(1) [OF m] in_before_range [OF m] in_before_range [OF m]] x'(1)
    by (simp add: b_def)
  with before_less [OF off l [unfolded b_def]] show ?thesis by (simp add: b_def)
qed

context reliable_files begin

lemma read_overlapping_run:
  assumes m: "log_map S log (length start) rs"
    and c: "data (view w) (node h) = start @ log_bytes log" "length (data (view w) (node h)) < 2 ^ 62"
    and b: "off + len < 2 ^ 63"
  defines "below \<equiv> before (of_nat off) rs" and "later \<equiv> lower_bound (of_nat off) rs"
  obtains got w' where "read_overlapping F S h (of_nat off) (of_nat len) below w = Some (Some (of_nat (length got), got), w')"
    "view w' = view w" "length got \<le> len" "\<And>i. i < length got \<Longrightarrow> sparse_byte log (off + i) = Some (got ! i)"
    "\<And>y. y \<in> set later \<Longrightarrow> off + length got \<le> rstart y"
    "\<And>y. y \<in> set below \<Longrightarrow> length got < len \<Longrightarrow> rend y \<le> off + length got"
proof -
  note lm = log_mapD [OF m]
  have off: "off < 2 ^ 63" using b by linarith
  note low = lower_bound_le [OF m off, folded later_def]
  note other = before_not_last [OF m off, folded below_def]
  show thesis
  proof (cases "below = []")
    case True
    with that [of "[]" w] low show thesis by (simp add: read_overlapping_def)
  next
    case False
    then have l: "last below \<in> set below" by simp
    obtain l1 a d crc l2 where log: "log = l1 @ (a, d, crc) # l2"
      and x: "last below = (of_nat a, rng a d crc (length start + length (log_bytes l1) + 32))"
      and d: "d \<noteq> []" "a + length d < 2 ^ 63" and ends: "rstart (last below) = a" "rend (last below) = a + length d"
      using in_log_ranges_ok [OF in_before_range [OF m l [unfolded below_def]] lm(1), folded below_def] by metis
    have a: "a < off" using before_less [OF off l [unfolded below_def], folded below_def] ends by simp
    have nocheck: "CheckAdd64 (of_nat a) (of_nat (length d)) \<noteq> None"
    proof -
      have "uint (of_nat a :: u64) = int a" "uint (of_nat (length d) :: u64) = int (length d)"
        using d(2) by (intro uint_small; linarith)+
      then show ?thesis using d(2) by (simp add: CheckAdd64_def)
    qed
    have reach: "of_nat off < (of_nat a + of_nat (length d) :: u64) \<longleftrightarrow> off < a + length d"
    proof -
      have "of_nat off < (of_nat (a + length d) :: u64) \<longleftrightarrow> off < a + length d" by (rule u64_of_nat(3) [OF off d(2)])
      then show ?thesis by simp
    qed
    show thesis
    proof (cases "off < a + length d")
      case False
      have "rend y \<le> off" if "y \<in> set below" for y
        using other [OF that] ends False by (cases "y = last below") simp_all
      with that [of "[]" w] low nocheck reach False \<open>below \<noteq> []\<close> show thesis by (simp add: read_overlapping_def x)
    next
      case True
      let ?m = "min len (length d - (off - a))"
      let ?got = "slice (off - a) ?m d"
      have fit: "off - a + ?m \<le> length d" using True a by simp
      have got: "length ?got = ?m" using fit by (simp add: length_slice)
      have o: "of_nat off - of_nat a = (of_nat (off - a) :: u64)" using a by (intro u64_diff) simp
      have m': "min (of_nat len) (of_nat (length d) - of_nat (off - a)) = (of_nat ?m :: u64)"
      proof -
        have "of_nat (length d) - of_nat (off - a) = (of_nat (length d - (off - a)) :: u64)"
          using True a by (intro u64_diff) linarith
        moreover have "min (of_nat len) (of_nat (length d - (off - a))) = (of_nat ?m :: u64)"
          using b d(2) by (intro u64_of_nat(5)) linarith+
        ultimately show ?thesis by (simp only:)
      qed
      obtain w1 where rd: "ReadSparseRange F S h (rng a d crc (length start + length (log_bytes l1) + 32)) (of_nat (off - a))
          (of_nat ?m) w = Some (Some ?got, w1)" "view w1 = view w"
        by (rule ReadSparseRange_ok [OF c [unfolded log] lm(1) [unfolded log] fit])
      have "sparse_byte log (off + i) = Some (?got ! i)" if "i < length ?got" for i
      proof -
        have i: "i < ?m" using that got by simp
        then have "off + i < a + length d" using True a by linarith
        then have "sparse_byte log (off + i) = Some (d ! (off + i - a))"
          using a by (intro sparse_byte_Some [OF lm(1), where crc = crc]) (simp_all add: log)
        moreover have "?got ! i = d ! (off + i - a)" using i fit a by (simp add: slice_def)
        ultimately show ?thesis by simp
      qed
      moreover have "off + length ?got \<le> rstart y" if "y \<in> set later" for y
      proof -
        have "a + length d \<le> rstart y"
          using across [OF m l [unfolded below_def] that [unfolded later_def], folded below_def] ends by simp
        moreover have "off + ?m \<le> a + length d" using fit a by linarith
        ultimately show ?thesis by (simp only: got)
      qed
      moreover have "rend y \<le> off + length ?got" if "y \<in> set below" "length ?got < len" for y
      proof -
        have "?m < len" using that(2) by (simp only: got)
        then have "off + ?m = a + length d" using True a by linarith
        then have "off + length ?got = a + length d" by (simp only: got)
        then show ?thesis using other [OF that(1)] ends True by (cases "y = last below") simp_all
      qed
      moreover have "read_overlapping F S h (of_nat off) (of_nat len) below w = Some (Some (of_nat (length ?got), ?got), w1)"
        using nocheck reach True o m' rd(1) \<open>below \<noteq> []\<close> by (simp add: read_overlapping_def x got Let_def)
      ultimately show thesis using that [of ?got w1] rd(2) got by simp
    qed
  qed
qed

lemma ReadSparseData_run:
  assumes s: "has_sparse S E (view w) n key hash log"
    and op: "sparse_offset op = of_nat off" "sparse_buf_len op = of_nat len"
    and b: "off + len < 2 ^ 63" "int len \<le> INT_MAX"
  defines "r \<equiv> sparse_run (sparse_byte log) off len"
  shows "\<exists>w'. ReadSparseData F S op E w = Some (Net (length r), r, E, w') \<and> view w' = view w"
proof (cases "len = 0")
  case True
  then show ?thesis using op by (simp add: ReadSparseData_def r_def)
next
  case False
  let ?start = "sparse_start key hash" and ?rs = "sparse_ranges E"
  note E = has_sparseD(1) [OF s] and t = has_sparseD(2) [OF s] and c = has_sparseD(4,5) [OF s]
    and m = has_sparseD(7) [OF s]
  obtain h w0 where h: "tAcquire F (tracked_sparse E) w = (Some h, w0)" "node h = n" "view w0 = view w"
    by (rule acquire_ok [OF t])
  have c0: "data (view w0) (node h) = ?start @ log_bytes log" "length (data (view w0) (node h)) < 2 ^ 62"
    using c h by simp_all
  obtain got w1 where first: "read_overlapping F S h (of_nat off) (of_nat len) (before (of_nat off) ?rs) w0
      = Some (Some (of_nat (length got), got), w1)" "view w1 = view w0" "length got \<le> len"
    and run: "\<And>i. i < length got \<Longrightarrow> sparse_byte log (off + i) = Some (got ! i)"
    and later: "\<And>y. y \<in> set (lower_bound (of_nat off) ?rs) \<Longrightarrow> off + length got \<le> rstart y"
    and below: "\<And>y. y \<in> set (before (of_nat off) ?rs) \<Longrightarrow> length got < len \<Longrightarrow> rend y \<le> off + length got"
    by (rule read_overlapping_run [OF m c0 b(1)]) blast
  have c1: "data (view w1) (node h) = ?start @ log_bytes log" "length (data (view w1) (node h)) < 2 ^ 62"
    using c0 first(2) by simp_all
  have "len = length got + (len - length got)" using first(3) by simp
  then have r: "r = got @ sparse_run (sparse_byte log) (off + length got) (len - length got)"
    using sparse_run_append [OF run, of "len - length got"] by (simp add: r_def)
  obtain w2 where rest: "read_contiguous F S h (of_nat off) (of_nat len) (lower_bound (of_nat off) ?rs)
      (of_nat (length got)) got w1 = Some (Some (of_nat (length r), r), w2)" "view w2 = view w1"
    using read_contiguous_run [OF c1 log_mapD(1) [OF m] first(3) b(1)
        ordered_parts(2) [OF log_mapD(2) [OF m]] _ later _ r]
      in_lower_bound_range [OF m] range_cases [OF m] below
    by (meson subsetI)
  have "length r \<le> len" unfolding r_def by (rule length_sparse_run)
  then have lr: "length r < 2 ^ 63" "int (length r) \<le> INT_MAX" using b by linarith+
  have "(of_nat len :: u64) \<noteq> 0" using False b(1) u64_of_nat(4) [of len 0] by simp
  then show ?thesis
    using E op h first rest uint_small [OF lr(1)] u64_of_nat(1) [OF lr(1) lr(1)] lr(2)
    by (simp add: ReadSparseData_def Let_def)
qed

end

end
