(* ===== verification/Sync_Sparse_Write.thy ===== *)
theory Sync_Sparse_Write imports Sync_Sparse_Read begin

text \<open>
  Writing to the sparse stream: overwriting a part of one range, appending a range in a gap, and the
  walk over the ranges that the written region touches.
\<close>

section \<open>Changing the log\<close>

lemma apart_sym: "apart x y = apart y x"
  by (cases x; cases y) auto

lemma apart_same_length: "length d' = length d \<Longrightarrow> apart (a, d', crc') z = apart (a, d, crc) z"
  by (cases z) simp

lemma log_ok_append:
  "log_ok S (l @ l') \<longleftrightarrow> log_ok S l \<and> log_ok S l' \<and> (\<forall>x\<in>set l. \<forall>y\<in>set l'. apart x y)"
  by (auto simp: log_ok_def sorted_wrt_append)

lemma log_ok_replace:
  assumes "log_ok S (l @ (a, d, crc) # l')" and len: "length d' = length d" and "record_ok S (a, d', crc')"
  shows "log_ok S (l @ (a, d', crc') # l')"
proof -
  have "apart z (a, d', crc') = apart z (a, d, crc)" for z
    using apart_same_length [OF len, of a crc' z crc] by (simp only: apart_sym)
  moreover have "apart (a, d', crc') z = apart (a, d, crc) z" for z by (rule apart_same_length [OF len])
  ultimately show ?thesis using assms(1,3) by (auto simp: log_ok_append log_ok_Cons simp del: record_ok.simps apart.simps)
qed

lemma record_header_same_length: "length d' = length d \<Longrightarrow> record_header a d' crc = record_header a d crc"
  by (simp add: record_header_def rng_def range_header_def)

lemma rng_same_length: "length d' = length d \<Longrightarrow> rng a d' crc pos = rng a d crc pos"
  by (simp add: rng_def)

text \<open>No other range of the log has the same key.\<close>

lemma other_keys:
  assumes ok: "log_ok S (l @ (a, d, crc) # l')"
    and z: "z \<in> set (log_ranges pos l) \<or> z \<in> set (log_ranges pos' l')"
  shows "fst z \<noteq> of_nat a"
proof -
  have a: "record_ok S (a, d, crc)" and l: "log_ok S l" "log_ok S l'"
    and ap: "\<And>y. y \<in> set l \<or> y \<in> set l' \<Longrightarrow> apart (a, d, crc) y"
    using ok apart_sym by (auto simp: log_ok_append log_ok_Cons)
  obtain a2 d2 crc2 where e: "(a2, d2, crc2) \<in> set l \<or> (a2, d2, crc2) \<in> set l'" "d2 \<noteq> []" "rstart z = a2"
  proof -
    from z show thesis
    proof
      assume "z \<in> set (log_ranges pos l)"
      from in_log_ranges_ok [OF this l(1)] that show thesis by (metis in_set_conv_decomp)
    next
      assume "z \<in> set (log_ranges pos' l')"
      from in_log_ranges_ok [OF this l(2)] that show thesis by (metis in_set_conv_decomp)
    qed
  qed
  have "a2 \<noteq> a" using ap [OF e(1)] e(2) a by auto
  moreover have "a < 2 ^ 63" using a by simp
  ultimately show ?thesis using e(3) u64_of_nat(1) [of a 0] by (auto simp: rstart_def)
qed

lemma log_map_replace:
  assumes m: "log_map S (l @ (a, d, crc) # l') pos rs" and len: "length d' = length d" and ok: "record_ok S (a, d', crc')"
  shows "log_map S (l @ (a, d', crc') # l') pos
      (update_range (of_nat a) (rng a d' crc' (pos + length (log_bytes l) + 32)) rs)"
proof -
  let ?p = "pos + length (log_bytes l)"
  let ?f = "\<lambda>(k', r'). if k' = of_nat a then (k', rng a d' crc' (?p + 32)) else (k', r')"
  note ok1 = log_mapD(1) [OF m]
  have other: "?f z = z" if "z \<in> set (log_ranges pos l) \<or> z \<in> set (log_ranges (?p + 32 + length d) l')" for z
    using other_keys [OF ok1 that] by (cases z) simp
  then have img: "?f ` set (log_ranges pos l) = set (log_ranges pos l)"
    "?f ` set (log_ranges (?p + 32 + length d) l') = set (log_ranges (?p + 32 + length d) l')"
    by (auto simp: image_iff intro: rev_bexI)
  have "set rs = set (log_ranges pos (l @ (a, d, crc) # l'))" using m by (simp add: log_map_def)
  then have "?f ` set rs = set (log_ranges pos (l @ (a, d', crc') # l'))"
    using img len by (simp add: log_ranges_append image_Un)
  then show ?thesis
    using m log_ok_replace [OF ok1 len ok] by (simp add: log_map_def ordered_update_range set_update_range)
qed

lemma nth_overwrite:
  "x + length bs \<le> length d \<Longrightarrow> i < length d \<Longrightarrow>
     overwrite x bs d ! i = (if x \<le> i \<and> i < x + length bs then bs ! (i - x) else d ! i)"
  by (auto simp: overwrite_def nth_append min_def)

lemma sparse_byte_replace_other:
  "length d' = length d \<Longrightarrow> \<not> (a \<le> p \<and> p < a + length d) \<Longrightarrow>
     sparse_byte (l @ (a, d', crc') # l') p = sparse_byte (l @ (a, d, crc) # l') p"
  by (induction l rule: log_size.induct) auto

lemma sparse_byte_replace:
  assumes ok: "log_ok S (l @ (a, d, crc) # l')" "log_ok S (l @ (a, overwrite x bs d, crc') # l')"
    and x: "x + length bs \<le> length d"
  shows "sparse_byte (l @ (a, overwrite x bs d, crc') # l') = sparse_update (a + x) bs (sparse_byte (l @ (a, d, crc) # l'))"
proof
  fix p
  have len: "length (overwrite x bs d) = length d" using x by (auto simp: length_overwrite)
  show "sparse_byte (l @ (a, overwrite x bs d, crc') # l') p = sparse_update (a + x) bs (sparse_byte (l @ (a, d, crc) # l')) p"
  proof (cases "a \<le> p \<and> p < a + length d")
    case True
    have "sparse_byte (l @ (a, overwrite x bs d, crc') # l') p = Some (overwrite x bs d ! (p - a))"
      using True len by (intro sparse_byte_Some [OF ok(2), where crc = crc']) auto
    moreover have "sparse_byte (l @ (a, d, crc) # l') p = Some (d ! (p - a))"
      using True by (intro sparse_byte_Some [OF ok(1), where crc = crc]) auto
    moreover have "p - a < length d" "(x \<le> p - a \<and> p - a < x + length bs) = (a + x \<le> p \<and> p < a + x + length bs)"
      "p - a - x = p - (a + x)"
      using True by auto
    ultimately show ?thesis using nth_overwrite [OF x] by (simp add: sparse_update_def)
  next
    case False
    then have "\<not> (a + x \<le> p \<and> p < a + x + length bs)" using x by auto
    then show ?thesis using sparse_byte_replace_other [OF len False, of l crc' l' crc] by (auto simp: sparse_update_def)
  qed
qed

lemma sparse_byte_append:
  assumes "\<And>p. a \<le> p \<Longrightarrow> p < a + length d \<Longrightarrow> sparse_byte log p = None"
  shows "sparse_byte (log @ [(a, d, crc)]) = sparse_update a d (sparse_byte log)"
proof
  fix p
  have "sparse_byte (log @ [(a, d, crc)]) p = (case sparse_byte log p of None \<Rightarrow>
      (if a \<le> p \<and> p < a + length d then Some (d ! (p - a)) else None) | Some b \<Rightarrow> Some b)"
    by (induction log rule: log_size.induct) auto
  then show "sparse_byte (log @ [(a, d, crc)]) p = sparse_update a d (sparse_byte log) p"
    using assms [of p] by (auto simp: sparse_update_def split: option.split)
qed

lemma log_size_replace: "length d' = length d \<Longrightarrow> log_size (l @ (a, d', crc') # l') = log_size (l @ (a, d, crc) # l')"
  by simp

section \<open>Steps on the file\<close>

definition only_data :: "nat \<Rightarrow> fs \<Rightarrow> fs \<Rightarrow> bool" where
  "only_data n v v' \<longleftrightarrow> dir v' = dir v \<and> table v' = table v \<and> (data v')(n := []) = (data v)(n := [])"

lemma only_data_refl [simp]: "only_data n v v"
  by (simp add: only_data_def)

lemma only_data_put [simp]: "only_data n v (put_data n bs v)"
  by (simp add: only_data_def)

lemma only_data_trans [trans]: "only_data n v v' \<Longrightarrow> only_data n v' v'' \<Longrightarrow> only_data n v v''"
  by (simp add: only_data_def)

lemma has_sparse_step:
  assumes s: "has_sparse S E v n key hash log" and only: "only_data n v v'"
    and c: "data v' n = sparse_start key hash @ log_bytes log'" "length (data v' n) < 2 ^ 62"
    and m: "log_map S log' (length (sparse_start key hash)) rs"
  shows "has_sparse S (E\<lparr>sparse_ranges := rs, sparse_tail_offset := of_nat (length (data v' n))\<rparr>) v' n key hash log'"
proof -
  have "tracked_sparse (E\<lparr>sparse_ranges := rs, sparse_tail_offset := of_nat (length (data v' n))\<rparr>) = tracked_sparse E"
    by (simp add: tracked_sparse_def)
  then show ?thesis using has_sparseD [OF s] only c m unfolding has_sparse_def by (simp add: only_data_def)
qed

lemma has_sparse_step_same:
  assumes s: "has_sparse S E v n key hash log" and only: "only_data n v v'"
    and c: "data v' n = sparse_start key hash @ log_bytes log'" "length (data v' n) = length (data v n)"
    and m: "log_map S log' (length (sparse_start key hash)) rs"
  shows "has_sparse S (E\<lparr>sparse_ranges := rs\<rparr>) v' n key hash log'"
proof -
  have "length (data v' n) < 2 ^ 62" using has_sparseD(5) [OF s] c(2) by simp
  from has_sparse_step [OF s only c(1) this m]
  have "has_sparse S (E\<lparr>sparse_ranges := rs, sparse_tail_offset := of_nat (length (data v' n))\<rparr>) v' n key hash log'" .
  moreover have "of_nat (length (data v' n)) = sparse_tail_offset E" using has_sparseD(6) [OF s] c(2) by simp
  ultimately show ?thesis by (simp only:) simp
qed

lemma overwrite_same_place:
  "length ys = length bs \<Longrightarrow> overwrite (length xs) bs (xs @ ys @ zs) = xs @ bs @ zs"
  by (rule overwrite_middle) simp_all

context reliable_files begin

lemma write_check_at:
  assumes "data (view w) (node h) = c"
  obtains w' where "fWriteAndCheck F h (int off) bs w = (True, w')"
    "view w' = put_data (node h) (overwrite off bs c) (view w)"
  using write_check_ok [of "int off" h bs w] assms by auto

lemma WriteSparseRange_ok:
  assumes s: "has_sparse S E (view w) (node h) key hash (l @ (a, d, crc) # l')"
    and x: "x + m \<le> length d" "m \<le> length buf"
  defines "bs \<equiv> take m buf" and "p \<equiv> length (sparse_start key hash) + length (log_bytes l) + 32"
  obtains crc' w' where "WriteSparseRange F S h (rng a d crc p) (of_nat x) (of_nat m) buf w
      = Some (True, rng a (overwrite x bs d) crc' p, w')"
    "has_sparse S (E\<lparr>sparse_ranges := update_range (of_nat a) (rng a (overwrite x bs d) crc' p) (sparse_ranges E)\<rparr>)
       (view w') (node h) key hash (l @ (a, overwrite x bs d, crc') # l')"
    "only_data (node h) (view w) (view w')" "length (data (view w') (node h)) = length (data (view w) (node h))"
    "sparse_byte (l @ (a, overwrite x bs d, crc') # l') = sparse_update (a + x) bs (sparse_byte (l @ (a, d, crc) # l'))"
proof -
  let ?start = "sparse_start key hash"
  let ?pre = "?start @ log_bytes l"
  note c = has_sparseD(4,5) [OF s] and m = has_sparseD(7) [OF s]
  note ok = log_mapD(1) [OF m]
  define d' where "d' = overwrite x bs d"
  define crc' where "crc' = (if (of_nat x :: u64) = 0 \<and> (of_nat m :: u64) = of_nat (length d) then Crc32 (sys_zlib S) bs else 0)"
  have bs: "length bs = m" using x(2) by (simp add: bs_def)
  have len: "length d' = length d" using x(1) bs by (auto simp: d'_def length_overwrite)
  have fit: "p + length d \<le> length (data (view w) (node h))" unfolding p_def by (rule range_bytes(2) [OF c(1) x(1)])
  have b: "p + x < 2 ^ 63" "m < 2 ^ 63" "length d < 2 ^ 63" using fit c(2) x(1) by simp_all
  have p32: "p - 32 = length ?pre" "32 \<le> p" by (simp_all add: p_def)
  have rec: "record_ok S (a, d', crc')"
  proof -
    have "crc' = 0 \<or> crc' = Crc32 (sys_zlib S) d'"
    proof (cases "crc' = 0")
      case False
      then have z: "(of_nat x :: u64) = 0" "(of_nat m :: u64) = of_nat (length d)" by (auto simp: crc'_def split: if_splits)
      then have "x = 0" "m = length d" using b u64_of_nat(4) [of x 0] u64_of_nat(4) [OF b(2,3)] by simp_all
      then have "d' = bs" using bs by (auto simp: d'_def overwrite_def)
      then show ?thesis using z by (simp add: crc'_def)
    qed simp
    then show ?thesis using log_okD(1,2) [OF ok] len by auto
  qed
  \<comment> \<open>the header\<close>
  obtain w1 where w1: "(if crc' \<noteq> crc then
      fWriteAndCheck F h (wrap64 (int p - 32)) (record_header a d crc') w else (True, w)) = (True, w1)"
    "view w1 = put_data (node h) (?pre @ record_header a d crc' @ d @ log_bytes l') (view w)"
  proof (cases "crc' = crc")
    case True
    moreover have "put_data (node h) (?pre @ record_header a d crc @ d @ log_bytes l') (view w) = view w"
      using c(1) put_data_same [of "node h" "view w"] by simp
    ultimately show thesis using that [of w] by simp
  next
    case False
    have "int p - 32 = int (p - 32)" using p32(2) by simp
    moreover have "wrap64 (int (p - 32)) = int (p - 32)" using b(1) by (intro wrap64_id) simp_all
    ultimately have wr: "wrap64 (int p - 32) = int (length ?pre)" by (simp only: p32(1))
    have cc: "data (view w) (node h) = ?pre @ record_header a d crc @ d @ log_bytes l'" using c(1) by simp
    obtain w1 where "fWriteAndCheck F h (int (length ?pre)) (record_header a d crc') w = (True, w1)"
      "view w1 = put_data (node h) (overwrite (length ?pre) (record_header a d crc')
         (?pre @ record_header a d crc @ d @ log_bytes l')) (view w)"
      by (rule write_check_at [OF cc])
    then show thesis using that [of w1] False
      overwrite_same_place [of "record_header a d crc" "record_header a d crc'" ?pre "d @ log_bytes l'"]
      by (simp only: wr length_record_header simp_thms if_True)
  qed
  \<comment> \<open>the bytes\<close>
  let ?pre' = "?pre @ record_header a d crc'"
  have lp: "length ?pre' = p" by (simp add: p_def)
  have cc1: "data (view w1) (node h) = ?pre' @ d @ log_bytes l'" by (simp add: w1(2))
  obtain w2 where w2: "fWriteAndCheck F h (int (p + x)) bs w1 = (True, w2)"
    "view w2 = put_data (node h) (overwrite (p + x) bs (?pre' @ d @ log_bytes l')) (view w1)"
    by (rule write_check_at [OF cc1])
  have "overwrite (length ?pre' + x) bs (?pre' @ d @ log_bytes l') = ?pre' @ d' @ log_bytes l'"
    unfolding overwrite_shift using x(1) bs by (simp add: overwrite_prefix d'_def)
  then have v: "view w2 = put_data (node h) (?pre' @ d' @ log_bytes l') (view w)"
    by (simp only: w2(2) w1(2) lp put_data_twice)
  have rr: "rng a d crc p\<lparr>range_data_crc32 := crc'\<rparr> = rng a d crc' p" by (simp add: rng_def)
  have w1': "(if crc' \<noteq> crc then (case fWriteAndCheck F h (wrap64 (int p - 32)) (record_header a d crc') w of
        (ok, w) \<Rightarrow> (ok, rng a d crc' p, w)) else (True, rng a d crc p, w)) = (True, rng a d crc' p, w1)"
    using w1(1) by (cases "crc' = crc") simp_all
  show thesis
  proof (rule that [of crc' w2], unfold d'_def [symmetric])
    have um: "unat (of_nat m :: u64) = m" by (rule u64_of_nat(1) [OF b(2,2)])
    have crc_eq: "(if (of_nat x :: u64) = 0 \<and> (of_nat m :: u64) = range_length (rng a d crc p)
        then Crc32 (sys_zlib S) (take (unat (of_nat m :: u64)) buf) else 0) = crc'"
      by (simp only: rng_fields um bs_def crc'_def)
    have "WriteSparseRange F S h (rng a d crc p) (of_nat x) (of_nat m) buf w = Some (True, rng a d crc' p, w2)"
      unfolding WriteSparseRange_def crc_eq
      using in_range_check_of_nat [OF x(1) b(3), of a crc p] range_pos_of_nat [OF b(1), of a d crc']
        range_pos_of_nat [OF b(1), of a d crc] w2(1) w1'
      by (cases "crc' = crc") (auto simp: Let_def um bs_def [symmetric] rr record_header split: prod.splits)
    then show "WriteSparseRange F S h (rng a d crc p) (of_nat x) (of_nat m) buf w = Some (True, rng a d' crc' p, w2)"
      by (simp only: rng_same_length [OF len])
    have c2: "data (view w2) (node h) = ?start @ log_bytes (l @ (a, d', crc') # l')"
      by (simp add: v record_header_same_length [OF len])
    then show len2: "length (data (view w2) (node h)) = length (data (view w) (node h))" by (simp add: c(1) len)
    show only: "only_data (node h) (view w) (view w2)" by (simp add: v)
    show "has_sparse S (E\<lparr>sparse_ranges := update_range (of_nat a) (rng a d' crc' p) (sparse_ranges E)\<rparr>)
        (view w2) (node h) key hash (l @ (a, d', crc') # l')"
      by (rule has_sparse_step_same [OF s only c2 len2 log_map_replace [OF m len rec, folded p_def]])
    have "log_ok S (l @ (a, d', crc') # l')" by (rule log_ok_replace [OF ok len rec])
    then show "sparse_byte (l @ (a, d', crc') # l') = sparse_update (a + x) bs (sparse_byte (l @ (a, d, crc) # l'))"
      using sparse_byte_replace [OF ok] x(1) bs unfolding d'_def by blast
  qed
qed

lemma write_at_end:
  assumes "data (view w) (node h) = c"
  obtains w' where "fWrite F h (int (length c)) bs w = (Some (length bs), w')"
    "view w' = put_data (node h) (c @ bs) (view w)"
proof -
  obtain r w' where r: "fWrite F h (int (length c)) bs w = (r, w')" by force
  with writes [of "int (length c)" h bs w] have "r = Some (length bs)" by simp
  with write_law [OF r] r show thesis using that [of w'] assms by (simp add: overwrite_append_end)
qed

lemma AppendSparseRange_ok:
  assumes s: "has_sparse S E (view w) (node h) key hash log"
    and m: "m \<le> length buf" "0 < m" "a + m < 2 ^ 63"
    and gap: "\<And>x. x \<in> set (sparse_ranges E) \<Longrightarrow> rend x \<le> a \<or> a + m \<le> rstart x"
    and space: "length (data (view w) (node h)) + 32 + m < 2 ^ 62"
  defines "bs \<equiv> take m buf"
  obtains E' w' y where "AppendSparseRange F S h (of_nat a) (of_nat m) buf E w = (True, E', w')"
    "has_sparse S E' (view w') (node h) key hash (log @ [(a, bs, Crc32 (sys_zlib S) bs)])"
    "only_data (node h) (view w) (view w')"
    "length (data (view w') (node h)) = length (data (view w) (node h)) + 32 + m"
    "sparse_byte (log @ [(a, bs, Crc32 (sys_zlib S) bs)]) = sparse_update a bs (sparse_byte log)"
    "set (sparse_ranges E') = insert y (set (sparse_ranges E))" "rend y = a + m"
proof -
  let ?start = "sparse_start key hash" and ?crc = "Crc32 (sys_zlib S) bs"
  let ?c = "data (view w) (node h)" and ?rec = "record_header a bs (Crc32 (sys_zlib S) bs)"
  note c = has_sparseD(4) [OF s] and mp = has_sparseD(7) [OF s] and tail = has_sparseD(6) [OF s]
  note ok = log_mapD(1) [OF mp] and rs = log_mapD(3) [OF mp]
  have bs: "length bs = m" using m(1) by (simp add: bs_def)
  have lw: "unat (of_nat m :: u64) = m" using u64_of_nat(1) [of m 0] m(3) by simp
  let ?t = "length ?c + 32"
  have t: "wrap64 (uint (of_nat k :: u64)) = int k" if "k < 2 ^ 63" for k
  proof -
    have "wrap64 (int k) = int k" using that by (intro wrap64_id) simp_all
    then show ?thesis using that by (simp only: uint_small)
  qed
  have b: "length ?c < 2 ^ 63" "?t < 2 ^ 63" using space by simp_all
  obtain w1 where w1: "fWrite F h (int (length ?c)) ?rec w = (Some 32, w1)" "view w1 = put_data (node h) (?c @ ?rec) (view w)"
    using write_at_end [OF refl, where bs = ?rec] by (metis length_record_header)
  have c1: "data (view w1) (node h) = ?c @ ?rec" by (simp add: w1(2))
  have "length (?c @ ?rec) = ?t" by simp
  then obtain w2 where w2: "fWrite F h (int ?t) bs w1 = (Some m, w2)" "view w2 = put_data (node h) (?c @ ?rec @ bs) (view w)"
    using write_at_end [OF c1, of bs thesis] bs by (simp add: w1(2))
  let ?rg = "rng a bs ?crc ?t"
  let ?E = "E\<lparr>sparse_ranges := emplace (of_nat a) ?rg (sparse_ranges E), sparse_tail_offset := of_nat (?t + m)\<rparr>"
  have hdr: "sparse_range_bytes (range_header \<lparr>range_offset = of_nat a, range_length = of_nat m, range_data_crc32 = ?crc,
      range_file_offset = 0\<rparr>) = ?rec"
    using record_header [of a bs ?crc 0] by (simp add: rng_def bs)
  have rg: "\<lparr>range_offset = of_nat a, range_length = of_nat m, range_data_crc32 = ?crc, range_file_offset = int ?t\<rparr> = ?rg"
    by (simp add: rng_def bs)
  have ap: "AppendSparseRange F S h (of_nat a) (of_nat m) buf E w = (True, ?E, w2)"
  proof -
    have tail': "sparse_tail_offset E + 32 = of_nat ?t" by (simp add: tail)
    have "wrap64 (uint (sparse_tail_offset E)) = int (length ?c)" using t [OF b(1)] by (simp only: tail)
    moreover have "wrap64 (uint (sparse_tail_offset E + 32)) = int ?t" using t [OF b(2)] by (simp only: tail')
    ultimately show ?thesis
      using w1(1) w2(1) hdr rg tail
      by (simp add: AppendSparseRange_def Let_def lw bs_def [symmetric])
  qed
  have key: "of_nat a \<notin> fst ` set (sparse_ranges E)"
  proof
    assume "of_nat a \<in> fst ` set (sparse_ranges E)"
    then obtain x where x: "x \<in> set (sparse_ranges E)" "fst x = of_nat a" by auto
    from x(1) rs have "x \<in> set (log_ranges (length ?start) log)" by blast
    from in_log_ranges_ok [OF this ok] have "rstart x < rend x" by (metis add.right_neutral add_less_cancel_left length_greater_0_conv)
    moreover have "rstart x = a" using x(2) u64_of_nat(1) [of a 0] m(3) by (simp add: rstart_def)
    ultimately show False using gap [OF x(1)] m(2) by simp
  qed
  note em = emplace_new [OF log_mapD(2) [OF mp] key, of ?rg]
  have none: "sparse_byte log p = None" if "a \<le> p" "p < a + length bs" for p
    using gap rs that bs by (intro sparse_byte_no_range [OF ok, of "length ?start"]) fastforce
  have ok': "log_ok S (log @ [(a, bs, ?crc)])"
  proof -
    have "apart x (a, bs, ?crc)" if x: "x \<in> set log" for x
    proof -
      obtain l l' where log: "log = l @ x # l'" using x by (auto simp: in_set_conv_decomp)
      obtain a2 d2 crc2 where x': "x = (a2, d2, crc2)" by (cases x)
      let ?y = "(of_nat a2, rng a2 d2 crc2 (length ?start + length (log_bytes l) + 32)) :: u64 \<times> SparseRange"
      have y: "?y \<in> set (log_ranges (length ?start) log)" unfolding log x' by (rule log_ranges_mem)
      have "a2 + length d2 < 2 ^ 63" using log_okD(2) [OF ok [unfolded log x']] .
      then have "a2 < 2 ^ 63" "length d2 < 2 ^ 63" by linarith+
      then have "rstart ?y = a2" "rend ?y = a2 + length d2" using u64_of_nat(1) by (simp_all add: rstart_def rend_def)
      then show ?thesis using gap [of ?y] y rs x' bs by auto
    qed
    moreover have "log_ok S [(a, bs, ?crc)]" using bs m by (auto simp: log_ok_def)
    ultimately show ?thesis using ok by (simp add: log_ok_append)
  qed
  have c2: "data (view w2) (node h) = ?start @ log_bytes (log @ [(a, bs, ?crc)])" by (simp add: w2(2) c)
  have len2: "length (data (view w2) (node h)) = ?t + m" by (simp add: w2(2) bs)
  have mp2: "log_map S (log @ [(a, bs, ?crc)]) (length ?start) (emplace (of_nat a) ?rg (sparse_ranges E))"
    using em ok' mp by (auto simp: log_map_def log_ranges_append c add.assoc)
  show thesis
  proof (rule that [OF ap])
    have "has_sparse S (E\<lparr>sparse_ranges := emplace (of_nat a) ?rg (sparse_ranges E),
        sparse_tail_offset := of_nat (length (data (view w2) (node h)))\<rparr>) (view w2) (node h) key hash (log @ [(a, bs, ?crc)])"
      by (rule has_sparse_step [OF s _ c2 _ mp2]) (use space in \<open>simp_all add: w2(2) bs\<close>)
    then show "has_sparse S ?E (view w2) (node h) key hash (log @ [(a, bs, ?crc)])" by (simp only: len2)
    show "only_data (node h) (view w) (view w2)" "length (data (view w2) (node h)) = length ?c + 32 + m"
      by (simp_all add: w2(2) bs)
    show "sparse_byte (log @ [(a, bs, ?crc)]) = sparse_update a bs (sparse_byte log)"
      by (rule sparse_byte_append [OF none])
    show "set (sparse_ranges ?E) = insert (of_nat a, ?rg) (set (sparse_ranges E))" using em(1) by simp
    have "a < 2 ^ 63" "length bs < 2 ^ 63" using m(3) bs by linarith+
    then show "rend (of_nat a, ?rg) = a + m" using u64_of_nat(1) bs by (simp add: rend_def)
  qed
qed

end

section \<open>The walk\<close>

text \<open>
  After \<open>k\<close> bytes of the buffer and \<open>ap\<close> of them in new ranges: the entry has a sparse file in which the
  first \<open>k\<close> bytes are written over the stream \<open>f\<close>, which took \<open>sz\<close> bytes.
\<close>

definition written_up_to ::
    "sys \<Rightarrow> sparse_map \<Rightarrow> nat \<Rightarrow> nat \<Rightarrow> bytes \<Rightarrow> bytes \<Rightarrow> u32 \<Rightarrow> nat \<Rightarrow> fs \<Rightarrow> nat \<Rightarrow> nat \<Rightarrow> SyncEntry \<Rightarrow> fs \<Rightarrow> bool" where
  "written_up_to S f sz off buf key hash n v0 k ap E v \<longleftrightarrow>
     (\<exists>log. has_sparse S E v n key hash log \<and> sparse_byte log = sparse_update off (take k buf) f
        \<and> log_size log = sz + ap)
     \<and> k \<le> length buf \<and> only_data n v0 v"

context reliable_files begin

lemma append_gap:
  assumes inv: "written_up_to S f sz off buf key hash (node h) v0 k ap E (view w)"
    and k': "k < k'" "k' \<le> length buf" "off + k' < 2 ^ 63"
    and gap: "\<And>x. x \<in> set (sparse_ranges E) \<Longrightarrow> rend x \<le> off + k \<or> off + k' \<le> rstart x"
    and space: "length (data (view w) (node h)) + 32 + (k' - k) < 2 ^ 62"
  obtains E' w' y where "AppendSparseRange F S h (of_nat off + of_nat k) (of_nat (k' - k)) (drop k buf) E w = (True, E', w')"
    "written_up_to S f sz off buf key hash (node h) v0 k' (ap + (k' - k)) E' (view w')"
    "length (data (view w') (node h)) = length (data (view w) (node h)) + 32 + (k' - k)"
    "set (sparse_ranges E') = insert y (set (sparse_ranges E))" "rend y = off + k'"
proof -
  obtain log where log: "has_sparse S E (view w) (node h) key hash log"
    "sparse_byte log = sparse_update off (take k buf) f" "log_size log = sz + ap"
    and v0: "only_data (node h) v0 (view w)"
    using inv by (auto simp: written_up_to_def)
  let ?m = "k' - k" and ?bs = "take (k' - k) (drop k buf)"
  have m: "?m \<le> length (drop k buf)" "0 < ?m" "off + k + ?m < 2 ^ 63" using k' by simp_all
  have gap': "rend x \<le> off + k \<or> off + k + ?m \<le> rstart x" if "x \<in> set (sparse_ranges E)" for x
    using gap [OF that] k'(1) by simp
  obtain E' w' y where a: "AppendSparseRange F S h (of_nat (off + k)) (of_nat ?m) (drop k buf) E w = (True, E', w')"
    "has_sparse S E' (view w') (node h) key hash (log @ [(off + k, ?bs, Crc32 (sys_zlib S) ?bs)])"
    "only_data (node h) (view w) (view w')"
    "length (data (view w') (node h)) = length (data (view w) (node h)) + 32 + ?m"
    "sparse_byte (log @ [(off + k, ?bs, Crc32 (sys_zlib S) ?bs)]) = sparse_update (off + k) ?bs (sparse_byte log)"
    "set (sparse_ranges E') = insert y (set (sparse_ranges E))" "rend y = off + k + ?m"
    by (rule AppendSparseRange_ok [OF log(1) m gap' space])
  have "take k' buf = take k buf @ ?bs" using k'(1) take_add [of k ?m buf] by simp
  then have "sparse_byte (log @ [(off + k, ?bs, Crc32 (sys_zlib S) ?bs)]) = sparse_update off (take k' buf) f"
    using a(5) log(2) k' sparse_update_extend [of off "take k buf" ?bs f] by simp
  moreover have "log_size (log @ [(off + k, ?bs, Crc32 (sys_zlib S) ?bs)]) = sz + (ap + ?m)"
    using log(3) m(1) by simp
  ultimately have "written_up_to S f sz off buf key hash (node h) v0 k' (ap + ?m) E' (view w')"
    unfolding written_up_to_def using a(2) k'(2) only_data_trans [OF v0 a(3)] by blast
  with that [of E' w' y] a k'(1) show thesis by simp
qed

lemma overwrite_range:
  assumes inv: "written_up_to S f sz off buf key hash (node h) v0 k ap E (view w)"
    and x0: "x0 \<in> set (sparse_ranges E)" and at: "rstart x0 + x = off + k"
    and m: "x + m \<le> unat (range_length (snd x0))" "k + m \<le> length buf"
  defines "E' \<equiv> \<lambda>rg. E\<lparr>sparse_ranges := update_range (fst x0) rg (sparse_ranges E)\<rparr>"
  obtains rg w' where "WriteSparseRange F S h (snd x0) (of_nat x) (of_nat m) (drop k buf) w = Some (True, rg, w')"
    "written_up_to S f sz off buf key hash (node h) v0 (k + m) ap (E' rg) (view w')"
    "length (data (view w') (node h)) = length (data (view w) (node h))" "rend (fst x0, rg) = rend x0"
proof -
  obtain log where log: "has_sparse S E (view w) (node h) key hash log"
    "sparse_byte log = sparse_update off (take k buf) f" "log_size log = sz + ap"
    and v0: "only_data (node h) v0 (view w)" and k: "k \<le> length buf"
    using inv by (auto simp: written_up_to_def)
  note mp = has_sparseD(7) [OF log(1)]
  have "x0 \<in> set (log_ranges (length (sparse_start key hash)) log)" using x0 log_mapD(3) [OF mp] by blast
  from in_log_ranges_ok [OF this log_mapD(1) [OF mp]] obtain l a d crc l' where
    e: "log = l @ (a, d, crc) # l'" "x0 = (of_nat a, rng a d crc (length (sparse_start key hash) + length (log_bytes l) + 32))"
    "rstart x0 = a" "rend x0 = a + length d" "a + length d < 2 ^ 63" by metis
  have "length d < 2 ^ 63" using e(5) by linarith
  then have ld: "unat (of_nat (length d) :: u64) = length d" using u64_of_nat(1) by blast
  have xm: "x + m \<le> length d" "m \<le> length (drop k buf)" using m e(2) ld k by simp_all
  let ?bs = "take m (drop k buf)" and ?p = "length (sparse_start key hash) + length (log_bytes l) + 32"
  obtain crc' w' where w: "WriteSparseRange F S h (rng a d crc ?p) (of_nat x) (of_nat m) (drop k buf) w
      = Some (True, rng a (overwrite x ?bs d) crc' ?p, w')"
    "has_sparse S (E\<lparr>sparse_ranges := update_range (of_nat a) (rng a (overwrite x ?bs d) crc' ?p) (sparse_ranges E)\<rparr>)
       (view w') (node h) key hash (l @ (a, overwrite x ?bs d, crc') # l')"
    "only_data (node h) (view w) (view w')" "length (data (view w') (node h)) = length (data (view w) (node h))"
    "sparse_byte (l @ (a, overwrite x ?bs d, crc') # l') = sparse_update (a + x) ?bs (sparse_byte (l @ (a, d, crc) # l'))"
    by (rule WriteSparseRange_ok [OF log(1) [unfolded e(1)] xm])
  have len: "length (overwrite x ?bs d) = length d" using xm by (auto simp: length_overwrite)
  have "take (k + m) buf = take k buf @ ?bs" by (rule take_add)
  then have "sparse_byte (l @ (a, overwrite x ?bs d, crc') # l') = sparse_update off (take (k + m) buf) f"
    using w(5) log(2) k e(1,3) at sparse_update_extend [of off "take k buf" ?bs f] by simp
  moreover have "log_size (l @ (a, overwrite x ?bs d, crc') # l') = sz + ap"
    using log(3) log_size_replace [OF len, of l a crc' l' crc] by (simp only: e(1))
  ultimately have "written_up_to S f sz off buf key hash (node h) v0 (k + m) ap (E' (rng a (overwrite x ?bs d) crc' ?p)) (view w')"
    unfolding written_up_to_def E'_def using w(2) m(2) only_data_trans [OF v0 w(3)] e(2) by auto
  moreover have "rend (fst x0, rng a (overwrite x ?bs d) crc' ?p) = rend x0"
    by (simp add: e(2) rend_def rng_same_length [OF len] len)
  ultimately show thesis using that w(1,4) e(2) by simp
qed

end

end
