(* ===== verification/Sync_Sparse_Data.thy ===== *)
theory Sync_Sparse_Data imports Sync_Sparse_Write begin

text \<open>
  The whole write to the sparse stream, the file that is scanned again when an entry is opened, and the
  properties of the sparse stream.
\<close>

section \<open>The ranges during a write\<close>

lemma inv_ranges:
  assumes "written_up_to S f sz off buf key hash n v0 k ap E v" and "x \<in> set (sparse_ranges E)"
  shows "range_offset (snd x) = fst x" "rend x < 2 ^ 63" "rstart x < rend x" "fst x = of_nat (rstart x)"
    "range_length (snd x) = of_nat (rend x - rstart x)" "unat (range_length (snd x)) = rend x - rstart x"
proof -
  obtain log where log: "has_sparse S E v n key hash log" using assms(1) by (auto simp: written_up_to_def)
  note mp = has_sparseD(7) [OF log]
  have "x \<in> set (log_ranges (length (sparse_start key hash)) log)" using assms(2) log_mapD(3) [OF mp] by blast
  from in_log_ranges_ok [OF this log_mapD(1) [OF mp]]
  obtain l a d crc l' where "x = (of_nat a, rng a d crc (length (sparse_start key hash) + length (log_bytes l) + 32))"
    "d \<noteq> []" "a + length d < 2 ^ 63" "rstart x = a" "rend x = a + length d" by metis
  then show "range_offset (snd x) = fst x" "rend x < 2 ^ 63" "rstart x < rend x" "fst x = of_nat (rstart x)"
    "range_length (snd x) = of_nat (rend x - rstart x)" "unat (range_length (snd x)) = rend x - rstart x"
    using u64_of_nat(1) [of "length d" 0] by (simp_all add: rend_def rstart_def)
qed

lemma inv_later:
  assumes "written_up_to S f sz off buf key hash n v0 k ap E v" and "x \<in> set (sparse_ranges E)" "y \<in> set (sparse_ranges E)"
    and "fst x < fst y"
  shows "rend x \<le> rstart y"
proof -
  obtain log where log: "has_sparse S E v n key hash log" using assms(1) by (auto simp: written_up_to_def)
  note mp = has_sparseD(7) [OF log]
  show ?thesis using assms(2-4) log_mapD(3) [OF mp] by (intro later_starts [OF log_mapD(1) [OF mp]]) blast+
qed

lemma u64_add_less:
  assumes "a < 2 ^ 63" "b + c < 2 ^ 63"
  shows "of_nat a < (of_nat b + of_nat c :: u64) \<longleftrightarrow> a < b + c" "(of_nat b + of_nat c :: u64) < of_nat a \<longleftrightarrow> b + c < a"
  using u64_of_nat(3) [OF assms] u64_of_nat(3) [OF assms(2,1)] by simp_all

context reliable_files begin

lemma write_ranges_run:
  assumes "written_up_to S f sz off buf key hash (node h) v0 k ap E (view w)"
    and "length buf = len" "off + len < 2 ^ 63"
    and "ordered later" "set later \<subseteq> set (sparse_ranges E)" "\<And>x. x \<in> set later \<Longrightarrow> off + k \<le> rstart x"
    and "\<And>x. x \<in> set (sparse_ranges E) \<Longrightarrow> x \<notin> set later \<Longrightarrow> k < len \<Longrightarrow> rend x \<le> off + k"
    and "length (data (view w) (node h)) + 32 * length later + 32 + (len - k) < 2 ^ 62"
  shows "\<exists>k' ap' E' w'. write_ranges F S h (of_nat off) (of_nat len) buf later (of_nat k) (of_nat ap) E w
        = Some (True, of_nat k', of_nat ap', E', w')
    \<and> written_up_to S f sz off buf key hash (node h) v0 k' ap' E' (view w')
    \<and> (k' < len \<longrightarrow> (\<forall>x\<in>set (sparse_ranges E'). rend x \<le> off + k' \<or> off + len \<le> rstart x))
    \<and> length (data (view w') (node h)) + 32 + (len - k') < 2 ^ 62"
  using assms
proof (induction later arbitrary: k ap E w)
  case Nil
  have "length (data (view w) (node h)) + 32 + (len - k) < 2 ^ 62" using Nil.prems(8) by simp
  moreover have "rend x \<le> off + k" if "x \<in> set (sparse_ranges E)" "k < len" for x using Nil.prems(7) that by simp
  ultimately show ?case
    using Nil.prems(1) by (intro exI [of _ k] exI [of _ ap] exI [of _ E] exI [of _ w]) auto
next
  case (Cons x0 later)
  note inv = Cons.prems(1) and b = Cons.prems(3)
  have x0: "x0 \<in> set (sparse_ranges E)" using Cons.prems(5) by simp
  obtain k0 rg0 where x0': "x0 = (k0, rg0)" by force
  define a where "a = rstart x0"
  note r0 = inv_ranges [OF inv x0, folded a_def]
  have kl: "k \<le> len" using inv Cons.prems(2) by (simp add: written_up_to_def)
  have le: "off + k \<le> a" using Cons.prems(6) [of x0] by (simp add: a_def)
  have bounds: "off < 2 ^ 63" "k < 2 ^ 63" "len < 2 ^ 63" "a < 2 ^ 63" using b kl r0(2,3) by linarith+
  have late: "a < rstart y" if "y \<in> set later" for y
    using Cons.prems(4) that by (auto simp: ordered_Cons a_def rstart_def word_less_nat_alt)
  have late': "a \<le> rstart y" if "y \<in> set (x0 # later)" for y
    using late [of y] that by (cases "y = x0") (auto simp: a_def)
  have klt: "of_nat k < (of_nat len :: u64) \<longleftrightarrow> k < len" by (rule u64_of_nat(3) [OF bounds(2,3)])
  have alt: "range_offset rg0 < of_nat off + of_nat len \<longleftrightarrow> a < off + len"
    using u64_add_less(1) [OF bounds(4) b] r0(1,4) by (simp add: x0')
  show ?case
  proof (cases "k < len \<and> a < off + len")
    case False
    then have stop: "write_ranges F S h (of_nat off) (of_nat len) buf (x0 # later) (of_nat k) (of_nat ap) E w
        = Some (True, of_nat k, of_nat ap, E, w)"
      using klt alt by (auto simp: x0')
    have "rend x \<le> off + k \<or> off + len \<le> rstart x" if "x \<in> set (sparse_ranges E)" "k < len" for x
    proof (cases "x \<in> set (x0 # later)")
      case True
      from late' [OF this] that(2) False show ?thesis by simp
    next
      case no: False
      from Cons.prems(7) [OF that(1) no that(2)] show ?thesis ..
    qed
    moreover have "length (data (view w) (node h)) + 32 + (len - k) < 2 ^ 62" using Cons.prems(8) by simp
    ultimately show ?thesis using stop inv by blast
  next
    case True
    define k1 where "k1 = a - off"
    have k1: "off + k1 = a" "k \<le> k1" "k1 < len" using le True by (auto simp: k1_def)
    have "off + k < a \<longleftrightarrow> k < k1" using k1(1) by linarith
    then have gap: "of_nat off + of_nat k < range_offset rg0 \<longleftrightarrow> k < k1"
      using u64_add_less(2) [OF bounds(4), of off k] r0(1,4) kl b k1 by (simp add: x0')
    \<comment> \<open>the gap before the range\<close>
    obtain ap1 E1 w1 where g: "(if of_nat off + of_nat k < range_offset rg0
          then (let len_to_append = range_offset rg0 - (of_nat off + of_nat k);
                    (ok, E, w) = AppendSparseRange F S h (of_nat off + of_nat k) len_to_append
                                   (drop (unat (of_nat k :: u64)) buf) E w
                in if \<not> ok then (False, of_nat k, of_nat ap, E, w)
                   else (True, of_nat k + len_to_append, of_nat ap + len_to_append, E, w))
          else (True, of_nat k, of_nat ap, E, w)) = (True, of_nat k1, of_nat ap1, E1, w1)"
      and inv1: "written_up_to S f sz off buf key hash (node h) v0 k1 ap1 E1 (view w1)"
      and sub: "set (sparse_ranges E) \<subseteq> set (sparse_ranges E1)"
      and new: "\<And>x. x \<in> set (sparse_ranges E1) \<Longrightarrow> x \<in> set (sparse_ranges E) \<or> rend x = a"
      and space1: "length (data (view w1) (node h)) + 32 * length later + 32 + (len - k1) < 2 ^ 62"
    proof (cases "k < k1")
      case True
      have gaps: "rend x \<le> off + k \<or> off + k1 \<le> rstart x" if "x \<in> set (sparse_ranges E)" for x
        using Cons.prems(7) [OF that] late' [of x] k1 True by (cases "x \<in> set (x0 # later)") simp_all
      have sp: "length (data (view w) (node h)) + 32 + (k1 - k) < 2 ^ 62" using Cons.prems(8) k1(3) by simp
      have bl: "k1 \<le> length buf" "off + k1 < 2 ^ 63" using k1 Cons.prems(2) bounds(4) by simp_all
      obtain E1 w1 y where ap: "AppendSparseRange F S h (of_nat off + of_nat k) (of_nat (k1 - k)) (drop k buf) E w = (True, E1, w1)"
        "written_up_to S f sz off buf key hash (node h) v0 k1 (ap + (k1 - k)) E1 (view w1)"
        "length (data (view w1) (node h)) = length (data (view w) (node h)) + 32 + (k1 - k)"
        "set (sparse_ranges E1) = insert y (set (sparse_ranges E))" "rend y = off + k1"
        by (rule append_gap [OF inv True bl gaps sp])
      have "range_offset rg0 - (of_nat off + of_nat k) = (of_nat (a - (off + k)) :: u64)"
        using u64_diff [OF le] r0(1,4) by (simp add: x0')
      moreover have "a - (off + k) = k1 - k" using k1(1) by linarith
      ultimately have d: "range_offset rg0 - (of_nat off + of_nat k) = (of_nat (k1 - k) :: u64)" by (simp only:)
      have s: "of_nat k + of_nat (k1 - k) = (of_nat k1 :: u64)" using k1(2) by (simp flip: of_nat_add)
      show thesis
      proof (rule that [of "ap + (k1 - k)" E1 w1])
        show "length (data (view w1) (node h)) + 32 * length later + 32 + (len - k1) < 2 ^ 62"
          using Cons.prems(8) ap(3) k1(2,3) by simp
        have uk: "unat (of_nat k :: u64) = k" by (rule u64_of_nat(1) [OF bounds(2,2)])
        have sap: "of_nat ap + of_nat (k1 - k) = (of_nat (ap + (k1 - k)) :: u64)" by (rule of_nat_add [symmetric])
        show "(if of_nat off + of_nat k < range_offset rg0
          then (let len_to_append = range_offset rg0 - (of_nat off + of_nat k);
                    (ok, E, w) = AppendSparseRange F S h (of_nat off + of_nat k) len_to_append
                                   (drop (unat (of_nat k :: u64)) buf) E w
                in if \<not> ok then (False, of_nat k, of_nat ap, E, w)
                   else (True, of_nat k + len_to_append, of_nat ap + len_to_append, E, w))
          else (True, of_nat k, of_nat ap, E, w)) = (True, of_nat k1, of_nat (ap + (k1 - k)), E1, w1)"
          unfolding d uk Let_def ap(1) using True gap by (simp only: prod.case s sap simp_thms if_True if_False)
        show "set (sparse_ranges E) \<subseteq> set (sparse_ranges E1)" using ap(4) by blast
        show "x \<in> set (sparse_ranges E) \<or> rend x = a" if "x \<in> set (sparse_ranges E1)" for x
          using that ap(4,5) k1(1) by auto
      qed (fact ap(2))
    next
      case False
      then have "k = k1" using k1(2) by simp
      then show thesis using that [of ap E w] gap inv Cons.prems(8) by simp
    qed
    \<comment> \<open>the range\<close>
    let ?m = "min (len - k1) (rend x0 - a)"
    have x1: "x0 \<in> set (sparse_ranges E1)" using x0 sub by blast
    have m: "0 + ?m \<le> unat (range_length (snd x0))" "k1 + ?m \<le> length buf" "rstart x0 + 0 = off + k1"
      using r0(6) k1 Cons.prems(2) by (simp_all add: a_def)
    let ?E = "\<lambda>rg. E1\<lparr>sparse_ranges := update_range (fst x0) rg (sparse_ranges E1)\<rparr>"
    obtain rg w2 where ov: "WriteSparseRange F S h (snd x0) (of_nat 0) (of_nat ?m) (drop k1 buf) w1 = Some (True, rg, w2)"
      "written_up_to S f sz off buf key hash (node h) v0 (k1 + ?m) ap1 (?E rg) (view w2)"
      "length (data (view w2) (node h)) = length (data (view w1) (node h))" "rend (fst x0, rg) = rend x0"
      by (rule overwrite_range [OF inv1 x1 m(3,1,2)])
    have mw: "min (of_nat len - of_nat k1) (range_length rg0) = (of_nat ?m :: u64)"
    proof -
      have "of_nat len - of_nat k1 = (of_nat (len - k1) :: u64)" using k1(3) by (intro u64_diff) simp
      moreover have "min (of_nat (len - k1)) (of_nat (rend x0 - a)) = (of_nat ?m :: u64)"
        using bounds r0(2) by (intro u64_of_nat(5)) linarith+
      ultimately show ?thesis using r0(5) by (simp only: x0' snd_conv)
    qed
    have step: "write_ranges F S h (of_nat off) (of_nat len) buf (x0 # later) (of_nat k) (of_nat ap) E w
        = write_ranges F S h (of_nat off) (of_nat len) buf later (of_nat (k1 + ?m)) (of_nat ap1) (?E rg) w2"
    proof -
      have "unat (of_nat k1 :: u64) = k1" using u64_of_nat(1) [of k1 0] k1(3) bounds(3) by simp
      then show ?thesis using True klt alt g mw ov(1) by (simp add: x0')
    qed
    have keep: "y \<in> set (sparse_ranges (?E rg))" if "y \<in> set later" for y
    proof -
      have "y \<in> set (sparse_ranges E1)" "fst y \<noteq> fst x0" using that Cons.prems(4,5) sub by (auto simp: ordered_Cons)
      then show ?thesis by (simp add: in_update_range)
    qed
    show ?thesis unfolding step
    proof (rule Cons.IH [OF ov(2) Cons.prems(2,3)])
      show "ordered later" using Cons.prems(4) by (simp add: ordered_Cons)
      show "set later \<subseteq> set (sparse_ranges (?E rg))" using keep by blast
      show "length (data (view w2) (node h)) + 32 * length later + 32 + (len - (k1 + ?m)) < 2 ^ 62"
        using space1 ov(3) by simp
    next
      fix y assume y: "y \<in> set later"
      then have "rend x0 \<le> rstart y"
        using Cons.prems(4,5) by (intro inv_later [OF inv x0]) (auto simp: ordered_Cons)
      then show "off + (k1 + ?m) \<le> rstart y" using k1(1) r0(3) by simp
    next
      fix y assume y: "y \<in> set (sparse_ranges (?E rg))" "y \<notin> set later" "k1 + ?m < len"
      then have full: "off + (k1 + ?m) = rend x0" using k1(1) r0(3) by (simp add: min_def split: if_splits)
      from y(1) consider "y = (fst x0, rg)" | "y \<in> set (sparse_ranges E1)" "fst y \<noteq> fst x0"
        by (auto simp: in_update_range)
      then show "rend y \<le> off + (k1 + ?m)"
      proof cases
        case 1
        then show ?thesis using ov(4) full by simp
      next
        case 2
        then have "y \<notin> set (x0 # later)" using y(2) by auto
        then have "rend y \<le> a" using new [OF 2(1)] Cons.prems(7) [of y] le True by auto
        then show ?thesis using full r0(3) by simp
      qed
    qed
  qed
qed

lemma write_overlapping_run:
  assumes inv: "written_up_to S f sz off buf key hash (node h) v0 0 0 E (view w)"
    and b: "length buf = len" "off + len < 2 ^ 63"
  defines "later \<equiv> lower_bound (of_nat off) (sparse_ranges E)"
  obtains k E' w' where "write_overlapping F S h (of_nat off) (of_nat len) buf E w = Some (True, of_nat k, E', w')"
    "written_up_to S f sz off buf key hash (node h) v0 k 0 E' (view w')"
    "set later \<subseteq> set (sparse_ranges E')" "\<And>x. x \<in> set later \<Longrightarrow> off + k \<le> rstart x"
    "\<And>x. x \<in> set (sparse_ranges E') \<Longrightarrow> x \<notin> set later \<Longrightarrow> k < len \<Longrightarrow> rend x \<le> off + k"
    "length (data (view w') (node h)) = length (data (view w) (node h))"
proof -
  obtain log where "has_sparse S E (view w) (node h) key hash log" using inv by (auto simp: written_up_to_def)
  note mp = has_sparseD(7) [OF this]
  define below where "below = before (of_nat off) (sparse_ranges E)"
  have off: "off < 2 ^ 63" using b by linarith
  note low = lower_bound_le [OF mp off, folded later_def]
  note other = before_not_last [OF mp off, folded below_def]
  have sub: "set later \<subseteq> set (sparse_ranges E)" using in_lower_bound [OF log_mapD(2) [OF mp]] by (auto simp: later_def)
  have cases: "x \<in> set below" if "x \<in> set (sparse_ranges E)" "x \<notin> set later" for x
    using range_cases [OF mp, of x "of_nat off"] that log_mapD(3) [OF mp] by (auto simp: below_def later_def)
  have in_below: "x \<in> set (sparse_ranges E)" if "x \<in> set below" for x
    using in_before [OF that [unfolded below_def]] ..
  show thesis
  proof (cases "below = [] \<or> rend (last below) \<le> off")
    case True
    have "write_overlapping F S h (of_nat off) (of_nat len) buf E w = Some (True, of_nat 0, E, w)"
    proof (cases "below = []")
      case False
      then have l: "last below \<in> set (sparse_ranges E)" by (intro in_below last_in_set)
      note r = inv_ranges [OF inv l]
      have sum: "rstart (last below) + (rend (last below) - rstart (last below)) = rend (last below)" using r(3) by simp
      have "CheckAdd64 (fst (last below)) (range_length (snd (last below))) \<noteq> None"
      proof -
        have "uint (of_nat (rstart (last below)) :: u64) = int (rstart (last below))"
          "uint (of_nat (rend (last below) - rstart (last below)) :: u64) = int (rend (last below) - rstart (last below))"
          using r(2,3) by (intro uint_small; linarith)+
        then show ?thesis using r(2,3,4,5) by (simp add: CheckAdd64_def)
      qed
      moreover have "\<not> of_nat off < fst (last below) + range_length (snd (last below))"
        using u64_add_less(1) [OF off, of "rstart (last below)" "rend (last below) - rstart (last below)"]
          True False r(2,4,5) by (simp only: sum) simp
      ultimately show ?thesis
        using False r(1) by (simp add: write_overlapping_def Let_def below_def [symmetric] split_beta split: option.splits)
    qed (simp add: write_overlapping_def below_def)
    moreover have "rend x \<le> off + 0" if "x \<in> set (sparse_ranges E)" "x \<notin> set later" for x
      using other [OF cases [OF that]] cases [OF that] True by (cases "x = last below") auto
    ultimately show thesis using that [of 0 E w] inv sub low by simp
  next
    case False
    let ?last = "last below"
    define a where "a = rstart ?last"
    have l: "?last \<in> set below" using False by simp
    then have x0: "?last \<in> set (sparse_ranges E)" by (rule in_below)
    note r = inv_ranges [OF inv x0, folded a_def]
    have a: "a < off" using before_less [OF off l [unfolded below_def]] by (simp add: a_def below_def)
    let ?len = "rend ?last - a" and ?skip = "off - a"
    let ?m = "min len (?len - ?skip)"
    have m: "?skip + ?m \<le> unat (range_length (snd ?last))" "0 + ?m \<le> length buf" "rstart ?last + ?skip = off + 0"
    proof -
      have "?skip + ?m \<le> ?len" using a False by linarith
      then show "?skip + ?m \<le> unat (range_length (snd ?last))" by (simp only: r(6))
    qed (use a b(1) in \<open>simp_all add: a_def\<close>)
    obtain rg w1 where ov: "WriteSparseRange F S h (snd ?last) (of_nat ?skip) (of_nat ?m) (drop 0 buf) w = Some (True, rg, w1)"
      "written_up_to S f sz off buf key hash (node h) v0 (0 + ?m) 0
         (E\<lparr>sparse_ranges := update_range (fst ?last) rg (sparse_ranges E)\<rparr>) (view w1)"
      "length (data (view w1) (node h)) = length (data (view w) (node h))" "rend (fst ?last, rg) = rend ?last"
      by (rule overwrite_range [OF inv x0 m(3,1,2)])
    let ?E = "E\<lparr>sparse_ranges := update_range (fst ?last) rg (sparse_ranges E)\<rparr>"
    have al: "a < 2 ^ 63" "?len < 2 ^ 63" "a + ?len < 2 ^ 63" "a + ?len = rend ?last" using r(2,3) by linarith+
    have check: "CheckAdd64 (of_nat a) (of_nat ?len) \<noteq> None"
      using uint_small [OF al(1)] uint_small [OF al(2)] al(3) by (simp add: CheckAdd64_def)
    have reach: "of_nat off < (of_nat a + of_nat ?len :: u64)" using u64_add_less(1) [OF off al(3)] al(4) False by simp
    have o: "of_nat off - of_nat a = (of_nat ?skip :: u64)" using a by (intro u64_diff) simp
    have m': "min (of_nat len) (of_nat ?len - of_nat ?skip) = (of_nat ?m :: u64)"
    proof -
      have "of_nat ?len - of_nat ?skip = (of_nat (?len - ?skip) :: u64)" using False a by (intro u64_diff) linarith
      moreover have "min (of_nat len) (of_nat (?len - ?skip)) = (of_nat ?m :: u64)" using b(2) al(2) by (intro u64_of_nat(5)) linarith+
      ultimately show ?thesis by (simp only:)
    qed
    have "write_overlapping F S h (of_nat off) (of_nat len) buf E w = Some (True, of_nat ?m, ?E, w1)"
    proof -
      obtain k0 rg0 where x: "?last = (k0, rg0)" by force
      show ?thesis
        unfolding write_overlapping_def Let_def below_def [symmetric]
        using False check reach o m' ov(1) r(1,4,5) by (simp add: x)
    qed
    moreover have "set later \<subseteq> set (sparse_ranges ?E)"
    proof
      fix y assume y: "y \<in> set later"
      have "off \<le> rstart y" by (rule low [OF y])
      then have "fst y \<noteq> fst ?last" using a by (auto simp: a_def rstart_def)
      then show "y \<in> set (sparse_ranges ?E)" using y sub by (auto simp: in_update_range)
    qed
    moreover have "off + ?m \<le> rstart y" if "y \<in> set later" for y
    proof -
      have "rend ?last \<le> rstart y" using across [OF mp l [unfolded below_def] that [unfolded later_def]] by (simp add: below_def)
      then show ?thesis using a False by linarith
    qed
    moreover have "rend y \<le> off + ?m" if y: "y \<in> set (sparse_ranges ?E)" "y \<notin> set later" "?m < len" for y
    proof -
      have full: "off + ?m = rend ?last" using y(3) a False by linarith
      from y(1) consider "y = (fst ?last, rg)" | "y \<in> set (sparse_ranges E)" "fst y \<noteq> fst ?last" by (auto simp: in_update_range)
      then show ?thesis
      proof cases
        case 1
        then show ?thesis using ov(4) full by simp
      next
        case 2
        then have "rend y \<le> off" using other [OF cases [OF 2(1) y(2)]] by auto
        then show ?thesis by simp
      qed
    qed
    ultimately show thesis using that [of ?m ?E w1] ov(2,3) by simp
  qed
qed

lemma length_later:
  assumes "has_sparse S E v n key hash log"
  shows "33 * length (lower_bound k (sparse_ranges E)) \<le> length (data v n)"
proof -
  note mp = has_sparseD(7) [OF assms]
  have "distinct (sparse_ranges E)" using log_mapD(2) [OF mp] by (auto simp: ordered_def sorted_wrt_iff_nth_less distinct_conv_nth)
    (metis linorder_neqE_nat order_less_irrefl)
  then have "length (sparse_ranges E) = card (set (sparse_ranges E))" by (simp add: distinct_card)
  also have "\<dots> = card (set (log_ranges (length (sparse_start key hash)) log))" using mp by (simp add: log_map_def)
  also have "\<dots> \<le> length log" using card_length [of "log_ranges (length (sparse_start key hash)) log"] by simp
  finally have "length (sparse_ranges E) \<le> length log" .
  moreover have "33 * length log \<le> length (log_bytes log)"
  proof -
    have "list_all (record_ok S) log" using log_mapD(1) [OF mp] by (simp add: log_ok_def)
    then show ?thesis by (induction log rule: log_size.induct) (auto simp: Suc_le_eq simp flip: length_greater_0_conv)
  qed
  moreover have "length (lower_bound k (sparse_ranges E)) \<le> length (sparse_ranges E)"
    by (simp add: lower_bound_def length_dropWhile_le)
  ultimately show ?thesis using has_sparseD(4) [OF assms] by simp
qed

text \<open>The stream that is written over: nothing is left of it when it would grow beyond its limit.\<close>

lemma truncate_if_full:
  fixes future max_size :: u64
  assumes s: "has_sparse S E (view w) (node h) key hash log" and size: "sparse_data_size st = of_nat (log_size log)"
    and lim: "limit = (future > max_size)"
  defines "log0 \<equiv> if limit then [] else log"
  obtains E' st' w' where "(if future > max_size
      then (let (_, E, w) = TruncateSparseFile F h E w in (E, st\<lparr>sparse_data_size := 0\<rparr>, w)) else (E, st, w)) = (E', st', w')"
    "has_sparse S E' (view w') (node h) key hash log0" "only_data (node h) (view w) (view w')"
    "sparse_data_size st' = of_nat (log_size log0)" "data_size st' = data_size st"
    "length (data (view w') (node h)) \<le> length (data (view w) (node h))"
proof (cases "future > max_size")
  case False
  then show thesis using that [of E st w] s size lim by (simp add: log0_def)
next
  case True
  let ?start = "sparse_start key hash"
  note c = has_sparseD(4) [OF s] and key = has_sparseD(3) [OF s]
  obtain w1 where w1: "fSetLength F h (int (24 + length key)) w = (True, w1)"
    "view w1 = put_data (node h) (resize (nat (int (24 + length key))) (data (view w) (node h))) (view w)"
    using set_length_ok [of "int (24 + length key)" h w] by auto
  have "resize (24 + length key) (?start @ log_bytes log) = ?start" by (simp add: resize_def)
  then have v: "view w1 = put_data (node h) ?start (view w)" by (simp only: w1(2) nat_int c)
  let ?E = "E\<lparr>sparse_ranges := [], sparse_tail_offset := of_nat (24 + length key)\<rparr>"
  have "TruncateSparseFile F h E w = (True, ?E, w1)"
    using w1(1) by (simp add: TruncateSparseFile_def Let_def se_key_size_def key)
  moreover have "has_sparse S (E\<lparr>sparse_ranges := [], sparse_tail_offset := of_nat (length (data (view w1) (node h)))\<rparr>)
      (view w1) (node h) key hash []"
    using has_sparseD(5) [OF s] c
    by (intro has_sparse_step [OF s]) (simp_all add: v log_map_def log_ok_def ordered_def)
  ultimately show thesis using that [of ?E "st\<lparr>sparse_data_size := 0\<rparr>" w1] True lim c
    by (simp add: log0_def v)
qed

lemma finish_write:
  assumes inv: "written_up_to S f sz off buf key hash (node h) v0 k ap E (view w)"
    and b: "length buf = len" "off + len < 2 ^ 63"
    and gap: "k < len \<Longrightarrow> (\<And>x. x \<in> set (sparse_ranges E) \<Longrightarrow> rend x \<le> off + k \<or> off + len \<le> rstart x)"
    and space: "length (data (view w) (node h)) + 32 + (len - k) < 2 ^ 62"
  obtains ap' E' w' where "(if of_nat k < (of_nat len :: u64)
      then (let len_to_append = of_nat len - of_nat k;
                (ok, E, w) = AppendSparseRange F S h (of_nat off + of_nat k) len_to_append (drop (unat (of_nat k :: u64)) buf) E w
            in if \<not> ok then (False, of_nat k, of_nat ap, E, w)
               else (True, of_nat k + len_to_append, of_nat ap + len_to_append, E, w))
      else (True, of_nat k, of_nat ap, E, w)) = (True, of_nat len, of_nat ap', E', w')"
    "written_up_to S f sz off buf key hash (node h) v0 len ap' E' (view w')"
proof -
  have k: "k \<le> len" "k < 2 ^ 63" "len < 2 ^ 63" using inv b by (auto simp: written_up_to_def)
  have lt: "of_nat k < (of_nat len :: u64) \<longleftrightarrow> k < len" by (rule u64_of_nat(3) [OF k(2,3)])
  show thesis
  proof (cases "k < len")
    case False
    then have "k = len" using k(1) by simp
    then show thesis using that [of ap E w] inv by simp
  next
    case True
    have bl: "len \<le> length buf" "off + len < 2 ^ 63" using b by simp_all
    obtain E' w' y where a: "AppendSparseRange F S h (of_nat off + of_nat k) (of_nat (len - k)) (drop k buf) E w = (True, E', w')"
      "written_up_to S f sz off buf key hash (node h) v0 len (ap + (len - k)) E' (view w')"
      by (rule append_gap [OF inv True bl gap [OF True] space])
    have d: "of_nat len - of_nat k = (of_nat (len - k) :: u64)" by (rule u64_diff [OF k(1)])
    have s: "of_nat k + of_nat (len - k) = (of_nat len :: u64)" using k(1) by (simp flip: of_nat_add)
    have sap: "of_nat ap + of_nat (len - k) = (of_nat (ap + (len - k)) :: u64)" by (rule of_nat_add [symmetric])
    have uk: "unat (of_nat k :: u64) = k" by (rule u64_of_nat(1) [OF k(2,2)])
    show thesis
    proof (rule that [OF _ a(2)])
      show "(if of_nat k < (of_nat len :: u64)
        then (let len_to_append = of_nat len - of_nat k;
                  (ok, E, w) = AppendSparseRange F S h (of_nat off + of_nat k) len_to_append (drop (unat (of_nat k :: u64)) buf) E w
              in if \<not> ok then (False, of_nat k, of_nat ap, E, w)
                 else (True, of_nat k + len_to_append, of_nat ap + len_to_append, E, w))
        else (True, of_nat k, of_nat ap, E, w)) = (True, of_nat len, of_nat (ap + (len - k)), E', w')"
        unfolding d uk Let_def a(1) using True lt by (simp only: prod.case s sap simp_thms if_True if_False)
    qed
  qed
qed

lemma WriteSparseData_ok:
  fixes max_size :: u64
  assumes s: "has_sparse S E (view w) n key hash log" and size: "sparse_data_size st = of_nat (log_size log)"
    and op: "sparse_offset op = of_nat off" "sparse_buf_len op = of_nat (length buf)"
    and b: "off + length buf < 2 ^ 63" "int (length buf) \<le> INT_MAX" "length (data (view w) n) < 2 ^ 60"
  defines "log0 \<equiv> if unat max_size < log_size log + length buf then [] else log"
  obtains E' st' w' log' where "WriteSparseData F S op buf max_size E st w = Some (Net (length buf), E', st', w')"
    "has_sparse S E' (view w') n key hash log'" "sparse_byte log' = sparse_update off buf (sparse_byte log0)"
    "sparse_data_size st' = of_nat (log_size log')" "data_size st' = data_size st" "only_data n (view w) (view w')"
proof -
  let ?len = "length buf"
  obtain h w0 where h: "tAcquire F (tracked_sparse E) w = (Some h, w0)" "node h = n" "view w0 = view w"
    by (rule acquire_ok [OF has_sparseD(2) [OF s]])
  have s0: "has_sparse S E (view w0) (node h) key hash log" using s h by simp
  have len: "?len < 2 ^ 32" "?len < 2 ^ 63" using b(2) by (simp_all add: INT_MAX_def)
  have lsz: "log_size log < 2 ^ 60" "log_size log < 2 ^ 63"
    using log_size_le [of log] has_sparseD(4) [OF s] b(3) by simp_all
  have sum: "log_size log + ?len < 2 ^ 63" using lsz(1) len(1) by simp
  have future: "CheckAdd64 (sparse_data_size st) (of_nat ?len) = Some (of_nat (log_size log + ?len))"
    using uint_small [OF lsz(2)] uint_small [OF len(2)] lsz(1) len(1) by (simp add: CheckAdd64_def size)
  have full: "(unat max_size < log_size log + ?len) = ((of_nat (log_size log + ?len) :: u64) > max_size)"
    using u64_of_nat(1) [OF sum sum] by (simp only: word_less_nat_alt)
  obtain E1 st1 w1 where t: "(if of_nat (log_size log + ?len) > max_size
      then (let (_, E, w) = TruncateSparseFile F h E w0 in (E, st\<lparr>sparse_data_size := 0\<rparr>, w)) else (E, st, w0)) = (E1, st1, w1)"
    "has_sparse S E1 (view w1) (node h) key hash log0" "only_data (node h) (view w0) (view w1)"
    "sparse_data_size st1 = of_nat (log_size log0)" "data_size st1 = data_size st"
    "length (data (view w1) (node h)) \<le> length (data (view w0) (node h))"
    by (rule truncate_if_full [OF s0 size full, folded log0_def])
  have small: "length (data (view w1) (node h)) < 2 ^ 60" using t(6) b(3) h by simp
  let ?f = "sparse_byte log0" and ?sz = "log_size log0"
  have inv1: "written_up_to S ?f ?sz off buf key hash (node h) (view w) 0 0 E1 (view w1)"
    using t(2,3) h(3) by (auto simp: written_up_to_def)
  let ?later = "lower_bound (of_nat off) (sparse_ranges E1)"
  obtain k E2 w2 where o: "write_overlapping F S h (of_nat off) (of_nat ?len) buf E1 w1 = Some (True, of_nat k, E2, w2)"
    "written_up_to S ?f ?sz off buf key hash (node h) (view w) k 0 E2 (view w2)"
    "set ?later \<subseteq> set (sparse_ranges E2)" "\<And>x. x \<in> set ?later \<Longrightarrow> off + k \<le> rstart x"
    "\<And>x. x \<in> set (sparse_ranges E2) \<Longrightarrow> x \<notin> set ?later \<Longrightarrow> k < ?len \<Longrightarrow> rend x \<le> off + k"
    "length (data (view w2) (node h)) = length (data (view w1) (node h))"
    by (rule write_overlapping_run [OF inv1 refl b(1)]) blast
  have ord: "ordered ?later" by (rule ordered_parts(2) [OF log_mapD(2) [OF has_sparseD(7) [OF t(2)]]])
  have space: "length (data (view w2) (node h)) + 32 * length ?later + 32 + (?len - k) < 2 ^ 62"
    using length_later [OF t(2), of "of_nat off"] small o(6) len(1) by simp
  obtain k' ap' E3 w3 where wr: "write_ranges F S h (of_nat off) (of_nat ?len) buf ?later (of_nat k) (of_nat 0) E2 w2
      = Some (True, of_nat k', of_nat ap', E3, w3)"
    "written_up_to S ?f ?sz off buf key hash (node h) (view w) k' ap' E3 (view w3)"
    "k' < ?len \<longrightarrow> (\<forall>x\<in>set (sparse_ranges E3). rend x \<le> off + k' \<or> off + ?len \<le> rstart x)"
    "length (data (view w3) (node h)) + 32 + (?len - k') < 2 ^ 62"
    using write_ranges_run [OF o(2) refl b(1) ord o(3,4,5) space] by blast
  have gaps: "rend x \<le> off + k' \<or> off + ?len \<le> rstart x" if "k' < ?len" "x \<in> set (sparse_ranges E3)" for x
    using wr(3) that by blast
  obtain ap'' E4 w4 where fin: "(if of_nat k' < (of_nat ?len :: u64)
      then (let len_to_append = of_nat ?len - of_nat k';
                (ok, E, w) = AppendSparseRange F S h (of_nat off + of_nat k') len_to_append (drop (unat (of_nat k' :: u64)) buf) E3 w3
            in if \<not> ok then (False, of_nat k', of_nat ap', E, w)
               else (True, of_nat k' + len_to_append, of_nat ap' + len_to_append, E, w))
      else (True, of_nat k', of_nat ap', E3, w3)) = (True, of_nat ?len, of_nat ap'', E4, w4)"
    "written_up_to S ?f ?sz off buf key hash (node h) (view w) ?len ap'' E4 (view w4)"
    by (rule finish_write [OF wr(2) refl b(1) gaps wr(4)])
  obtain now w5 where now: "Time_Now F w4 = (now, w5)" "view w5 = view w4" by (rule now_ok)
  obtain log' where log': "has_sparse S E4 (view w4) n key hash log'" "sparse_byte log' = sparse_update off buf ?f"
    "log_size log' = ?sz + ap''" and only: "only_data n (view w) (view w4)"
    using fin(2) h(2) by (auto simp: written_up_to_def)
  let ?st = "st1\<lparr>last_used := now, sparse_data_size := sparse_data_size st1 + of_nat ap''\<rparr>"
  have ul: "uint (of_nat ?len :: u64) \<le> INT_MAX" "unat (of_nat ?len :: u64) = ?len"
    using uint_small [OF len(2)] b(2) u64_of_nat(1) [OF len(2,2)] by simp_all
  have run: "WriteSparseData F S op buf max_size E st w = Some (Net ?len, E4, ?st, w5)"
    unfolding WriteSparseData_def Let_def op
    using has_sparseD(1) [OF s] h(1) future t(1) [unfolded Let_def] o(1) wr(1) fin(1) [unfolded Let_def] now(1) ul
    by simp
  show thesis
    by (rule that [OF run _ log'(2)]) (use log' only now(2) t(4,5) in \<open>simp_all\<close>)
qed

end

end
