(* ===== verification/Sync_Sparse_Reopen.thy ===== *)
theory Sync_Sparse_Reopen imports Sync_Sparse_Data begin

text \<open>
  Scanning a sparse file when an entry is opened gives back the ranges that were appended to it; and the
  properties of the sparse stream, from the laws of reliable files.
\<close>

section \<open>Scanning the file\<close>

context reliable_files begin

lemma scan_ranges_log:
  assumes c: "data (view w) (node h) = start @ log_bytes (l @ log)" "length (data (view w) (node h)) < 2 ^ 62"
    and ok: "log_ok S (l @ log)" and m: "log_map S l (length start) rs"
  shows "\<exists>rs' w'. scan_ranges F h (of_nat (length start + length (log_bytes l))) rs (of_nat (log_size l)) w
      = Some (True, rs', of_nat (log_size (l @ log)), of_nat (length (data (view w) (node h))), w')
    \<and> view w' = view w \<and> log_map S (l @ log) (length start) rs'"
  using assms
proof (induction log arbitrary: l rs w)
  case Nil
  let ?n = "length (data (view w) (node h))"
  have n: "?n < 2 ^ 63" "length start + length (log_bytes l) = ?n" using Nil.prems(1,2) by simp_all
  have wr: "wrap64 (uint (of_nat ?n :: u64)) = int ?n"
  proof -
    have "wrap64 (int ?n) = int ?n" using n(1) by (intro wrap64_id) simp_all
    then show ?thesis using uint_small [OF n(1)] by simp
  qed
  obtain w1 where r: "fRead F h (int ?n) 32 w = (Some (slice (nat (int ?n)) 32 (data (view w) (node h))), w1)"
    "view w1 = view w" by (rule read_ok [of "int ?n" h 32 w]) simp
  have "slice (nat (int ?n)) 32 (data (view w) (node h)) = []" by (simp add: slice_def)
  then have "scan_ranges F h (of_nat ?n) rs (of_nat (log_size l)) w = Some (True, rs, of_nat (log_size l), of_nat ?n, w1)"
    using r(1) by (subst scan_ranges.simps) (simp add: wr)
  then show ?case using Nil.prems(4) r(2) n(2) by simp
next
  case (Cons x log)
  obtain a d crc where x: "x = (a, d, crc)" by (cases x)
  define pos where "pos = length start + length (log_bytes l)"
  let ?c = "data (view w) (node h)"
  have c: "?c = (start @ log_bytes l) @ record_header a d crc @ d @ log_bytes log" using Cons.prems(1) by (simp add: x)
  have fit: "pos + 32 + length d \<le> length ?c" by (simp add: c pos_def)
  have b: "pos < 2 ^ 63" "pos + 32 < 2 ^ 63" "length d < 2 ^ 63" using fit Cons.prems(2) by simp_all
  have wr: "wrap64 (uint (of_nat k :: u64)) = int k" if "k < 2 ^ 63" for k
  proof -
    have "wrap64 (int k) = int k" using that by (intro wrap64_id) simp_all
    then show ?thesis using uint_small [OF that] by simp
  qed
  obtain w1 where r: "fRead F h (int pos) 32 w = (Some (slice (nat (int pos)) 32 ?c), w1)" "view w1 = view w"
    by (rule read_ok [of "int pos" h 32 w]) simp
  have hdr: "slice (nat (int pos)) 32 ?c = record_header a d crc"
    unfolding c nat_int by (rule slice_field) (simp_all add: pos_def)
  have dec: "sparse_range_of (record_header a d crc) = range_header (rng a d crc 0)"
    by (simp add: record_header_def sparse_codec.dec_enc_exact)
  have ok: "log_ok S (l @ (a, d, crc) # log)" using Cons.prems(3) by (simp add: x)
  have "a + length d < 2 ^ 63" by (rule log_okD(2) [OF ok])
  then have al: "a < 2 ^ 63" "a + length d < 2 ^ 63" by linarith+
  obtain y where check: "CheckAdd64 (of_nat a) (of_nat (length d)) = Some y"
    using uint_small [OF al(1)] uint_small [OF b(3)] al(2) by (simp add: CheckAdd64_def)
  let ?rg = "rng a d crc (pos + 32)"
  have rg: "\<lparr>range_offset = of_nat a, range_length = of_nat (length d), range_data_crc32 = crc,
      range_file_offset = wrap64 (uint (of_nat pos + 32 :: u64))\<rparr> = ?rg"
    using wr [OF b(2)] by (simp add: rng_def)
  have step: "scan_ranges F h (of_nat pos) rs (of_nat (log_size l)) w
      = scan_ranges F h (of_nat (pos + 32 + length d)) (emplace (of_nat a) ?rg rs) (of_nat (log_size l + length d)) w1"
  proof -
    have "length (record_header a d crc) = 32" "record_header a d crc \<noteq> []"
      by (simp_all flip: length_greater_0_conv)
    then show ?thesis
      using r(1) hdr wr [OF b(1)] check rg
      by (subst scan_ranges.simps) (simp add: dec range_header_def Let_def add.assoc)
  qed
  have key: "of_nat a \<notin> fst ` set rs"
    using other_keys [OF ok] log_mapD(3) [OF Cons.prems(4)] by (metis imageE)
  note em = emplace_new [OF log_mapD(2) [OF Cons.prems(4)] key, of ?rg]
  have ok1: "log_ok S (l @ [(a, d, crc)])" using ok by (auto simp: log_ok_append log_ok_Cons log_ok_def [of S "[]"])
  have m: "log_map S (l @ [(a, d, crc)]) (length start) (emplace (of_nat a) ?rg rs)"
    using em ok1 Cons.prems(4) by (auto simp: log_map_def log_ranges_append pos_def)
  have "\<exists>rs' w'. scan_ranges F h (of_nat (length start + length (log_bytes (l @ [(a, d, crc)])))) (emplace (of_nat a) ?rg rs)
        (of_nat (log_size (l @ [(a, d, crc)]))) w1
      = Some (True, rs', of_nat (log_size ((l @ [(a, d, crc)]) @ log)), of_nat (length (data (view w1) (node h))), w')
    \<and> view w' = view w1 \<and> log_map S ((l @ [(a, d, crc)]) @ log) (length start) rs'"
    by (rule Cons.IH [OF _ _ _ m]) (use Cons.prems(1,2) ok r(2) x in simp_all)
  then show ?case using step r(2) x by (simp add: pos_def add.assoc)
qed

lemma OpenSparseFileIfExists_ok:
  assumes d: "dir (view w) (GetFilenameForSubfile E FILE_SPARSE) = Some n" and key: "se_key E = Some key"
    and c: "data (view w) n = sparse_start key hash @ log_bytes log" "length (data (view w) n) < 2 ^ 62"
    and ok: "log_ok S log"
  shows "\<exists>E' w'. OpenSparseFileIfExists F E out_size w = Some (True, E', of_nat (log_size log), w')
    \<and> has_sparse S E' (view w') n key hash log \<and> dir (view w') = dir (view w) \<and> data (view w') = data (view w)"
proof -
  let ?start = "sparse_start key hash"
  obtain h w1 where o: "OpenFile F (GetFilenameForSubfile E FILE_SPARSE) FLAG_OPEN_RW w = (Inr h, w1)" "node h = n"
    "view w1 = view w" by (rule open_ok [OF d])
  have c1: "data (view w1) (node h) = ?start @ log_bytes ([] @ log)" using c o by simp
  have fit: "nat 0 + 24 \<le> length (data (view w1) (node h))" by (simp add: c1)
  obtain w2 where hd: "fReadAndCheck F h 0 24 w1 = (Some (slice (nat 0) 24 (data (view w1) (node h))), w2)" "view w2 = view w1"
    by (rule read_check_ok [OF order.refl fit])
  have "slice (nat 0) 24 (data (view w1) (node h)) = header_bytes (entry_header kSimpleSparseEntryVersion key hash)"
    by (simp add: c1 sparse_start_def)
  then have hdr: "header_of (slice (nat 0) 24 (data (view w1) (node h))) = entry_header kSimpleSparseEntryVersion key hash"
    by (simp add: header_codec.dec_enc_exact)
  have c2: "data (view w2) (node h) = ?start @ log_bytes ([] @ log)" "length (data (view w2) (node h)) < 2 ^ 62"
    using c1 hd(2) c(2) o by simp_all
  have "log_ok S ([] @ log)" "log_map S [] (length ?start) []" using ok by (simp_all add: log_map_def log_ok_def ordered_def)
  from scan_ranges_log [OF c2 this] obtain rs w3 where sc: "scan_ranges F h (of_nat (24 + length key)) [] 0 w2
      = Some (True, rs, of_nat (log_size log), of_nat (length (data (view w2) (node h))), w3)"
    "view w3 = view w2" "log_map S log (length ?start) rs" by auto
  let ?E = "E\<lparr>sparse_ranges := rs, sparse_tail_offset := of_nat (length (data (view w2) (node h))), sparse_file_open := True\<rparr>"
  let ?w = "tRegister F (tracked_sparse E) h w3"
  have tr: "tracked_sparse (E\<lparr>sparse_ranges := rs, sparse_tail_offset := t\<rparr>) = tracked_sparse E"
    "tracked_sparse (E\<lparr>sparse_ranges := rs, sparse_tail_offset := t, sparse_file_open := b\<rparr>) = tracked_sparse E" for t b
    by (simp_all add: tracked_sparse_def)
  have "OpenSparseFileIfExists F E out_size w = Some (True, ?E, of_nat (log_size log), ?w)"
    using o(1) hd(1) hdr sc(1) key tr
    by (simp add: OpenSparseFileIfExists_def ScanSparseFile_def Let_def se_key_size_def entry_header_def)
  moreover have "has_sparse S ?E (view ?w) n key hash log"
    using c2 c hd(2) o sc(2,3) key tr by (simp add: has_sparse_def register_law)
  moreover have "dir (view ?w) = dir (view w)" "data (view ?w) = data (view w)"
    using hd(2) o sc(2) by (simp_all add: register_law)
  ultimately show ?thesis by blast
qed

end

lemma sparse_run_updated: "sparse_run (sparse_update off buf f) off (length buf) = buf"
  using sparse_run_append [of buf "sparse_update off buf f" off 0] by (simp add: sparse_update_def)

section \<open>A range that ends where it starts\<close>

text \<open>The header of a range of \<open>2 ^ 64 - 32\<close> bytes: the position behind its data is, modulo \<open>2 ^ 64\<close>, its own.\<close>

definition wrapping_header :: "u64 \<Rightarrow> u32 \<Rightarrow> bytes" where
  "wrapping_header a crc = sparse_range_bytes \<lparr>sparse_range_magic_number = kSimpleSparseRangeMagicNumber,
     sr_offset = a, sr_length = - 32, sr_data_crc32 = crc, sr_unused_padding = 0\<rparr>"

context reliable_files begin

lemma scan_ranges_wrapping:
  assumes "scan_ranges F' h off rs sz w = Some r"
  shows "F' = F \<longrightarrow> off = of_nat pos \<longrightarrow> pos < 2 ^ 62 \<longrightarrow> uint a < 32
    \<longrightarrow> slice pos 32 (data (view w) (node h)) \<noteq> wrapping_header a crc"
proof (rule scan_ranges.raw_induct [OF _ assms], goal_cases)
  case (1 scan F' h off rs sz w r)
  note body = 1(2) and IH = 1(1) [rule_format]
  show ?case
  proof (intro impI notI)
    let ?hd = "wrapping_header a crc"
    assume prems: "F' = F" "off = of_nat pos" "pos < 2 ^ 62" "uint a < 32"
      and c: "slice pos 32 (data (view w) (node h)) = ?hd"
    have pos: "pos < 2 ^ 63" using prems(3) by simp
    have "wrap64 (int pos) = int pos" using pos by (intro wrap64_id) simp_all
    then have wr: "wrap64 (uint (of_nat pos :: u64)) = int pos" using uint_small [OF pos] by simp
    obtain w1 where r: "fRead F h (int pos) 32 w = (Some ?hd, w1)" "view w1 = view w"
      using read_ok [of "int pos" h 32 w] c by auto
    have hd: "?hd \<noteq> []" "length ?hd = 32"
      by (simp_all add: wrapping_header_def flip: length_greater_0_conv)
    have dec: "sparse_range_of ?hd = \<lparr>sparse_range_magic_number = kSimpleSparseRangeMagicNumber,
        sr_offset = a, sr_length = - 32, sr_data_crc32 = crc, sr_unused_padding = 0\<rparr>"
      by (simp add: wrapping_header_def sparse_codec.dec_enc_exact)
    have "uint (- 32 :: u64) = 2 ^ 64 - 32" by simp
    then obtain y where check: "CheckAdd64 a (- 32) = Some y"
      using prems(4) by (simp add: CheckAdd64_def)
    obtain rs' where "scan F' h (of_nat pos + 32 - 32) rs' (sz - 32) w1 = Some r"
      using body r(1) hd dec check wr prems(1,2) by (auto simp: Let_def)
    then have "scan F' h (of_nat pos) rs' (sz - 32) w1 = Some r" by simp
    from IH [OF this prems(1) refl prems(3,4)] c r(2) show False by simp
  qed
qed

lemma OpenSparseFileIfExists_wrapping:
  assumes d: "dir (view w) (GetFilenameForSubfile E FILE_SPARSE) = Some n" and key: "se_key E = Some key"
    and c: "data (view w) n = sparse_start key hash @ wrapping_header a crc @ rest" and a: "uint a < 32"
    and b: "length key < 2 ^ 32"
  shows "OpenSparseFileIfExists F E out_size w = None"
proof -
  obtain h w1 where o: "OpenFile F (GetFilenameForSubfile E FILE_SPARSE) FLAG_OPEN_RW w = (Inr h, w1)" "node h = n"
    "view w1 = view w" by (rule open_ok [OF d])
  have c1: "data (view w1) (node h) = sparse_start key hash @ wrapping_header a crc @ rest" using c o by simp
  have fit: "nat 0 + 24 \<le> length (data (view w1) (node h))" by (simp add: c1)
  obtain w2 where hd: "fReadAndCheck F h 0 24 w1 = (Some (slice (nat 0) 24 (data (view w1) (node h))), w2)" "view w2 = view w1"
    by (rule read_check_ok [OF order.refl fit])
  have "slice (nat 0) 24 (data (view w1) (node h)) = header_bytes (entry_header kSimpleSparseEntryVersion key hash)"
    by (simp add: c1 sparse_start_def)
  then have hdr: "header_of (slice (nat 0) 24 (data (view w1) (node h))) = entry_header kSimpleSparseEntryVersion key hash"
    by (simp add: header_codec.dec_enc_exact)
  have "slice (24 + length key) 32 (data (view w2) (node h)) = wrapping_header a crc"
    unfolding hd(2) c1 by (rule slice_field) (simp_all add: wrapping_header_def)
  then have "scan_ranges F h (of_nat (24 + length key)) [] 0 w2 = None"
    using scan_ranges_wrapping [rule_format, OF _ refl refl _ a, of h "24 + length key" _ 0 w2] b by fastforce
  then show ?thesis
    using o(1) hd(1) hdr key
    by (simp add: OpenSparseFileIfExists_def ScanSparseFile_def Let_def se_key_size_def entry_header_def)
qed

end

section \<open>The properties of the sparse stream\<close>

text \<open>C10: On files without faults, a sparse write is an update of a partial map from positions to bytes. Let the
entry's sparse file hold a log of ranges, which are not empty, do not overlap and have right checksums or none, and let
the recorded sparse size be the sum of their lengths. Then \<open>WriteSparseData\<close> returns, reports all bytes as
written, leaves a sparse file with such a log and its size recorded, and the stream of the new log is the old one
with the bytes at their positions; if the old ranges and the new bytes are together more than the limit, the old
ranges are dropped first. No other file is changed.\<close>
theorem sparse_write_refines:
  fixes max_size :: u64
  assumes "reliable_files F view node remaining"
    and "has_sparse S E (view w) n key hash log" and "sparse_data_size st = of_nat (log_size log)"
    and "sparse_offset op = of_nat off" and "sparse_buf_len op = of_nat (length buf)"
    and "off + length buf < 2 ^ 63" and "int (length buf) \<le> INT_MAX" and "length (data (view w) n) < 2 ^ 60"
  shows "\<exists>E' st' w' log'. WriteSparseData F S op buf max_size E st w = Some (Net (length buf), E', st', w')
    \<and> has_sparse S E' (view w') n key hash log' \<and> sparse_data_size st' = of_nat (log_size log')
    \<and> sparse_byte log' = sparse_update off buf
        (sparse_byte (if unat max_size < log_size log + length buf then [] else log))
    \<and> data_size st' = data_size st \<and> only_data n (view w) (view w')"
  by (rule reliable_files.WriteSparseData_ok [OF assms, of max_size]) (intro exI conjI, assumption+)

text \<open>C11: On files without faults, a sparse read returns the bytes of the stream from its offset up to the first
gap, and no more than asked for, whatever ranges of the log they are in, and changes no file.\<close>
theorem sparse_read_refines:
  assumes "reliable_files F view node remaining"
    and "has_sparse S E (view w) n key hash log"
    and "sparse_offset op = of_nat off" and "sparse_buf_len op = of_nat len"
    and "off + len < 2 ^ 63" and "int len \<le> INT_MAX"
  shows "\<exists>w'. ReadSparseData F S op E w = Some (Net (length (sparse_run (sparse_byte log) off len)),
      sparse_run (sparse_byte log) off len, E, w') \<and> view w' = view w"
  by (rule reliable_files.ReadSparseData_run [OF assms])

text \<open>C16: Sparse data survives closing and opening an entry: after a sparse write, another entry that opens the
sparse file under the same key scans it successfully, finds the sparse size that the writer has recorded, and reads back
exactly the bytes that were written.\<close>
theorem sparse_data_reopens:
  fixes max_size :: u64
  assumes "reliable_files F view node remaining"
    and "has_sparse S E0 (view w) n key hash log" and "sparse_data_size st = of_nat (log_size log)"
    and "sparse_offset op = of_nat off" and "sparse_buf_len op = of_nat (length buf)"
    and "off + length buf < 2 ^ 63" and "int (length buf) \<le> INT_MAX" and "length (data (view w) n) < 2 ^ 60"
    and "dir (view w) (GetFilenameForSubfile E FILE_SPARSE) = Some n" and "se_key E = Some key"
  shows "\<exists>E1 st1 w1 E2 w2 w3. WriteSparseData F S op buf max_size E0 st w = Some (Net (length buf), E1, st1, w1)
    \<and> OpenSparseFileIfExists F E out_size w1 = Some (True, E2, sparse_data_size st1, w2)
    \<and> ReadSparseData F S op E2 w2 = Some (Net (length buf), buf, E2, w3)"
proof -
  obtain E1 st1 w1 log' where w: "WriteSparseData F S op buf max_size E0 st w = Some (Net (length buf), E1, st1, w1)"
    "has_sparse S E1 (view w1) n key hash log'" "sparse_data_size st1 = of_nat (log_size log')"
    "sparse_byte log' = sparse_update off buf (sparse_byte (if unat max_size < log_size log + length buf then [] else log))"
    "only_data n (view w) (view w1)"
    by (rule reliable_files.WriteSparseData_ok [OF assms(1-8), of max_size])
  have d: "dir (view w1) (GetFilenameForSubfile E FILE_SPARSE) = Some n" using w(5) assms(9) by (simp add: only_data_def)
  have ok: "log_ok S log'" using has_sparseD(7) [OF w(2)] by (simp add: log_map_def)
  obtain E2 w2 where o: "OpenSparseFileIfExists F E out_size w1 = Some (True, E2, of_nat (log_size log'), w2)"
    "has_sparse S E2 (view w2) n key hash log'"
    using reliable_files.OpenSparseFileIfExists_ok [OF assms(1) d assms(10) has_sparseD(4,5) [OF w(2)] ok] by blast
  obtain w3 where "ReadSparseData F S op E2 w2 = Some (Net (length buf), buf, E2, w3)"
    using reliable_files.ReadSparseData_run [OF assms(1) o(2) assms(4-7)] by (auto simp: w(4) sparse_run_updated)
  with w(1,3) o(1) show ?thesis by auto
qed

text \<open>C40: Scanning a sparse file does not end on every input. The sum of a range's offset and length is checked
for overflow, but not the position of the next range header in the file: a range of \<open>2 ^ 64 - 32\<close> bytes, which the
checks let pass if it starts below position 32, is followed by itself. If such a range is first in a sparse file with
the right header, \<open>OpenSparseFileIfExists\<close> never returns, on files without faults.\<close>
theorem wrapping_range_never_ends:
  assumes "reliable_files F view node remaining"
    and "dir (view w) (GetFilenameForSubfile E FILE_SPARSE) = Some n" and "se_key E = Some key"
    and "data (view w) n = sparse_start key hash @ wrapping_header a crc @ rest"
    and "uint a < 32" and "length key < 2 ^ 32"
  shows "OpenSparseFileIfExists F E out_size w = None"
  by (rule reliable_files.OpenSparseFileIfExists_wrapping [OF assms])

subsection \<open>Witnesses\<close>

text \<open>An open entry with the key \<open>[104]\<close> and the bytes \<open>[1, 2]\<close> at position 5 of the sparse stream.\<close>

definition sample_log :: sparse_log where "sample_log = [(5, [1, 2], 0)]"

definition sparse_entry :: SyncEntry where
  "sparse_entry = sample_entry\<lparr>sparse_file_open := True, sparse_ranges := log_ranges 25 sample_log,
     sparse_tail_offset := 59\<rparr>"

definition sparse_world :: mem where
  "sparse_world = sample_mem\<lparr>m_dir := [(GetFilenameForSubfile sample_entry FILE_SPARSE, 2)],
     m_table := [(tracked_sparse sample_entry, 2)],
     m_data := (\<lambda>n. if n = 2 then sparse_start [104] 9 @ log_bytes sample_log else [])\<rparr>"

definition sparse_stat :: SimpleEntryStat where
  "sparse_stat = \<lparr>last_used = 0, data_size = [0, 0, 0], sparse_data_size = 2\<rparr>"

definition sparse_at_6 :: SparseRequest where
  "sparse_at_6 = \<lparr>sparse_offset = 6, sparse_buf_len = 3\<rparr>"

lemma sample_has_sparse: "has_sparse sample_sys sparse_entry (mem_view sparse_world) 2 [104] 9 sample_log"
  by (simp add: has_sparse_def sparse_entry_def sample_entry_def sparse_world_def new_SyncEntry_def
      tracked_sparse_def log_map_def log_ok_def sample_log_def ordered_def)

lemma sparse_write_refines_witness:
  "\<exists>E' st' w' log'. WriteSparseData (mem_env (\<lambda>_. False)) sample_sys sparse_at_6 [7, 8, 9] 100 sparse_entry sparse_stat
      sparse_world = Some (Net (length ([7, 8, 9] :: bytes)), E', st', w')
    \<and> has_sparse sample_sys E' (mem_view w') 2 [104] 9 log' \<and> sparse_data_size st' = of_nat (log_size log')
    \<and> sparse_byte log' = sparse_update 6 [7, 8, 9]
        (sparse_byte (if unat (100 :: u64) < log_size sample_log + length ([7, 8, 9] :: bytes) then [] else sample_log))
    \<and> data_size st' = data_size sparse_stat \<and> only_data 2 (mem_view sparse_world) (mem_view w')"
  by (rule sparse_write_refines [OF mem.reliable_files_axioms sample_has_sparse, where off = 6])
    (simp_all add: sparse_at_6_def sparse_stat_def sample_log_def sparse_world_def INT_MAX_def)

lemma sparse_read_refines_witness:
  "\<exists>w'. ReadSparseData (mem_env (\<lambda>_. False)) sample_sys sparse_at_6 sparse_entry sparse_world
      = Some (Net (length (sparse_run (sparse_byte sample_log) 6 3)), sparse_run (sparse_byte sample_log) 6 3,
          sparse_entry, w') \<and> mem_view w' = mem_view sparse_world"
  by (rule sparse_read_refines [OF mem.reliable_files_axioms sample_has_sparse, where off = 6])
    (simp_all add: sparse_at_6_def INT_MAX_def)

lemma sparse_data_reopens_witness:
  "\<exists>E1 st1 w1 E2 w2 w3. WriteSparseData (mem_env (\<lambda>_. False)) sample_sys sparse_at_6 [7, 8, 9] 100 sparse_entry
      sparse_stat sparse_world = Some (Net (length ([7, 8, 9] :: bytes)), E1, st1, w1)
    \<and> OpenSparseFileIfExists (mem_env (\<lambda>_. False)) sample_entry 0 w1 = Some (True, E2, sparse_data_size st1, w2)
    \<and> ReadSparseData (mem_env (\<lambda>_. False)) sample_sys sparse_at_6 E2 w2
        = Some (Net (length ([7, 8, 9] :: bytes)), [7, 8, 9], E2, w3)"
  by (rule sparse_data_reopens [OF mem.reliable_files_axioms sample_has_sparse, where off = 6])
    (simp_all add: sparse_at_6_def sparse_stat_def sample_log_def sparse_world_def INT_MAX_def sample_entry_def
      new_SyncEntry_def)

definition wrapping_world :: mem where
  "wrapping_world = sparse_world\<lparr>m_data := (\<lambda>n. sparse_start [104] 9 @ wrapping_header 7 0)\<rparr>"

lemma wrapping_range_never_ends_witness:
  "OpenSparseFileIfExists (mem_env (\<lambda>_. False)) sample_entry 0 wrapping_world = None"
  by (rule wrapping_range_never_ends [OF mem.reliable_files_axioms, where n = 2 and key = "[104]" and hash = 9
        and a = 7 and crc = 0 and rest = "[]"])
    (simp_all add: wrapping_world_def sparse_world_def sample_entry_def new_SyncEntry_def)

end
