(* ===== verification/Sync_Sparse_Available.thy ===== *)
theory Sync_Sparse_Available imports Sync_Sparse_Reopen begin

text \<open>
  The available range of the sparse stream: where the first bytes at or behind a position are, and how many
  follow each other without a gap, against the partial map of the stream.
\<close>

section \<open>The available range of a partial map\<close>

definition sparse_available :: "sparse_map \<Rightarrow> nat \<Rightarrow> nat \<Rightarrow> nat \<times> nat" where
  "sparse_available f off len =
     (case find (\<lambda>p. f p \<noteq> None) [off..<off + len] of
        None \<Rightarrow> (off, 0)
      | Some p \<Rightarrow> (p, length (sparse_run f p (off + len - p))))"

lemma find_first:
  assumes "off \<le> a" "a < limit" "P a" "\<And>q. off \<le> q \<Longrightarrow> q < a \<Longrightarrow> \<not> P q"
  shows "find P [off..<limit] = Some a"
  unfolding find_Some_iff using assms by (intro exI [of _ "a - off"]) auto

lemma find_none: "(\<And>q. off \<le> q \<Longrightarrow> q < limit \<Longrightarrow> \<not> P q) \<Longrightarrow> find P [off..<limit] = None"
  by (simp add: find_None_iff)

lemma length_run_covered:
  "(\<And>i. i < n \<Longrightarrow> f (p + i) \<noteq> None) \<Longrightarrow>
     length (sparse_run f p k) = min n k + length (sparse_run f (p + n) (k - n))"
proof (induction n arbitrary: p k)
  case (Suc n)
  show ?case
  proof (cases k)
    case (Suc k')
    from Suc.prems [of 0] obtain b where "f p = Some b" by auto
    moreover have "f (Suc p + i) \<noteq> None" if "i < n" for i using Suc.prems [of "Suc i"] that by simp
    ultimately show ?thesis using Suc.IH [of "Suc p" k'] \<open>k = Suc k'\<close> by simp
  qed simp
qed simp

section \<open>The loop over the ranges that follow\<close>

lemma extend_available_run:
  assumes ok: "log_ok S log" and b: "p + n < 2 ^ 63" "limit < 2 ^ 63"
    and later: "ordered later" "set later \<subseteq> set (log_ranges pos log)" "\<And>x. x \<in> set later \<Longrightarrow> p + n \<le> rstart x"
    and others: "\<And>x. x \<in> set (log_ranges pos log) \<Longrightarrow> x \<notin> set later \<Longrightarrow> p + n < limit \<Longrightarrow> rend x \<le> p + n"
  shows "\<exists>m. extend_available (of_nat limit) (of_nat p) later (of_nat n) = of_nat m \<and> p + m < 2 ^ 63
    \<and> min m (limit - p) = min n (limit - p) + length (sparse_run (sparse_byte log) (p + n) (limit - p - n))"
  using assms
proof (induction later arbitrary: n)
  case Nil
  have "sparse_run (sparse_byte log) (p + n) (limit - p - n) = []"
  proof (cases "p + n < limit")
    case True
    then have "sparse_byte log (p + n) = None"
      using Nil.prems(7) by (intro sparse_byte_no_range [OF ok, of pos]) auto
    then show ?thesis by (rule sparse_run_gap)
  qed simp
  with Nil.prems(2) show ?case by (intro exI [of _ n]) simp
next
  case (Cons x later)
  let ?f = "sparse_byte log"
  have "x \<in> set (log_ranges pos log)" using Cons.prems(5) by simp
  from in_log_ranges_ok [OF this ok] obtain l a d crc l' where
    log: "log = l @ (a, d, crc) # l'" and xr: "x = (of_nat a, rng a d crc (pos + length (log_bytes l) + 32))"
    and d: "d \<noteq> []" "a + length d < 2 ^ 63" and ends: "rstart x = a" "rend x = a + length d"
    by metis
  have lt: "of_nat p + of_nat n < (of_nat limit :: u64) \<longleftrightarrow> p + n < limit"
    using u64_of_nat(3) [OF Cons.prems(2,3)] by simp
  have eq: "of_nat a = (of_nat p + of_nat n :: u64) \<longleftrightarrow> a = p + n"
  proof -
    have "a < 2 ^ 63" using d(2) by linarith
    from u64_of_nat(4) [OF this Cons.prems(2)] show ?thesis by simp
  qed
  have le: "p + n \<le> a" using Cons.prems(6) [of x] ends by simp
  show ?case
  proof (cases "p + n < limit \<and> a = p + n")
    case False
    have "sparse_run ?f (p + n) (limit - p - n) = []"
    proof (cases "p + n < limit")
      case True
      then have "p + n < a" using le False by simp
      moreover have "a < rstart y" if "y \<in> set later" for y
        using Cons.prems(4) that ends by (auto simp: ordered_Cons rstart_def word_less_nat_alt)
      ultimately have "?f (p + n) = None"
        using Cons.prems(7) True ends by (intro sparse_byte_no_range [OF ok, of pos]) fastforce
      then show ?thesis by (rule sparse_run_gap)
    qed simp
    with False Cons.prems(2) lt eq show ?thesis by (intro exI [of _ n]) (auto simp: xr)
  next
    case True
    let ?n = "n + length d"
    have covered: "?f (p + n + i) \<noteq> None" if "i < length d" for i
      using that True sparse_byte_Some [OF ok, of a d crc "p + n + i"] by (simp add: log)
    have split: "length (sparse_run ?f (p + n) (limit - p - n))
        = min (length d) (limit - p - n) + length (sparse_run ?f (p + ?n) (limit - p - ?n))"
      using length_run_covered [of "length d" ?f "p + n" "limit - p - n"] covered by (simp add: add.assoc)
    have after: "p + ?n \<le> rstart y" if "y \<in> set later" for y
      using later_starts [OF ok, of x pos y] Cons.prems(4,5) that ends True by (auto simp: ordered_Cons)
    have end_le: "rend y \<le> p + ?n" if "y \<in> set (log_ranges pos log)" "y \<notin> set later" for y
      using Cons.prems(7) [of y] that True ends by (cases "y = x") auto
    have "p + ?n < 2 ^ 63" using d(2) True by simp
    from Cons.IH [OF ok this Cons.prems(3) _ _ after end_le] Cons.prems(4,5) obtain m where
      m: "extend_available (of_nat limit) (of_nat p) later (of_nat ?n) = of_nat m" "p + m < 2 ^ 63"
      "min m (limit - p) = min ?n (limit - p) + length (sparse_run ?f (p + ?n) (limit - p - ?n))"
      by (auto simp: ordered_Cons)
    have "min ?n (limit - p) = min n (limit - p) + min (length d) (limit - p - n)" by linarith
    then have "min m (limit - p) = min n (limit - p) + length (sparse_run ?f (p + n) (limit - p - n))"
      using m(3) split by linarith
    moreover have "extend_available (of_nat limit) (of_nat p) (x # later) (of_nat n) = of_nat m"
      using m(1) True lt eq by (simp add: xr)
    ultimately show ?thesis using m(2) by blast
  qed
qed

section \<open>The whole search\<close>

lemma available_from:
  assumes m: "log_map S log pos rs" and b: "off + len < 2 ^ 63" "off \<le> s" "s \<le> off + len" "s + n < 2 ^ 63"
    and after: "\<And>x. x \<in> set (lower_bound (of_nat off) rs) \<Longrightarrow> s + n \<le> rstart x"
    and below: "\<And>x. x \<in> set (before (of_nat off) rs) \<Longrightarrow> s + n < off + len \<Longrightarrow> rend x \<le> s + n"
    and covered: "\<And>i. i < n \<Longrightarrow> sparse_byte log (s + i) \<noteq> None"
  shows "min (extend_available (of_nat (off + len)) (of_nat s) (lower_bound (of_nat off) rs) (of_nat n))
      (of_nat len - (of_nat s - of_nat off)) = of_nat (length (sparse_run (sparse_byte log) s (off + len - s)))"
proof -
  note ok = log_mapD(1) [OF m] and ord = ordered_parts(2) [OF log_mapD(2) [OF m]]
  have sub: "set (lower_bound (of_nat off) rs) \<subseteq> set (log_ranges pos log)" using in_lower_bound_range [OF m] by blast
  have out: "rend x \<le> s + n" if "x \<in> set (log_ranges pos log)" "x \<notin> set (lower_bound (of_nat off) rs)" "s + n < off + len" for x
    using range_cases [OF m that(1)] that(2,3) below by blast
  from extend_available_run [OF ok b(4,1) ord sub after out] obtain v where
    v: "extend_available (of_nat (off + len)) (of_nat s) (lower_bound (of_nat off) rs) (of_nat n) = of_nat v" "s + v < 2 ^ 63"
    "min v (off + len - s) = min n (off + len - s) + length (sparse_run (sparse_byte log) (s + n) (off + len - s - n))"
    by blast
  have len: "of_nat len - (of_nat s - of_nat off) = (of_nat (off + len - s) :: u64)"
    using b(2,3) by (simp add: of_nat_diff)
  have "min (of_nat v) (of_nat (off + len - s)) = (of_nat (min v (off + len - s)) :: u64)"
    using v(2) b(1) by (intro u64_of_nat(5)) linarith+
  moreover have "min v (off + len - s) = length (sparse_run (sparse_byte log) s (off + len - s))"
    using v(3) length_run_covered [of n "sparse_byte log" s "off + len - s"] covered by simp
  ultimately show ?thesis by (simp only: v(1) len)
qed

lemma GetAvailableRange_available:
  assumes m: "log_map S log pos (sparse_ranges E)"
    and op: "sparse_offset op = of_nat off" "sparse_buf_len op = of_nat len" and b: "off + len < 2 ^ 63"
  shows "GetAvailableRange op E = map_prod of_nat of_nat (sparse_available (sparse_byte log) off len)"
proof -
  let ?f = "sparse_byte log"
  define below where "below = before (of_nat off) (sparse_ranges E)"
  define later where "later = lower_bound (of_nat off) (sparse_ranges E)"
  have off: "off < 2 ^ 63" using b by linarith
  note ok = log_mapD(1) [OF m] and low = lower_bound_le [OF m off, folded later_def]
    and other = before_not_last [OF m off, folded below_def] and acr = across [OF m, of _ "of_nat off", folded below_def later_def]
    and avl = available_from [OF m b, folded later_def below_def]
  have heads: "range_offset (snd x) = fst x" "range_offset (snd x) = of_nat (rstart x)"
    "range_offset (snd x) + range_length (snd x) = of_nat (rend x)" "rend x < 2 ^ 63" "rstart x < rend x"
    "\<And>i. rstart x + i < rend x \<Longrightarrow> ?f (rstart x + i) \<noteq> None"
    if x: "x \<in> set (log_ranges pos log)" for x
  proof -
    obtain l a d crc l' where log: "log = l @ (a, d, crc) # l'"
      and xr: "x = (of_nat a, rng a d crc (pos + length (log_bytes l) + 32))"
      and d: "d \<noteq> []" "a + length d < 2 ^ 63" "rstart x = a" "rend x = a + length d"
      by (rule in_log_ranges_ok [OF x ok])
    show "range_offset (snd x) = fst x" "range_offset (snd x) = of_nat (rstart x)"
      "range_offset (snd x) + range_length (snd x) = of_nat (rend x)" "rend x < 2 ^ 63" "rstart x < rend x"
      using d by (simp_all add: xr d)
    show "?f (rstart x + i) \<noteq> None" if "rstart x + i < rend x" for i
      using sparse_byte_Some [OF ok, of a d crc "a + i"] that d(3,4) by (simp add: log)
  qed
  have mem: "x \<in> set (log_ranges pos log)" if "x \<in> set below \<or> x \<in> set later" for x
    using that in_before_range [OF m] in_lower_bound_range [OF m] unfolding below_def later_def by blast
  have le: "of_nat off < (of_nat (rend x) :: u64) \<longleftrightarrow> off < rend x" if "x \<in> set below \<or> x \<in> set later" for x
    by (rule u64_of_nat(3) [OF off heads(4) [OF mem [OF that]]])
  have word: "of_nat (off + len) = (of_nat off + of_nat len :: u64)" by simp
  show ?thesis
  proof (cases "below \<noteq> [] \<and> off < rend (last below)")
    case True
    then have l: "last below \<in> set below" by simp
    let ?x = "last below" and ?n = "rend (last below) - off"
    note h = heads [OF mem [OF disjI1 [OF l]]]
    have a: "rstart ?x < off" using before_less [OF off] l by (simp add: below_def)
    have covered: "?f (off + i) \<noteq> None" if "i < ?n" for i
      using h(6) [of "off - rstart ?x + i"] a that by simp
    have after: "off + ?n \<le> rstart y" if "y \<in> set later" for y using acr [OF l that] True by simp
    have ends: "rend y \<le> off + ?n" if "y \<in> set below" for y
      using other [OF that] True by (cases "y = ?x") simp_all
    have n: "off + ?n < 2 ^ 63" "off \<le> off" "off \<le> off + len" using h(4) True by simp_all
    from avl [OF n(2,3,1) after ends covered] have avail:
      "min (extend_available (of_nat off + of_nat len) (of_nat off) later (of_nat ?n)) (of_nat len)
        = of_nat (length (sparse_run ?f off len))" by (simp add: word)
    have first: "of_nat off < range_offset (snd y)" if "y \<in> set later" for y
    proof -
      have "off < rstart y" "rstart y < 2 ^ 63" using after [OF that] True heads(4,5) [of y] mem [of y] that by auto
      then show ?thesis using u64_of_nat(3) [OF off] heads(2) [of y] mem [of y] that by simp
    qed
    have "GetAvailableRange op E = (of_nat off, of_nat (length (sparse_run ?f off len)))"
    proof -
      have "(case later of [] \<Rightarrow> True | (k, rg) # _ \<Rightarrow> range_offset rg > of_nat off) \<and> below \<noteq> []"
        using first [of "hd later"] True by (cases later) (simp_all add: case_prod_unfold)
      moreover have "range_offset (snd ?x) + range_length (snd ?x) > of_nat off" using le [of ?x] l True h(3) by simp
      moreover have "range_offset (snd ?x) + range_length (snd ?x) - of_nat off = of_nat ?n"
        using True by (simp add: h(3) of_nat_diff)
      ultimately show ?thesis
        using avail by (simp add: GetAvailableRange_def Let_def op below_def [symmetric] later_def [symmetric] case_prod_unfold)
    qed
    moreover have "sparse_available ?f off len = (off, length (sparse_run ?f off len))"
    proof (cases "len = 0")
      case False
      then have "find (\<lambda>p. ?f p \<noteq> None) [off..<off + len] = Some off"
        using covered [of 0] True by (intro find_first) auto
      then show ?thesis by (simp add: sparse_available_def)
    qed (simp add: sparse_available_def)
    ultimately show ?thesis by simp
  next
    case False
    have ends: "rend x \<le> off" if "x \<in> set below" for x
      using other [OF that] False that by (cases "x = last below") auto
    have gap: "?f q = None" if "off \<le> q" "\<And>y. y \<in> set later \<Longrightarrow> q < rstart y" for q
      using range_cases [OF m, of _ "of_nat off", folded below_def later_def] ends that
      by (intro sparse_byte_no_range [OF ok, of pos]) fastforce
    define s where "s = (if later \<noteq> [] \<and> rstart (hd later) < off + len then rstart (hd later) else off)"
    have ord: "ordered later" unfolding later_def by (rule ordered_parts(2) [OF log_mapD(2) [OF m]])
    have hd_le: "rstart (hd later) \<le> rstart y" if "y \<in> set later" for y
      using ord that by (cases later) (auto simp: ordered_Cons rstart_def word_less_nat_alt)
    have s: "off \<le> s" "s \<le> off + len" "\<And>y. y \<in> set later \<Longrightarrow> s \<le> rstart y"
      using low hd_le by (auto simp: s_def)
    have s0: "s + 0 < 2 ^ 63" using s(2) b by simp
    have after: "s + 0 \<le> rstart y" if "y \<in> set later" for y using s(3) [OF that] by simp
    have below: "rend x \<le> s + 0" if "x \<in> set below" for x using ends [OF that] s(1) by simp
    from avl [OF s(1,2) s0 after below] have avail:
      "min (extend_available (of_nat off + of_nat len) (of_nat s) later 0) (of_nat len - (of_nat s - of_nat off))
        = of_nat (length (sparse_run ?f s (off + len - s)))" by (simp add: word)
    have start: "(case later of [] \<Rightarrow> of_nat off
        | (k, rg) # _ \<Rightarrow> if range_offset rg < of_nat off + of_nat len then range_offset rg else of_nat off) = (of_nat s :: u64)"
    proof (cases later)
      case (Cons y ys)
      then have y: "y \<in> set below \<or> y \<in> set later" by simp
      have "rstart y < 2 ^ 63" using heads(4,5) [OF mem [OF y]] by linarith
      then have "of_nat (rstart y) < (of_nat (off + len) :: u64) \<longleftrightarrow> rstart y < off + len" by (rule u64_of_nat(3) [OF _ b])
      then show ?thesis using heads(2) [OF mem [OF y]] Cons by (simp add: s_def case_prod_unfold)
    qed (simp add: s_def)
    have nohop: "\<not> range_offset (snd (last below)) + range_length (snd (last below)) > of_nat off" if "below \<noteq> []"
      using le [of "last below"] heads(3) [OF mem [of "last below"]] that False by simp
    have "GetAvailableRange op E = (of_nat s, of_nat (length (sparse_run ?f s (off + len - s))))"
      using avail start nohop
      by (simp add: GetAvailableRange_def Let_def op below_def [symmetric] later_def [symmetric] case_prod_unfold)
    moreover have "sparse_available ?f off len = (s, length (sparse_run ?f s (off + len - s)))"
    proof (cases "later \<noteq> [] \<and> rstart (hd later) < off + len")
      case True
      then have hd: "hd later \<in> set later" "s = rstart (hd later)" by (simp_all add: s_def)
      have "?f s \<noteq> None"
        using heads(5) [OF mem [OF disjI2 [OF hd(1)]]] heads(6) [OF mem [OF disjI2 [OF hd(1)]], of 0] hd(2) by simp
      moreover have "?f q = None" if "off \<le> q" "q < s" for q using s(3) that by (intro gap) fastforce+
      ultimately have "find (\<lambda>p. ?f p \<noteq> None) [off..<off + len] = Some s"
        using True hd(2) s(1) by (intro find_first) auto
      then show ?thesis by (simp add: sparse_available_def)
    next
      case empty: False
      have far: "off + len \<le> rstart y" if "y \<in> set later" for y
        using empty hd_le [OF that] that by (cases later) auto
      have none: "?f q = None" if "off \<le> q" "q < off + len" for q using far that by (intro gap) fastforce+
      have "s = off" using empty by (auto simp: s_def)
      moreover have "length (sparse_run ?f off len) = 0" using none [of off] by (cases len) (simp_all add: sparse_run_gap)
      moreover have "find (\<lambda>p. ?f p \<noteq> None) [off..<off + len] = None" using none by (intro find_none) simp
      ultimately show ?thesis by (simp add: sparse_available_def)
    qed
    ultimately show ?thesis by simp
  qed
qed

text \<open>C12: The available range of an open entry is that of its sparse stream: \<open>GetAvailableRange\<close> returns the first
position of the asked interval that has a byte, with the number of bytes that follow it without a gap up to the end of
the interval, whatever ranges of the log they are in, and no bytes at the start of the interval if it is empty.\<close>
theorem available_range_refines:
  assumes "has_sparse S E v n key hash log"
    and "sparse_offset op = of_nat off" and "sparse_buf_len op = of_nat len" and "off + len < 2 ^ 63"
  shows "GetAvailableRange op E = map_prod of_nat of_nat (sparse_available (sparse_byte log) off len)"
  by (rule GetAvailableRange_available [OF has_sparseD(7) [OF assms(1)] assms(2-4)])

lemma available_range_refines_witness:
  "GetAvailableRange \<lparr>sparse_offset = 1, sparse_buf_len = 9\<rparr> sparse_entry
     = map_prod of_nat of_nat (sparse_available (sparse_byte sample_log) 1 9)"
  by (rule available_range_refines [OF sample_has_sparse]) simp_all

lemma sample_available: "sparse_available (sparse_byte sample_log) 1 9 = (5, 2)"
  by (simp add: sparse_available_def sample_log_def upt_rec numeral_eq_Suc)

end
