(* ===== verification/Sync_Lifecycle.thy ===== *)
theory Sync_Lifecycle imports Sync_Reopen begin

text \<open>
  The life of an entry: it is created, a stream is written, it is closed, opened again under its key, and
  the stream is read.
\<close>

section \<open>Creating\<close>

context reliable_files begin

lemma InitializeCreatedFile_ok:
  assumes t: "table (view w) (tracked_file E i) = Some n" "data (view w) n = []" and key: "se_key E = Some key"
    and hash: "PersistentHash key = Some hash"
  obtains w' where "InitializeCreatedFile F i E w = Some (True, w')" "view w' = put_data n (file_start key hash) (view w)"
proof -
  let ?hd = "header_bytes (entry_header kSimpleEntryVersionOnDisk key hash)"
  obtain h w0 where a: "tAcquire F (tracked_file E i) w = (Some h, w0)" "node h = n" "view w0 = view w"
    by (rule acquire_ok [OF t(1)])
  obtain w1 where w1: "fWriteAndCheck F h 0 ?hd w0 = (True, w1)"
    "view w1 = put_data (node h) (overwrite (nat 0) ?hd (data (view w0) (node h))) (view w0)"
    by (rule write_check_ok [OF order.refl])
  obtain w2 where w2: "fWriteAndCheck F h (int 24) key w1 = (True, w2)"
    "view w2 = put_data (node h) (overwrite (nat (int 24)) key (data (view w1) (node h))) (view w1)"
    by (rule write_check_ok [of "int 24" h key w1]) simp
  have "overwrite (nat 0) ?hd [] = ?hd" by (simp add: overwrite_def)
  then have v1: "view w1 = put_data n ?hd (view w)" using w1(2) a t(2) by simp
  have "overwrite (nat (int 24)) key ?hd = ?hd @ key" by (simp add: overwrite_def)
  then have "view w2 = put_data n (file_start key hash) (view w)"
    using w2(2) v1 a(2) by (simp add: file_start_def)
  moreover have "InitializeCreatedFile F i E w = Some (True, w2)"
    using a(1) w1(1) w2(1) by (simp add: InitializeCreatedFile_def Let_def key hash)
  ultimately show thesis using that by blast
qed

lemma InitializeForCreate_ok:
  assumes free: "dir (view w) (AppendASCII path (GetFilenameFromEntryFileKeyAndFileIndex (plain_key h) 0)) = None"
    and hash: "PersistentHash key = Some hash" and k: "length key < 2 ^ 32"
    and out: "data_size st = [0, 0, 0]"
  obtains E st' w' n where
    "InitializeForCreate F (new_SyncEntry ct path owner (Some key) h prefetch_size) st w = Some (net_OK, E, st', w')"
    "data_size st' = [0, 0, 0]" "has_stream_1 E st' (view w') n key hash []"
    "empty_file_omitted E = [False, True]" "entry_file_key E = plain_key h" "se_path E = path" "se_owner E = owner"
    "fresh_node n (view w)" "table (view w') = (table (view w))((owner, FILE_0) \<mapsto> n)"
    "dir (view w') = (dir (view w))(AppendASCII path (GetFilenameFromEntryFileKeyAndFileIndex (plain_key h) 0) \<mapsto> n)"
    "(data (view w'))(n := []) = (data (view w))(n := [])"
proof -
  let ?E = "new_SyncEntry ct path owner (Some key) h prefetch_size"
  let ?E1 = "?E\<lparr>empty_file_omitted := [False, True], have_open_files := True\<rparr>"
  have E: "se_key ?E = Some key" "header_and_key_check_needed ?E = [False, False]" "empty_file_omitted ?E = [False, False]"
    "entry_file_key ?E = plain_key h" "se_path ?E = path" "se_owner ?E = owner"
    by (simp_all add: new_SyncEntry_def plain_key_def)
  have name: "GetFilenameFromFileIndex ?E 0 = AppendASCII path (GetFilenameFromEntryFileKeyAndFileIndex (plain_key h) 0)"
    by (simp add: GetFilenameFromFileIndex_def new_SyncEntry_def plain_key_def)
  have free': "dir (view w) (GetFilenameFromFileIndex ?E 0) = None" by (simp add: free name)
  obtain f w1 where c: "OpenFile F (GetFilenameFromFileIndex ?E 0) FLAG_CREATE_RW w = (Inr f, w1)" "fresh_node (node f) (view w)"
    "view w1 = put_data (node f) [] ((view w)\<lparr>dir := (dir (view w))(GetFilenameFromFileIndex ?E 0 \<mapsto> node f)\<rparr>)"
    by (rule create_ok [OF free'])
  let ?w = "tRegister F (tracked_file ?E 0) f w1"
  obtain t w2 where now: "Time_Now F ?w = (t, w2)" "view w2 = view ?w" by (rule now_ok)
  let ?st = "fold (\<lambda>i. set_data_size i 0) [0..<kSimpleEntryNormalFileCount] (st\<lparr>last_used := t\<rparr>)"
  have st: "data_size ?st = [0, 0, 0]" by (simp add: two_files set_data_size_def out)
  have trk: "tracked_file ?E1 0 = tracked_file ?E 0" "tracked_file (?E1\<lparr>se_initialized := True\<rparr>) 0 = tracked_file ?E 0"
    by (simp_all add: tracked_file_def)
  have create: "CreateFiles F ?E st w = (True, ?E1, ?st, w2)"
    using c(1) now(1) by (simp add: CreateFiles_def two_files MaybeCreateFile_def set_omitted_def E
        tracked_file_def Let_def del: fold_simps)
  have v2: "table (view w2) (tracked_file ?E1 0) = Some (node f)" "data (view w2) (node f) = []" "se_key ?E1 = Some key"
    using now(2) c(3) by (simp_all add: register_law trk E)
  obtain w3 where i: "InitializeCreatedFile F 0 ?E1 w2 = Some (True, w3)"
    "view w3 = put_data (node f) (file_start key hash) (view w2)"
    by (rule InitializeCreatedFile_ok [OF v2 hash])
  let ?E2 = "?E1\<lparr>se_initialized := True\<rparr>"
  have "initialize_each F [0..<kSimpleEntryNormalFileCount] ?E1 w2 = Some (net_OK, w3)"
    using i(1) by (simp add: two_files)
  then have run: "InitializeForCreate F ?E st w = Some (net_OK, ?E2, ?st, w3)"
    using create by (simp add: InitializeForCreate_def Let_def)
  have "has_stream_1 ?E2 ?st (view w3) (node f) key hash []"
    using v2 i(2) st k by (auto simp: has_stream_1_def trk sizes_ok_def less_Suc_eq numeral_3_eq_3 E)
  moreover have "dir (view w3) = (dir (view w))(AppendASCII path (GetFilenameFromEntryFileKeyAndFileIndex (plain_key h) 0) \<mapsto> node f)"
    "(data (view w3))(node f := []) = (data (view w))(node f := [])"
    "table (view w3) = (table (view w))((owner, FILE_0) \<mapsto> node f)"
    using i(2) now(2) c(3) name by (simp_all add: register_law tracked_file_def SubFileForFileIndex_def E)
  moreover have "empty_file_omitted ?E2 = [False, True]" "entry_file_key ?E2 = plain_key h" "se_path ?E2 = path"
    "se_owner ?E2 = owner"
    using E(4-6) by simp_all
  ultimately show thesis
    using st c(2) by (intro that [OF run]) (simp_all del: fold_simps)
qed

lemma CreateEntry_ok:
  assumes free: "dir (view w) (AppendASCII path (GetFilenameFromEntryFileKeyAndFileIndex (plain_key h) 0)) = None"
    and hash: "PersistentHash key = Some hash" and k: "length key < 2 ^ 32"
    and out: "data_size (cr_entry_stat out) = [0, 0, 0]"
  obtains E out' w' n where "CreateEntry F ct path owner key h out w = Some (out', w')" "cr_result out' = Net 0"
    "cr_sync_entry out' = Some E" "data_size (cr_entry_stat out') = [0, 0, 0]" "cr_created out'"
    "has_stream_1 E (cr_entry_stat out') (view w') n key hash []"
    "empty_file_omitted E = [False, True]" "entry_file_key E = plain_key h" "se_path E = path" "se_owner E = owner"
    "fresh_node n (view w)" "table (view w') = (table (view w))((owner, FILE_0) \<mapsto> n)"
    "dir (view w') = (dir (view w))(AppendASCII path (GetFilenameFromEntryFileKeyAndFileIndex (plain_key h) 0) \<mapsto> n)"
    "(data (view w'))(n := []) = (data (view w))(n := [])"
proof -
  obtain E st' w' n where i: "InitializeForCreate F (new_SyncEntry ct path owner (Some key) h 0) (cr_entry_stat out) w
      = Some (net_OK, E, st', w')"
    and rest: "data_size st' = [0, 0, 0]" "has_stream_1 E st' (view w') n key hash []"
    "empty_file_omitted E = [False, True]" "entry_file_key E = plain_key h" "se_path E = path" "se_owner E = owner"
    "fresh_node n (view w)" "table (view w') = (table (view w))((owner, FILE_0) \<mapsto> n)"
    "dir (view w') = (dir (view w))(AppendASCII path (GetFilenameFromEntryFileKeyAndFileIndex (plain_key h) 0) \<mapsto> n)"
    "(data (view w'))(n := []) = (data (view w))(n := [])"
    by (rule InitializeForCreate_ok [OF free hash k out])
  let ?out = "out\<lparr>cr_result := net_OK, cr_entry_stat := st', cr_sync_entry := Some E, cr_created := True\<rparr>"
  have "CreateEntry F ct path owner key h out w = Some (?out, w')" using i by (simp add: CreateEntry_def)
  from that [OF this, where E = E and n = n] rest show thesis by simp
qed

end

section \<open>The whole life\<close>

lemma first_write: "stream_write off buf trunc [] = replicate off 0 @ buf"
  by (auto simp: stream_write_def overwrite_def resize_def)

lemma names_differ:
  "GetFilenameFromEntryFileKeyAndFileIndex (plain_key h) 1 \<noteq> GetFilenameFromEntryFileKeyAndFileIndex (plain_key h) 0"
  by (simp add: GetFilenameFromEntryFileKeyAndFileIndex_def plain_key_def dec_int_def)

text \<open>C3: An entry lives from creation to reading. In a cache directory without the files of an entry, and without
faults, \<open>CreateEntry\<close> succeeds; \<open>WriteData\<close> of some bytes to stream 1 of the new entry, at any offset, reports all of
them as written; \<open>Close\<close> with any bytes for stream 0 and right checksums returns; \<open>OpenEntry\<close> with the same key then
succeeds; and \<open>ReadData\<close> at that offset returns exactly the bytes that were written.\<close>
theorem entry_lifecycle:
  assumes "reliable_files F view node remaining"
    and "dir (view w) (AppendASCII path (GetFilenameFromEntryFileKeyAndFileIndex (plain_key h) 0)) = None"
    and "dir (view w) (AppendASCII path (GetFilenameFromEntryFileKeyAndFileIndex (plain_key h) 1)) = None"
    and "dir (view w) (AppendASCII path (GetSparseFilenameFromEntryFileKey (plain_key h))) = None"
    and "104 + length key + (off + length buf) + length d0 < 2 ^ 31" and "length (Sha256 S key) = 32"
    and "wr_index wop = 1" and "wr_offset wop = int off" and "wr_buf_len wop = int (length buf)"
    and "crc_index r0 = 0" and "has_crc32 r0 \<longrightarrow> data_crc32 r0 = Crc32 (sys_zlib S) d0"
    and "crc_index r1 = 1" and "has_crc32 r1 \<longrightarrow> data_crc32 r1 = Crc32 (sys_zlib S) (replicate off 0 @ buf)"
    and "rr_index rop = 1" and "rr_offset rop = int off" and "rr_buf_len rop = int (length buf)"
    and "\<not> rr_request_verify_crc rop"
    and "data_size (cr_entry_stat out) = [0, 0, 0]" and "length (cr_stream_prefetch_data out) = 2"
  shows "\<exists>out1 E w1 wout st w2 estimate w3 out2 E2 w4 rout E3 st3 w5.
      CreateEntry F ct path owner key h out w = Some (out1, w1) \<and> cr_sync_entry out1 = Some E
    \<and> WriteData F S wop buf E (cr_entry_stat out1) wout0 w1 = Some (wout, E, st, w2) \<and> wd_result wout = Net (length buf)
    \<and> Close F S (set_data_size 0 (int (length d0)) st) [r0, r1] d0 E w2 = Some (estimate, w3)
    \<and> OpenEntry F S ct path owner2 (Some key) h prefetch_size out w3 = Some (out2, w4)
    \<and> cr_result out2 = Net 0 \<and> cr_sync_entry out2 = Some E2
    \<and> ReadData F S rop E2 (cr_entry_stat out2) rout0 w4 = Some (rout, buf, E3, st3, w5)
    \<and> rd_result rout = Net (length buf)"
proof -
  let ?d = "replicate off 0 @ buf"
  have k: "length key < 2 ^ 32" "\<not> INT_MAX < int (length key)" using assms(5) by (simp_all add: INT_MAX_def)
  then obtain hash where hash: "PersistentHash key = Some hash"
    using SuperFastHash_in_bounds [of "int (length key)" key] by (auto simp: PersistentHash_def)
  obtain E out1 w1 n where c: "CreateEntry F ct path owner key h out w = Some (out1, w1)" "cr_sync_entry out1 = Some E"
    "has_stream_1 E (cr_entry_stat out1) (view w1) n key hash []"
    "empty_file_omitted E = [False, True]" "entry_file_key E = plain_key h" "se_path E = path"
    "dir (view w1) = (dir (view w))(AppendASCII path (GetFilenameFromEntryFileKeyAndFileIndex (plain_key h) 0) \<mapsto> n)"
    by (rule reliable_files.CreateEntry_ok [OF assms(1,2) hash k(1) assms(18)]) blast
  have "off + length buf < 2 ^ 60" using assms(5) by simp
  from reliable_files.WriteData_stream_1 [OF assms(1) c(3) assms(7-9) this, of S wout0] obtain wout st w2 where
    wr: "WriteData F S wop buf E (cr_entry_stat out1) wout0 w1 = Some (wout, E, st, w2)" "wd_result wout = Net (length buf)"
    "has_stream_1 E st (view w2) n key hash ?d" "dir (view w2) = dir (view w1)"
    by (auto simp: first_write)
  let ?st = "set_data_size 0 (int (length d0)) st"
  have b: "104 + length key + length ?d + length d0 < 2 ^ 31" using assms(5) by simp
  have st: "has_stream_1 E ?st (view w2) n key hash ?d" "data_size ?st ! 0 = int (length d0)"
    using wr(3) assms(5) by (auto simp: has_stream_1_def sizes_ok_def set_data_size_def nth_list_update)
  have d: "dir (view w2) (AppendASCII path (GetFilenameFromEntryFileKeyAndFileIndex (plain_key h) 0)) = Some n"
    "dir (view w2) (AppendASCII path (GetFilenameFromEntryFileKeyAndFileIndex (plain_key h) 1)) = None"
    "dir (view w2) (AppendASCII path (GetSparseFilenameFromEntryFileKey (plain_key h))) = None"
    using c(7) wr(4) assms(3,4) names_differ [of h] sparse_filename_not_stream [of "plain_key h" "plain_key h" 0]
    by (simp_all add: AppendASCII_def)
  obtain estimate w3 out2 w4 E2 where o: "Close F S ?st [r0, r1] d0 E w2 = Some (estimate, w3)"
    "OpenEntry F S ct path owner2 (Some key) h prefetch_size out w3 = Some (out2, w4)" "cr_result out2 = Net 0"
    "cr_sync_entry out2 = Some E2" "has_stream_1 E2 (cr_entry_stat out2) (view w4) n key hash ?d"
    using close_and_open [OF assms(1) st b assms(6) c(4-6) d assms(10-13,18,19)] by blast
  have "slice off (length buf) ?d = buf" by (simp add: slice_def)
  moreover have "off + length buf \<le> length ?d" by simp
  ultimately obtain rout st3 w5 where "ReadData F S rop E2 (cr_entry_stat out2) rout0 w4 = Some (rout, buf, E2, st3, w5)"
    "rd_result rout = Net (length buf)"
    using reliable_files.ReadData_stream_1 [OF assms(1) o(5) assms(14-16) _ assms(17), of S rout0] by auto
  with c(1,2) wr(1,2) o(1-4) show ?thesis by blast
qed

definition write_at_3 :: WriteRequest where
  "write_at_3 = \<lparr>wr_index = 1, wr_offset = 3, wr_buf_len = 2, wr_previous_crc32 = 0, wr_truncate = False,
     wr_doomed = False, wr_request_update_crc = False\<rparr>"

definition read_at_3 :: ReadRequest where
  "read_at_3 = \<lparr>rr_index = 1, rr_offset = 3, rr_buf_len = 2, rr_previous_crc32 = 0,
     rr_request_update_crc = False, rr_request_verify_crc = False\<rparr>"

lemma entry_lifecycle_witness:
  "\<exists>out1 E w1 wout st w2 estimate w3 out2 E2 w4 rout E3 st3 w5.
      CreateEntry (mem_env (\<lambda>_. False)) DISK_CACHE [''c''] 0 [104] 5 no_results empty_mem = Some (out1, w1)
    \<and> cr_sync_entry out1 = Some E
    \<and> WriteData (mem_env (\<lambda>_. False)) sample_sys write_at_3 [8, 9] E (cr_entry_stat out1) no_write w1 = Some (wout, E, st, w2)
    \<and> wd_result wout = Net (length ([8, 9] :: bytes))
    \<and> Close (mem_env (\<lambda>_. False)) sample_sys (set_data_size 0 (int (length ([7] :: bytes))) st)
        [\<lparr>crc_index = 0, has_crc32 = False, data_crc32 = 0\<rparr>,
         \<lparr>crc_index = 1, has_crc32 = True, data_crc32 = Crc32 (sys_zlib sample_sys) (replicate 3 0 @ [8, 9])\<rparr>] [7] E w2
        = Some (estimate, w3)
    \<and> OpenEntry (mem_env (\<lambda>_. False)) sample_sys DISK_CACHE [''c''] 1 (Some [104]) 5 100 no_results w3 = Some (out2, w4)
    \<and> cr_result out2 = Net 0 \<and> cr_sync_entry out2 = Some E2
    \<and> ReadData (mem_env (\<lambda>_. False)) sample_sys read_at_3 E2 (cr_entry_stat out2) no_read w4 = Some (rout, [8, 9], E3, st3, w5)
    \<and> rd_result rout = Net (length ([8, 9] :: bytes))"
  by (rule entry_lifecycle [OF mem.reliable_files_axioms, where off = 3])
    (simp_all add: write_at_3_def read_at_3_def no_results_def empty_mem_def mem_view_def sample_sys_def)

end
