(* ===== verification/Sync_Failures.thy ===== *)
theory Sync_Failures imports Sync_Sparse_Reopen begin

text \<open>
  A data operation that reports an error has doomed its entry, whichever file operations fail.
\<close>

definition doomed :: "SyncEntry \<Rightarrow> bool" where
  "doomed E \<longleftrightarrow> doom_generation (entry_file_key E) \<noteq> 0"

text \<open>The steps of an operation before it fails leave the files open and the name of the entry as it is.\<close>

definition same_name :: "SyncEntry \<Rightarrow> SyncEntry \<Rightarrow> bool" where
  "same_name E E' \<longleftrightarrow> have_open_files E' = have_open_files E \<and> entry_file_key E' = entry_file_key E"

lemma same_name_refl [simp]: "same_name E E"
  by (simp add: same_name_def)

lemma same_name_open: "same_name E E' \<Longrightarrow> have_open_files E' = have_open_files E"
  by (simp add: same_name_def)

lemma same_name_trans [trans]: "same_name E E' \<Longrightarrow> same_name E' E'' \<Longrightarrow> same_name E E''"
  by (simp add: same_name_def)

lemma CheckHeaderAndKey_name: "CheckHeaderAndKey F h i E w = Some (ok, E', w') \<Longrightarrow> same_name E E'"
  by (auto simp: CheckHeaderAndKey_def Let_def same_name_def set_check_needed_def
      split: prod.splits if_splits option.splits Option.bind_splits)

lemma check_before_write_name: "check_before_write F i E w = Some (ok, E', w') \<Longrightarrow> same_name E E'"
  by (auto simp: check_before_write_def dest: CheckHeaderAndKey_name split: if_splits prod.splits option.splits)

lemma MaybeCreateFile_name: "MaybeCreateFile F i req E w = (ok, E', w') \<Longrightarrow> same_name E E'"
  by (auto simp: MaybeCreateFile_def Let_def same_name_def set_omitted_def split: prod.splits if_splits sum.splits)

lemma create_omitted_file_name: "create_omitted_file F i E w = Some (ok, E', w') \<Longrightarrow> same_name E E'"
  by (auto simp: create_omitted_file_def dest: MaybeCreateFile_name split: prod.splits if_splits Option.bind_splits)

lemma CreateSparseFile_name: "CreateSparseFile F E w = Some (ok, E', w') \<Longrightarrow> same_name E E'"
  by (auto simp: CreateSparseFile_def InitializeSparseFile_def Let_def same_name_def
      split: prod.splits if_splits sum.splits Option.bind_splits)

lemma TruncateSparseFile_name: "TruncateSparseFile F h E w = (ok, E', w') \<Longrightarrow> same_name E E'"
  by (auto simp: TruncateSparseFile_def Let_def same_name_def split: prod.splits if_splits)

lemma AppendSparseRange_name: "AppendSparseRange F S h off len buf E w = (ok, E', w') \<Longrightarrow> same_name E E'"
  by (auto simp: AppendSparseRange_def Let_def same_name_def split: prod.splits option.splits)

lemma same_name_ranges [simp]:
  "same_name E (E'\<lparr>sparse_ranges := rs\<rparr>) = same_name E E'" "same_name (E\<lparr>sparse_ranges := rs\<rparr>) E' = same_name E E'"
  by (simp_all add: same_name_def)

lemma write_overlapping_name:
  "write_overlapping F S h off len buf E w = Some (ok, n, E', w') \<Longrightarrow> same_name E E'"
  by (auto simp: write_overlapping_def Let_def split: prod.splits if_splits Option.bind_splits)

lemma write_ranges_name:
  "write_ranges F S h off len buf rs written appended E w = Some (ok, n, m, E', w') \<Longrightarrow> same_name E E'"
proof (induction rs arbitrary: written appended E w)
  case (Cons x rs)
  from Cons.prems show ?case
    by (cases x) (auto simp: Let_def dest!: AppendSparseRange_name Cons.IH
        split: prod.splits if_splits Option.bind_splits intro: same_name_trans)
qed simp

context files begin

lemma doom_entry_doomed:
  assumes "have_open_files E" and "doom_entry F E w = (E', w')"
  shows "doomed E'"
proof (cases "doomed E")
  case True
  with assms show ?thesis by (auto simp: doom_entry_def DoomInternal_def doomed_def)
next
  case False
  obtain key' w1 where t: "tDoom F (se_owner E) (entry_file_key E) w = (key', w1)" by force
  with doom_law [OF t] False assms show ?thesis
    by (auto simp: doom_entry_def DoomInternal_def doomed_def Let_def split: prod.splits if_splits)
qed


lemma doom_after:
  "have_open_files E \<Longrightarrow> same_name E E1 \<Longrightarrow> doom_entry F E1 w = (E', w') \<Longrightarrow> doomed E'"
  using doom_entry_doomed [of E1 w E' w'] by (simp add: same_name_def)

lemma CheckEOFRecord_doomed:
  "have_open_files E \<Longrightarrow> CheckEOFRecord F h i st crc E w = (Err e, E', w') \<Longrightarrow> doomed E'"
  by (auto simp: CheckEOFRecord_def Let_def dest: doom_entry_doomed split: prod.splits if_splits)

lemma update_read_crc_doomed:
  "have_open_files E \<Longrightarrow> update_read_crc F S h op bs out E st w = (Err e, out', E', w') \<Longrightarrow> doomed E'"
  by (auto simp: update_read_crc_def Let_def dest: CheckEOFRecord_doomed split: prod.splits if_splits)

lemma ReadData_doomed:
  assumes o: "have_open_files E" and r: "ReadData F S op E st out w = Some (out', bs, E', st', w')" "rd_result out' = Err e"
  shows "doomed E'"
  using r o
  by (auto simp: ReadData_def read_failed_def Let_def same_name_def dest!: CheckHeaderAndKey_name
      dest: doom_entry_doomed update_read_crc_doomed
      split: prod.splits if_splits option.splits Option.bind_splits net_result.splits)

lemma data_write_failed_doomed:
  "have_open_files E \<Longrightarrow> same_name E E1 \<Longrightarrow> data_write_failed F err out E1 st w = Some (out', E', st', w') \<Longrightarrow> doomed E'"
  by (auto simp: data_write_failed_def dest: doom_after split: prod.splits)

lemma WriteData_doomed:
  assumes o: "have_open_files E" and d: "wr_doomed op \<longrightarrow> doomed E"
    and r: "WriteData F S op buf E st out w = Some (out', E', st', w')" "wd_result out' = Err e"
  shows "doomed E'"
proof -
  let ?i = "GetFileIndexFromStreamIndex (wr_index op)"
  obtain ok E1 w1 where c: "check_before_write F ?i E w = Some (ok, E1, w1)"
    using r(1) by (auto simp: WriteData_def Let_def split: Option.bind_splits)
  note n1 = check_before_write_name [OF c]
  have "doomed E1" if "wr_doomed op" using d n1 that by (simp add: same_name_def doomed_def)
  then show ?thesis
  proof (cases "ok \<and> \<not> (empty_file_omitted E1 ! ?i \<and> wr_doomed op)")
    case False
    with r c n1 o \<open>wr_doomed op \<Longrightarrow> doomed E1\<close> show ?thesis
      by (auto simp: WriteData_def Let_def dest: data_write_failed_doomed split: if_splits)
  next
    case True
    obtain ok2 E2 w2 where c2: "create_omitted_file F ?i E1 w1 = Some (ok2, E2, w2)"
      using r(1) c True by (auto simp: WriteData_def Let_def split: Option.bind_splits)
    have "same_name E E2" by (rule same_name_trans [OF n1 create_omitted_file_name [OF c2]])
    note failed = data_write_failed_doomed [OF o this]
    show ?thesis
      using r c c2 True by (auto simp: WriteData_def Let_def dest: failed split: prod.splits if_splits option.splits)
  qed
qed

text \<open>Sparse operations.\<close>

lemma ReadSparseData_doomed:
  assumes o: "have_open_files E" and r: "ReadSparseData F S op E w = Some (Err e, bs, E', w')"
  shows "doomed E'"
  using r o
  by (auto simp: ReadSparseData_def Let_def dest: doom_entry_doomed
      split: prod.splits if_splits option.splits Option.bind_splits)

lemmas opened = CreateSparseFile_name [THEN same_name_open] TruncateSparseFile_name [THEN same_name_open]
  write_overlapping_name [THEN same_name_open] write_ranges_name [THEN same_name_open]
  AppendSparseRange_name [THEN same_name_open]

lemma write_failed_doomed:
  "write_failed F E st w = Some (res, E', st', w') \<Longrightarrow> have_open_files E \<Longrightarrow> doomed E'"
  by (auto simp: write_failed_def dest: doom_entry_doomed split: prod.splits)

lemma WriteSparseData_doomed:
  assumes o: "have_open_files E" and r: "WriteSparseData F S op buf max_size E st w = Some (Err e, E', st', w')"
  shows "doomed E'"
proof -
  obtain ok E1 w1 where c: "(if \<not> sparse_file_open E then CreateSparseFile F E w else Some (True, E, w)) = Some (ok, E1, w1)"
    using r by (auto simp: WriteSparseData_def Let_def split: Option.bind_splits)
  have o1: "have_open_files E1" using c o by (auto dest: opened split: if_splits)
  show ?thesis
    using r o1 unfolding WriteSparseData_def Let_def c
    by (auto dest!: opened write_failed_doomed split: prod.splits if_splits option.splits Option.bind_splits)
qed

end

text \<open>C6: A data operation that reports an error has doomed its entry. Whichever file operations fail and
whatever the files hold, if \<open>ReadData\<close>, \<open>WriteData\<close>, \<open>ReadSparseData\<close> or \<open>WriteSparseData\<close> of an entry with open
files reports an error, the entry has a doom generation after it, so that its files are deleted when it is closed
instead of being completed with a record that makes them valid. (A write on behalf of a doomed entry is for
an entry that has been doomed before; where a \<open>CHECK\<close> fails, the process ends.)\<close>
theorem failed_operations_doom:
  assumes "files F view node remaining" and "have_open_files E" and "wr_doomed wop \<longrightarrow> doomed E"
  shows "(case ReadData F S rop E st rout w of
            Some (out', _, E', _) \<Rightarrow> (\<exists>n. rd_result out' = Net n) \<or> doomed E' | None \<Rightarrow> True)
    \<and> (case WriteData F S wop buf E st wout w of
            Some (out', E', _) \<Rightarrow> (\<exists>n. wd_result out' = Net n) \<or> doomed E' | None \<Rightarrow> True)
    \<and> (case ReadSparseData F S sop E w of
            Some (res, _, E', _) \<Rightarrow> (\<exists>n. res = Net n) \<or> doomed E' | None \<Rightarrow> True)
    \<and> (case WriteSparseData F S sop buf max_size E st w of
            Some (res, E', _) \<Rightarrow> (\<exists>n. res = Net n) \<or> doomed E' | None \<Rightarrow> True)"
proof -
  have net: "(\<exists>n. res = Net n) \<or> P" if "\<And>e. res = Err e \<Longrightarrow> P" for res P using that by (cases res) auto
  show ?thesis
    by (intro conjI; simp split: option.split prod.split; intro allI impI net)
      (auto dest: files.ReadData_doomed [OF assms(1,2)] files.WriteData_doomed [OF assms]
         files.ReadSparseData_doomed [OF assms(1,2)] files.WriteSparseData_doomed [OF assms(1,2)])
qed

lemma failed_operations_doom_witness:
  "(case ReadData (mem_env (\<lambda>k. 2 dvd k)) sample_sys read_second (sparse_entry\<lparr>have_open_files := True\<rparr>) sparse_stat no_read sparse_world of
            Some (out', _, E', _) \<Rightarrow> (\<exists>n. rd_result out' = Net n) \<or> doomed E' | None \<Rightarrow> True)
    \<and> (case WriteData (mem_env (\<lambda>k. 2 dvd k)) sample_sys write_at_5 [8, 9] (sparse_entry\<lparr>have_open_files := True\<rparr>) sparse_stat no_write sparse_world of
            Some (out', E', _) \<Rightarrow> (\<exists>n. wd_result out' = Net n) \<or> doomed E' | None \<Rightarrow> True)
    \<and> (case ReadSparseData (mem_env (\<lambda>k. 2 dvd k)) sample_sys sparse_at_6 (sparse_entry\<lparr>have_open_files := True\<rparr>) sparse_world of
            Some (res, _, E', _) \<Rightarrow> (\<exists>n. res = Net n) \<or> doomed E' | None \<Rightarrow> True)
    \<and> (case WriteSparseData (mem_env (\<lambda>k. 2 dvd k)) sample_sys sparse_at_6 [8, 9] 100 (sparse_entry\<lparr>have_open_files := True\<rparr>) sparse_stat sparse_world of
            Some (res, E', _) \<Rightarrow> (\<exists>n. res = Net n) \<or> doomed E' | None \<Rightarrow> True)"
  by (rule failed_operations_doom [OF faulty.files_axioms]) (simp_all add: write_at_5_def)

end
