(* ===== verification/Sync_Isolated.thy ===== *)
theory Sync_Isolated imports Sync_Failures begin

text \<open>
  A doomed entry that is still open is read, written and closed under the names its files were given when it
  was doomed. What it does, whichever file operations fail, touches nothing but its own files.
\<close>

section \<open>The files of an entry\<close>

definition own_name :: "SyncEntry \<Rightarrow> path \<Rightarrow> bool" where
  "own_name E p \<longleftrightarrow> (\<exists>s. p = GetFilenameForSubfile E s)"

definition own_node :: "SyncEntry \<Rightarrow> fs \<Rightarrow> nat \<Rightarrow> bool" where
  "own_node E v m \<longleftrightarrow> (\<exists>s. table v (se_owner E, s) = Some m)"

text \<open>A file of others: it has a name or is open elsewhere, and the entry does not have it open.\<close>

definition foreign :: "SyncEntry \<Rightarrow> fs \<Rightarrow> nat \<Rightarrow> bool" where
  "foreign E v m \<longleftrightarrow> \<not> own_node E v m
     \<and> ((\<exists>p. \<not> own_name E p \<and> dir v p = Some m) \<or> (\<exists>t. fst t \<noteq> se_owner E \<and> table v t = Some m))"

definition isolated :: "SyncEntry \<Rightarrow> fs \<Rightarrow> fs \<Rightarrow> bool" where
  "isolated E v v' \<longleftrightarrow> (\<forall>p. \<not> own_name E p \<longrightarrow> dir v' p = dir v p)
     \<and> (\<forall>t. fst t \<noteq> se_owner E \<longrightarrow> table v' t = table v t)
     \<and> (\<forall>m. foreign E v m \<longrightarrow> data v' m = data v m \<and> \<not> own_node E v' m)"

definition same_entry :: "SyncEntry \<Rightarrow> SyncEntry \<Rightarrow> bool" where
  "same_entry E E' \<longleftrightarrow> se_owner E' = se_owner E \<and> se_path E' = se_path E \<and> entry_file_key E' = entry_file_key E"

text \<open>Only the contents of one file change.\<close>

definition touches :: "nat \<Rightarrow> fs \<Rightarrow> fs \<Rightarrow> bool" where
  "touches n v v' \<longleftrightarrow> dir v' = dir v \<and> table v' = table v \<and> (\<forall>m. m \<noteq> n \<longrightarrow> data v' m = data v m)"

lemma touches_refl [simp]: "touches n v v"
  by (simp add: touches_def)

lemma touches_put [simp]: "touches n v (put_data n c v') \<longleftrightarrow> touches n v v'"
  by (auto simp: touches_def)

lemma touches_trans [trans]: "touches n v v' \<Longrightarrow> touches n v' v'' \<Longrightarrow> touches n v v''"
  by (simp add: touches_def)

lemma isolated_refl [simp]: "isolated E v v"
  by (simp add: isolated_def foreign_def)

lemma isolated_trans [trans]: "isolated E v v' \<Longrightarrow> isolated E v' v'' \<Longrightarrow> isolated E v v''"
  by (fastforce simp: isolated_def foreign_def)

lemma touches_isolated: "touches n v v' \<Longrightarrow> \<not> foreign E v n \<Longrightarrow> isolated E v v'"
  unfolding isolated_def touches_def
  by (intro conjI allI impI; elim conjE; (metis | simp add: foreign_def own_node_def))

lemma same_entry_refl [simp]: "same_entry E E"
  by (simp add: same_entry_def)

lemma same_entry_trans [trans]: "same_entry E E' \<Longrightarrow> same_entry E' E'' \<Longrightarrow> same_entry E E''"
  by (simp add: same_entry_def)

lemma same_entry_names:
  assumes "same_entry E E'"
  shows "own_name E' = own_name E" "own_node E' = own_node E" "foreign E' = foreign E" "isolated E' = isolated E"
    "doomed E' = doomed E"
proof -
  show n: "own_name E' = own_name E" "own_node E' = own_node E"
    using assms
    by (auto simp: fun_eq_iff own_name_def own_node_def same_entry_def GetFilenameForSubfile_def GetFilenameFromFileIndex_def)
  show f: "foreign E' = foreign E"
    using assms n by (simp add: fun_eq_iff foreign_def same_entry_def)
  show "isolated E' = isolated E" "doomed E' = doomed E"
    using assms n f by (simp_all add: fun_eq_iff isolated_def same_entry_def doomed_def)
qed

context files begin

text \<open>The state of the entry with the world, before and after an operation.\<close>

definition stays :: "SyncEntry \<Rightarrow> 'w \<Rightarrow> SyncEntry \<Rightarrow> 'w \<Rightarrow> bool" where
  "stays E w E' w' \<longleftrightarrow> same_entry E E' \<and> isolated E (view w) (view w')"

lemma stays_refl [simp]: "stays E w E w"
  by (simp add: stays_def)

lemma stays_trans [trans]: "stays E w E' w' \<Longrightarrow> stays E' w' E'' w'' \<Longrightarrow> stays E w E'' w''"
  using same_entry_names(4) [of E E'] by (auto simp: stays_def intro: same_entry_trans isolated_trans)

lemma stays_view: "view w' = view w \<Longrightarrow> same_entry E E' \<Longrightarrow> stays E w E' w'"
  by (simp add: stays_def)

lemma stays_doomed: "stays E w E' w' \<Longrightarrow> doomed E \<Longrightarrow> doomed E'"
  by (simp add: stays_def same_entry_def doomed_def)

lemma acquired_own:
  assumes "tAcquire F (se_owner E, s) w = (Some h, w')"
  shows "view w' = view w" "own_node E (view w') (node h)" "\<not> foreign E (view w') (node h)"
proof -
  show v: "view w' = view w" and "own_node E (view w') (node h)"
    using acquire_law [OF assms] by (auto simp: own_node_def)
  then show "\<not> foreign E (view w') (node h)" by (simp add: foreign_def)
qed

lemma doom_again: "doomed E \<Longrightarrow> doom_entry F E w = (E, w)"
  by (simp add: doomed_def doom_entry_def DoomInternal_def)

section \<open>Operations on one file\<close>

lemma write_check_touches: "fWriteAndCheck F h off bs w = (ok, w') \<Longrightarrow> touches (node h) (view w) (view w')"
  by (drule write_check_law) (auto split: if_splits)

lemma write_touches: "fWrite F h off bs w = (r, w') \<Longrightarrow> touches (node h) (view w) (view w')"
  by (drule write_law) (auto split: option.splits)

lemma set_length_touches: "fSetLength F h len w = (ok, w') \<Longrightarrow> touches (node h) (view w) (view w')"
  by (drule set_length_law) (auto split: if_splits)

lemmas one_file = write_check_touches write_touches set_length_touches

lemma TruncateSparseFile_one: "TruncateSparseFile F h E w = (ok, E', w') \<Longrightarrow>
    same_entry E E' \<and> touches (node h) (view w) (view w')"
  by (auto simp: TruncateSparseFile_def Let_def same_entry_def dest: one_file split: prod.splits if_splits)

lemma InitializeSparseFile_one: "InitializeSparseFile F h E w = Some (ok, E', w') \<Longrightarrow>
    same_entry E E' \<and> touches (node h) (view w) (view w')"
  by (auto simp: InitializeSparseFile_def Let_def same_entry_def dest!: one_file intro: touches_trans
      split: prod.splits if_splits Option.bind_splits)

lemma AppendSparseRange_one: "AppendSparseRange F S h off len buf E w = (ok, E', w') \<Longrightarrow>
    same_entry E E' \<and> touches (node h) (view w) (view w')"
  by (auto simp: AppendSparseRange_def Let_def same_entry_def dest!: one_file intro: touches_trans
      split: prod.splits option.splits)

lemma WriteSparseRange_one: "WriteSparseRange F S h rg off len buf w = Some (ok, rg', w') \<Longrightarrow>
    touches (node h) (view w) (view w')"
  by (auto simp: WriteSparseRange_def Let_def dest!: one_file intro: touches_trans
      split: prod.splits if_splits)

lemma same_entry_ranges [simp]:
  "same_entry E (E'\<lparr>sparse_ranges := rs\<rparr>) = same_entry E E'" "same_entry (E\<lparr>sparse_ranges := rs\<rparr>) E' = same_entry E E'"
  by (simp_all add: same_entry_def)

lemma write_overlapping_one: "write_overlapping F S h off len buf E w = Some (ok, n, E', w') \<Longrightarrow>
    same_entry E E' \<and> touches (node h) (view w) (view w')"
  by (auto simp: write_overlapping_def Let_def dest: WriteSparseRange_one split: prod.splits if_splits Option.bind_splits)

lemma write_ranges_one: "write_ranges F S h off len buf rs written appended E w = Some (ok, n, m, E', w') \<Longrightarrow>
    same_entry E E' \<and> touches (node h) (view w) (view w')"
proof (induction rs arbitrary: written appended E w)
  case (Cons x rs)
  from Cons.prems show ?case
    by (cases x) (auto simp: Let_def dest!: AppendSparseRange_one WriteSparseRange_one Cons.IH
        split: prod.splits if_splits Option.bind_splits intro: same_entry_trans touches_trans)
qed simp

section \<open>Operations on the names and the open files of the entry\<close>

lemma create_isolated:
  assumes c: "OpenFile F p FLAG_CREATE_RW w = (r, w')" and own: "own_name E p"
  shows "isolated E (view w) (view w') \<and> (\<forall>h. r = Inr h \<longrightarrow> \<not> foreign E (view w') (node h))"
proof (cases r)
  case (Inl e)
  with create_law [OF c] show ?thesis by simp
next
  case (Inr h)
  then have v: "fresh_node (node h) (view w)"
    "view w' = put_data (node h) [] ((view w)\<lparr>dir := (dir (view w))(p \<mapsto> node h)\<rparr>)"
    using create_law [OF c] by simp_all
  have fresh: "dir (view w) q \<noteq> Some (node h)" "table (view w) t \<noteq> Some (node h)" for q t
    using v(1) by (cases t; auto simp: fresh_node_def ran_def)+
  have "\<not> foreign E (view w) (node h)" using fresh by (simp add: foreign_def)
  then have "isolated E (view w) (view w')"
    using own v(2) by (auto simp: isolated_def foreign_def own_node_def)
  moreover have "\<not> foreign E (view w') (node h)"
    using fresh own v(2) by (auto simp: foreign_def split: if_splits)
  ultimately show ?thesis using Inr by simp
qed

lemma register_isolated:
  "\<not> foreign E (view w) (node h) \<Longrightarrow> isolated E (view w) (view (tRegister F (se_owner E, s) h w))"
  by (auto simp: isolated_def register_law own_node_def foreign_def split: if_splits)

lemma delete_isolated: "DeleteFile F p mode w = (ok, w') \<Longrightarrow> own_name E p \<Longrightarrow> isolated E (view w) (view w')"
  by (drule delete_law) (auto simp: isolated_def foreign_def own_node_def)

lemma close_isolated: "isolated E (view w) (view (tClose F (se_owner E, s) w))"
  by (auto simp: isolated_def close_law own_node_def foreign_def split: if_splits)

lemma own_file_names [simp]:
  "own_name E (GetFilenameFromFileIndex E 0)" "own_name E (GetFilenameFromFileIndex E (Suc 0))"
  "own_name E (GetFilenameForSubfile E s)"
proof -
  have "GetFilenameFromFileIndex E 0 = GetFilenameForSubfile E FILE_0"
    "GetFilenameFromFileIndex E (Suc 0) = GetFilenameForSubfile E FILE_1"
    by (simp_all add: GetFilenameForSubfile_def FileIndexForSubFile_def)
  then show "own_name E (GetFilenameFromFileIndex E 0)" "own_name E (GetFilenameFromFileIndex E (Suc 0))"
    "own_name E (GetFilenameForSubfile E s)" unfolding own_name_def by blast+
qed

lemma own_file_name: "i < 2 \<Longrightarrow> own_name E (GetFilenameFromFileIndex E i)"
  by (auto simp: less_Suc_eq numeral_2_eq_2)

lemma same_entry_updates [simp]:
  "same_entry E (set_omitted i b E)" "same_entry E (set_check_needed i b E)" "same_entry E (E\<lparr>sparse_file_open := b\<rparr>)"
  "same_entry E' (E\<lparr>sparse_file_open := b\<rparr>) = same_entry E' E"
  by (simp_all add: same_entry_def set_omitted_def set_check_needed_def)

lemma MaybeCreateFile_stays:
  assumes m: "MaybeCreateFile F i req E w = (ok, E', w')" and i: "i < 2"
  shows "stays E w E' w'"
proof (cases "CanOmitEmptyFile i \<and> req = FILE_NOT_REQUIRED")
  case True
  with m show ?thesis by (auto simp: MaybeCreateFile_def stays_def)
next
  case False
  let ?p = "GetFilenameFromFileIndex E i"
  note own = own_file_name [OF i]
  obtain r w1 where c: "OpenFile F ?p FLAG_CREATE_RW w = (r, w1)" by force
  obtain r2 w2 where r2: "(if r = Inl FILE_ERROR_NOT_FOUND
      then OpenFile F ?p FLAG_CREATE_RW (snd (CreateDirectory F (se_path E) w1)) else (r, w1)) = (r2, w2)" by force
  have d: "view (snd (CreateDirectory F (se_path E) w1)) = view w1"
    by (rule create_dir_law [of "se_path E" w1 "fst (CreateDirectory F (se_path E) w1)"]) simp
  have i2: "isolated E (view w) (view w2)" "\<And>h. r2 = Inr h \<Longrightarrow> \<not> foreign E (view w2) (node h)"
    using create_isolated [OF c own] r2 d
      create_isolated [of ?p "snd (CreateDirectory F (se_path E) w1)" r2 w2, OF _ own]
    by (auto split: if_splits intro: isolated_trans)
  show ?thesis
  proof (cases r2)
    case (Inl e)
    with m False c r2 i2 show ?thesis by (auto simp: MaybeCreateFile_def Let_def stays_def)
  next
    case (Inr h)
    have "isolated E (view w) (view (tRegister F (tracked_file E i) h w2))"
      using i2(1) register_isolated [OF i2(2) [OF Inr]] unfolding tracked_file_def by (rule isolated_trans)
    with m False c r2 Inr show ?thesis by (auto simp: MaybeCreateFile_def Let_def stays_def)
  qed
qed

lemma InitializeCreatedFile_stays: "InitializeCreatedFile F i E w = Some (ok, w') \<Longrightarrow> stays E w E w'"
proof -
  assume r: "InitializeCreatedFile F i E w = Some (ok, w')"
  obtain x w1 where a: "tAcquire F (tracked_file E i) w = (x, w1)" by force
  show ?thesis
  proof (cases x)
    case None
    with r a acquire_law [OF a] show ?thesis by (auto simp: InitializeCreatedFile_def stays_def)
  next
    case (Some h)
    note own = acquired_own [OF a [unfolded Some tracked_file_def]]
    from r a Some have "touches (node h) (view w1) (view w')"
      by (auto simp: InitializeCreatedFile_def Let_def dest!: one_file intro: touches_trans
          split: prod.splits if_splits Option.bind_splits)
    from touches_isolated [OF this own(3)] own(1) show ?thesis by (simp add: stays_def)
  qed
qed

lemma CreateSparseFile_stays:
  assumes r: "CreateSparseFile F E w = Some (ok, E', w')"
  shows "stays E w E' w'"
proof -
  obtain x w1 where c: "OpenFile F (GetFilenameForSubfile E FILE_SPARSE) FLAG_CREATE_RW w = (x, w1)" by force
  note ci = create_isolated [OF c own_file_names(3)]
  show ?thesis
  proof (cases x)
    case (Inl e)
    with r c ci show ?thesis by (auto simp: CreateSparseFile_def stays_def)
  next
    case (Inr h)
    then have h: "\<not> foreign E (view w1) (node h)" using ci by simp
    obtain ok1 E1 w2 where i: "InitializeSparseFile F h E w1 = Some (ok1, E1, w2)"
      using r c Inr by (auto simp: CreateSparseFile_def split: Option.bind_splits)
    note one = InitializeSparseFile_one [OF i]
    have i2: "isolated E (view w1) (view w2)" by (rule touches_isolated [OF _ h]) (simp add: one)
    have h2: "\<not> foreign E (view w2) (node h)"
      using h one by (simp add: foreign_def own_node_def touches_def)
    note n = same_entry_names [OF conjunct1 [OF one]]
    have i3: "isolated E (view w2) (view (tRegister F (tracked_sparse E1) h w2))"
      using register_isolated [of E1 w2 h FILE_SPARSE] h2 n by (simp add: tracked_sparse_def)
    have i1: "isolated E (view w) (view w2)" using ci i2 by (blast intro: isolated_trans)
    show ?thesis
      using r c Inr i one i1 isolated_trans [OF i1 i3]
      by (auto simp: CreateSparseFile_def stays_def split: if_splits)
  qed
qed

section \<open>The operations of a doomed entry\<close>

lemma CheckHeaderAndKey_stays: "CheckHeaderAndKey F h i E w = Some (ok, E', w') \<Longrightarrow> stays E w E' w'"
proof -
  assume r: "CheckHeaderAndKey F h i E w = Some (ok, E', w')"
  note s = CheckHeaderAndKey_sound [OF r]
  have "same_entry E E'" using s(2,3) by (cases ok) (auto simp: same_entry_def set_check_needed_def)
  with s(1) show ?thesis by (rule stays_view)
qed

lemma CheckEOFRecord_doomed_stays:
  "doomed E \<Longrightarrow> CheckEOFRecord F h i st crc E w = (rv, E', w') \<Longrightarrow> E' = E \<and> view w' = view w"
  by (auto simp: CheckEOFRecord_def Let_def doom_again dest: GetEOF_view split: prod.splits if_splits)

lemma update_read_crc_stays:
  "doomed E \<Longrightarrow> update_read_crc F S h op bs out E st w = (rv, out', E', w') \<Longrightarrow> stays E w E' w'"
  by (auto simp: update_read_crc_def Let_def stays_def dest: CheckEOFRecord_doomed_stays split: prod.splits if_splits)

lemma read_view: "fRead F h off n w = (r, w') \<Longrightarrow> view w' = view w"
  by (drule read_law) simp

lemma stays_views: "view w1 = view w \<Longrightarrow> view w' = view w'' \<Longrightarrow> stays E w1 E' w'' \<Longrightarrow> stays E w E' w'"
  by (simp add: stays_def)

lemma ReadData_stays:
  assumes d: "doomed E" and r: "ReadData F S op E st out w = Some (out', bs, E', st', w')"
  shows "stays E w E' w'"
proof -
  let ?i = "GetFileIndexFromStreamIndex (rr_index op)"
  obtain x w1 where a: "tAcquire F (tracked_file E ?i) w = (x, w1)" by force
  have v1: "view w1 = view w" using acquire_law [OF a] by simp
  show ?thesis
  proof (cases x)
    case None
    with r a d v1 show ?thesis by (auto simp: ReadData_def read_failed_def doom_again stays_def)
  next
    case (Some h)
    obtain ok E1 w2 where c: "(if header_and_key_check_needed E ! ?i then CheckHeaderAndKey F h ?i E w1
        else Some (True, E, w1)) = Some (ok, E1, w2)"
      using r a Some by (auto simp: ReadData_def Let_def split: Option.bind_splits)
    have s1: "stays E w1 E1 w2" using c by (auto dest: CheckHeaderAndKey_stays split: if_splits)
    have s2: "stays E1 w2 E' w'"
    proof -
      have d1: "doomed E1" by (rule stays_doomed [OF s1 d])
      obtain y w3 where rd: "fRead F h (GetOffsetInFile st (se_key_size E1) (rr_offset op) (rr_index op))
          (nat (rr_buf_len op)) w2 = (y, w3)" by force
      obtain now w4 where now: "Time_Now F w3 = (now, w4)" by force
      have v: "view w3 = view w2" "view w4 = view w2"
        using read_view [OF rd] now_law [OF now] by simp_all
      show ?thesis
        using r a Some c d1 rd now v
        by (auto simp: ReadData_def read_failed_def doom_again Let_def
            dest!: update_read_crc_stays [OF d1] intro: stays_views stays_view
            split: if_splits prod.splits option.splits net_result.splits)
    qed
    from stays_trans [OF s1 s2] v1 show ?thesis by (simp add: stays_def)
  qed
qed

lemma check_before_write_stays: "check_before_write F i E w = Some (ok, E', w') \<Longrightarrow> stays E w E' w'"
  by (auto simp: check_before_write_def dest!: acquire_law intro: stays_view stays_views CheckHeaderAndKey_stays
      split: if_splits prod.splits option.splits)

lemma create_omitted_file_stays:
  "create_omitted_file F i E w = Some (ok, E', w') \<Longrightarrow> i < 2 \<Longrightarrow> stays E w E' w'"
  by (auto simp: create_omitted_file_def dest!: MaybeCreateFile_stays InitializeCreatedFile_stays intro: stays_trans
      split: if_splits prod.splits Option.bind_splits)

lemma write_stream_touches: "write_stream F h op buf k st w = (ok, st', w') \<Longrightarrow> touches (node h) (view w) (view w')"
  by (auto simp: write_stream_def Let_def dest!: one_file intro: touches_trans split: if_splits prod.splits)

lemma file_index_less [simp]: "GetFileIndexFromStreamIndex i < 2"
  by (simp add: GetFileIndexFromStreamIndex_def)

lemma touches_stays:
  assumes "tAcquire F (se_owner E, s) w = (Some h, w1)" and "touches (node h) (view w1) (view w')"
  shows "stays E w E w'"
  using touches_isolated [OF assms(2) acquired_own(3) [OF assms(1)]] acquired_own(1) [OF assms(1)]
  by (simp add: stays_def)

lemma WriteData_stays:
  assumes d: "doomed E" and r: "WriteData F S op buf E st out w = Some (out', E', st', w')"
  shows "stays E w E' w'"
proof -
  let ?i = "GetFileIndexFromStreamIndex (wr_index op)"
  obtain ok E1 w1 where c: "check_before_write F ?i E w = Some (ok, E1, w1)"
    using r by (auto simp: WriteData_def Let_def split: Option.bind_splits)
  note s1 = check_before_write_stays [OF c]
  note d1 = stays_doomed [OF s1 d]
  show ?thesis
  proof (cases "ok \<and> \<not> (empty_file_omitted E1 ! ?i \<and> wr_doomed op)")
    case False
    with r c s1 d1 show ?thesis
      by (auto simp: WriteData_def Let_def data_write_failed_def doom_again split: if_splits)
  next
    case True
    obtain ok2 E2 w2 where c2: "create_omitted_file F ?i E1 w1 = Some (ok2, E2, w2)"
      using r c True by (auto simp: WriteData_def Let_def split: Option.bind_splits)
    note s2 = stays_trans [OF s1 create_omitted_file_stays [OF c2 file_index_less]]
    note d2 = stays_doomed [OF s2 d]
    obtain x w3 where a: "tAcquire F (tracked_file E2 ?i) w2 = (x, w3)" by force
    have v3: "view w3 = view w2" using acquire_law [OF a] by simp
    have "stays E2 w2 E' w'"
    proof (cases x)
      case None
      with r c c2 True a d2 v3 show ?thesis
        by (auto simp: WriteData_def Let_def data_write_failed_def doom_again stays_def split: if_splits)
    next
      case (Some h)
      obtain ok3 st3 w4 where ws: "write_stream F h op buf (se_key_size E2) st w3 = (ok3, st3, w4)" by (metis prod_cases3)
      have s4: "stays E2 w2 E2 w4"
        by (rule touches_stays [OF a [unfolded Some tracked_file_def] write_stream_touches [OF ws]])
      have now: "view w5 = view w4" if "Time_Now F w4 = (t, w5)" for t w5 using now_law [OF that] .
      show ?thesis
        using r c c2 True a Some ws s4 d2 v3
        by (auto simp: WriteData_def Let_def data_write_failed_def doom_again stays_def now split: if_splits prod.splits)
    qed
    with s2 show ?thesis by (rule stays_trans)
  qed
qed

lemma ReadSparseRange_view: "ReadSparseRange F S h rg off len w = Some (r, w') \<Longrightarrow> view w' = view w"
  by (auto simp: ReadSparseRange_def dest!: read_check_law split: if_splits prod.splits option.splits)

lemma read_overlapping_view: "read_overlapping F S h off len below w = Some (r, w') \<Longrightarrow> view w' = view w"
  by (auto simp: read_overlapping_def Let_def dest: ReadSparseRange_view split: if_splits prod.splits Option.bind_splits)

lemma read_contiguous_view: "read_contiguous F S h off len rs n got w = Some (r, w') \<Longrightarrow> view w' = view w"
proof (induction rs arbitrary: n got w)
  case (Cons x rs)
  from Cons.prems show ?case
    by (cases x) (auto simp: Let_def dest!: ReadSparseRange_view Cons.IH
        split: if_splits prod.splits option.splits Option.bind_splits)
qed simp

lemma ReadSparseData_stays:
  assumes d: "doomed E" and r: "ReadSparseData F S op E w = Some (res, bs, E', w')"
  shows "stays E w E' w'"
  using r
  by (auto simp: ReadSparseData_def Let_def doom_again [OF d] stays_def
      dest!: acquire_law read_overlapping_view read_contiguous_view
      split: if_splits prod.splits option.splits Option.bind_splits)

lemma WriteSparseData_stays:
  assumes d: "doomed E" and r: "WriteSparseData F S op buf max_size E st w = Some (res, E', st', w')"
  shows "stays E w E' w'"
proof -
  let ?off = "sparse_offset op" and ?len = "sparse_buf_len op"
  obtain ok E1 w1 where c: "(if \<not> sparse_file_open E then CreateSparseFile F E w else Some (True, E, w)) = Some (ok, E1, w1)"
    using r by (auto simp: WriteSparseData_def Let_def split: Option.bind_splits)
  have s1: "stays E w E1 w1" using c by (auto dest: CreateSparseFile_stays split: if_splits)
  note d1 = stays_doomed [OF s1 d]
  have failed: "E'' = E2 \<and> w'' = w2" if "write_failed F E2 st2 w2 = Some (res2, E'', st'', w'')" "same_entry E1 E2"
    for E2 st2 w2 res2 E'' st'' w''
    using that d1 same_entry_names(5) [of E1 E2] by (auto simp: write_failed_def doom_again)
  obtain x w2 where a: "tAcquire F (tracked_sparse E1) w1 = (x, w2)" by force
  have v2: "view w2 = view w1" using acquire_law [OF a] by simp
  have "stays E1 w1 E' w'"
  proof (cases "ok \<and> x \<noteq> None \<and> CheckAdd64 (sparse_data_size st) ?len \<noteq> None")
    case False
    then have "(E' = E1 \<and> w' = w1) \<or> (E' = E1 \<and> w' = w2)"
      using r [unfolded WriteSparseData_def Let_def c] a
      by (cases ok; cases x; auto dest: failed [OF _ same_entry_refl] split: option.splits)
    with v2 show ?thesis by (auto simp: stays_def)
  next
    case True
    then obtain h total where t: "ok" "x = Some h" "CheckAdd64 (sparse_data_size st) ?len = Some total" by auto
    obtain ok3 E3 w3 where cut: "TruncateSparseFile F h E1 w2 = (ok3, E3, w3)" by (metis prod_cases3)
    obtain E4 st4 w4 where c4: "(if max_size < total then (E3, st\<lparr>sparse_data_size := 0\<rparr>, w3) else (E1, st, w2)) = (E4, st4, w4)"
      by (metis prod_cases3)
    have one: "same_entry E1 E4 \<and> touches (node h) (view w2) (view w4)"
      using c4 TruncateSparseFile_one [OF cut] by (auto split: if_splits)
    obtain ok5 n5 E5 w5 where c5: "write_overlapping F S h ?off ?len buf E4 w4 = Some (ok5, n5, E5, w5)"
      using r c a t cut c4
      by (cases "max_size < total") (auto simp: WriteSparseData_def Let_def split: Option.bind_splits)
    have two: "same_entry E1 E5 \<and> touches (node h) (view w2) (view w5)"
      using one write_overlapping_one [OF c5] by (blast intro: same_entry_trans touches_trans)
    have three: "same_entry E1 E6 \<and> touches (node h) (view w2) (view w6)"
      if "write_ranges F S h ?off ?len buf (lower_bound ?off (sparse_ranges E4)) n5 0 E5 w5 = Some (ok6, n6, m6, E6, w6)" for ok6 n6 m6 E6 w6
      using two write_ranges_one [OF that] by (blast intro: same_entry_trans touches_trans)
    have four: "same_entry E1 E7 \<and> touches (node h) (view w2) (view w7)"
      if "AppendSparseRange F S h off7 len7 buf7 E6 w6 = (ok7, E7, w7)" "same_entry E1 E6"
        "touches (node h) (view w2) (view w6)" for E6 w6 off7 len7 buf7 ok7 E7 w7
      using AppendSparseRange_one [OF that(1)] that(2,3) by (blast intro: same_entry_trans touches_trans)
    have "same_entry E1 E' \<and> touches (node h) (view w2) (view w')"
      using r c a t cut c4 c5 two
      by (cases "max_size < total") (auto simp: WriteSparseData_def Let_def dest!: now_law three four dest: failed
          split: if_splits prod.splits Option.bind_splits)
    with touches_stays [OF a [unfolded t(2) tracked_sparse_def]] show ?thesis by (simp add: stays_def)
  qed
  with s1 show ?thesis by (rule stays_trans)
qed

lemma CloseFile_stays: "CloseFile F i E w = (E', w') \<Longrightarrow> i < 2 \<Longrightarrow> stays E w E' w'"
proof -
  assume c: "CloseFile F i E w = (E', w')" and i: "i < 2"
  let ?p = "GetFilenameFromFileIndex E i"
  obtain b w1 where d: "DeleteFile F ?p kDefault w = (b, w1)" by force
  have "isolated E (view w) (view (tClose F (tracked_file E i) w0))" if "w0 = w \<or> w0 = w1" for w0
    using that isolated_trans [OF delete_isolated [OF d own_file_name [OF i]] close_isolated] close_isolated
    by (auto simp: tracked_file_def)
  with c d show ?thesis
    by (auto simp: CloseFile_def GetFilenameFromFileIndex_def Let_def stays_def split: if_splits)
qed

lemma CloseSparseFile_stays: "CloseSparseFile F E w = (E', w') \<Longrightarrow> stays E w E' w'"
proof -
  assume c: "CloseSparseFile F E w = (E', w')"
  let ?p = "GetFilenameForSubfile E FILE_SPARSE"
  obtain b w1 where d: "DeleteFile F ?p kDefault w = (b, w1)" by force
  have "isolated E (view w) (view (tClose F (tracked_sparse E) w0))" if "w0 = w \<or> w0 = w1" for w0
    using that isolated_trans [OF delete_isolated [OF d own_file_names(3)] close_isolated] close_isolated
    by (auto simp: tracked_sparse_def)
  with c d show ?thesis
    by (auto simp: CloseSparseFile_def GetFilenameForSubfile_def Let_def stays_def split: if_splits)
qed

lemma write_stream_0_touches:
  "doomed E \<Longrightarrow> write_stream_0 F S h st d0 E w = (E', w') \<Longrightarrow> E' = E \<and> touches (node h) (view w) (view w')"
  by (auto simp: write_stream_0_def Let_def doom_again dest!: one_file intro: touches_trans
      split: if_splits prod.splits)

lemma close_streams_stays:
  "doomed E \<Longrightarrow> close_streams F S st d0 rs estimate E w = Some (estimate', E', w') \<Longrightarrow> E' = E \<and> stays E w E w'"
proof (induction rs arbitrary: estimate w)
  case (Cons r rs)
  let ?i = "GetFileIndexFromStreamIndex (crc_index r)"
  show ?case
  proof (cases "empty_file_omitted E ! ?i")
    case True
    with Cons show ?thesis by simp
  next
    case False
    obtain x w1 where a: "tAcquire F (tracked_file E ?i) w = (x, w1)" by force
    show ?thesis
    proof (cases x)
      case None
      with Cons.prems a False acquire_law [OF a] show ?thesis by (auto simp: doom_again stays_def)
    next
      case (Some h)
      obtain E2 w2 where w2: "(if crc_index r = 0 then write_stream_0 F S h st d0 E w1 else (E, w1)) = (E2, w2)" by force
      have t2: "E2 = E" "touches (node h) (view w1) (view w2)"
        using w2 write_stream_0_touches [OF Cons.prems(1), of S h st d0 w1] by (auto split: if_splits)
      obtain ok w3 where w3: "(if crc_index r = 0 then fSetLength F h (GetEOFOffsetInFile st (se_key_size E) (crc_index r)) w2
          else (True, w2)) = (ok, w3)" by force
      have t3: "touches (node h) (view w1) (view w3)"
        using w3 t2(2) by (auto dest: one_file intro: touches_trans split: if_splits)
      have t4: "touches (node h) (view w1) (view w4)"
        if "fWriteAndCheck F h off bs w3 = (ok4, w4)" for off bs ok4 w4
        using t3 write_check_touches [OF that] by (rule touches_trans)
      note own = touches_stays [OF a [unfolded Some tracked_file_def]]
      have s4: "stays E w E w4" if "fWriteAndCheck F h off bs w3 = (ok4, w4)" for off bs ok4 w4
        by (rule own [OF t4 [OF that]])
      show ?thesis
        using Cons.prems False a Some w2 w3 t2(1) own [OF t3] Cons.IH [OF Cons.prems(1)]
        by (auto simp: Let_def doom_again dest!: s4 intro: stays_trans split: if_splits prod.splits)
    qed
  qed
qed simp

lemma close_files_checked_stays:
  "doomed E \<Longrightarrow> close_files_checked F is E w = Some (E', w') \<Longrightarrow> \<forall>i \<in> set is. i < 2 \<Longrightarrow> stays E w E' w'"
proof (induction "is" arbitrary: E w)
  case (Cons i "is")
  show ?case
  proof (cases "empty_file_omitted E ! i")
    case True
    with Cons show ?thesis by simp
  next
    case False
    obtain E1 w1 where c: "(if header_and_key_check_needed E ! i
             then (case tAcquire F (tracked_file E i) w of
                     (None, w) \<Rightarrow> Some (doom_entry F E w)
                   | (Some file, w) \<Rightarrow>
                       do {
                         (ok, E, w) \<leftarrow> CheckHeaderAndKey F file i E w;
                         Some (if ok then (E, w) else doom_entry F E w)
                       })
             else Some (E, w)) = Some (E1, w1)"
      using Cons.prems False by (auto split: Option.bind_splits)
    have "stays E w E1 w1"
      using c Cons.prems(1)
      by (auto simp: doom_again doom_again [OF stays_doomed] dest!: acquire_law CheckHeaderAndKey_stays
          intro: stays_views stays_view split: if_splits option.splits prod.splits Option.bind_splits)
    moreover obtain E2 w2 where c2: "CloseFile F i E1 w1 = (E2, w2)" by force
    ultimately have s2: "stays E w E2 w2" using CloseFile_stays [OF c2] Cons.prems(3) by (auto intro: stays_trans)
    have "stays E2 w2 E' w'"
      using Cons.IH [OF stays_doomed [OF s2 Cons.prems(1)]] Cons.prems(2,3) False c c2 by simp
    with s2 show ?thesis by (rule stays_trans)
  qed
qed simp

lemma Close_isolated:
  assumes d: "doomed E" and r: "Close F S st rs d0 E w = Some (estimate, w')"
  shows "isolated E (view w) (view w')"
proof -
  obtain e1 E1 w1 where c1: "close_streams F S st d0 rs (- 1) E w = Some (e1, E1, w1)"
    using r by (auto simp: Close_def split: Option.bind_splits)
  note s1 = close_streams_stays [OF d c1]
  obtain E2 w2 where c2: "close_files_checked F [0..<kSimpleEntryNormalFileCount] E1 w1 = Some (E2, w2)"
    using r c1 by (auto simp: Close_def split: Option.bind_splits)
  have s2: "stays E w E2 w2"
    using s1 close_files_checked_stays [OF _ c2] d by (auto simp: two_files intro: stays_trans)
  obtain E3 w3 where c3: "(if sparse_file_open E2 then CloseSparseFile F E2 w2 else (E2, w2)) = (E3, w3)" by force
  have "stays E w E3 w3"
    using s2 CloseSparseFile_stays [of E2 w2 E3 w3] c3 by (auto intro: stays_trans split: if_splits)
  moreover have "w' = w3" using r c1 c2 c3 by (simp add: Close_def Let_def)
  ultimately show ?thesis by (simp add: stays_def)
qed

end

text \<open>C7: What a doomed entry still does touches nothing but its own files. Whichever file operations fail and
whatever the files hold, none of \<open>ReadData\<close>, \<open>WriteData\<close>, \<open>ReadSparseData\<close>, \<open>WriteSparseData\<close> and \<open>Close\<close> of an
entry that has been doomed changes a name other than those of its own renamed files, the record of an open file
of another entry, or the contents of a file that has another name or that another entry has open. So an entry
created under the same key in the meantime is not disturbed by the readers and writers of the old one.\<close>
theorem doomed_entry_is_isolated:
  assumes "files F view node remaining" and "doomed E"
  shows "(case ReadData F S rop E st rout w of
            Some (_, _, E', _, w') \<Rightarrow> same_entry E E' \<and> isolated E (view w) (view w') | None \<Rightarrow> True)
    \<and> (case WriteData F S wop buf E st wout w of
            Some (_, E', _, w') \<Rightarrow> same_entry E E' \<and> isolated E (view w) (view w') | None \<Rightarrow> True)
    \<and> (case ReadSparseData F S sop E w of
            Some (_, _, E', w') \<Rightarrow> same_entry E E' \<and> isolated E (view w) (view w') | None \<Rightarrow> True)
    \<and> (case WriteSparseData F S sop buf max_size E st w of
            Some (_, E', _, w') \<Rightarrow> same_entry E E' \<and> isolated E (view w) (view w') | None \<Rightarrow> True)
    \<and> (case Close F S st crcs d0 E w of
            Some (_, w') \<Rightarrow> isolated E (view w) (view w') | None \<Rightarrow> True)"
  using files.ReadData_stays [OF assms, of S rop st rout w] files.WriteData_stays [OF assms, of S wop buf st wout w]
    files.ReadSparseData_stays [OF assms, of S sop w] files.WriteSparseData_stays [OF assms, of S sop buf max_size st w]
    files.Close_isolated [OF assms, of S st crcs d0 w]
  by (auto simp: files.stays_def [OF assms(1)] split: option.split)

definition doomed_sample :: SyncEntry where
  "doomed_sample = sparse_entry\<lparr>have_open_files := True, entry_file_key := \<lparr>entry_hash = 5, doom_generation = 1\<rparr>\<rparr>"

lemma doomed_entry_is_isolated_witness:
  "(case ReadData (mem_env (\<lambda>k. 2 dvd k)) sample_sys read_second doomed_sample sparse_stat no_read sparse_world of
            Some (_, _, E', _, w') \<Rightarrow> same_entry doomed_sample E' \<and> isolated doomed_sample (mem_view sparse_world) (mem_view w') | None \<Rightarrow> True)
    \<and> (case WriteData (mem_env (\<lambda>k. 2 dvd k)) sample_sys write_at_5 [8, 9] doomed_sample sparse_stat no_write sparse_world of
            Some (_, E', _, w') \<Rightarrow> same_entry doomed_sample E' \<and> isolated doomed_sample (mem_view sparse_world) (mem_view w') | None \<Rightarrow> True)
    \<and> (case ReadSparseData (mem_env (\<lambda>k. 2 dvd k)) sample_sys sparse_at_6 doomed_sample sparse_world of
            Some (_, _, E', w') \<Rightarrow> same_entry doomed_sample E' \<and> isolated doomed_sample (mem_view sparse_world) (mem_view w') | None \<Rightarrow> True)
    \<and> (case WriteSparseData (mem_env (\<lambda>k. 2 dvd k)) sample_sys sparse_at_6 [8, 9] 100 doomed_sample sparse_stat sparse_world of
            Some (_, E', _, w') \<Rightarrow> same_entry doomed_sample E' \<and> isolated doomed_sample (mem_view sparse_world) (mem_view w') | None \<Rightarrow> True)
    \<and> (case Close (mem_env (\<lambda>k. 2 dvd k)) sample_sys sparse_stat [] [7] doomed_sample sparse_world of
            Some (_, w') \<Rightarrow> isolated doomed_sample (mem_view sparse_world) (mem_view w') | None \<Rightarrow> True)"
  by (rule doomed_entry_is_isolated [OF faulty.files_axioms]) (simp add: doomed_sample_def doomed_def)

end
