(* ===== verification/Sync_Doomed.thy ===== *)
theory Sync_Doomed imports Sync_Lifecycle Sync_Isolated begin

text \<open>
  Dooming an entry that is open: its files are renamed, so that its key is free for another entry, and are
  deleted when it is closed.
\<close>

section \<open>The files and their names\<close>

text \<open>The files that an entry has open.\<close>

definition open_subfiles :: "SyncEntry \<Rightarrow> SubFile set" where
  "open_subfiles E = {s. case s of FILE_0 \<Rightarrow> \<not> empty_file_omitted E ! 0 | FILE_1 \<Rightarrow> \<not> empty_file_omitted E ! 1
     | FILE_SPARSE \<Rightarrow> sparse_file_open E}"

definition files_gone :: "SyncEntry \<Rightarrow> fs \<Rightarrow> bool" where
  "files_gone E v \<longleftrightarrow> (\<forall>s \<in> open_subfiles E. dir v (GetFilenameForSubfile E s) = None)"

text \<open>The names that belong to neither of two entries.\<close>

definition other_names :: "SyncEntry \<Rightarrow> SyncEntry \<Rightarrow> path set" where
  "other_names E E' = {p. \<not> own_name E p \<and> \<not> own_name E' p}"

lemma subfile_names:
  "se_path E = se_path E' \<Longrightarrow> GetFilenameForSubfile E s = GetFilenameForSubfile E' s'
     \<longleftrightarrow> entry_file_key E = entry_file_key E' \<and> s = s'"
  using sparse_filename_not_stream [of "entry_file_key E" "entry_file_key E'"]
    sparse_filename_not_stream [of "entry_file_key E'" "entry_file_key E"]
  by (cases s; cases s')
    (auto simp: GetFilenameForSubfile_def GetFilenameFromFileIndex_def FileIndexForSubFile_def AppendASCII_def
      stream_filename_inj sparse_filename_injective dest: sym)

lemma own_names_0: "GetFilenameForSubfile E FILE_0 = AppendASCII (se_path E) (GetFilenameFromEntryFileKeyAndFileIndex (entry_file_key E) 0)"
  "GetFilenameForSubfile E FILE_1 = AppendASCII (se_path E) (GetFilenameFromEntryFileKeyAndFileIndex (entry_file_key E) 1)"
  "GetFilenameForSubfile E FILE_SPARSE = AppendASCII (se_path E) (GetSparseFilenameFromEntryFileKey (entry_file_key E))"
  by (simp_all add: GetFilenameForSubfile_def GetFilenameFromFileIndex_def FileIndexForSubFile_def)

context reliable_files begin

lemma replace_ok:
  assumes "dir (view w) p \<noteq> None"
  obtains w' where "ReplaceFile F p p' w = (True, w')"
    "view w' = (view w)\<lparr>dir := (dir (view w))(p := None, p' := dir (view w) p)\<rparr>"
proof -
  obtain ok w' where r: "ReplaceFile F p p' w = (ok, w')" by force
  with replaces [OF assms, of p'] have ok by simp
  with r replace_law [OF r] that show thesis by auto
qed

lemma delete_ok:
  obtains w' where "DeleteFile F p mode w = (True, w')" "view w' = (view w)\<lparr>dir := (dir (view w))(p := None)\<rparr>"
proof -
  obtain ok w' where r: "DeleteFile F p mode w = (ok, w')" by force
  with deletes [of p mode w] have ok by simp
  with r delete_law [OF r] that show thesis by auto
qed

lemma replace_if:
  assumes "c \<longrightarrow> dir (view w) p \<noteq> None" and "p \<noteq> p'"
  obtains w' where "(if c then ReplaceFile F p p' w else (True, w)) = (True, w')"
    "data (view w') = data (view w)" "table (view w') = table (view w)"
    "\<forall>q. q \<noteq> p \<and> q \<noteq> p' \<longrightarrow> dir (view w') q = dir (view w) q"
    "dir (view w') p = (if c then None else dir (view w) p)"
proof (cases c)
  case True
  with assms(1) have "dir (view w) p \<noteq> None" by simp
  then obtain w' where "ReplaceFile F p p' w = (True, w')"
    "view w' = (view w)\<lparr>dir := (dir (view w))(p := None, p' := dir (view w) p)\<rparr>" by (rule replace_ok)
  with True assms(2) that show thesis by simp
qed (use that in simp)

lemma Doom_ok:
  assumes o: "have_open_files E" and alive: "\<not> doomed E" and om: "empty_file_omitted E = [False, b]"
    and names: "\<forall>s. dir (view w) (GetFilenameForSubfile E s) \<noteq> None \<longleftrightarrow> s \<in> open_subfiles E"
  obtains key' w' where "Doom F E w = (Net 0, E\<lparr>entry_file_key := key'\<rparr>, w')" "doom_generation key' \<noteq> 0"
    "data (view w') = data (view w)" "table (view w') = table (view w)"
    "\<forall>s. dir (view w') (GetFilenameForSubfile E s) = None"
    "\<forall>p \<in> other_names E (E\<lparr>entry_file_key := key'\<rparr>). dir (view w') p = dir (view w) p"
proof -
  obtain key' w1 where t: "tDoom F (se_owner E) (entry_file_key E) w = (key', w1)" by force
  note dl = doom_law [OF t]
  define E1 where "E1 = E\<lparr>entry_file_key := key'\<rparr>"
  define p where "p s = GetFilenameForSubfile E s" for s
  define q where "q s = GetFilenameForSubfile E1 s" for s
  have key: "entry_file_key E \<noteq> entry_file_key E1" using dl alive by (auto simp: E1_def doomed_def)
  have path: "se_path E = se_path E1" by (simp add: E1_def)
  have pq: "p s \<noteq> q s'" "q s' \<noteq> p s" "p s = p s' \<longleftrightarrow> s = s'" for s s'
    using subfile_names [OF path, of s s'] subfile_names [of E E s s'] key by (auto simp: p_def q_def)
  have d: "dir (view w1) (p s) \<noteq> None \<longleftrightarrow> s \<in> open_subfiles E" for s using names dl by (simp add: p_def)
  have "True \<longrightarrow> dir (view w1) (p FILE_0) \<noteq> None" using d [of FILE_0] om by (simp add: open_subfiles_def)
  then obtain w2 where w2: "(if True then ReplaceFile F (p FILE_0) (q FILE_0) w1 else (True, w1)) = (True, w2)"
    "data (view w2) = data (view w1)" "table (view w2) = table (view w1)"
    "\<forall>r. r \<noteq> p FILE_0 \<and> r \<noteq> q FILE_0 \<longrightarrow> dir (view w2) r = dir (view w1) r"
    "dir (view w2) (p FILE_0) = (if True then None else dir (view w1) (p FILE_0))"
    by (rule replace_if [OF _ pq(1)])
  have d2: "dir (view w2) (p s) = dir (view w1) (p s)" if "s \<noteq> FILE_0" for s using w2(4) pq that by simp
  then have "\<not> b \<longrightarrow> dir (view w2) (p FILE_1) \<noteq> None" using d [of FILE_1] om by (simp add: open_subfiles_def)
  then obtain w3 where w3: "(if \<not> b then ReplaceFile F (p FILE_1) (q FILE_1) w2 else (True, w2)) = (True, w3)"
    "data (view w3) = data (view w2)" "table (view w3) = table (view w2)"
    "\<forall>r. r \<noteq> p FILE_1 \<and> r \<noteq> q FILE_1 \<longrightarrow> dir (view w3) r = dir (view w2) r"
    "dir (view w3) (p FILE_1) = (if \<not> b then None else dir (view w2) (p FILE_1))"
    by (rule replace_if [OF _ pq(1)])
  have d3: "dir (view w3) (p FILE_SPARSE) = dir (view w1) (p FILE_SPARSE)" using w3(4) d2 pq by simp
  then have "sparse_file_open E \<longrightarrow> dir (view w3) (p FILE_SPARSE) \<noteq> None"
    using d [of FILE_SPARSE] by (simp add: open_subfiles_def)
  then obtain w4 where w4: "(if sparse_file_open E then ReplaceFile F (p FILE_SPARSE) (q FILE_SPARSE) w3 else (True, w3)) = (True, w4)"
    "data (view w4) = data (view w3)" "table (view w4) = table (view w3)"
    "\<forall>r. r \<noteq> p FILE_SPARSE \<and> r \<noteq> q FILE_SPARSE \<longrightarrow> dir (view w4) r = dir (view w3) r"
    "dir (view w4) (p FILE_SPARSE) = (if sparse_file_open E then None else dir (view w3) (p FILE_SPARSE))"
    by (rule replace_if [OF _ pq(1)])
  show thesis
  proof (rule that)
    show "Doom F E w = (Net 0, E\<lparr>entry_file_key := key'\<rparr>, w4)"
      using o alive om t w2(1) w3(1) w4(1)
      by (cases b; cases "sparse_file_open E")
        (simp_all add: Doom_def DoomInternal_def two_files doomed_def p_def q_def E1_def own_names_0 Let_def)
    have gone: "dir (view w1) (p s) = None" if "s \<notin> open_subfiles E" for s using d that by blast
    have "dir (view w4) (p s) = None" for s
      using w2(4,5) w3(4,5) w4(4,5) pq gone [of FILE_1] gone [of FILE_SPARSE] om
      by (cases s) (auto simp: open_subfiles_def)
    then show "\<forall>s. dir (view w4) (GetFilenameForSubfile E s) = None" by (simp add: p_def)
    have "dir (view w4) r = dir (view w1) r" if "\<forall>s. r \<noteq> p s \<and> r \<noteq> q s" for r using w2(4) w3(4) w4(4) that by simp
    then show "\<forall>p \<in> other_names E (E\<lparr>entry_file_key := key'\<rparr>). dir (view w4) p = dir (view w) p"
      using dl by (simp add: other_names_def own_name_def p_def q_def E1_def)
  qed (use dl w2 w3 w4 in simp_all)
qed

lemma close_streams_returns:
  assumes d: "doomed E" and n: "0 \<le> data_size st ! 0" "data_size st ! 0 \<le> INT_MAX" "data_size st ! 0 \<le> int (length d0)"
  shows "close_streams F S st d0 rs estimate E w \<noteq> None"
proof (induction rs arbitrary: estimate w)
  case (Cons r rs)
  let ?i = "GetFileIndexFromStreamIndex (crc_index r)"
  obtain x w1 where a: "tAcquire F (tracked_file E ?i) w = (x, w1)" by force
  show ?case
  proof (cases "empty_file_omitted E ! ?i \<or> x = None")
    case True
    with a d Cons show ?thesis by (auto simp: doom_again Let_def)
  next
    case False
    then obtain h where h: "x = Some h" by auto
    obtain E2 w2 where w2: "(if crc_index r = 0 then write_stream_0 F S h st d0 E w1 else (E, w1)) = (E2, w2)" by force
    have e2: "E2 = E"
      using w2 write_stream_0_touches [OF d, of S h st d0 w1] by (auto split: if_splits)
    obtain ok w3 where w3: "(if crc_index r = 0 then fSetLength F h (GetEOFOffsetInFile st (se_key_size E) (crc_index r)) w2
        else (True, w2)) = (ok, w3)" by force
    show ?thesis
    proof
      assume none: "close_streams F S st d0 (r # rs) estimate E w = None"
      have "close_streams F S st d0 rs e E v = None \<longleftrightarrow> False" for e v using Cons.IH by simp
      with none a h False w2 w3 e2 n show False
        by (auto simp: Let_def doom_again [OF d] simp del: not_None_eq split: if_splits prod.splits)
    qed
  qed
qed simp

text \<open>Closing the files of a doomed entry whose headers have been checked deletes them.\<close>

lemma CloseFile_gone:
  assumes d: "doomed E" and i: "i < 2" and o: "\<not> empty_file_omitted E ! i"
  obtains w' where "CloseFile F i E w = (E, w')" "dir (view w') = (dir (view w))(GetFilenameFromFileIndex E i := None)"
proof -
  obtain w1 where "DeleteFile F (GetFilenameFromFileIndex E i) kDefault w = (True, w1)"
    "view w1 = (view w)\<lparr>dir := (dir (view w))(GetFilenameFromFileIndex E i := None)\<rparr>" by (rule delete_ok)
  with d o that show thesis by (auto simp: CloseFile_def GetFilenameFromFileIndex_def doomed_def close_law)
qed

lemma Close_gone:
  assumes d: "doomed E" and n: "0 \<le> data_size st ! 0" "data_size st ! 0 \<le> INT_MAX" "data_size st ! 0 \<le> int (length d0)"
    and om: "empty_file_omitted E = [False, b]" and chk: "header_and_key_check_needed E = [False, False]"
  obtains estimate w' where "Close F S st rs d0 E w = Some (estimate, w')" "files_gone E (view w')"
proof -
  obtain e1 E1 w1 where c1: "close_streams F S st d0 rs (- 1) E w = Some (e1, E1, w1)"
    using close_streams_returns [OF d n, of S rs "- 1" w] by auto
  have E1: "E1 = E" using close_streams_stays [OF d c1] by simp
  obtain w2 where w2: "CloseFile F 0 E w1 = (E, w2)"
    "dir (view w2) = (dir (view w1))(GetFilenameFromFileIndex E 0 := None)"
    using CloseFile_gone [OF d, of 0 w1] om by auto
  obtain w3 where w3: "close_files_checked F [Suc 0] E w2 = Some (E, w3)"
    "dir (view w3) = (if b then dir (view w2) else (dir (view w2))(GetFilenameFromFileIndex E 1 := None))"
  proof (cases b)
    case False
    then obtain w3 where "CloseFile F 1 E w2 = (E, w3)"
      "dir (view w3) = (dir (view w2))(GetFilenameFromFileIndex E 1 := None)"
      using CloseFile_gone [OF d, of 1 w2] om by auto
    with False that om chk show thesis by simp
  qed (use that om in simp)
  obtain w4 where w4: "DeleteFile F (GetFilenameForSubfile E FILE_SPARSE) kDefault w3 = (True, w4)"
    "view w4 = (view w3)\<lparr>dir := (dir (view w3))(GetFilenameForSubfile E FILE_SPARSE := None)\<rparr>" by (rule delete_ok)
  let ?w = "if sparse_file_open E then tClose F (tracked_sparse E) w4 else w3"
  show thesis
  proof (rule that)
    show "Close F S st rs d0 E w = Some (e1, ?w)"
      using c1 E1 w2(1) w3(1) w4(1) om chk d
      by (auto simp: Close_def two_files CloseSparseFile_def doomed_def own_names_0 Let_def)
    have f: "GetFilenameFromFileIndex E 0 = GetFilenameForSubfile E FILE_0"
      "GetFilenameFromFileIndex E 1 = GetFilenameForSubfile E FILE_1"
      by (simp_all add: GetFilenameForSubfile_def FileIndexForSubFile_def)
    have "dir (view ?w) (GetFilenameForSubfile E s) = None" if "s \<in> open_subfiles E" for s
      using that w2(2) w3(2) w4(2) om f
      by (cases s) (auto simp: open_subfiles_def close_law)
    then show "files_gone E (view ?w)" by (simp add: files_gone_def)
  qed
qed

end

text \<open>C5: A doomed entry makes room for its successor and leaves no files behind. Take an open entry that holds the
stream \<open>d1\<close>, has its files open and no other files, and is not doomed. Without faults, \<open>Doom\<close> succeeds;
\<open>CreateEntry\<close> with any key of the same hash and for another owner then succeeds, although the old entry is still
open; the old entry still holds its stream; and \<open>Close\<close> of the old entry, with any checksum records and any
buffer that has the bytes of stream 0, returns. After that the file of the new entry is in its place with the new entry's header and
empty stream, the renamed files of the old one are gone, and no other name of the directory has changed.\<close>
theorem doomed_entry_makes_room:
  assumes "reliable_files F view node remaining"
    and "have_open_files E" and "entry_file_key E = plain_key h" and "se_path E = path"
    and "has_stream_1 E st (view w) n key hash d1" and "data_size st ! 0 \<le> INT_MAX" and "data_size st ! 0 \<le> int (length d0)"
    and "empty_file_omitted E = [False, b]" and "header_and_key_check_needed E = [False, False]"
    and "\<forall>s. dir (view w) (GetFilenameForSubfile E s) \<noteq> None \<longleftrightarrow> s \<in> open_subfiles E"
    and "owner2 \<noteq> se_owner E" and "PersistentHash key2 = Some hash2" and "length key2 < 2 ^ 32"
    and "data_size (cr_entry_stat out) = [0, 0, 0]"
  shows "\<exists>E1 w1 out2 w2 E2 m estimate w3.
      Doom F E w = (Net 0, E1, w1) \<and> doomed E1
    \<and> CreateEntry F ct path owner2 key2 h out w1 = Some (out2, w2) \<and> cr_result out2 = Net 0
    \<and> cr_sync_entry out2 = Some E2
    \<and> has_stream_1 E1 st (view w2) n key hash d1
    \<and> Close F S st crcs d0 E1 w2 = Some (estimate, w3)
    \<and> has_stream_1 E2 (cr_entry_stat out2) (view w3) m key2 hash2 []
    \<and> dir (view w3) (GetFilenameForSubfile E FILE_0) = Some m
    \<and> dir (view w3) (GetFilenameForSubfile E FILE_1) = None
    \<and> dir (view w3) (GetFilenameForSubfile E FILE_SPARSE) = None
    \<and> files_gone E1 (view w3)
    \<and> dir (view w3) |` other_names E E1 = dir (view w) |` other_names E E1"
proof -
  note files = reliable_files.axioms(1) [OF assms(1)]
  have alive: "\<not> doomed E" by (simp add: doomed_def assms(3) plain_key_def)
  obtain key' w1 where d: "Doom F E w = (Net 0, E\<lparr>entry_file_key := key'\<rparr>, w1)" "doom_generation key' \<noteq> 0"
    "data (view w1) = data (view w)" "table (view w1) = table (view w)"
    "\<forall>s. dir (view w1) (GetFilenameForSubfile E s) = None"
    "\<forall>p \<in> other_names E (E\<lparr>entry_file_key := key'\<rparr>). dir (view w1) p = dir (view w) p"
    by (rule reliable_files.Doom_ok [OF assms(1,2) alive assms(8,10)])
  define E1 where "E1 = E\<lparr>entry_file_key := key'\<rparr>"
  have E1: "doomed E1" "se_owner E1 = se_owner E" "empty_file_omitted E1 = [False, b]"
    "header_and_key_check_needed E1 = [False, False]"
    using d(2) assms(8,9) by (simp_all add: E1_def doomed_def)
  have plain: "\<not> own_name E1 (GetFilenameForSubfile E s)" for s
    using subfile_names [of E E1 s] assms(3) d(2) by (auto simp: own_name_def E1_def plain_key_def)
  let ?p0 = "AppendASCII path (GetFilenameFromEntryFileKeyAndFileIndex (plain_key h) 0)"
  have p0: "?p0 = GetFilenameForSubfile E FILE_0" by (simp add: own_names_0 assms(3,4))
  then have "dir (view w1) ?p0 = None" using d(5) by simp
  then obtain E2 out2 w2 m where c: "CreateEntry F ct path owner2 key2 h out w1 = Some (out2, w2)" "cr_result out2 = Net 0"
    "cr_sync_entry out2 = Some E2" "has_stream_1 E2 (cr_entry_stat out2) (view w2) m key2 hash2 []"
    "se_owner E2 = owner2" "fresh_node m (view w1)" "table (view w2) = (table (view w1))((owner2, FILE_0) \<mapsto> m)"
    "dir (view w2) = (dir (view w1))(?p0 \<mapsto> m)" "(data (view w2))(m := []) = (data (view w1))(m := [])"
    by (rule reliable_files.CreateEntry_ok [OF assms(1) _ assms(12-14)]) blast
  have size0: "0 \<le> data_size st ! 0"
    using assms(5) sizes_okD [of st "length key"] by (simp add: has_stream_1_def)
  have s: "table (view w) (se_owner E, FILE_0) = Some n"
    using assms(5) by (simp add: has_stream_1_def tracked_file_def SubFileForFileIndex_def)
  have m: "table (view w1) t \<noteq> Some m" for t using c(6) by (cases t) (auto simp: fresh_node_def ran_def)
  have "m \<noteq> n" using m [of "(se_owner E, FILE_0)"] s d(4) by auto
  then have "data (view w2) n = data (view w) n" using fun_cong [OF c(9), of n] d(3) by simp
  then have old: "has_stream_1 E1 st (view w2) n key hash d1"
    using assms(5,11) c(7) d(4)
    by (simp add: has_stream_1_def E1_def tracked_file_def SubFileForFileIndex_def)
  obtain estimate w3 where cl: "Close F S st crcs d0 E1 w2 = Some (estimate, w3)" "files_gone E1 (view w3)"
    by (rule reliable_files.Close_gone [OF assms(1) E1(1) size0 assms(6,7) E1(3,4)])
  have i: "isolated E1 (view w2) (view w3)" by (rule files.Close_isolated [OF files E1(1) cl(1)])
  have "foreign E1 (view w2) m"
    using m c(7) assms(11) E1(2) by (auto simp: foreign_def own_node_def intro!: exI [of _ "owner2"])
  then have "data (view w3) m = data (view w2) m" using i by (simp add: isolated_def)
  moreover have "table (view w3) (tracked_file E2 0) = table (view w2) (tracked_file E2 0)"
    using i c(5) assms(11) E1(2) by (simp add: isolated_def tracked_file_def)
  ultimately have new: "has_stream_1 E2 (cr_entry_stat out2) (view w3) m key2 hash2 []"
    using c(4) by (simp add: has_stream_1_def)
  have kept: "dir (view w3) p = dir (view w2) p" if "\<not> own_name E1 p" for p using i that by (simp add: isolated_def)
  have at: "dir (view w2) (GetFilenameForSubfile E s) = (if s = FILE_0 then Some m else None)" for s
    using c(8) d(5) subfile_names [of E E s FILE_0] by (simp add: p0)
  have "dir (view w3) |` other_names E E1 = dir (view w) |` other_names E E1"
  proof
    fix p
    show "(dir (view w3) |` other_names E E1) p = (dir (view w) |` other_names E E1) p"
    proof (cases "p \<in> other_names E E1")
      case True
      then have "dir (view w3) p = dir (view w2) p" "p \<noteq> ?p0" unfolding p0
        using kept by (auto simp: other_names_def)
      then have "dir (view w3) p = dir (view w1) p" using c(8) by simp
      with True d(6) show ?thesis by (simp add: E1_def)
    qed simp
  qed
  then show ?thesis
    using d(1) E1(1) c(1-3) old cl new kept [OF plain] at by (auto simp flip: E1_def)
qed

definition open_sample :: SyncEntry where
  "open_sample = sample_closing\<lparr>have_open_files := True\<rparr>"

lemma doomed_entry_makes_room_witness:
  "\<exists>E1 w1 out2 w2 E2 m estimate w3.
      Doom (mem_env (\<lambda>_. False)) open_sample sample_world = (Net 0, E1, w1) \<and> doomed E1
    \<and> CreateEntry (mem_env (\<lambda>_. False)) DISK_CACHE [''c''] 9 [104] 5 no_results w1 = Some (out2, w2)
    \<and> cr_result out2 = Net 0 \<and> cr_sync_entry out2 = Some E2
    \<and> has_stream_1 E1 sample_stat (mem_view w2) 1 [104] 9 [1, 2]
    \<and> Close (mem_env (\<lambda>_. False)) sample_sys sample_stat [] [7] E1 w2 = Some (estimate, w3)
    \<and> has_stream_1 E2 (cr_entry_stat out2) (mem_view w3) m [104] (the (PersistentHash [104])) []
    \<and> dir (mem_view w3) (GetFilenameForSubfile open_sample FILE_0) = Some m
    \<and> dir (mem_view w3) (GetFilenameForSubfile open_sample FILE_1) = None
    \<and> dir (mem_view w3) (GetFilenameForSubfile open_sample FILE_SPARSE) = None
    \<and> files_gone E1 (mem_view w3)
    \<and> dir (mem_view w3) |` other_names open_sample E1 = dir (mem_view sample_world) |` other_names open_sample E1"
proof (rule doomed_entry_makes_room [OF mem.reliable_files_axioms])
  have e: "entry_file_key open_sample = plain_key 5" "se_path open_sample = [''c'']" "empty_file_omitted open_sample = [False, True]"
    "header_and_key_check_needed open_sample = [False, False]" "\<not> sparse_file_open open_sample" "se_owner open_sample \<noteq> 9"
    by (simp_all add: open_sample_def sample_closing_def sample_entry_def new_SyncEntry_def plain_key_def)
  then show "entry_file_key open_sample = plain_key 5" "se_path open_sample = [''c'']"
    "empty_file_omitted open_sample = [False, True]" "header_and_key_check_needed open_sample = [False, False]"
    "9 \<noteq> se_owner open_sample" by simp_all
  show "has_stream_1 open_sample sample_stat (mem_view sample_world) 1 [104] 9 [1, 2]"
    using sample_has_stream_1 by (simp add: has_stream_1_def open_sample_def sample_closing_def tracked_file_def)
  show "\<forall>s. dir (mem_view sample_world) (GetFilenameForSubfile open_sample s) \<noteq> None \<longleftrightarrow> s \<in> open_subfiles open_sample"
  proof
    fix s show "dir (mem_view sample_world) (GetFilenameForSubfile open_sample s) \<noteq> None \<longleftrightarrow> s \<in> open_subfiles open_sample"
      using sample_names e by (cases s) (simp_all add: own_names_0 open_subfiles_def sample_world_def)
  qed
  show "PersistentHash [104] = Some (the (PersistentHash [104]))" by code_simp
qed (simp_all add: open_sample_def sample_stat_def no_results_def INT_MAX_def)

end
