(* ===== verification/Sync_Open_Or_Create.thy ===== *)
theory Sync_Open_Or_Create imports Sync_Lifecycle begin

text \<open>
  Opening an entry or creating it when it is not there: which of the two happens, depending on the file, on
  what the index says and on whether the client has already been told that the entry was created.
\<close>

section \<open>Where the entry is not there\<close>

lemma new_entry_names:
  "GetFilenameFromFileIndex (new_SyncEntry ct path owner key h ps) 0
     = AppendASCII path (GetFilenameFromEntryFileKeyAndFileIndex (plain_key h) 0)"
  by (simp add: GetFilenameFromFileIndex_def new_SyncEntry_def plain_key_def)

context reliable_files begin

text \<open>Deleting the files of a hash that no entry has open.\<close>

lemma delete_files_free:
  obtains w' where "doom_and_close F (new_SyncEntry ct path owner key h ps) w = w'"
    "dir (view w') (AppendASCII path (GetFilenameFromEntryFileKeyAndFileIndex (plain_key h) 0)) = None"
    "\<forall>p. dir (view w') p = dir (view w) p \<or> dir (view w') p = None" "data (view w') = data (view w)"
    "table (view w') = table (view w)"
proof -
  let ?E = "new_SyncEntry ct path owner key h ps"
  let ?p = "\<lambda>i. AppendASCII path (GetFilenameFromEntryFileKeyAndFileIndex (plain_key h) i)"
  have del: "view (snd (DeleteFile F p mode w)) = (view w)\<lparr>dir := (dir (view w))(p := None)\<rparr>" for p mode w
  proof (cases "DeleteFile F p mode w")
    case (Pair ok w')
    with deletes [of p mode w] delete_law [OF Pair] show ?thesis by simp
  qed
  define w1 where "w1 = snd (DeleteFile F (?p 0) kDefault w)"
  define w2 where "w2 = snd (DeleteFile F (?p 1) kDefault w1)"
  define w3 where "w3 = snd (DeleteFile F (AppendASCII path (GetSparseFilenameFromEntryFileKey (plain_key h)))
      kEnsureImmediateAvailability w2)"
  have "doom_and_close F ?E w = w3"
    by (simp add: doom_and_close_def doom_entry_def DoomInternal_def CloseFiles_def DeleteEntryFilesInternal_def
        DeleteFilesForEntryHash_def DeleteFileForEntryHash_def two_files new_SyncEntry_def w1_def w2_def w3_def
        Let_def split: prod.split)
  moreover have "dir (view w3) (?p 0) = None"
    "\<forall>p. dir (view w3) p = dir (view w) p \<or> dir (view w3) p = None" "data (view w3) = data (view w)"
    "table (view w3) = table (view w)"
    by (simp_all add: w1_def w2_def w3_def del)
  ultimately show thesis by (rule that)
qed

lemma OpenEntry_missing:
  assumes free: "dir (view w) (AppendASCII path (GetFilenameFromEntryFileKeyAndFileIndex (plain_key h) 0)) = None"
  obtains out' w' where "OpenEntry F S ct path owner (Some key) h prefetch_size out w = Some (out', w')"
    "cr_sync_entry out' = None" "cr_entry_stat out' = cr_entry_stat out"
    "dir (view w') (AppendASCII path (GetFilenameFromEntryFileKeyAndFileIndex (plain_key h) 0)) = None"
proof -
  let ?E = "new_SyncEntry ct path owner (Some key) h prefetch_size"
  have "dir (view w) (GetFilenameFromFileIndex ?E 0) = None" using free by (simp add: new_entry_names)
  then obtain w1 where o: "OpenFile F (GetFilenameFromFileIndex ?E 0) FLAG_OPEN_RW w = (Inl FILE_ERROR_NOT_FOUND, w1)"
    by (rule open_missing)
  have "OpenFiles F ?E (cr_entry_stat out) w = (False, ?E, cr_entry_stat out, w1)"
    using o by (simp add: OpenFiles_def two_files MaybeOpenFile_def)
  then have init: "InitializeForOpen F S ?E (cr_entry_stat out) (cr_stream_prefetch_data out) w
      = Some (Err ERR_FAILED, ?E, cr_entry_stat out, cr_stream_prefetch_data out, w1)"
    by (simp add: InitializeForOpen_def)
  obtain w2 where "doom_and_close F ?E w1 = w2"
    "dir (view w2) (AppendASCII path (GetFilenameFromEntryFileKeyAndFileIndex (plain_key h) 0)) = None"
    by (rule delete_files_free)
  with init that show thesis by (simp add: OpenEntry_def)
qed

text \<open>Creating files where one has the name already.\<close>

lemma InitializeForCreate_exists:
  assumes "dir (view w) (AppendASCII path (GetFilenameFromEntryFileKeyAndFileIndex (plain_key h) 0)) \<noteq> None"
  obtains w' where "InitializeForCreate F (new_SyncEntry ct path owner key h ps) st w
      = Some (Err ERR_FILE_EXISTS, new_SyncEntry ct path owner key h ps, st, w')" "view w' = view w"
proof -
  let ?E = "new_SyncEntry ct path owner key h ps"
  let ?p = "GetFilenameFromFileIndex ?E 0"
  have there: "dir (view w) ?p \<noteq> None" using assms by (simp add: new_entry_names)
  have fails: "\<exists>e w2. OpenFile F ?p FLAG_CREATE_RW w1 = (Inl e, w2) \<and> view w2 = view w" if v: "view w1 = view w" for w1
  proof -
    obtain r w2 where r: "OpenFile F ?p FLAG_CREATE_RW w1 = (r, w2)" by force
    with create_law [OF r] there v show ?thesis by (cases r) auto
  qed
  obtain e w1 where o: "OpenFile F ?p FLAG_CREATE_RW w = (Inl e, w1)" "view w1 = view w" using fails [OF refl] by blast
  have "view (snd (CreateDirectory F (se_path ?E) w1)) = view w"
    using create_dir_law [of "se_path ?E" w1] o(2) by (metis prod.collapse)
  from fails [OF this] obtain e2 w2 where o2:
    "OpenFile F ?p FLAG_CREATE_RW (snd (CreateDirectory F (se_path ?E) w1)) = (Inl e2, w2)" "view w2 = view w" by blast
  let ?w = "if e = FILE_ERROR_NOT_FOUND then w2 else w1"
  have "CreateFiles F ?E st w = (False, ?E, st, ?w)"
    using o(1) o2(1) by (simp add: CreateFiles_def two_files MaybeCreateFile_def Let_def)
  then have "InitializeForCreate F ?E st w = Some (Err ERR_FILE_EXISTS, ?E, st, ?w)"
    by (simp add: InitializeForCreate_def)
  moreover have "view ?w = view w" using o(2) o2(2) by simp
  ultimately show thesis by (rule that)
qed

end

section \<open>The four cases\<close>

text \<open>The state of the directory before: no entry, or the file of a closed entry with two streams.\<close>

datatype entry_on_disk = No_entry | Closed_entry nat bytes bytes bool u32

definition on_disk :: "sys \<Rightarrow> fs \<Rightarrow> path \<Rightarrow> u64 \<Rightarrow> bytes \<Rightarrow> u32 \<Rightarrow> entry_on_disk \<Rightarrow> bool" where
  "on_disk S v path h key hash old \<longleftrightarrow>
     dir v (AppendASCII path (GetFilenameFromEntryFileKeyAndFileIndex (plain_key h) 1)) = None
     \<and> dir v (AppendASCII path (GetSparseFilenameFromEntryFileKey (plain_key h))) = None
     \<and> (case old of
          No_entry \<Rightarrow> dir v (AppendASCII path (GetFilenameFromEntryFileKeyAndFileIndex (plain_key h) 0)) = None
        | Closed_entry n d1 d0 has crc1 \<Rightarrow>
            dir v (AppendASCII path (GetFilenameFromEntryFileKeyAndFileIndex (plain_key h) 0)) = Some n
            \<and> data v n = entry_file S key hash d1 (stream_1_footer has crc1) d0
            \<and> (has \<longrightarrow> crc1 = Crc32 (sys_zlib S) d1) \<and> 104 + length key + length d1 + length d0 < 2 ^ 31)"

context reliable_files begin

lemma open_then_create_missing:
  assumes free: "dir (view w) (AppendASCII path (GetFilenameFromEntryFileKeyAndFileIndex (plain_key h) 0)) = None"
    and hash: "PersistentHash key = Some hash" and k: "length key < 2 ^ 32"
    and out: "data_size (cr_entry_stat out) = [0, 0, 0]"
  obtains out' w' E m where "open_then_create F S ct path owner key h prefetch_size out w = Some (out', w')"
    "cr_result out' = Net 0" "cr_sync_entry out' = Some E" "cr_created out'"
    "dir (view w') (AppendASCII path (GetFilenameFromEntryFileKeyAndFileIndex (plain_key h) 0)) = Some m"
    "has_stream_1 E (cr_entry_stat out') (view w') m key hash []"
proof -
  obtain out1 w1 where o: "OpenEntry F S ct path owner (Some key) h prefetch_size out w = Some (out1, w1)"
    "cr_sync_entry out1 = None" "cr_entry_stat out1 = cr_entry_stat out"
    "dir (view w1) (AppendASCII path (GetFilenameFromEntryFileKeyAndFileIndex (plain_key h) 0)) = None"
    by (rule OpenEntry_missing [OF free])
  have "data_size (cr_entry_stat out1) = [0, 0, 0]" using o(3) out by simp
  then obtain E out2 w2 n where "CreateEntry F ct path owner key h out1 w1 = Some (out2, w2)" "cr_result out2 = Net 0"
    "cr_sync_entry out2 = Some E" "cr_created out2" "has_stream_1 E (cr_entry_stat out2) (view w2) n key hash []"
    "dir (view w2) = (dir (view w1))(AppendASCII path (GetFilenameFromEntryFileKeyAndFileIndex (plain_key h) 0) \<mapsto> n)"
    by (rule CreateEntry_ok [OF o(4) hash k]) blast
  with o(1,2) that show thesis by (simp add: open_then_create_def)
qed

lemma open_then_create_found:
  assumes d: "on_disk S (view w) path h key hash (Closed_entry n d1 d0 has crc1)" and sha: "length (Sha256 S key) = 32"
    and out: "data_size (cr_entry_stat out) = [0, 0, 0]" "length (cr_stream_prefetch_data out) = 2"
  shows "\<exists>out' w' E. open_then_create F S ct path owner key h prefetch_size out w = Some (out', w')
    \<and> cr_result out' = Net 0 \<and> cr_sync_entry out' = Some E \<and> cr_created out' = cr_created out
    \<and> dir (view w') (AppendASCII path (GetFilenameFromEntryFileKeyAndFileIndex (plain_key h) 0)) = Some n
    \<and> has_stream_1 E (cr_entry_stat out') (view w') n key hash d1
    \<and> data_size (cr_entry_stat out') = [int (length d0), int (length d1), 0]"
proof -
  have f: "data (view w) n = entry_file S key hash d1 (stream_1_footer has crc1) d0" "has \<longrightarrow> crc1 = Crc32 (sys_zlib S) d1"
    "104 + length key + length d1 + length d0 < 2 ^ 31"
    "dir (view w) (AppendASCII path (GetFilenameFromEntryFileKeyAndFileIndex (plain_key h) 0)) = Some n"
    "dir (view w) (AppendASCII path (GetFilenameFromEntryFileKeyAndFileIndex (plain_key h) 1)) = None"
    "dir (view w) (AppendASCII path (GetSparseFilenameFromEntryFileKey (plain_key h))) = None"
    using d by (simp_all add: on_disk_def)
  obtain out' w' E where "OpenEntry F S ct path owner (Some key) h prefetch_size out w = Some (out', w')"
    "cr_result out' = Net 0" "cr_created out' = cr_created out"
    "data_size (cr_entry_stat out') = [int (length d0), int (length d1), 0]"
    "cr_sync_entry out' = Some E" "has_stream_1 E (cr_entry_stat out') (view w') n key hash d1" "dir (view w') = dir (view w)"
    by (rule OpenEntry_entry_file [OF reliable_files_axioms f(1-3) sha f(4-6) out])
  with f(4) show ?thesis by (simp add: open_then_create_def)
qed

text \<open>An entry that must be new: the old file is deleted.\<close>

lemma create_again:
  assumes hash: "PersistentHash key = Some hash" and k: "length key < 2 ^ 32" and out: "data_size (cr_entry_stat out) = [0, 0, 0]"
  shows "\<exists>out' w' E m.
      CreateEntry F ct path owner key h out (doom_and_close F (new_SyncEntry ct path owner (Some key) h ps) w) = Some (out', w')
    \<and> cr_result out' = Net 0 \<and> cr_sync_entry out' = Some E \<and> cr_created out'
    \<and> dir (view w') (AppendASCII path (GetFilenameFromEntryFileKeyAndFileIndex (plain_key h) 0)) = Some m
    \<and> has_stream_1 E (cr_entry_stat out') (view w') m key hash []"
proof -
  let ?p = "AppendASCII path (GetFilenameFromEntryFileKeyAndFileIndex (plain_key h) 0)"
  obtain w1 where w1: "doom_and_close F (new_SyncEntry ct path owner (Some key) h ps) w = w1" "dir (view w1) ?p = None"
    by (rule delete_files_free)
  obtain E out' w' m where "CreateEntry F ct path owner key h out w1 = Some (out', w')" "cr_result out' = Net 0"
    "cr_sync_entry out' = Some E" "cr_created out'" "has_stream_1 E (cr_entry_stat out') (view w') m key hash []"
    "dir (view w') = (dir (view w1))(?p \<mapsto> m)"
    by (rule CreateEntry_ok [OF w1(2) hash k out]) blast
  with w1(1) show ?thesis by simp
qed

end

text \<open>C4: An entry is opened if it is there and created if it is not. Without faults, \<open>OpenOrCreateEntry\<close> of a key, in a
directory that holds no entry of this hash or the file of a closed entry of the key, succeeds and leaves the file of
the entry under its name. If no entry was there, the result is a created one with an empty stream 1, whatever the
index said. If one was there, it is opened with the streams it was closed with, except when the index has
missed it and the client has been told of a new entry already: then the old file is deleted and the entry is a
new, empty one.\<close>
theorem open_or_create:
  assumes "reliable_files F view node remaining" and "on_disk S (view w) path h key hash old"
    and "PersistentHash key = Some hash" and "length key < 2 ^ 32" and "length (Sha256 S key) = 32"
    and "data_size (cr_entry_stat out) = [0, 0, 0]" and "length (cr_stream_prefetch_data out) = 2"
  shows "\<exists>out' w' E m.
      OpenOrCreateEntry F S ct path owner key h index_state optimistic_create prefetch_size out w = Some (out', w')
    \<and> cr_result out' = Net 0 \<and> cr_sync_entry out' = Some E
    \<and> dir (view w') (AppendASCII path (GetFilenameFromEntryFileKeyAndFileIndex (plain_key h) 0)) = Some m
    \<and> (case old of
         No_entry \<Rightarrow> cr_created out' \<and> has_stream_1 E (cr_entry_stat out') (view w') m key hash []
       | Closed_entry n d1 d0 _ _ \<Rightarrow>
           if index_state = INDEX_MISS \<and> optimistic_create
           then cr_created out' \<and> has_stream_1 E (cr_entry_stat out') (view w') m key hash []
           else m = n \<and> cr_created out' = cr_created out \<and> has_stream_1 E (cr_entry_stat out') (view w') n key hash d1
             \<and> data_size (cr_entry_stat out') = [int (length d0), int (length d1), 0])"
proof (cases old)
  case No_entry
  let ?p = "AppendASCII path (GetFilenameFromEntryFileKeyAndFileIndex (plain_key h) 0)"
  have free: "dir (view w) ?p = None" using assms(2) No_entry by (simp add: on_disk_def)
  show ?thesis
  proof (cases "index_state = INDEX_MISS")
    case True
    obtain E st' w' m where i: "InitializeForCreate F (new_SyncEntry ct path owner (Some key) h prefetch_size) (cr_entry_stat out) w
        = Some (net_OK, E, st', w')" "has_stream_1 E st' (view w') m key hash []" "dir (view w') = (dir (view w))(?p \<mapsto> m)"
      by (rule reliable_files.InitializeForCreate_ok [OF assms(1) free assms(3,4,6)]) blast
    then show ?thesis using No_entry True by (simp add: OpenOrCreateEntry_def)
  next
    case False
    obtain out' w' E m where "open_then_create F S ct path owner key h prefetch_size out w = Some (out', w')"
      "cr_result out' = Net 0" "cr_sync_entry out' = Some E" "cr_created out'" "dir (view w') ?p = Some m"
      "has_stream_1 E (cr_entry_stat out') (view w') m key hash []"
      by (rule reliable_files.open_then_create_missing [OF assms(1) free assms(3,4,6)])
    then show ?thesis using No_entry False by (auto simp: OpenOrCreateEntry_def)
  qed
next
  case (Closed_entry n d1 d0 has crc1)
  let ?p = "AppendASCII path (GetFilenameFromEntryFileKeyAndFileIndex (plain_key h) 0)"
  let ?E = "new_SyncEntry ct path owner (Some key) h prefetch_size"
  let ?out = "out\<lparr>cr_result := Err ERR_FILE_EXISTS, cr_entry_stat := cr_entry_stat out\<rparr>"
  have out: "data_size (cr_entry_stat ?out) = [0, 0, 0]" "length (cr_stream_prefetch_data ?out) = 2"
    using assms(6,7) by simp_all
  note found = reliable_files.open_then_create_found [OF assms(1) assms(2) [unfolded Closed_entry] assms(5)]
  have "dir (view w) ?p \<noteq> None" using assms(2) Closed_entry by (simp add: on_disk_def)
  then obtain w1 where i: "InitializeForCreate F ?E (cr_entry_stat out) w = Some (Err ERR_FILE_EXISTS, ?E, cr_entry_stat out, w1)"
    "view w1 = view w" by (rule reliable_files.InitializeForCreate_exists [OF assms(1)])
  have d1: "on_disk S (view w1) path h key hash (Closed_entry n d1 d0 has crc1)" using assms(2) Closed_entry i(2) by simp
  consider (hit) "index_state \<noteq> INDEX_MISS" | (miss) "index_state = INDEX_MISS" "\<not> optimistic_create"
    | (again) "index_state = INDEX_MISS" "optimistic_create" by blast
  then show ?thesis
  proof cases
    case hit
    with found [OF assms(6,7), of ct owner prefetch_size] Closed_entry show ?thesis by (auto simp: OpenOrCreateEntry_def)
  next
    case miss
    with reliable_files.open_then_create_found [OF assms(1) d1 assms(5) out, of ct owner prefetch_size] Closed_entry i(1)
    show ?thesis by (auto simp: OpenOrCreateEntry_def)
  next
    case again
    with reliable_files.create_again [OF assms(1,3,4) out(1), of ct path owner h prefetch_size w1] Closed_entry i(1)
    show ?thesis by (auto simp: OpenOrCreateEntry_def)
  qed
qed

definition closed_world :: mem where
  "closed_world = empty_mem\<lparr>m_dir := [(AppendASCII [''c''] (GetFilenameFromEntryFileKeyAndFileIndex (plain_key 5) 0), 1)],
     m_data := (\<lambda>_. entry_file sample_sys [104] (the (PersistentHash [104])) [1, 2] (stream_1_footer False 0) [7])\<rparr>"

lemma open_or_create_witness:
  "\<exists>out' w' E m.
      OpenOrCreateEntry (mem_env (\<lambda>_. False)) sample_sys DISK_CACHE [''c''] 3 [104] 5 INDEX_MISS False 100 no_results closed_world
        = Some (out', w')
    \<and> cr_result out' = Net 0 \<and> cr_sync_entry out' = Some E
    \<and> dir (mem_view w') (AppendASCII [''c''] (GetFilenameFromEntryFileKeyAndFileIndex (plain_key 5) 0)) = Some m
    \<and> (case Closed_entry 1 [1, 2] [7] False 0 of
         No_entry \<Rightarrow> cr_created out' \<and> has_stream_1 E (cr_entry_stat out') (mem_view w') m [104] (the (PersistentHash [104])) []
       | Closed_entry n d1 d0 _ _ \<Rightarrow>
           if INDEX_MISS = INDEX_MISS \<and> False
           then cr_created out' \<and> has_stream_1 E (cr_entry_stat out') (mem_view w') m [104] (the (PersistentHash [104])) []
           else m = n \<and> cr_created out' = cr_created no_results
             \<and> has_stream_1 E (cr_entry_stat out') (mem_view w') n [104] (the (PersistentHash [104])) d1
             \<and> data_size (cr_entry_stat out') = [int (length d0), int (length d1), 0])"
proof (rule open_or_create [OF mem.reliable_files_axioms])
  show "on_disk sample_sys (mem_view closed_world) [''c''] 5 [104] (the (PersistentHash [104])) (Closed_entry 1 [1, 2] [7] False 0)"
    using names_differ [of 5] sparse_filename_not_stream [of "plain_key 5" "plain_key 5" 0]
    by (simp add: on_disk_def closed_world_def empty_mem_def mem_view_def AppendASCII_def)
  show "PersistentHash [104] = Some (the (PersistentHash [104]))" by code_simp
qed (simp_all add: sample_sys_def no_results_def)

end
