(* ===== verification/Backend.thy ===== *)
theory Backend imports Simple_Index Sync_Files begin

text \<open>
  The backend (simple_backend_impl.cc): the directory and its initialization, the entries in use, the
  operations that wait for a doom or for an open by hash, the dooming of many entries, the iterator.

  \<open>SimpleEntryImpl\<close> and \<open>SimplePostOperationWaiterTable\<close> are not part of the sources: the records
  \<open>entry_ops\<close> and \<open>waiter_ops\<close> are their interfaces, on the state of the backend and on the state of
  a table. Closures and callbacks are data: what is queued is a \<open>closure\<close>, run by \<open>run_closure\<close>; what
  a client of the backend is told is appended to \<open>b_log\<close>, as are the tasks that are posted. Logging,
  histograms and the \<open>DCHECK\<close>s are left out; a failing \<open>CHECK\<close> is \<open>None\<close>.
\<close>

section \<open>Sizes, modes and priorities\<close>

definition kMaxFileRatio :: u64 where "kMaxFileRatio = 8"
definition kMaxNativeCodeFileRatio :: u64 where "kMaxNativeCodeFileRatio = 2"
definition kMinFileSizeLimit :: int where "kMinFileSizeLimit = 5 * 1024 * 1024"

datatype OperationsMode = OPTIMISTIC_OPERATIONS | NON_OPTIMISTIC_OPERATIONS

definition CacheTypeToOperationsMode :: "CacheType \<Rightarrow> OperationsMode" where
  "CacheTypeToOperationsMode ct =
     (if ct = DISK_CACHE \<or> ct = GENERATED_BYTE_CODE_CACHE \<or> ct = GENERATED_NATIVE_CODE_CACHE
         \<or> ct = GENERATED_WEBUI_BYTE_CODE_CACHE
      then OPTIMISTIC_OPERATIONS else NON_OPTIMISTIC_OPERATIONS)"

section \<open>Callbacks, closures and the state\<close>

datatype 'en EntryResult = MakeError net_result | MakeEntry 'en

text \<open>
  Completion callbacks: the client's, the index's after an eviction, and one of a barrier, with the
  address of its context and its final callback.
\<close>

datatype completion =
  Client nat
| EvictionDoneCallback
| BarrierCompletionCallback nat completion

text \<open>
  Callbacks that take an entry: the client's and the iterator's (with its client's). Only an entry
  gets one that is wrapped in \<open>OnEntryOpenedFromHash\<close>.
\<close>

datatype entry_callback =
  EntryClient nat
| CheckIterationReturnValue nat nat

datatype opened_callback =
  Opened entry_callback
| OnEntryOpenedFromHash u64 entry_callback

datatype entry_operation =
  OpenEntryOp bytes u32
| CreateEntryOp bytes u32
| OpenOrCreateEntryOp bytes u32
| OpenEntryFromHashOp u64

datatype doom_operation =
  DoomEntryOp bytes u32
| DoomEntryFromHashOp u64

datatype 'en closure =
  RunEntryResultOperationAndCallback entry_operation entry_callback
| RunOperationAndCallback doom_operation completion
| NotifyDoomBeforeCreateComplete 'en

datatype index_task =
  RecordIndexLoad
| IndexReadyForDoomTask time time completion
| IndexReadyForSizeCalculationTask nat
| IndexReadyForSizeBetweenCalculationTask time time nat
| OpenNextEntryImplTask nat nat

datatype 'en backend_effect =
  RunClient nat net_result
| RunEntryClient nat "'en EntryResult"
| RunSizeClient nat "net_result + int"
| PostDeleteEntrySetFiles "u64 list" completion
| PostInitCacheStructureOnDisk u64 completion

record BarrierContext =
  bc_expected :: int
  bc_count :: int
  bc_had_error :: bool

record ('en, 'x, 't) backend =
  b_path :: path
  b_cache_type :: CacheType
  orig_max_size :: int
  entry_operations_mode :: OperationsMode
  b_index :: SimpleIndex
  active_entries :: "u64 \<Rightarrow> 'en option"
  post_doom_waiting :: 't
  post_open_by_hash_waiting :: 't
  entry_count :: u32
  entry_world :: 'x
  contexts :: "nat \<Rightarrow> BarrierContext"
  next_context :: nat
  index_tasks :: "index_task list"
  hashes_to_enumerate :: "nat \<Rightarrow> u64 list option"
  b_alive :: bool
  b_log :: "'en backend_effect list"

record ('en, 'st) entry_ops =
  eNew :: "u64 \<Rightarrow> OperationsMode \<Rightarrow> u32 \<Rightarrow> 'st \<Rightarrow> 'en \<times> 'st"
  eKey :: "'en \<Rightarrow> 'st \<Rightarrow> bytes option"
  eSetKey :: "'en \<Rightarrow> bytes \<Rightarrow> 'st \<Rightarrow> 'st"
  eSetActiveEntryProxy :: "'en \<Rightarrow> u64 \<Rightarrow> 'st \<Rightarrow> 'st"
  eSetCreatePendingDoom :: "'en \<Rightarrow> 'st \<Rightarrow> 'st"
  eNotifyDoomBeforeCreateComplete :: "'en \<Rightarrow> 'st \<Rightarrow> 'st"
  eOpenEntry :: "'en \<Rightarrow> opened_callback \<Rightarrow> 'st \<Rightarrow> 'en EntryResult \<times> 'st"
  eCreateEntry :: "'en \<Rightarrow> entry_callback \<Rightarrow> 'st \<Rightarrow> 'en EntryResult \<times> 'st"
  eOpenOrCreateEntry :: "'en \<Rightarrow> entry_callback \<Rightarrow> 'st \<Rightarrow> 'en EntryResult \<times> 'st"
  eDoom :: "'en \<Rightarrow> 'st \<Rightarrow> 'st"
  eDoomEntry :: "'en \<Rightarrow> completion \<Rightarrow> 'st \<Rightarrow> net_result \<times> 'st"

record ('en, 't) waiter_ops =
  wFind :: "u64 \<Rightarrow> 't \<Rightarrow> 'en closure list option"
  wPush :: "u64 \<Rightarrow> 'en closure \<Rightarrow> 't \<Rightarrow> 't"
  wStart :: "u64 \<Rightarrow> 't \<Rightarrow> 't"
  wComplete :: "u64 \<Rightarrow> 't \<Rightarrow> 'en closure list \<times> 't"

text \<open>The hash of a key, and two of the constants of \<open>net::RequestPriority\<close>.\<close>

record backend_sys =
  entry_hasher :: "bytes \<Rightarrow> u64"
  HIGHEST :: u32
  MAXIMUM_PRIORITY :: u32

definition notify :: "'en backend_effect list \<Rightarrow> ('en, 'x, 't) backend \<Rightarrow> ('en, 'x, 't) backend" where
  "notify es B = B\<lparr>b_log := b_log B @ es\<rparr>"

section \<open>Construction, destruction, sizes\<close>

definition new_backend ::
    "path \<Rightarrow> CacheType \<Rightarrow> int \<Rightarrow> SimpleIndex \<Rightarrow> 't \<Rightarrow> 't \<Rightarrow> 'x \<Rightarrow> ('en, 'x, 't) backend" where
  "new_backend path ct max_bytes ix doom_table open_table x =
     \<lparr>b_path = path, b_cache_type = ct, orig_max_size = (if max_bytes < 0 then 0 else max_bytes),
      entry_operations_mode = CacheTypeToOperationsMode ct, b_index = ix, active_entries = (\<lambda>_. None),
      post_doom_waiting = doom_table, post_open_by_hash_waiting = open_table, entry_count = 0,
      entry_world = x, contexts = (\<lambda>_. \<lparr>bc_expected = 0, bc_count = 0, bc_had_error = False\<rparr>),
      next_context = 0, index_tasks = [], hashes_to_enumerate = (\<lambda>_. None), b_alive = True,
      b_log = []\<rparr>"

definition delete_backend :: "('en, 'x, 't) backend \<Rightarrow> ('en, 'x, 't) backend" where
  "delete_backend B =
     (let B = (if HasPendingWrite (b_index B)
               then B\<lparr>b_index := WriteToDisk INDEX_WRITE_REASON_SHUTDOWN (b_index B)\<rparr> else B)
      in B\<lparr>b_index := delete_index (b_index B), b_alive := False\<rparr>)"

text \<open>\<open>ExecuteWhenReady\<close> of the index: the task is known to the index by its number.\<close>

definition execute_when_ready ::
    "index_task \<Rightarrow> ('en, 'x, 't) backend \<Rightarrow> ('en, 'x, 't) backend" where
  "execute_when_ready task B =
     B\<lparr>index_tasks := index_tasks B @ [task],
       b_index := ExecuteWhenReady (length (index_tasks B)) (b_index B)\<rparr>"

definition Init ::
    "SimpleIndex \<Rightarrow> completion \<Rightarrow> ('en, 'x, 't) backend \<Rightarrow> ('en, 'x, 't) backend" where
  "Init fresh_index completion_callback B =
     (let B = execute_when_ready RecordIndexLoad (B\<lparr>b_index := fresh_index\<rparr>)
      in notify [PostInitCacheStructureOnDisk (word_of_int (orig_max_size B)) completion_callback] B)"

definition saturated_i64 :: "int \<Rightarrow> int" where
  "saturated_i64 x = max (- (2 ^ 63)) (min x (2 ^ 63 - 1))"

definition MaxFileSize :: "('en, 'x, 't) backend \<Rightarrow> int" where
  "MaxFileSize B =
     (let file_size_ratio = (if b_cache_type B = GENERATED_NATIVE_CODE_CACHE
                             then kMaxNativeCodeFileRatio else kMaxFileRatio)
      in max (saturated_i64 (uint (max_size (b_index B) div file_size_ratio))) kMinFileSizeLimit)"

definition SetMaxBytes :: "time \<Rightarrow> u64 \<Rightarrow> ('en, 'x, 't) backend \<Rightarrow> ('en, 'x, 't) backend" where
  "SetMaxBytes now max_bytes B = B\<lparr>b_index := SetMaxSize now max_bytes (b_index B)\<rparr>"

definition BackendGetEntryCount :: "('en, 'x, 't) backend \<Rightarrow> int" where
  "BackendGetEntryCount B = sint (GetEntryCount (b_index B))"

definition OnExternalCacheHit ::
    "backend_sys \<Rightarrow> time \<Rightarrow> bytes \<Rightarrow> ('en, 'x, 't) backend \<Rightarrow> ('en, 'x, 't) backend" where
  "OnExternalCacheHit Y now key B =
     B\<lparr>b_index := snd (UseIfExists now (entry_hasher Y key) (b_index B))\<rparr>"

definition BackendGetEntryInMemoryData :: "backend_sys \<Rightarrow> bytes \<Rightarrow> ('en, 'x, 't) backend \<Rightarrow> byte" where
  "BackendGetEntryInMemoryData Y key B =
     (let h = entry_hasher Y key in GetEntryInMemoryData h (b_index B))"

text \<open>A lower number is more urgent.\<close>

definition GetNewEntryPriority ::
    "backend_sys \<Rightarrow> u32 \<Rightarrow> ('en, 'x, 't) backend \<Rightarrow> u32 \<times> ('en, 'x, 't) backend" where
  "GetNewEntryPriority Y request_priority B =
     ((MAXIMUM_PRIORITY Y - request_priority) * 10000 + entry_count B,
      B\<lparr>entry_count := entry_count B + 1\<rparr>)"

section \<open>The barrier\<close>

definition MakeBarrierCompletionCallback ::
    "int \<Rightarrow> completion \<Rightarrow> ('en, 'x, 't) backend \<Rightarrow> completion \<times> ('en, 'x, 't) backend" where
  "MakeBarrierCompletionCallback count final_callback B =
     (BarrierCompletionCallback (next_context B) final_callback,
      B\<lparr>contexts := (contexts B)(next_context B :=
            \<lparr>bc_expected = count, bc_count = 0, bc_had_error = False\<rparr>),
        next_context := Suc (next_context B)\<rparr>)"

definition set_context ::
    "nat \<Rightarrow> BarrierContext \<Rightarrow> ('en, 'x, 't) backend \<Rightarrow> ('en, 'x, 't) backend" where
  "set_context a c B = B\<lparr>contexts := (contexts B)(a := c)\<rparr>"

fun run_completion ::
    "completion \<Rightarrow> net_result \<Rightarrow> ('en, 'x, 't) backend \<Rightarrow> ('en, 'x, 't) backend" where
  "run_completion (Client n) result B = notify [RunClient n result] B"
| "run_completion EvictionDoneCallback result B = B\<lparr>b_index := EvictionDone (b_index B)\<rparr>"
| "run_completion (BarrierCompletionCallback a final_callback) result B =
     (let context = contexts B a
      in if bc_had_error context then B
         else if result \<noteq> net_OK
         then run_completion final_callback result (set_context a (context\<lparr>bc_had_error := True\<rparr>) B)
         else
           (let context = context\<lparr>bc_count := bc_count context + 1\<rparr>;
                B = set_context a context B
            in if bc_count context = bc_expected context then run_completion final_callback net_OK B
               else B))"

section \<open>Dooming many entries\<close>

definition in_use :: "('en, 't) waiter_ops \<Rightarrow> ('en, 'x, 't) backend \<Rightarrow> u64 \<Rightarrow> bool" where
  "in_use W B h \<longleftrightarrow>
     active_entries B h \<noteq> None \<or> wFind W h (post_doom_waiting B) \<noteq> None"

text \<open>
  The loop that walks the vector backwards, moves the hashes in use to the second vector and puts the
  last hash in their place.
\<close>

fun partition_hashes ::
    "('en, 't) waiter_ops \<Rightarrow> ('en, 'x, 't) backend \<Rightarrow> nat \<Rightarrow> u64 list \<Rightarrow> u64 list \<Rightarrow> u64 list \<times> u64 list" where
  "partition_hashes W B 0 mass individually = (mass, individually)"
| "partition_hashes W B (Suc i) mass individually =
     (let h = mass ! i
      in if \<not> in_use W B h then partition_hashes W B i mass individually
         else partition_hashes W B i (butlast (mass[i := last mass])) (individually @ [h]))"

definition OnDoomStart ::
    "('en, 't) waiter_ops \<Rightarrow> u64 \<Rightarrow> ('en, 'x, 't) backend \<Rightarrow> ('en, 'x, 't) backend" where
  "OnDoomStart W h B = B\<lparr>post_doom_waiting := wStart W h (post_doom_waiting B)\<rparr>"

fun start_mass_doom ::
    "('en, 't) waiter_ops \<Rightarrow> u64 list \<Rightarrow> ('en, 'x, 't) backend \<Rightarrow> ('en, 'x, 't) backend" where
  "start_mass_doom W [] B = B"
| "start_mass_doom W (h # hs) B =
     start_mass_doom W hs (OnDoomStart W h (B\<lparr>b_index := Remove h (b_index B)\<rparr>))"

lemma partition_hashes_none_in_use:
  "(\<And>h. h \<in> set mass \<Longrightarrow> \<not> in_use W B h) \<Longrightarrow> i \<le> length mass \<Longrightarrow>
     partition_hashes W B i mass ind = (mass, ind)"
  by (induction i) (auto simp: Let_def)

text \<open>
  \<open>DoomEntries\<close> dooms the entries in use one by one; \<open>DoomEntryFromHash\<close> comes back to it for an
  entry that is not in use, and then nothing is left to doom one by one.
\<close>

function (sequential) DoomEntries ::
      "('en, ('en, 'x, 't) backend) entry_ops \<Rightarrow> ('en, 't) waiter_ops \<Rightarrow> u64 list \<Rightarrow> completion
         \<Rightarrow> ('en, 'x, 't) backend \<Rightarrow> ('en, 'x, 't) backend"
  and doom_individually ::
      "('en, ('en, 'x, 't) backend) entry_ops \<Rightarrow> ('en, 't) waiter_ops \<Rightarrow> u64 list \<Rightarrow> completion
         \<Rightarrow> ('en, 'x, 't) backend \<Rightarrow> ('en, 'x, 't) backend"
  and DoomEntryFromHash ::
      "('en, ('en, 'x, 't) backend) entry_ops \<Rightarrow> ('en, 't) waiter_ops \<Rightarrow> u64 \<Rightarrow> completion
         \<Rightarrow> ('en, 'x, 't) backend \<Rightarrow> net_result \<times> ('en, 'x, 't) backend" where
  "DoomEntries N W entry_hashes callback B =
     (case partition_hashes W B (length entry_hashes) entry_hashes [] of
        (mass, individually) \<Rightarrow>
          (case MakeBarrierCompletionCallback (int (length individually) + 1) callback B of
             (barrier_callback, B) \<Rightarrow>
               notify [PostDeleteEntrySetFiles mass barrier_callback]
                 (start_mass_doom W mass (doom_individually N W individually barrier_callback B))))"
| "doom_individually N W [] barrier_callback B = B"
| "doom_individually N W (h # hs) barrier_callback B =
     (case DoomEntryFromHash N W h barrier_callback B of
        (_, B) \<Rightarrow> doom_individually N W hs barrier_callback (B\<lparr>b_index := Remove h (b_index B)\<rparr>))"
| "DoomEntryFromHash N W h callback B =
     (if wFind W h (post_doom_waiting B) \<noteq> None
      then (Err ERR_IO_PENDING,
            B\<lparr>post_doom_waiting :=
               wPush W h (RunOperationAndCallback (DoomEntryFromHashOp h) callback)
                 (post_doom_waiting B)\<rparr>)
      else
        (case active_entries B h of
           Some active \<Rightarrow> eDoomEntry N active callback B
         | None \<Rightarrow> (Err ERR_IO_PENDING, DoomEntries N W [h] callback B)))"
  by pat_completeness auto

termination
proof (relation "measure (case_sum
    (\<lambda>(N, W, hs, cb, B). case snd (partition_hashes W B (length hs) hs []) of
        [] \<Rightarrow> 1 | ind \<Rightarrow> 4 + length ind)
    (case_sum (\<lambda>(N, W, hs, cb, B). if hs = [] then 0 else 3 + length hs) (\<lambda>_. 2)))", goal_cases)
  case (2 N W hs cb B x y c d)
  from 2(1) have "snd (partition_hashes W B (length hs) hs []) = y" by (metis snd_conv)
  then show ?case by (auto split: list.split)
qed (auto simp: partition_hashes_none_in_use in_use_def)

section \<open>Finding an entry\<close>

datatype PostOperationQueue = kPostDoom | kPostOpenByHash

text \<open>The entry, or the table whose vector for the hash the caller appends its retry to.\<close>

datatype 'en found = Found 'en | WaitFor PostOperationQueue

definition push_post_operation ::
    "('en, 't) waiter_ops \<Rightarrow> PostOperationQueue \<Rightarrow> u64 \<Rightarrow> 'en closure \<Rightarrow> ('en, 'x, 't) backend
       \<Rightarrow> ('en, 'x, 't) backend" where
  "push_post_operation W queue h c B =
     (case queue of
        kPostDoom \<Rightarrow> B\<lparr>post_doom_waiting := wPush W h c (post_doom_waiting B)\<rparr>
      | kPostOpenByHash \<Rightarrow> B\<lparr>post_open_by_hash_waiting := wPush W h c (post_open_by_hash_waiting B)\<rparr>)"

definition new_entry ::
    "('en, ('en, 'x, 't) backend) entry_ops \<Rightarrow> backend_sys \<Rightarrow> u64 \<Rightarrow> u32
       \<Rightarrow> ('en, 'x, 't) backend \<Rightarrow> 'en \<times> ('en, 'x, 't) backend" where
  "new_entry N Y h request_priority B =
     (case GetNewEntryPriority Y request_priority B of
        (priority, B) \<Rightarrow> eNew N h (entry_operations_mode B) priority B)"

text \<open>\<open>None\<close> where a \<open>CHECK\<close> fails, or if the collisions never end.\<close>

partial_function (option) CreateOrFindActiveOrDoomedEntry ::
    "('en, ('en, 'x, 't) backend) entry_ops \<Rightarrow> ('en, 't) waiter_ops \<Rightarrow> backend_sys \<Rightarrow> u64 \<Rightarrow> bytes \<Rightarrow> u32
       \<Rightarrow> ('en, 'x, 't) backend \<Rightarrow> ('en found \<times> ('en, 'x, 't) backend) option" where
  "CreateOrFindActiveOrDoomedEntry N W Y h key request_priority B =
     (if wFind W h (post_doom_waiting B) \<noteq> None then Some (WaitFor kPostDoom, B)
      else
        (let (active, B) =
               (case active_entries B h of
                  Some active \<Rightarrow> (active, B)
                | None \<Rightarrow>
                    (let (fresh, B) = new_entry N Y h request_priority B;
                         B = B\<lparr>active_entries := (active_entries B)(h \<mapsto> fresh)\<rparr>;
                         B = eSetKey N fresh key B;
                         B = eSetActiveEntryProxy N fresh h B
                     in (fresh, B)))
         in if eKey N active B \<noteq> Some key
            then
              (if eKey N active B \<noteq> None
               then CreateOrFindActiveOrDoomedEntry N W Y h key request_priority (eDoom N active B)
               else if wFind W h (post_open_by_hash_waiting B) = None then None
               else Some (WaitFor kPostOpenByHash, B))
            else Some (Found active, B)))"

definition MaybeOptimisticCreateForPostDoom ::
    "('en, ('en, 'x, 't) backend) entry_ops \<Rightarrow> ('en, 't) waiter_ops \<Rightarrow> backend_sys \<Rightarrow> u64 \<Rightarrow> bytes \<Rightarrow> u32
       \<Rightarrow> ('en, 'x, 't) backend \<Rightarrow> 'en option \<times> ('en, 'x, 't) backend" where
  "MaybeOptimisticCreateForPostDoom N W Y h key request_priority B =
     (if wFind W h (post_doom_waiting B) = Some [] \<and> entry_operations_mode B = OPTIMISTIC_OPERATIONS
      then
        (let (fresh, B) = new_entry N Y h request_priority B;
             B = eSetKey N fresh key B;
             B = eSetActiveEntryProxy N fresh h B;
             B = eSetCreatePendingDoom N fresh B;
             B = (if active_entries B h = None
                  then B\<lparr>active_entries := (active_entries B)(h \<mapsto> fresh)\<rparr> else B)
         in (Some fresh, push_post_operation W kPostDoom h (NotifyDoomBeforeCreateComplete fresh) B))
      else (None, B))"

section \<open>The operations on one entry\<close>

definition BackendOpenEntry ::
    "('en, ('en, 'x, 't) backend) entry_ops \<Rightarrow> ('en, 't) waiter_ops \<Rightarrow> backend_sys \<Rightarrow> bytes \<Rightarrow> u32
       \<Rightarrow> entry_callback \<Rightarrow> ('en, 'x, 't) backend \<Rightarrow> ('en EntryResult \<times> ('en, 'x, 't) backend) option" where
  "BackendOpenEntry N W Y key request_priority callback B =
     (let h = entry_hasher Y key
      in case CreateOrFindActiveOrDoomedEntry N W Y h key request_priority B of
           None \<Rightarrow> None
         | Some (Found simple_entry, B) \<Rightarrow> Some (eOpenEntry N simple_entry (Opened callback) B)
         | Some (WaitFor queue, B) \<Rightarrow>
             if queue = kPostDoom \<and> wFind W h (post_doom_waiting B) = Some []
                \<and> entry_operations_mode B = OPTIMISTIC_OPERATIONS
             then Some (MakeError (Err ERR_FAILED), B)
             else Some (MakeError (Err ERR_IO_PENDING),
                        push_post_operation W queue h
                          (RunEntryResultOperationAndCallback (OpenEntryOp key request_priority) callback) B))"

definition BackendCreateEntry ::
    "('en, ('en, 'x, 't) backend) entry_ops \<Rightarrow> ('en, 't) waiter_ops \<Rightarrow> backend_sys \<Rightarrow> bytes \<Rightarrow> u32
       \<Rightarrow> entry_callback \<Rightarrow> ('en, 'x, 't) backend \<Rightarrow> ('en EntryResult \<times> ('en, 'x, 't) backend) option" where
  "BackendCreateEntry N W Y key request_priority callback B =
     (let h = entry_hasher Y key
      in case CreateOrFindActiveOrDoomedEntry N W Y h key request_priority B of
           None \<Rightarrow> None
         | Some (Found simple_entry, B) \<Rightarrow> Some (eCreateEntry N simple_entry callback B)
         | Some (WaitFor queue, B) \<Rightarrow>
             (case (if queue = kPostDoom
                    then MaybeOptimisticCreateForPostDoom N W Y h key request_priority B
                    else (None, B)) of
                (Some simple_entry, B) \<Rightarrow> Some (eCreateEntry N simple_entry callback B)
              | (None, B) \<Rightarrow>
                  Some (MakeError (Err ERR_IO_PENDING),
                        push_post_operation W queue h
                          (RunEntryResultOperationAndCallback (CreateEntryOp key request_priority) callback)
                          B)))"

definition BackendOpenOrCreateEntry ::
    "('en, ('en, 'x, 't) backend) entry_ops \<Rightarrow> ('en, 't) waiter_ops \<Rightarrow> backend_sys \<Rightarrow> bytes \<Rightarrow> u32
       \<Rightarrow> entry_callback \<Rightarrow> ('en, 'x, 't) backend \<Rightarrow> ('en EntryResult \<times> ('en, 'x, 't) backend) option" where
  "BackendOpenOrCreateEntry N W Y key request_priority callback B =
     (let h = entry_hasher Y key
      in case CreateOrFindActiveOrDoomedEntry N W Y h key request_priority B of
           None \<Rightarrow> None
         | Some (Found simple_entry, B) \<Rightarrow> Some (eOpenOrCreateEntry N simple_entry callback B)
         | Some (WaitFor queue, B) \<Rightarrow>
             (case (if queue = kPostDoom
                    then MaybeOptimisticCreateForPostDoom N W Y h key request_priority B
                    else (None, B)) of
                (Some simple_entry, B) \<Rightarrow> Some (eCreateEntry N simple_entry callback B)
              | (None, B) \<Rightarrow>
                  Some (MakeError (Err ERR_IO_PENDING),
                        push_post_operation W queue h
                          (RunEntryResultOperationAndCallback (OpenOrCreateEntryOp key request_priority)
                             callback) B)))"

definition BackendDoomEntry ::
    "('en, ('en, 'x, 't) backend) entry_ops \<Rightarrow> ('en, 't) waiter_ops \<Rightarrow> backend_sys \<Rightarrow> bytes \<Rightarrow> u32
       \<Rightarrow> completion \<Rightarrow> ('en, 'x, 't) backend \<Rightarrow> (net_result \<times> ('en, 'x, 't) backend) option" where
  "BackendDoomEntry N W Y key priority callback B =
     (let h = entry_hasher Y key
      in case CreateOrFindActiveOrDoomedEntry N W Y h key priority B of
           None \<Rightarrow> None
         | Some (Found simple_entry, B) \<Rightarrow> Some (eDoomEntry N simple_entry callback B)
         | Some (WaitFor queue, B) \<Rightarrow>
             Some (Err ERR_IO_PENDING,
                   push_post_operation W queue h
                     (RunOperationAndCallback (DoomEntryOp key priority) callback) B))"

text \<open>
  Opening by hash: a new entry has no key yet, and the operations that come while it is opened wait
  in the second table.
\<close>

definition OpenEntryFromHash ::
    "('en, ('en, 'x, 't) backend) entry_ops \<Rightarrow> ('en, 't) waiter_ops \<Rightarrow> backend_sys \<Rightarrow> u64
       \<Rightarrow> entry_callback \<Rightarrow> ('en, 'x, 't) backend \<Rightarrow> 'en EntryResult \<times> ('en, 'x, 't) backend" where
  "OpenEntryFromHash N W Y h callback B =
     (if wFind W h (post_doom_waiting B) \<noteq> None
      then (MakeError (Err ERR_IO_PENDING),
            push_post_operation W kPostDoom h
              (RunEntryResultOperationAndCallback (OpenEntryFromHashOp h) callback) B)
      else
        (case active_entries B h of
           Some active \<Rightarrow> eOpenEntry N active (Opened callback) B
         | None \<Rightarrow>
             (let (simple_entry, B) = new_entry N Y h (HIGHEST Y) B;
                  B = B\<lparr>active_entries := (active_entries B)(h \<mapsto> simple_entry)\<rparr>;
                  B = eSetActiveEntryProxy N simple_entry h B;
                  B = B\<lparr>post_open_by_hash_waiting := wStart W h (post_open_by_hash_waiting B)\<rparr>
              in eOpenEntry N simple_entry (OnEntryOpenedFromHash h callback) B)))"

text \<open>What the destructor of the proxy of an entry does.\<close>

definition ActiveEntryProxy_destroyed :: "u64 \<Rightarrow> ('en, 'x, 't) backend \<Rightarrow> ('en, 'x, 't) backend" where
  "ActiveEntryProxy_destroyed h B =
     (if b_alive B then B\<lparr>active_entries := (active_entries B)(h := None)\<rparr> else B)"

section \<open>The iterator\<close>

definition set_iterator :: "nat \<Rightarrow> u64 list \<Rightarrow> ('en, 'x, 't) backend \<Rightarrow> ('en, 'x, 't) backend" where
  "set_iterator it hs B = B\<lparr>hashes_to_enumerate := (hashes_to_enumerate B)(it \<mapsto> hs)\<rparr>"

definition OpenNextEntry ::
    "nat \<Rightarrow> nat \<Rightarrow> ('en, 'x, 't) backend \<Rightarrow> 'en EntryResult \<times> ('en, 'x, 't) backend" where
  "OpenNextEntry it n B =
     (if \<not> b_alive B then (MakeError (Err ERR_FAILED), B)
      else (MakeError (Err ERR_IO_PENDING), execute_when_ready (OpenNextEntryImplTask it n) B))"

definition run_entry_callback ::
    "entry_callback \<Rightarrow> 'en EntryResult \<Rightarrow> ('en, 'x, 't) backend \<Rightarrow> ('en, 'x, 't) backend" where
  "run_entry_callback callback result B =
     (case callback of
        EntryClient n \<Rightarrow> notify [RunEntryClient n result] B
      | CheckIterationReturnValue it n \<Rightarrow>
          if result = MakeError (Err ERR_FAILED) then snd (OpenNextEntry it n B)
          else notify [RunEntryClient n result] B)"

text \<open>The vector is emptied from its back: the loop takes the hashes in that order.\<close>

fun open_next ::
    "('en, ('en, 'x, 't) backend) entry_ops \<Rightarrow> ('en, 't) waiter_ops \<Rightarrow> backend_sys \<Rightarrow> nat \<Rightarrow> nat
       \<Rightarrow> u64 list \<Rightarrow> ('en, 'x, 't) backend \<Rightarrow> ('en, 'x, 't) backend" where
  "open_next N W Y it n [] B = notify [RunEntryClient n (MakeError (Err ERR_FAILED))] B"
| "open_next N W Y it n (h # hs) B =
     (let B = set_iterator it (rev hs) B
      in if Has h (b_index B)
         then (case OpenEntryFromHash N W Y h (CheckIterationReturnValue it n) B of
                 (open_result, B) \<Rightarrow>
                   if open_result = MakeError (Err ERR_IO_PENDING) then B
                   else if open_result \<noteq> MakeError (Err ERR_FAILED)
                   then notify [RunEntryClient n open_result] B
                   else open_next N W Y it n hs B)
         else open_next N W Y it n hs B)"

definition OpenNextEntryImpl ::
    "('en, ('en, 'x, 't) backend) entry_ops \<Rightarrow> ('en, 't) waiter_ops \<Rightarrow> backend_sys \<Rightarrow> nat \<Rightarrow> nat
       \<Rightarrow> net_result \<Rightarrow> ('en, 'x, 't) backend \<Rightarrow> ('en, 'x, 't) backend" where
  "OpenNextEntryImpl N W Y it n index_initialization_error_code B =
     (if \<not> b_alive B then notify [RunEntryClient n (MakeError (Err ERR_FAILED))] B
      else if index_initialization_error_code \<noteq> net_OK
      then notify [RunEntryClient n (MakeError index_initialization_error_code)] B
      else
        (let B = (if hashes_to_enumerate B it = None
                  then set_iterator it (GetAllHashes (b_index B)) B else B)
         in open_next N W Y it n (rev (the (hashes_to_enumerate B it))) B))"

end
