(* ===== verification/Backend_Tasks.thy ===== *)
theory Backend_Tasks imports Backend begin

text \<open>
  What the backend does when it is called back (simple_backend_impl.cc): the closures that waited, the
  entry opened by hash, the end of a mass doom, the tasks of the index once it is ready, and the
  initialization of the directory on the sequence of the index file.
\<close>

section \<open>Waiting operations\<close>

text \<open>
  The operation runs first; its callback runs at once if the result is there. Nothing happens when
  the backend is gone, except to an entry that waits itself. \<open>None\<close> where the operation has no result.
\<close>

definition run_entry_operation ::
    "('en, ('en, 'x, 't) backend) entry_ops \<Rightarrow> ('en, 't) waiter_ops \<Rightarrow> backend_sys \<Rightarrow> entry_operation
       \<Rightarrow> entry_callback \<Rightarrow> ('en, 'x, 't) backend \<Rightarrow> ('en EntryResult \<times> ('en, 'x, 't) backend) option" where
  "run_entry_operation N W Y operation callback B =
     (case operation of
        OpenEntryOp key priority \<Rightarrow> BackendOpenEntry N W Y key priority callback B
      | CreateEntryOp key priority \<Rightarrow> BackendCreateEntry N W Y key priority callback B
      | OpenOrCreateEntryOp key priority \<Rightarrow> BackendOpenOrCreateEntry N W Y key priority callback B
      | OpenEntryFromHashOp h \<Rightarrow> Some (OpenEntryFromHash N W Y h callback B))"

definition run_doom_operation ::
    "('en, ('en, 'x, 't) backend) entry_ops \<Rightarrow> ('en, 't) waiter_ops \<Rightarrow> backend_sys \<Rightarrow> doom_operation
       \<Rightarrow> completion \<Rightarrow> ('en, 'x, 't) backend \<Rightarrow> (net_result \<times> ('en, 'x, 't) backend) option" where
  "run_doom_operation N W Y operation callback B =
     (case operation of
        DoomEntryOp key priority \<Rightarrow> BackendDoomEntry N W Y key priority callback B
      | DoomEntryFromHashOp h \<Rightarrow> Some (DoomEntryFromHash N W h callback B))"

definition run_closure ::
    "('en, ('en, 'x, 't) backend) entry_ops \<Rightarrow> ('en, 't) waiter_ops \<Rightarrow> backend_sys \<Rightarrow> 'en closure
       \<Rightarrow> ('en, 'x, 't) backend \<Rightarrow> ('en, 'x, 't) backend option" where
  "run_closure N W Y closure B =
     (case closure of
        RunEntryResultOperationAndCallback operation operation_callback \<Rightarrow>
          if \<not> b_alive B then Some B
          else
            (case run_entry_operation N W Y operation operation_callback B of
               None \<Rightarrow> None
             | Some (operation_result, B) \<Rightarrow>
                 Some (if operation_result \<noteq> MakeError (Err ERR_IO_PENDING)
                       then run_entry_callback operation_callback operation_result B else B))
      | RunOperationAndCallback operation operation_callback \<Rightarrow>
          if \<not> b_alive B then Some B
          else
            (case run_doom_operation N W Y operation operation_callback B of
               None \<Rightarrow> None
             | Some (operation_result, B) \<Rightarrow>
                 Some (if operation_result \<noteq> Err ERR_IO_PENDING
                       then run_completion operation_callback operation_result B else B))
      | NotifyDoomBeforeCreateComplete simple_entry \<Rightarrow>
          Some (eNotifyDoomBeforeCreateComplete N simple_entry B))"

fun run_closures ::
    "('en, ('en, 'x, 't) backend) entry_ops \<Rightarrow> ('en, 't) waiter_ops \<Rightarrow> backend_sys \<Rightarrow> 'en closure list
       \<Rightarrow> ('en, 'x, 't) backend \<Rightarrow> ('en, 'x, 't) backend option" where
  "run_closures N W Y [] B = Some B"
| "run_closures N W Y (c # cs) B =
     (case run_closure N W Y c B of None \<Rightarrow> None | Some B \<Rightarrow> run_closures N W Y cs B)"

definition OnEntryOpenedFromHash_run ::
    "('en, ('en, 'x, 't) backend) entry_ops \<Rightarrow> ('en, 't) waiter_ops \<Rightarrow> backend_sys \<Rightarrow> u64
       \<Rightarrow> entry_callback \<Rightarrow> 'en EntryResult \<Rightarrow> ('en, 'x, 't) backend \<Rightarrow> ('en, 'x, 't) backend option" where
  "OnEntryOpenedFromHash_run N W Y h callback result B =
     (case wComplete W h (post_open_by_hash_waiting B) of
        (waiting, tab) \<Rightarrow>
          map_option (run_entry_callback callback result)
            (run_closures N W Y waiting (B\<lparr>post_open_by_hash_waiting := tab\<rparr>)))"

definition run_opened_callback ::
    "('en, ('en, 'x, 't) backend) entry_ops \<Rightarrow> ('en, 't) waiter_ops \<Rightarrow> backend_sys \<Rightarrow> opened_callback
       \<Rightarrow> 'en EntryResult \<Rightarrow> ('en, 'x, 't) backend \<Rightarrow> ('en, 'x, 't) backend option" where
  "run_opened_callback N W Y callback result B =
     (case callback of
        Opened cb \<Rightarrow> Some (run_entry_callback cb result B)
      | OnEntryOpenedFromHash h cb \<Rightarrow>
          if \<not> b_alive B then Some B else OnEntryOpenedFromHash_run N W Y h cb result B)"

text \<open>The end of a doom of one hash: what waited for it runs, in the order it came.\<close>

definition OnOperationComplete_doom ::
    "('en, ('en, 'x, 't) backend) entry_ops \<Rightarrow> ('en, 't) waiter_ops \<Rightarrow> backend_sys \<Rightarrow> u64
       \<Rightarrow> ('en, 'x, 't) backend \<Rightarrow> ('en, 'x, 't) backend option" where
  "OnOperationComplete_doom N W Y h B =
     (case wComplete W h (post_doom_waiting B) of
        (waiting, tab) \<Rightarrow> run_closures N W Y waiting (B\<lparr>post_doom_waiting := tab\<rparr>))"

fun complete_each_doom ::
    "('en, ('en, 'x, 't) backend) entry_ops \<Rightarrow> ('en, 't) waiter_ops \<Rightarrow> backend_sys \<Rightarrow> u64 list
       \<Rightarrow> ('en, 'x, 't) backend \<Rightarrow> ('en, 'x, 't) backend option" where
  "complete_each_doom N W Y [] B = Some B"
| "complete_each_doom N W Y (h # hs) B =
     (case OnOperationComplete_doom N W Y h B of None \<Rightarrow> None | Some B \<Rightarrow> complete_each_doom N W Y hs B)"

definition DoomEntriesComplete ::
    "('en, ('en, 'x, 't) backend) entry_ops \<Rightarrow> ('en, 't) waiter_ops \<Rightarrow> backend_sys \<Rightarrow> u64 list
       \<Rightarrow> completion \<Rightarrow> net_result \<Rightarrow> ('en, 'x, 't) backend \<Rightarrow> ('en, 'x, 't) backend option" where
  "DoomEntriesComplete N W Y entry_hashes callback result B =
     map_option (run_completion callback result) (complete_each_doom N W Y entry_hashes B)"

text \<open>The task posted by \<open>DoomEntries\<close> and its reply, which is bound to the backend being alive.\<close>

definition run_DeleteEntrySetFiles ::
    "('w, 'h, 'e) env \<Rightarrow> ('en, ('en, 'x, 't) backend) entry_ops \<Rightarrow> ('en, 't) waiter_ops \<Rightarrow> backend_sys
       \<Rightarrow> u64 list \<Rightarrow> completion \<Rightarrow> ('en, 'x, 't) backend \<times> 'w \<Rightarrow> (('en, 'x, 't) backend \<times> 'w) option" where
  "run_DeleteEntrySetFiles F N W Y entry_hashes barrier_callback st =
     (case st of
        (B, w) \<Rightarrow>
          (case DeleteEntrySetFiles F entry_hashes (b_path B) w of
             (result, w) \<Rightarrow>
               if \<not> b_alive B then Some (B, w)
               else map_option (\<lambda>B. (B, w))
                      (DoomEntriesComplete N W Y entry_hashes barrier_callback result B)))"

section \<open>Dooming by time, and sizes\<close>

definition DoomEntriesBetween ::
    "time \<Rightarrow> time \<Rightarrow> completion \<Rightarrow> ('en, 'x, 't) backend \<Rightarrow> net_result \<times> ('en, 'x, 't) backend" where
  "DoomEntriesBetween initial_time end_time callback B =
     (Err ERR_IO_PENDING, execute_when_ready (IndexReadyForDoomTask initial_time end_time callback) B)"

definition DoomAllEntries ::
    "completion \<Rightarrow> ('en, 'x, 't) backend \<Rightarrow> net_result \<times> ('en, 'x, 't) backend" where
  "DoomAllEntries callback B = DoomEntriesBetween 0 0 callback B"

definition DoomEntriesSince ::
    "time \<Rightarrow> completion \<Rightarrow> ('en, 'x, 't) backend \<Rightarrow> net_result \<times> ('en, 'x, 't) backend" where
  "DoomEntriesSince initial_time callback B = DoomEntriesBetween initial_time 0 callback B"

definition CalculateSizeOfAllEntries ::
    "nat \<Rightarrow> ('en, 'x, 't) backend \<Rightarrow> net_result \<times> ('en, 'x, 't) backend" where
  "CalculateSizeOfAllEntries n B =
     (Err ERR_IO_PENDING, execute_when_ready (IndexReadyForSizeCalculationTask n) B)"

definition CalculateSizeOfEntriesBetween ::
    "time \<Rightarrow> time \<Rightarrow> nat \<Rightarrow> ('en, 'x, 't) backend \<Rightarrow> net_result \<times> ('en, 'x, 't) backend" where
  "CalculateSizeOfEntriesBetween initial_time end_time n B =
     (Err ERR_IO_PENDING,
      execute_when_ready (IndexReadyForSizeBetweenCalculationTask initial_time end_time n) B)"

definition IndexReadyForDoom ::
    "('en, ('en, 'x, 't) backend) entry_ops \<Rightarrow> ('en, 't) waiter_ops \<Rightarrow> time \<Rightarrow> time \<Rightarrow> completion
       \<Rightarrow> net_result \<Rightarrow> ('en, 'x, 't) backend \<Rightarrow> ('en, 'x, 't) backend" where
  "IndexReadyForDoom N W initial_time end_time callback result B =
     (if result \<noteq> net_OK then run_completion callback result B
      else DoomEntries N W (GetEntriesBetween initial_time end_time (b_index B)) callback B)"

definition size_result :: "net_result \<Rightarrow> u64 \<Rightarrow> net_result + int" where
  "size_result result sz = (if result = net_OK then Inr (wrap64 (uint sz)) else Inl result)"

definition IndexReadyForSizeCalculation ::
    "nat \<Rightarrow> net_result \<Rightarrow> ('en, 'x, 't) backend \<Rightarrow> ('en, 'x, 't) backend" where
  "IndexReadyForSizeCalculation n result B =
     notify [RunSizeClient n (size_result result (GetCacheSize (b_index B)))] B"

definition IndexReadyForSizeBetweenCalculation ::
    "time \<Rightarrow> time \<Rightarrow> nat \<Rightarrow> net_result \<Rightarrow> ('en, 'x, 't) backend \<Rightarrow> ('en, 'x, 't) backend" where
  "IndexReadyForSizeBetweenCalculation initial_time end_time n result B =
     notify [RunSizeClient n (size_result result (GetCacheSizeBetween initial_time end_time (b_index B)))] B"

text \<open>A task the index was given. The four that are bound to the backend do nothing without it.\<close>

definition run_index_task ::
    "('en, ('en, 'x, 't) backend) entry_ops \<Rightarrow> ('en, 't) waiter_ops \<Rightarrow> backend_sys \<Rightarrow> index_task
       \<Rightarrow> net_result \<Rightarrow> ('en, 'x, 't) backend \<Rightarrow> ('en, 'x, 't) backend" where
  "run_index_task N W Y task result B =
     (case task of
        RecordIndexLoad \<Rightarrow> B
      | IndexReadyForDoomTask initial_time end_time callback \<Rightarrow>
          if b_alive B then IndexReadyForDoom N W initial_time end_time callback result B else B
      | IndexReadyForSizeCalculationTask n \<Rightarrow>
          if b_alive B then IndexReadyForSizeCalculation n result B else B
      | IndexReadyForSizeBetweenCalculationTask initial_time end_time n \<Rightarrow>
          if b_alive B then IndexReadyForSizeBetweenCalculation initial_time end_time n result B else B
      | OpenNextEntryImplTask it n \<Rightarrow> OpenNextEntryImpl N W Y it n result B)"

section \<open>Initialization\<close>

text \<open>The version upgrade and the cache utilities are not part of the sources.\<close>

record ('w, 'c) upgrade_env =
  UpgradeSimpleCacheOnDisk :: "path \<Rightarrow> 'w \<Rightarrow> 'c \<times> 'w"
  IsOK :: "'c \<Rightarrow> bool"
  kCreateDirectoryFailed :: 'c
  DeleteIndexFilesIfCacheIsEmpty :: "path \<Rightarrow> 'w \<Rightarrow> bool \<times> 'w"
  IsDirectoryEmpty :: "path \<Rightarrow> 'w \<Rightarrow> bool \<times> 'w"
  PreferredCacheSizeForPath :: "path \<Rightarrow> CacheType \<Rightarrow> 'w \<Rightarrow> u64 \<times> 'w"

record DiskStatResult =
  cache_dir_mtime :: time
  ds_max_size :: u64
  ds_net_error :: net_result

definition FileStructureConsistent ::
    "('w, 'h, 'e) env \<Rightarrow> ('w, 'c) upgrade_env \<Rightarrow> path \<Rightarrow> 'w \<Rightarrow> 'c \<times> 'w" where
  "FileStructureConsistent F U path w =
     (case PathExists F path w of
        (exists, w) \<Rightarrow>
          if exists then UpgradeSimpleCacheOnDisk U path w
          else (case CreateDirectory F path w of
                  (created, w) \<Rightarrow>
                    if created then UpgradeSimpleCacheOnDisk U path w
                    else (kCreateDirectoryFailed U, w)))"

definition retry_consistency ::
    "('w, 'h, 'e) env \<Rightarrow> ('w, 'c) upgrade_env \<Rightarrow> path \<Rightarrow> 'c \<Rightarrow> 'w \<Rightarrow> 'c \<times> 'w" where
  "retry_consistency F U path consistency w =
     (if IsOK U consistency then (consistency, w)
      else
        (case DeleteIndexFilesIfCacheIsEmpty U path w of
           (_, w) \<Rightarrow>
             (case IsDirectoryEmpty U path w of
                (is_empty, w) \<Rightarrow>
                  if is_empty then FileStructureConsistent F U path w else (consistency, w))))"

definition InitCacheStructureOnDisk ::
    "('w, 'h, 'e) env \<Rightarrow> ('w, 'c) upgrade_env \<Rightarrow> path \<Rightarrow> u64 \<Rightarrow> CacheType \<Rightarrow> 'w \<Rightarrow> DiskStatResult \<times> 'w" where
  "InitCacheStructureOnDisk F U path suggested_max_size ct w =
     (let result = \<lparr>cache_dir_mtime = 0, ds_max_size = suggested_max_size, ds_net_error = net_OK\<rparr>;
          (consistency, w) = FileStructureConsistent F U path w;
          (consistency, w) = retry_consistency F U path consistency w
      in if \<not> IsOK U consistency then (result\<lparr>ds_net_error := Err ERR_FAILED\<rparr>, w)
         else
           (case GetFileInfo F path w of
              (None, w) \<Rightarrow> (result\<lparr>ds_net_error := Err ERR_FAILED\<rparr>, w)
            | (Some info, w) \<Rightarrow>
                (let result = result\<lparr>cache_dir_mtime := fi_last_modified info\<rparr>
                 in if ds_max_size result = 0
                    then (case PreferredCacheSizeForPath U path ct w of
                            (sz, w) \<Rightarrow> (result\<lparr>ds_max_size := sz\<rparr>, w))
                    else (result, w))))"

definition InitializeIndex ::
    "time \<Rightarrow> completion \<Rightarrow> DiskStatResult \<Rightarrow> ('en, 'x, 't) backend \<Rightarrow> ('en, 'x, 't) backend" where
  "InitializeIndex now callback result B =
     (let B = (if ds_net_error result = net_OK
               then B\<lparr>b_index := Initialize (cache_dir_mtime result)
                        (SetMaxSize now (ds_max_size result) (b_index B))\<rparr>
               else B)
      in run_completion callback (ds_net_error result) B)"

end
