(* ===== verification/Backend_Laws.thy ===== *)
theory Backend_Laws imports Backend_Correct begin

text \<open>
  The documented behaviour of the table of waiting operations and of entries, as two locales, and what
  the backend makes of it: an entry is found under its own key or the operation waits, nothing overtakes
  a doom, and a mass doom leaves every hash without an index record and pending.
\<close>

section \<open>The table of waiting operations\<close>

locale waiter_table =
  fixes W :: "('en, 't) waiter_ops"
  assumes find_start: "wFind W h t = None \<Longrightarrow>
      wFind W k (wStart W h t) = (if k = h then Some [] else wFind W k t)"
    and find_push: "wFind W h t = Some cs \<Longrightarrow>
      wFind W k (wPush W h c t) = (if k = h then Some (cs @ [c]) else wFind W k t)"
    and complete: "wFind W h t = Some cs \<Longrightarrow> wComplete W h t = (cs', t') \<Longrightarrow>
      cs' = cs \<and> wFind W k t' = (if k = h then None else wFind W k t)"

text \<open>A map from hashes to vectors of closures has these laws.\<close>

definition map_waiters :: "('en, u64 \<Rightarrow> 'en closure list option) waiter_ops" where
  "map_waiters =
     \<lparr>wFind = (\<lambda>h t. t h), wPush = (\<lambda>h c t. t(h := map_option (\<lambda>cs. cs @ [c]) (t h))),
      wStart = (\<lambda>h t. t(h \<mapsto> [])),
      wComplete = (\<lambda>h t. (case t h of None \<Rightarrow> [] | Some cs \<Rightarrow> cs, t(h := None)))\<rparr>"

interpretation map_waiters: waiter_table map_waiters
  by unfold_locales (auto simp: map_waiters_def)

section \<open>Entries\<close>

text \<open>
  What the backend relies on: the operations on the key and the proxy change the entry only; dooming
  an entry in use takes it out of the entries in use, starts the wait for its doom, and touches neither
  other hashes nor the barriers; the index loses at most the hash of the entry.
\<close>

definition only_world :: "('en, 'x, 't) backend \<Rightarrow> ('en, 'x, 't) backend \<Rightarrow> bool" where
  "only_world B B' \<longleftrightarrow> (\<exists>x. B' = B\<lparr>entry_world := x\<rparr>)"

definition doom_frame ::
    "('en, 't) waiter_ops \<Rightarrow> u64 \<Rightarrow> ('en, 'x, 't) backend \<Rightarrow> ('en, 'x, 't) backend \<Rightarrow> bool" where
  "doom_frame W h B B' \<longleftrightarrow>
     active_entries B' = (active_entries B)(h := None)
     \<and> wFind W h (post_doom_waiting B') \<noteq> None
     \<and> (\<forall>k. k \<noteq> h \<longrightarrow> wFind W k (post_doom_waiting B') = wFind W k (post_doom_waiting B))
     \<and> (b_index B' = b_index B \<or> b_index B' = Remove h (b_index B))
     \<and> contexts B' = contexts B \<and> next_context B' = next_context B \<and> b_log B' = b_log B"

locale entry_interface = waiter_table W
  for W :: "('en, 't) waiter_ops" +
  fixes N :: "('en, ('en, 'x, 't) backend) entry_ops"
    and hash_of :: "'en \<Rightarrow> u64"
  assumes key_world: "entry_world B = entry_world B' \<Longrightarrow> eKey N en B = eKey N en B'"
    and new_law: "eNew N h m p B = (en, B') \<Longrightarrow> hash_of en = h \<and> only_world B B'"
    and set_key_law: "only_world B (eSetKey N en k B) \<and> eKey N en (eSetKey N en k B) = Some k"
    and proxy_law: "only_world B (eSetActiveEntryProxy N en h B)
      \<and> eKey N e (eSetActiveEntryProxy N en h B) = eKey N e B"
    and pending_law: "only_world B (eSetCreatePendingDoom N en B)
      \<and> eKey N e (eSetCreatePendingDoom N en B) = eKey N e B"
    and doom_law: "active_entries B (hash_of en) = Some en \<Longrightarrow>
      wFind W (hash_of en) (post_doom_waiting B) = None \<Longrightarrow> doom_frame W (hash_of en) B (eDoom N en B)"
    and doom_entry_law: "active_entries B (hash_of en) = Some en \<Longrightarrow>
      wFind W (hash_of en) (post_doom_waiting B) = None \<Longrightarrow> eDoomEntry N en cb B = (r, B') \<Longrightarrow>
      r = Err ERR_IO_PENDING \<and> doom_frame W (hash_of en) B B'"

text \<open>Entries that remember their key and the operations they were given.\<close>

record entry_store =
  es_keys :: "u64 \<times> nat \<Rightarrow> bytes option"
  es_next :: nat
  es_opened :: "((u64 \<times> nat) \<times> opened_callback) list"
  es_created :: "((u64 \<times> nat) \<times> entry_callback) list"
  es_doomed :: "((u64 \<times> nat) \<times> completion) list"

type_synonym store_backend =
  "(u64 \<times> nat, entry_store, u64 \<Rightarrow> (u64 \<times> nat) closure list option) backend"

definition update_store :: "(entry_store \<Rightarrow> entry_store) \<Rightarrow> store_backend \<Rightarrow> store_backend" where
  "update_store f B = B\<lparr>entry_world := f (entry_world B)\<rparr>"

definition store_doom :: "u64 \<times> nat \<Rightarrow> store_backend \<Rightarrow> store_backend" where
  "store_doom en B =
     (let h = fst en
      in B\<lparr>active_entries := (active_entries B)(h := None),
           post_doom_waiting := (post_doom_waiting B)(h \<mapsto> []), b_index := Remove h (b_index B)\<rparr>)"

definition stored_entries :: "(u64 \<times> nat, store_backend) entry_ops" where
  "stored_entries =
     \<lparr>eNew = (\<lambda>h m p B. ((h, es_next (entry_world B)),
         update_store (\<lambda>s. s\<lparr>es_next := Suc (es_next s),
           es_keys := (es_keys s)((h, es_next s) := None)\<rparr>) B)),
      eKey = (\<lambda>en B. es_keys (entry_world B) en),
      eSetKey = (\<lambda>en k. update_store (\<lambda>s. s\<lparr>es_keys := (es_keys s)(en \<mapsto> k)\<rparr>)),
      eSetActiveEntryProxy = (\<lambda>en h B. B),
      eSetCreatePendingDoom = (\<lambda>en B. B),
      eNotifyDoomBeforeCreateComplete = (\<lambda>en B. B),
      eOpenEntry = (\<lambda>en cb B. (MakeError (Err ERR_IO_PENDING),
         update_store (\<lambda>s. s\<lparr>es_opened := es_opened s @ [(en, cb)]\<rparr>) B)),
      eCreateEntry = (\<lambda>en cb B. (MakeError (Err ERR_IO_PENDING),
         update_store (\<lambda>s. s\<lparr>es_created := es_created s @ [(en, cb)]\<rparr>) B)),
      eOpenOrCreateEntry = (\<lambda>en cb B. (MakeError (Err ERR_IO_PENDING),
         update_store (\<lambda>s. s\<lparr>es_created := es_created s @ [(en, cb)]\<rparr>) B)),
      eDoom = store_doom,
      eDoomEntry = (\<lambda>en cb B. (Err ERR_IO_PENDING,
         store_doom en (update_store (\<lambda>s. s\<lparr>es_doomed := es_doomed s @ [(en, cb)]\<rparr>) B)))\<rparr>"

lemma only_world_refl [simp]: "only_world B B"
  unfolding only_world_def by (rule exI [of _ "entry_world B"]) simp

lemma only_world_update [simp]: "only_world B (update_store f B)"
  by (auto simp: only_world_def update_store_def)

interpretation stored: entry_interface map_waiters stored_entries fst
proof (unfold_locales, goal_cases)
  case (6 B en)
  then show ?case by (auto simp: stored_entries_def store_doom_def doom_frame_def map_waiters_def Let_def)
next
  case (7 B en cb r B')
  then show ?case
    by (auto simp: stored_entries_def store_doom_def doom_frame_def map_waiters_def Let_def update_store_def)
qed (auto simp: stored_entries_def, simp add: update_store_def)

section \<open>Entries in use\<close>

text \<open>
  The entries in use are found under their own hash; one without a key is being opened by hash, and
  the second table has its vector.
\<close>

definition active_ok ::
    "('en, 't) waiter_ops \<Rightarrow> ('en, ('en, 'x, 't) backend) entry_ops \<Rightarrow> ('en \<Rightarrow> u64)
       \<Rightarrow> ('en, 'x, 't) backend \<Rightarrow> bool" where
  "active_ok W N hash_of B \<longleftrightarrow>
     (\<forall>h en. active_entries B h = Some en \<longrightarrow>
        hash_of en = h \<and> (eKey N en B = None \<longrightarrow> wFind W h (post_open_by_hash_waiting B) \<noteq> None))"

context entry_interface begin

lemma only_world_fields:
  assumes "only_world B B'"
  shows "active_entries B' = active_entries B" "post_doom_waiting B' = post_doom_waiting B"
    "post_open_by_hash_waiting B' = post_open_by_hash_waiting B" "b_index B' = b_index B"
    "b_log B' = b_log B" "entry_operations_mode B' = entry_operations_mode B"
  using assms by (auto simp: only_world_def)

lemma new_entry_law:
  assumes "new_entry N Y h prio B = (en, B')"
  shows "hash_of en = h" "active_entries B' = active_entries B" "post_doom_waiting B' = post_doom_waiting B"
    "post_open_by_hash_waiting B' = post_open_by_hash_waiting B"
    "entry_operations_mode B' = entry_operations_mode B"
proof -
  from assms obtain p where "eNew N h (entry_operations_mode B) p (B\<lparr>entry_count := entry_count B + 1\<rparr>) = (en, B')"
    by (auto simp: new_entry_def GetNewEntryPriority_def)
  note l = new_law [OF this]
  from l only_world_fields [OF conjunct2 [OF l]] show "hash_of en = h" "active_entries B' = active_entries B"
    "post_doom_waiting B' = post_doom_waiting B" "post_open_by_hash_waiting B' = post_open_by_hash_waiting B"
    "entry_operations_mode B' = entry_operations_mode B" by simp_all
qed

text \<open>Whether the entry was there or is new, up to the comparison of the keys.\<close>

lemma CreateOrFind_new:
  assumes "active_entries B h = None" and "wFind W h (post_doom_waiting B) = None"
  shows "\<exists>en B'. CreateOrFindActiveOrDoomedEntry N W Y h key prio B = Some (Found en, B')
    \<and> active_entries B' = (active_entries B)(h \<mapsto> en) \<and> eKey N en B' = Some key \<and> hash_of en = h
    \<and> post_doom_waiting B' = post_doom_waiting B"
proof -
  obtain en B1 where n: "new_entry N Y h prio B = (en, B1)" by force
  note l = new_entry_law [OF n]
  let ?B2 = "B1\<lparr>active_entries := (active_entries B1)(h \<mapsto> en)\<rparr>"
  let ?B3 = "eSetKey N en key ?B2"
  let ?B4 = "eSetActiveEntryProxy N en h ?B3"
  note f = only_world_fields [OF conjunct1 [OF set_key_law [of ?B2 en key]]]
    only_world_fields [OF conjunct1 [OF proxy_law [of ?B3 en h en]]]
  have key: "eKey N en ?B4 = Some key" using set_key_law proxy_law by simp
  have "CreateOrFindActiveOrDoomedEntry N W Y h key prio B = Some (Found en, ?B4)"
    by (subst CreateOrFindActiveOrDoomedEntry.simps) (simp add: assms n key)
  then show ?thesis using key l f by simp
qed

lemma CreateOrFind_pending:
  "wFind W h (post_doom_waiting B) \<noteq> None \<Longrightarrow>
     CreateOrFindActiveOrDoomedEntry N W Y h key prio B = Some (WaitFor kPostDoom, B)"
  by (subst CreateOrFindActiveOrDoomedEntry.simps) simp

lemma CreateOrFind_cases:
  assumes ok: "active_ok W N hash_of B"
  shows "\<exists>f B'. CreateOrFindActiveOrDoomedEntry N W Y h key prio B = Some (f, B')
    \<and> (case f of
         Found en \<Rightarrow> active_entries B' h = Some en \<and> eKey N en B' = Some key
           \<and> wFind W h (post_doom_waiting B') = None
       | WaitFor kPostDoom \<Rightarrow> wFind W h (post_doom_waiting B') \<noteq> None
       | WaitFor kPostOpenByHash \<Rightarrow> B' = B \<and> wFind W h (post_open_by_hash_waiting B') \<noteq> None
           \<and> (\<exists>en. active_entries B h = Some en \<and> eKey N en B = None))"
proof (cases "wFind W h (post_doom_waiting B)")
  case (Some cs)
  then show ?thesis using CreateOrFind_pending [of h B] by simp
next
  case np: None
  show ?thesis
  proof (cases "active_entries B h")
    case None
    from CreateOrFind_new [OF this np, of Y key prio] np show ?thesis by auto
  next
    case (Some en)
    with ok have en: "hash_of en = h" "eKey N en B = None \<longrightarrow> wFind W h (post_open_by_hash_waiting B) \<noteq> None"
      by (auto simp: active_ok_def)
    note unfold = CreateOrFindActiveOrDoomedEntry.simps [of N W Y h key prio B]
    show ?thesis
    proof (cases "eKey N en B")
      case None
      then have "CreateOrFindActiveOrDoomedEntry N W Y h key prio B = Some (WaitFor kPostOpenByHash, B)"
        using np Some en by (subst unfold) auto
      then show ?thesis using None Some en by auto
    next
      case k: (Some k)
      show ?thesis
      proof (cases "k = key")
        case True
        then have "CreateOrFindActiveOrDoomedEntry N W Y h key prio B = Some (Found en, B)"
          using np Some k by (subst unfold) simp
        then show ?thesis using True k Some np by auto
      next
        case False
        then have "CreateOrFindActiveOrDoomedEntry N W Y h key prio B
            = CreateOrFindActiveOrDoomedEntry N W Y h key prio (eDoom N en B)"
          using np Some k by (subst unfold) simp
        moreover have "wFind W h (post_doom_waiting (eDoom N en B)) \<noteq> None"
          using doom_law [of B en] Some en(1) np by (simp add: doom_frame_def)
        ultimately show ?thesis using CreateOrFind_pending [of h "eDoom N en B"] by simp
      qed
    qed
  qed
qed

end


text \<open>A backend with entry 7 in use under the key \<open>[1]\<close>, entry 8 being opened by hash and 9 doomed.\<close>

definition sample_backend :: store_backend where
  "sample_backend =
     (new_backend [] DISK_CACHE 0 sample_index (\<lambda>h. if h = 9 then Some [] else None)
       (\<lambda>h. if h = 8 then Some [] else None)
       \<lparr>es_keys = (\<lambda>e. if e = (7, 0) then Some [1] else None), es_next = 2, es_opened = [],
        es_created = [], es_doomed = []\<rparr>)
     \<lparr>active_entries := (\<lambda>h. if h = 7 then Some (7, 0) else if h = 8 then Some (8, 1) else None)\<rparr>"

lemma sample_backend_ok: "active_ok map_waiters stored_entries fst sample_backend"
  by (auto simp: active_ok_def sample_backend_def new_backend_def stored_entries_def map_waiters_def)

definition sample_keys :: backend_sys where
  "sample_keys = \<lparr>entry_hasher = (\<lambda>key. 7), HIGHEST = 5, MAXIMUM_PRIORITY = 5\<rparr>"


end
