(* ===== verification/Backend_Doom.thy ===== *)
theory Backend_Doom imports Backend_Laws begin

text \<open>
  Operations while a doom is pending, the mass doom, and the eviction that the index asks the backend
  for, from the check of the size to the smaller index.
\<close>

section \<open>Operations while a doom is pending\<close>

context waiter_table begin

lemma push_found:
  "wFind W h (post_doom_waiting B) = Some cs \<Longrightarrow>
     wFind W h (post_doom_waiting (push_post_operation W kPostDoom h c B)) = Some (cs @ [c])"
  by (simp add: push_post_operation_def find_push)

lemma lookup_pending:
  "wFind W h (post_doom_waiting B) = Some cs \<Longrightarrow>
     CreateOrFindActiveOrDoomedEntry N W Y h key prio B = Some (WaitFor kPostDoom, B)"
  by (subst CreateOrFindActiveOrDoomedEntry.simps) simp

end

lemma push_frame:
  "b_index (push_post_operation W kPostDoom h c B) = b_index B"
  "active_entries (push_post_operation W kPostDoom h c B) = active_entries B"
  "entry_world (push_post_operation W kPostDoom h c B) = entry_world B"
  "b_log (push_post_operation W kPostDoom h c B) = b_log B"
  by (simp_all add: push_post_operation_def)

text \<open>
  \<open>B'\<close> is \<open>B\<close> with \<open>c\<close> at the end of the queue of the doom of \<open>h\<close>: nothing else the operations of
  an entry could see has changed.
\<close>

definition only_queued ::
    "('en, 't) waiter_ops \<Rightarrow> u64 \<Rightarrow> 'en closure \<Rightarrow> ('en, 'x, 't) backend \<Rightarrow> ('en, 'x, 't) backend \<Rightarrow> bool" where
  "only_queued W h c B B' \<longleftrightarrow>
     B' = B\<lparr>post_doom_waiting := post_doom_waiting B'\<rparr>
     \<and> wFind W h (post_doom_waiting B') = map_option (\<lambda>cs. cs @ [c]) (wFind W h (post_doom_waiting B))"

context waiter_table begin

lemma queued_push:
  "wFind W h (post_doom_waiting B) = Some cs \<Longrightarrow> only_queued W h c B (push_post_operation W kPostDoom h c B)"
  by (simp add: only_queued_def push_post_operation_def find_push)

lemma not_optimistic:
  "wFind W h (post_doom_waiting B) = Some cs \<Longrightarrow> cs \<noteq> [] \<or> entry_operations_mode B = NON_OPTIMISTIC_OPERATIONS \<Longrightarrow>
     MaybeOptimisticCreateForPostDoom N W Y h key prio B = (None, B)"
  by (auto simp: MaybeOptimisticCreateForPostDoom_def)

end

text \<open>C26: While a doom of its hash is pending and another operation waits for it already, or the cache
does not work optimistically, every operation on a key is appended to the queue of the doom and returns
\<open>ERR_IO_PENDING\<close>; the entries, the index and the client see nothing of it.\<close>
theorem operations_wait_for_doom:
  assumes "waiter_table W" and "wFind W (entry_hasher Y key) (post_doom_waiting B) = Some cs"
    and "cs \<noteq> [] \<or> entry_operations_mode B = NON_OPTIMISTIC_OPERATIONS"
  shows "\<exists>B1 B2 B3 B4.
      BackendOpenEntry N W Y key prio cb B = Some (MakeError (Err ERR_IO_PENDING), B1)
      \<and> only_queued W (entry_hasher Y key) (RunEntryResultOperationAndCallback (OpenEntryOp key prio) cb) B B1
      \<and> BackendCreateEntry N W Y key prio cb B = Some (MakeError (Err ERR_IO_PENDING), B2)
      \<and> only_queued W (entry_hasher Y key) (RunEntryResultOperationAndCallback (CreateEntryOp key prio) cb) B B2
      \<and> BackendOpenOrCreateEntry N W Y key prio cb B = Some (MakeError (Err ERR_IO_PENDING), B3)
      \<and> only_queued W (entry_hasher Y key)
          (RunEntryResultOperationAndCallback (OpenOrCreateEntryOp key prio) cb) B B3
      \<and> BackendDoomEntry N W Y key prio done B = Some (Err ERR_IO_PENDING, B4)
      \<and> only_queued W (entry_hasher Y key) (RunOperationAndCallback (DoomEntryOp key prio) done) B B4"
proof -
  note l = waiter_table.lookup_pending [OF assms(1,2)] waiter_table.not_optimistic [OF assms(1,2,3)]
    waiter_table.queued_push [OF assms(1,2)]
  have "\<not> (wFind W (entry_hasher Y key) (post_doom_waiting B) = Some []
    \<and> entry_operations_mode B = OPTIMISTIC_OPERATIONS)" using assms(2,3) by auto
  then show ?thesis
    by (simp add: BackendOpenEntry_def BackendCreateEntry_def BackendOpenOrCreateEntry_def
        BackendDoomEntry_def l Let_def)
qed

definition waiting_backend :: store_backend where
  "waiting_backend = sample_backend\<lparr>post_doom_waiting := [7 \<mapsto> [NotifyDoomBeforeCreateComplete (7, 0)]]\<rparr>"

lemma operations_wait_for_doom_witness:
  "\<exists>B1 B2 B3 B4.
      BackendOpenEntry stored_entries map_waiters sample_keys [1] 0 (EntryClient 0)
          waiting_backend
        = Some (MakeError (Err ERR_IO_PENDING), B1)
      \<and> only_queued map_waiters (entry_hasher sample_keys [1])
          (RunEntryResultOperationAndCallback (OpenEntryOp [1] 0) (EntryClient 0))
          waiting_backend B1
      \<and> BackendCreateEntry stored_entries map_waiters sample_keys [1] 0 (EntryClient 0)
          waiting_backend
        = Some (MakeError (Err ERR_IO_PENDING), B2)
      \<and> only_queued map_waiters (entry_hasher sample_keys [1])
          (RunEntryResultOperationAndCallback (CreateEntryOp [1] 0) (EntryClient 0))
          waiting_backend B2
      \<and> BackendOpenOrCreateEntry stored_entries map_waiters sample_keys [1] 0 (EntryClient 0)
          waiting_backend
        = Some (MakeError (Err ERR_IO_PENDING), B3)
      \<and> only_queued map_waiters (entry_hasher sample_keys [1])
          (RunEntryResultOperationAndCallback (OpenOrCreateEntryOp [1] 0) (EntryClient 0))
          waiting_backend B3
      \<and> BackendDoomEntry stored_entries map_waiters sample_keys [1] 0 (Client 1)
          waiting_backend
        = Some (Err ERR_IO_PENDING, B4)
      \<and> only_queued map_waiters (entry_hasher sample_keys [1])
          (RunOperationAndCallback (DoomEntryOp [1] 0) (Client 1))
          waiting_backend B4"
  by (rule operations_wait_for_doom [OF map_waiters.waiter_table_axioms,
        where cs = "[NotifyDoomBeforeCreateComplete (7, 0)]"])
     (simp_all add: map_waiters_def sample_keys_def waiting_backend_def)

context entry_interface begin

lemma optimistic_create:
  assumes "wFind W h (post_doom_waiting B) = Some []" and "entry_operations_mode B = OPTIMISTIC_OPERATIONS"
    and "active_entries B h = None"
  shows "\<exists>en B'. MaybeOptimisticCreateForPostDoom N W Y h key prio B = (Some en, B')
    \<and> eKey N en B' = Some key \<and> active_entries B' = (active_entries B)(h \<mapsto> en)
    \<and> wFind W h (post_doom_waiting B') = Some [NotifyDoomBeforeCreateComplete en]"
proof -
  obtain en B1 where n: "new_entry N Y h prio B = (en, B1)" by force
  note l = new_entry_law [OF n]
  let ?B2 = "eSetKey N en key B1"
  let ?B3 = "eSetActiveEntryProxy N en h ?B2"
  let ?B4 = "eSetCreatePendingDoom N en ?B3"
  let ?B5 = "push_post_operation W kPostDoom h (NotifyDoomBeforeCreateComplete en)
    (?B4\<lparr>active_entries := (active_entries ?B4)(h \<mapsto> en)\<rparr>)"
  note f = only_world_fields [OF conjunct1 [OF set_key_law [of B1 en key]]]
    only_world_fields [OF conjunct1 [OF proxy_law [of ?B2 en h en]]]
    only_world_fields [OF conjunct1 [OF pending_law [of ?B3 en en]]]
  have "eKey N en ?B4 = Some key" using set_key_law proxy_law pending_law by simp
  moreover have "eKey N en ?B5 = eKey N en ?B4" by (rule key_world) (simp add: push_post_operation_def)
  moreover have "wFind W h (post_doom_waiting ?B5) = Some [NotifyDoomBeforeCreateComplete en]"
    using push_found [of h "?B4\<lparr>active_entries := (active_entries ?B4)(h \<mapsto> en)\<rparr>" "[]"] f l assms(1) by simp
  moreover have "MaybeOptimisticCreateForPostDoom N W Y h key prio B = (Some en, ?B5)"
    using assms f l by (simp add: MaybeOptimisticCreateForPostDoom_def n)
  ultimately show ?thesis using f l by (simp add: push_post_operation_def)
qed

end

text \<open>C28: When the doom of a hash is all that happens to it and the cache works optimistically, opening
fails at once, and creating goes ahead with a new entry: it gets the key, is the entry in use, and the
first to be told of the end of the doom, so that every later operation waits.\<close>
theorem create_overtakes_only_an_idle_doom:
  assumes "entry_interface W N hash_of" and "wFind W (entry_hasher Y key) (post_doom_waiting B) = Some []"
    and "entry_operations_mode B = OPTIMISTIC_OPERATIONS" and "active_entries B (entry_hasher Y key) = None"
  shows "BackendOpenEntry N W Y key prio cb B = Some (MakeError (Err ERR_FAILED), B)
    \<and> (\<exists>en B'. BackendCreateEntry N W Y key prio cb B = Some (eCreateEntry N en cb B')
        \<and> BackendOpenOrCreateEntry N W Y key prio cb B = Some (eCreateEntry N en cb B')
        \<and> eKey N en B' = Some key \<and> active_entries B' = (active_entries B)(entry_hasher Y key \<mapsto> en)
        \<and> wFind W (entry_hasher Y key) (post_doom_waiting B') = Some [NotifyDoomBeforeCreateComplete en])"
proof -
  have "waiter_table W" using assms(1) by (simp add: entry_interface_def)
  note l = waiter_table.lookup_pending [OF this assms(2)]
  obtain en B' where m: "MaybeOptimisticCreateForPostDoom N W Y (entry_hasher Y key) key prio B = (Some en, B')"
    "eKey N en B' = Some key" "active_entries B' = (active_entries B)(entry_hasher Y key \<mapsto> en)"
    "wFind W (entry_hasher Y key) (post_doom_waiting B') = Some [NotifyDoomBeforeCreateComplete en]"
    using entry_interface.optimistic_create [OF assms] by blast
  have "BackendOpenEntry N W Y key prio cb B = Some (MakeError (Err ERR_FAILED), B)"
    "BackendCreateEntry N W Y key prio cb B = Some (eCreateEntry N en cb B')"
    "BackendOpenOrCreateEntry N W Y key prio cb B = Some (eCreateEntry N en cb B')"
    using assms(2,3) m(1)
    by (simp_all add: BackendOpenEntry_def BackendCreateEntry_def BackendOpenOrCreateEntry_def l Let_def)
  then show ?thesis using m(2-4) by blast
qed

definition doomed_backend :: store_backend where
  "doomed_backend = sample_backend\<lparr>post_doom_waiting := [7 \<mapsto> []], active_entries := (\<lambda>_. None)\<rparr>"

lemma create_overtakes_only_an_idle_doom_witness:
  "BackendOpenEntry stored_entries map_waiters sample_keys [1] 0 (EntryClient 0) doomed_backend
      = Some (MakeError (Err ERR_FAILED), doomed_backend)
    \<and> (\<exists>en B'. BackendCreateEntry stored_entries map_waiters sample_keys [1] 0 (EntryClient 0) doomed_backend
          = Some (eCreateEntry stored_entries en (EntryClient 0) B')
        \<and> BackendOpenOrCreateEntry stored_entries map_waiters sample_keys [1] 0 (EntryClient 0) doomed_backend
          = Some (eCreateEntry stored_entries en (EntryClient 0) B')
        \<and> eKey stored_entries en B' = Some [1]
        \<and> active_entries B' = (active_entries doomed_backend)(entry_hasher sample_keys [1] \<mapsto> en)
        \<and> wFind map_waiters (entry_hasher sample_keys [1]) (post_doom_waiting B')
            = Some [NotifyDoomBeforeCreateComplete en])"
  by (rule create_overtakes_only_an_idle_doom [OF stored.entry_interface_axioms])
     (simp_all add: doomed_backend_def map_waiters_def sample_keys_def sample_backend_def new_backend_def
       CacheTypeToOperationsMode_def)

section \<open>The mass doom\<close>

lemma index_inv_determines_size:
  "index_inv ix \<Longrightarrow> index_inv ix' \<Longrightarrow> entries_set ix = entries_set ix' \<Longrightarrow> cache_size ix = cache_size ix'"
  by (simp add: index_inv_def)

definition hashes_ok :: "('en \<Rightarrow> u64) \<Rightarrow> ('en, 'x, 't) backend \<Rightarrow> bool" where
  "hashes_ok hash_of B \<longleftrightarrow> (\<forall>h en. active_entries B h = Some en \<longrightarrow> hash_of en = h)"

text \<open>The effect on the tables and the index of dooming the hashes of a set.\<close>

definition doomed_set ::
    "('en, 't) waiter_ops \<Rightarrow> u64 set \<Rightarrow> ('en, 'x, 't) backend \<Rightarrow> ('en, 'x, 't) backend \<Rightarrow> bool" where
  "doomed_set W H B B' \<longleftrightarrow>
     (\<forall>h \<in> H. wFind W h (post_doom_waiting B') \<noteq> None)
     \<and> (\<forall>h. h \<notin> H \<longrightarrow> wFind W h (post_doom_waiting B') = wFind W h (post_doom_waiting B)
          \<and> active_entries B' h = active_entries B h)
     \<and> (\<forall>h en. active_entries B' h = Some en \<longrightarrow> active_entries B h = Some en)
     \<and> entries_set (b_index B') = erase_all H (entries_set (b_index B))
     \<and> (index_inv (b_index B) \<longrightarrow> index_inv (b_index B'))
     \<and> b_log B' = b_log B"

lemma doomed_setD:
  assumes "doomed_set W H B B'"
  shows "h \<in> H \<Longrightarrow> wFind W h (post_doom_waiting B') \<noteq> None"
    and "h \<notin> H \<Longrightarrow> wFind W h (post_doom_waiting B') = wFind W h (post_doom_waiting B)"
    and "h \<notin> H \<Longrightarrow> active_entries B' h = active_entries B h"
    and "active_entries B' h = Some en \<Longrightarrow> active_entries B h = Some en"
    and "entries_set (b_index B') = erase_all H (entries_set (b_index B))"
    and "index_inv (b_index B) \<Longrightarrow> index_inv (b_index B')" and "b_log B' = b_log B"
  using assms unfolding doomed_set_def by (elim conjE, blast)+

lemma doomed_set_in_use:
  "doomed_set W H B B' \<Longrightarrow> in_use W B h \<Longrightarrow> in_use W B' h"
  by (cases "h \<in> H") (simp_all only: in_use_def doomed_setD(1-3) not_False_eq_True simp_thms)

lemma erase_erase [simp]: "erase_all K (erase_all H es) = erase_all (H \<union> K) es"
  by (auto simp: erase_all_def intro!: filter_cong)

lemma erase_none [simp]: "erase_all {} es = es"
  by (simp add: erase_all_def case_prod_beta)

lemma entries_Remove_erase: "entries_set (Remove h ix) = erase_all {h} (entries_set ix)"
  by (auto simp: entries_Remove_eq AList.delete_eq erase_all_def intro!: filter_cong)

lemma doomed_set_trans:
  assumes H: "doomed_set W H B B1" and K: "doomed_set W K B1 B2"
  shows "doomed_set W (H \<union> K) B B2"
  unfolding doomed_set_def
proof (intro conjI ballI allI impI)
  show "wFind W h (post_doom_waiting B2) \<noteq> None" if "h \<in> H \<union> K" for h
  proof (cases "h \<in> K")
    case False
    then show ?thesis using that doomed_setD(1) [OF H, of h] doomed_setD(2) [OF K, of h] by simp
  qed (rule doomed_setD(1) [OF K])
next
  fix h
  assume "h \<notin> H \<union> K"
  then show "wFind W h (post_doom_waiting B2) = wFind W h (post_doom_waiting B)"
    "active_entries B2 h = active_entries B h"
    using doomed_setD(2,3) [OF H, of h] doomed_setD(2,3) [OF K, of h] by simp_all
next
  show "entries_set (b_index B2) = erase_all (H \<union> K) (entries_set (b_index B))"
    by (simp only: doomed_setD(5) [OF H] doomed_setD(5) [OF K] erase_erase)
qed (use doomed_setD(4,6,7) [OF H] doomed_setD(4,6,7) [OF K] in blast | use doomed_setD(7) [OF H] doomed_setD(7) [OF K] in simp)+

context entry_interface begin

lemma hashes_ok_doomed:
  assumes "doomed_set W H B B'" and "hashes_ok hash_of B"
  shows "hashes_ok hash_of B'"
  unfolding hashes_ok_def
proof (intro allI impI)
  fix h en
  assume "active_entries B' h = Some en"
  from doomed_setD(4) [OF assms(1) this] assms(2) show "hash_of en = h" by (simp add: hashes_ok_def)
qed

lemma doom_one:
  assumes use: "in_use W B h" and ok: "hashes_ok hash_of B"
    and r: "DoomEntryFromHash N W h cb B = (r, B')"
  shows "doomed_set W {h} B (B'\<lparr>b_index := Remove h (b_index B')\<rparr>)" "contexts B' = contexts B"
proof -
  have "contexts B' = contexts B \<and> doomed_set W {h} B (B'\<lparr>b_index := Remove h (b_index B')\<rparr>)"
  proof (cases "wFind W h (post_doom_waiting B)")
    case (Some cs)
    with r show ?thesis
      by (auto simp: doomed_set_def find_push entries_Remove_erase index_inv_Remove)
  next
    case None
    with use obtain en where en: "active_entries B h = Some en" by (auto simp: in_use_def)
    with ok have h: "hash_of en = h" by (simp add: hashes_ok_def)
    from r None en have "eDoomEntry N en cb B = (r, B')" by simp
    from doom_entry_law [OF _ _ this] en h None have "doom_frame W h B B'" by simp
    then show ?thesis
      by (auto simp: doomed_set_def doom_frame_def entries_Remove_erase index_inv_Remove split: if_splits)
  qed
  then show "doomed_set W {h} B (B'\<lparr>b_index := Remove h (b_index B')\<rparr>)" "contexts B' = contexts B" by blast+
qed

lemma doom_each:
  assumes "\<And>h. h \<in> set hs \<Longrightarrow> in_use W B h" and "hashes_ok hash_of B"
  shows "doomed_set W (set hs) B (doom_individually N W hs cb B)
    \<and> contexts (doom_individually N W hs cb B) = contexts B"
  using assms
proof (induction hs arbitrary: B)
  case Nil
  then show ?case by (simp add: doomed_set_def)
next
  case (Cons h hs)
  obtain r B1 where d: "DoomEntryFromHash N W h cb B = (r, B1)" by force
  let ?B1 = "B1\<lparr>b_index := Remove h (b_index B1)\<rparr>"
  have one: "doomed_set W {h} B ?B1" using doom_one(1) [OF _ Cons.prems(2) d] Cons.prems(1) by simp
  have "in_use W B h" using Cons.prems(1) by simp
  note ctx = doom_one(2) [OF this Cons.prems(2) d]
  have "in_use W ?B1 k" if "k \<in> set hs" for k
    using doomed_set_in_use [OF one Cons.prems(1)] that by simp
  with Cons.IH [of ?B1] hashes_ok_doomed [OF one Cons.prems(2)]
  have "doomed_set W (set hs) ?B1 (doom_individually N W hs cb ?B1)"
    "contexts (doom_individually N W hs cb ?B1) = contexts ?B1" by blast+
  from doomed_set_trans [OF one this(1)] this(2) ctx show ?case
    by (simp add: d del: DoomEntryFromHash.simps)
qed

lemma start_mass:
  assumes "\<And>h. h \<in> set hs \<Longrightarrow> wFind W h (post_doom_waiting B) = None" and "distinct hs"
  shows "doomed_set W (set hs) B (start_mass_doom W hs B)
    \<and> contexts (start_mass_doom W hs B) = contexts B"
  using assms
proof (induction hs arbitrary: B)
  case Nil
  then show ?case by (simp add: doomed_set_def)
next
  case (Cons h hs)
  let ?B1 = "OnDoomStart W h (B\<lparr>b_index := Remove h (b_index B)\<rparr>)"
  have one: "doomed_set W {h} B ?B1"
    using Cons.prems by (auto simp: doomed_set_def OnDoomStart_def find_start entries_Remove_erase index_inv_Remove)
  have "wFind W k (post_doom_waiting ?B1) = None" if "k \<in> set hs" for k
    using Cons.prems that by (auto simp: OnDoomStart_def find_start)
  with Cons have "doomed_set W (set hs) ?B1 (start_mass_doom W hs ?B1)"
    "contexts (start_mass_doom W hs ?B1) = contexts ?B1" by simp_all
  from doomed_set_trans [OF one this(1)] this(2) show ?case by (simp add: OnDoomStart_def)
qed

lemma DoomEntries_effect:
  assumes "hashes_ok hash_of B" and "distinct hs"
  shows "\<exists>B0 mass barrier. doomed_set W (set hs) B B0
    \<and> DoomEntries N W hs cb B = notify [PostDeleteEntrySetFiles mass barrier] B0
    \<and> distinct mass \<and> set mass = {h \<in> set hs. \<not> in_use W B h}
    \<and> barrier = BarrierCompletionCallback (next_context B) cb
    \<and> contexts B0 (next_context B)
        = \<lparr>bc_expected = int (length (filter (in_use W B) hs)) + 1, bc_count = 0, bc_had_error = False\<rparr>"
proof -
  obtain mass ind where p: "partition_hashes W B (length hs) hs [] = (mass, ind)" by force
  have ind: "ind = rev (filter (in_use W B) hs)"
    and mass: "mset mass = mset (filter (\<lambda>h. \<not> in_use W B h) hs)"
    using partition_hashes_parts [of W B hs] p by simp_all
  have sets: "set mass = {h \<in> set hs. \<not> in_use W B h}" "set ind = {h \<in> set hs. in_use W B h}"
    using mset_eq_setD [OF mass] ind by auto
  have dist: "distinct mass" using mset_eq_imp_distinct_iff [OF mass] assms(2) by simp
  obtain barrier B1 where b: "MakeBarrierCompletionCallback (int (length ind) + 1) cb B = (barrier, B1)" by force
  then have B1: "doomed_set W {} B B1" "in_use W B1 = in_use W B" "hashes_ok hash_of B1"
    "\<And>h. wFind W h (post_doom_waiting B1) = wFind W h (post_doom_waiting B)"
    using assms(1)
    by (auto simp: MakeBarrierCompletionCallback_def doomed_set_def in_use_def hashes_ok_def fun_eq_iff)
  have ctx: "barrier = BarrierCompletionCallback (next_context B) cb" "contexts B1 (next_context B)
      = \<lparr>bc_expected = int (length (filter (in_use W B) hs)) + 1, bc_count = 0, bc_had_error = False\<rparr>"
    using b ind by (auto simp: MakeBarrierCompletionCallback_def)
  let ?B2 = "doom_individually N W ind barrier B1"
  have "doomed_set W (set ind) B1 ?B2 \<and> contexts ?B2 = contexts B1" using B1 sets by (intro doom_each) auto
  then have two: "doomed_set W (set ind) B1 ?B2" and ctx2: "contexts ?B2 = contexts B1" by simp_all
  have "wFind W h (post_doom_waiting ?B2) = None" if "h \<in> set mass" for h
    using doomed_setD(2) [OF two, of h] that sets B1(4) by (auto simp: in_use_def)
  then have "doomed_set W (set mass) ?B2 (start_mass_doom W mass ?B2)
    \<and> contexts (start_mass_doom W mass ?B2) = contexts ?B2" using dist by (intro start_mass) auto
  then have three: "doomed_set W (set mass) ?B2 (start_mass_doom W mass ?B2)"
    and ctx3: "contexts (start_mass_doom W mass ?B2) = contexts ?B2" by simp_all
  have "doomed_set W (set ind \<union> set mass) B (start_mass_doom W mass ?B2)"
    using doomed_set_trans [OF B1(1) doomed_set_trans [OF two three]] by simp
  moreover have "set ind \<union> set mass = set hs" using sets by blast
  ultimately have "doomed_set W (set hs) B (start_mass_doom W mass ?B2)" by simp
  moreover have "DoomEntries N W hs cb B = notify [PostDeleteEntrySetFiles mass barrier] (start_mass_doom W mass ?B2)"
    by (simp only: DoomEntries.simps p b prod.case)
  moreover have "contexts (start_mass_doom W mass ?B2) (next_context B)
      = \<lparr>bc_expected = int (length (filter (in_use W B) hs)) + 1, bc_count = 0, bc_had_error = False\<rparr>"
    by (simp only: ctx3 ctx2 ctx(2))
  ultimately show ?thesis using dist sets(1) ctx(1)
    by (intro exI [of _ "start_mass_doom W mass ?B2"] exI [of _ mass] exI [of _ barrier]) simp
qed

end

text \<open>C19: A mass doom of distinct hashes: every hash is pending afterwards, so that later operations
wait; the index has lost exactly these entries and their size; the files of the hashes that were not in
use are handed to one task; entries and queues of other hashes are untouched.\<close>
theorem mass_doom:
  assumes "entry_interface W N hash_of" and "hashes_ok hash_of B" and "distinct hs"
    and "index_inv (b_index B)"
  shows "(\<forall>h \<in> set hs. wFind W h (post_doom_waiting (DoomEntries N W hs cb B)) \<noteq> None)
    \<and> (\<forall>h. h \<notin> set hs \<longrightarrow>
          wFind W h (post_doom_waiting (DoomEntries N W hs cb B)) = wFind W h (post_doom_waiting B)
          \<and> active_entries (DoomEntries N W hs cb B) h = active_entries B h)
    \<and> entries_set (b_index (DoomEntries N W hs cb B)) = erase_all (set hs) (entries_set (b_index B))
    \<and> cache_size (b_index (DoomEntries N W hs cb B)) = total_size (erase_all (set hs) (entries_set (b_index B)))
    \<and> (\<exists>mass barrier. b_log (DoomEntries N W hs cb B) = b_log B @ [PostDeleteEntrySetFiles mass barrier]
          \<and> distinct mass \<and> set mass = {h \<in> set hs. \<not> in_use W B h})"
proof -
  obtain B0 mass barrier where d: "doomed_set W (set hs) B B0"
    "DoomEntries N W hs cb B = notify [PostDeleteEntrySetFiles mass barrier] B0"
    "distinct mass" "set mass = {h \<in> set hs. \<not> in_use W B h}"
    using entry_interface.DoomEntries_effect [OF assms(1,2,3)] by blast
  have ix: "b_index (DoomEntries N W hs cb B) = b_index B0"
    "post_doom_waiting (DoomEntries N W hs cb B) = post_doom_waiting B0"
    "active_entries (DoomEntries N W hs cb B) = active_entries B0"
    "b_log (DoomEntries N W hs cb B) = b_log B @ [PostDeleteEntrySetFiles mass barrier]"
    using doomed_setD(7) [OF d(1)] by (simp_all add: d(2) notify_def del: DoomEntries.simps)
  have "cache_size (b_index B0) = total_size (erase_all (set hs) (entries_set (b_index B)))"
    using doomed_setD(6) [OF d(1) assms(4)] doomed_setD(5) [OF d(1)] by (simp add: index_inv_def)
  then show ?thesis
    unfolding ix using doomed_setD(1-3,5) [OF d(1)] d(3,4) by blast
qed

lemma sample_hashes_ok: "hashes_ok fst sample_backend"
  by (simp add: hashes_ok_def sample_backend_def)

lemma mass_doom_witness:
  "wFind map_waiters 7 (post_doom_waiting (DoomEntries stored_entries map_waiters [1, 7, 9] (Client 0) sample_backend)) \<noteq> None
    \<and> active_entries (DoomEntries stored_entries map_waiters [1, 7, 9] (Client 0) sample_backend) 8 = Some (8, 1)
    \<and> entries_set (b_index (DoomEntries stored_entries map_waiters [1, 7, 9] (Client 0) sample_backend))
        = erase_all {1, 7, 9} (entries_set sample_index)
    \<and> (\<exists>mass barrier. b_log (DoomEntries stored_entries map_waiters [1, 7, 9] (Client 0) sample_backend)
          = [PostDeleteEntrySetFiles mass barrier] \<and> set mass = {1})"
proof -
  have ix: "b_index sample_backend = sample_index" "b_log sample_backend = []"
    "active_entries sample_backend 8 = Some (8, 1)"
    "{h \<in> set [1, 7, 9]. \<not> in_use map_waiters sample_backend h} = {1}"
    by (auto simp: sample_backend_def new_backend_def in_use_def map_waiters_def)
  then have "index_inv (b_index sample_backend)" by (simp only: sample_index_facts(1))
  note m = mass_doom [OF stored.entry_interface_axioms sample_hashes_ok _ this, of "[1, 7, 9]" "Client 0", unfolded ix]
  have "active_entries (DoomEntries stored_entries map_waiters [1, 7, 9] (Client 0) sample_backend) 8 = Some (8, 1)"
    using m [THEN conjunct2, THEN conjunct1, rule_format, of 8] ix(3) by (simp del: DoomEntries.simps)
  then show ?thesis using m by (auto simp del: DoomEntries.simps)
qed

text \<open>
  What a mass doom is to do with one hash in use, given the callback for it: the doom waits behind the one that is
  pending, or the entry in use is doomed; in both cases the callback is handed on, and nothing else is.
\<close>

definition doom_in_use ::
    "('en, ('en, 'x, 't) backend) entry_ops \<Rightarrow> ('en, 't) waiter_ops \<Rightarrow> completion \<Rightarrow> u64
       \<Rightarrow> ('en, 'x, 't) backend \<Rightarrow> ('en, 'x, 't) backend" where
  "doom_in_use N W cb h B =
     (let B' = (case (wFind W h (post_doom_waiting B), active_entries B h) of
                  (Some waiting, _) \<Rightarrow>
                    B\<lparr>post_doom_waiting :=
                       wPush W h (RunOperationAndCallback (DoomEntryFromHashOp h) cb) (post_doom_waiting B)\<rparr>
                | (None, Some active) \<Rightarrow> snd (eDoomEntry N active cb B)
                | (None, None) \<Rightarrow> B)
      in B'\<lparr>b_index := Remove h (b_index B')\<rparr>)"

context entry_interface begin

lemma doom_in_use_eq:
  "in_use W B h \<Longrightarrow> doom_individually N W (h # hs) cb B = doom_individually N W hs cb (doom_in_use N W cb h B)"
  by (auto simp: doom_in_use_def in_use_def Let_def split: prod.splits option.splits simp del: DoomEntries.simps)

lemma doom_in_use_frame:
  assumes "in_use W B h" and "hashes_ok hash_of B"
  shows "doomed_set W {h} B (doom_in_use N W cb h B)"
proof -
  obtain r B1 where d: "DoomEntryFromHash N W h cb B = (r, B1)" by force
  have "doom_in_use N W cb h B = B1\<lparr>b_index := Remove h (b_index B1)\<rparr>"
    using assms(1) d
    by (auto simp: doom_in_use_def in_use_def Let_def split: prod.splits option.splits simp del: DoomEntries.simps)
  then show ?thesis using doom_one(1) [OF assms d] by simp
qed

lemma doom_individually_each:
  assumes "\<And>h. h \<in> set hs \<Longrightarrow> in_use W B h" and "hashes_ok hash_of B"
  shows "doom_individually N W hs cb B = fold (doom_in_use N W cb) hs B"
  using assms
proof (induction hs arbitrary: B)
  case (Cons h hs)
  let ?B1 = "doom_in_use N W cb h B"
  have "in_use W B h" using Cons.prems(1) by simp
  note one = doom_in_use_frame [OF this Cons.prems(2), of cb] and eq = doom_in_use_eq [OF this, of hs cb]
  have "in_use W ?B1 k" if "k \<in> set hs" for k
    using doomed_set_in_use [OF one Cons.prems(1)] that by simp
  then have "doom_individually N W hs cb ?B1 = fold (doom_in_use N W cb) hs ?B1"
    using Cons.IH [OF _ hashes_ok_doomed [OF one Cons.prems(2)]] by blast
  then show ?case unfolding eq fold_simps .
qed simp

text \<open>Entries that wait for a doom get one more closure, with the callback of the mass doom.\<close>

lemma waiting_doom_in_use:
  assumes "in_use W B h" and "hashes_ok hash_of B"
  shows "wFind W k (post_doom_waiting (doom_in_use N W cb h B)) =
    (if k = h then (case wFind W h (post_doom_waiting B) of
        Some cs \<Rightarrow> Some (cs @ [RunOperationAndCallback (DoomEntryFromHashOp h) cb])
      | None \<Rightarrow> wFind W h (post_doom_waiting (doom_in_use N W cb h B)))
     else wFind W k (post_doom_waiting B))"
proof (cases "k = h")
  case True
  then show ?thesis by (cases "wFind W h (post_doom_waiting B)") (auto simp: doom_in_use_def find_push)
next
  case False
  then show ?thesis using doomed_setD(2) [OF doom_in_use_frame [OF assms], of k] by simp
qed

lemma waiting_dooms:
  assumes "\<And>h. h \<in> set hs \<Longrightarrow> in_use W B h" and "hashes_ok hash_of B" and "distinct hs"
    and "h \<in> set hs" and "wFind W h (post_doom_waiting B) = Some cs"
  shows "wFind W h (post_doom_waiting (fold (doom_in_use N W cb) hs B))
    = Some (cs @ [RunOperationAndCallback (DoomEntryFromHashOp h) cb])"
  using assms
proof (induction hs arbitrary: B)
  case (Cons k hs)
  let ?B1 = "doom_in_use N W cb k B"
  have use: "in_use W B k" using Cons.prems(1) by simp
  note one = doom_in_use_frame [OF use Cons.prems(2), of cb]
    and wait = waiting_doom_in_use [OF use Cons.prems(2), of h cb]
  note ok = hashes_ok_doomed [OF one Cons.prems(2)]
  have uses: "in_use W ?B1 k'" if "k' \<in> set hs" for k'
    using doomed_set_in_use [OF one Cons.prems(1)] that by simp
  show ?case
  proof (cases "h = k")
    case True
    with Cons.prems(3,5) have "h \<notin> set hs" "wFind W h (post_doom_waiting ?B1)
        = Some (cs @ [RunOperationAndCallback (DoomEntryFromHashOp h) cb])"
      using wait by simp_all
    moreover have "doomed_set W (set hs) ?B1 (fold (doom_in_use N W cb) hs ?B1)"
      using doom_each [of hs ?B1 cb] uses ok doom_individually_each [of hs ?B1 cb] by simp
    ultimately show ?thesis using doomed_setD(2) [of W "set hs" ?B1 _ h] by simp
  next
    case False
    with Cons.prems(3-5) wait have "wFind W h (post_doom_waiting ?B1) = Some cs" "distinct hs" "h \<in> set hs" by simp_all
    then have "wFind W h (post_doom_waiting (fold (doom_in_use N W cb) hs ?B1))
        = Some (cs @ [RunOperationAndCallback (DoomEntryFromHashOp h) cb])"
      using Cons.IH [OF uses ok] by blast
    then show ?thesis by simp
  qed
qed simp

text \<open>The whole mass doom: each hash in use once, with the barrier, and then the others.\<close>

lemma DoomEntries_parts:
  assumes "hashes_ok hash_of B" and "distinct hs"
    and "MakeBarrierCompletionCallback (int (length (filter (in_use W B) hs)) + 1) cb B = (barrier, B1)"
  obtains mass where
    "DoomEntries N W hs cb B = notify [PostDeleteEntrySetFiles mass barrier]
       (start_mass_doom W mass (fold (doom_in_use N W barrier) (rev (filter (in_use W B) hs)) B1))"
    and "distinct mass" and "set mass = {h \<in> set hs. \<not> in_use W B h}"
    and "\<And>h cs. h \<in> set hs \<Longrightarrow> wFind W h (post_doom_waiting B) = Some cs
      \<Longrightarrow> wFind W h (post_doom_waiting (DoomEntries N W hs cb B))
            = Some (cs @ [RunOperationAndCallback (DoomEntryFromHashOp h) barrier])"
proof -
  obtain mass ind where p: "partition_hashes W B (length hs) hs [] = (mass, ind)" by force
  have ind: "ind = rev (filter (in_use W B) hs)"
    and mass: "mset mass = mset (filter (\<lambda>h. \<not> in_use W B h) hs)"
    using partition_hashes_parts [of W B hs] p by simp_all
  have sets: "set mass = {h \<in> set hs. \<not> in_use W B h}" using mset_eq_setD [OF mass] by auto
  have dist: "distinct mass" using mset_eq_imp_distinct_iff [OF mass] assms(2) by simp
  have B1: "in_use W B1 = in_use W B" "hashes_ok hash_of B1" "post_doom_waiting B1 = post_doom_waiting B"
    using assms(1,3) by (auto simp: MakeBarrierCompletionCallback_def in_use_def hashes_ok_def fun_eq_iff)
  have uses: "in_use W B1 h" if "h \<in> set ind" for h using that ind B1 by simp
  let ?B2 = "fold (doom_in_use N W barrier) ind B1"
  have each: "doom_individually N W ind barrier B1 = ?B2" by (rule doom_individually_each [OF uses B1(2)])
  then have two: "doomed_set W (set ind) B1 ?B2" using doom_each [OF uses B1(2), of ind barrier] by simp
  have none: "wFind W h (post_doom_waiting ?B2) = None" if "h \<in> set mass" for h
    using doomed_setD(2) [OF two, of h] that sets ind B1(3) by (auto simp: in_use_def)
  have three: "doomed_set W (set mass) ?B2 (start_mass_doom W mass ?B2)" using start_mass [OF none dist] by simp
  have run: "DoomEntries N W hs cb B = notify [PostDeleteEntrySetFiles mass barrier] (start_mass_doom W mass ?B2)"
    using assms(3) each by (simp only: DoomEntries.simps p ind length_rev prod.case)
  show thesis
  proof (rule that [OF run [unfolded ind] dist sets])
    fix h cs
    assume h: "h \<in> set hs" "wFind W h (post_doom_waiting B) = Some cs"
    then have use: "h \<in> set ind" "h \<notin> set mass" using ind sets by (auto simp: in_use_def)
    have "distinct ind" using ind assms(2) by simp
    from waiting_dooms [OF uses B1(2) this use(1), of cs barrier] h(2) B1(3)
    have "wFind W h (post_doom_waiting ?B2) = Some (cs @ [RunOperationAndCallback (DoomEntryFromHashOp h) barrier])"
      by simp
    then show "wFind W h (post_doom_waiting (DoomEntries N W hs cb B))
        = Some (cs @ [RunOperationAndCallback (DoomEntryFromHashOp h) barrier])"
      unfolding run using doomed_setD(2) [OF three use(2)] by (simp add: notify_def)
  qed
qed

end

text \<open>C27: A mass doom tells its client once. It hands nobody the client's own callback: each hash in use is
doomed once, in the order the loop meets them, with a barrier as its callback, either by its entry or by an
operation that is queued behind the doom that is pending, and the task that deletes the files of all the other
hashes gets the same barrier. The barrier waits for one result of each of these: given such results in any order,
it tells the client once, of the first error or of success after the last.\<close>
theorem mass_doom_reports_once:
  assumes "entry_interface W N hash_of" and "hashes_ok hash_of B" and "distinct hs"
    and "length rs \<le> length (filter (in_use W B) hs) + 1"
  shows "\<exists>mass barrier B1.
      MakeBarrierCompletionCallback (int (length (filter (in_use W B) hs)) + 1) (Client n) B = (barrier, B1)
    \<and> DoomEntries N W hs (Client n) B = notify [PostDeleteEntrySetFiles mass barrier]
        (start_mass_doom W mass (fold (doom_in_use N W barrier) (rev (filter (in_use W B) hs)) B1))
    \<and> distinct mass \<and> set mass = {h \<in> set hs. \<not> in_use W B h}
    \<and> (\<forall>h cs. h \<in> set hs \<longrightarrow> wFind W h (post_doom_waiting B) = Some cs
          \<longrightarrow> wFind W h (post_doom_waiting (DoomEntries N W hs (Client n) B))
                = Some (cs @ [RunOperationAndCallback (DoomEntryFromHashOp h) barrier]))
    \<and> b_log (DoomEntries N W hs (Client n) B) = b_log B @ [PostDeleteEntrySetFiles mass barrier]
    \<and> b_log (fold (run_completion barrier) rs (DoomEntries N W hs (Client n) B))
      = b_log (DoomEntries N W hs (Client n) B) @ (case first_error rs of
          Some e \<Rightarrow> [RunClient n e]
        | None \<Rightarrow> if length rs = length (filter (in_use W B) hs) + 1 then [RunClient n net_OK] else [])"
proof -
  let ?n = "length (filter (in_use W B) hs)" and ?B = "DoomEntries N W hs (Client n) B"
  obtain barrier B1 where b: "MakeBarrierCompletionCallback (int ?n + 1) (Client n) B = (barrier, B1)" by force
  obtain B0 mass' barrier' where d: "doomed_set W (set hs) B B0"
    "?B = notify [PostDeleteEntrySetFiles mass' barrier'] B0"
    "barrier' = BarrierCompletionCallback (next_context B) (Client n)" "contexts B0 (next_context B)
      = \<lparr>bc_expected = int ?n + 1, bc_count = 0, bc_had_error = False\<rparr>"
    using entry_interface.DoomEntries_effect [OF assms(1,2,3), of "Client n"] by blast
  have same: "barrier = barrier'" using b d(3) by (simp add: MakeBarrierCompletionCallback_def)
  obtain mass where m: "?B = notify [PostDeleteEntrySetFiles mass barrier]
        (start_mass_doom W mass (fold (doom_in_use N W barrier) (rev (filter (in_use W B) hs)) B1))"
    "distinct mass" "set mass = {h \<in> set hs. \<not> in_use W B h}"
    "\<And>h cs. h \<in> set hs \<Longrightarrow> wFind W h (post_doom_waiting B) = Some cs
      \<Longrightarrow> wFind W h (post_doom_waiting ?B) = Some (cs @ [RunOperationAndCallback (DoomEntryFromHashOp h) barrier])"
    by (rule entry_interface.DoomEntries_parts [OF assms(1,2,3) b]) blast
  have log': "b_log ?B = b_log B @ [PostDeleteEntrySetFiles mass' barrier']"
    unfolding d(2) using doomed_setD(7) [OF d(1)] by (simp add: notify_def)
  have "last (b_log ?B) = PostDeleteEntrySetFiles mass barrier" unfolding m(1) by (simp add: notify_def)
  with log' have log: "b_log ?B = b_log B @ [PostDeleteEntrySetFiles mass barrier]" by simp
  have "b_log (fold (run_completion barrier) rs ?B) = b_log ?B @ (case first_error rs of
          Some e \<Rightarrow> [RunClient n e] | None \<Rightarrow> if length rs = ?n + 1 then [RunClient n net_OK] else [])"
    unfolding same d(2) d(3) using assms(4) d(4) by (intro barrier_runs) (simp_all add: notify_def)
  with b m log show ?thesis by (intro exI [of _ mass] exI [of _ barrier] exI [of _ B1] conjI) blast+
qed

text \<open>Of the hashes 1, 7 and 9, the hash 7 has an entry in use and 9 a doom that is pending.\<close>

lemma start_mass_doom_world: "entry_world (start_mass_doom W hs B) = entry_world B"
  by (induction hs arbitrary: B) (simp_all add: OnDoomStart_def)

lemma mass_doom_reports_once_witness:
  "let B = DoomEntries stored_entries map_waiters [1, 7, 9] (Client 3) sample_backend in
   \<exists>mass barrier. b_log B = [PostDeleteEntrySetFiles mass barrier] \<and> set mass = {1} \<and> barrier \<noteq> Client 3
     \<and> wFind map_waiters 9 (post_doom_waiting B) = Some [RunOperationAndCallback (DoomEntryFromHashOp 9) barrier]
     \<and> es_doomed (entry_world B) = [((7, 0), barrier)]
     \<and> b_log (fold (run_completion barrier) [Net 0, Net 0, Net 0] B) = b_log B @ [RunClient 3 (Net 0)]"
proof -
  have use: "filter (in_use map_waiters sample_backend) [1, 7, 9] = [7, 9]"
    "wFind map_waiters 9 (post_doom_waiting sample_backend) = Some []" "b_log sample_backend = []"
    "{h \<in> set [1, 7, 9]. \<not> in_use map_waiters sample_backend h} = {1}"
    by (auto simp: in_use_def sample_backend_def new_backend_def map_waiters_def)
  have small: "distinct [1 :: u64, 7, 9]" "length [Net 0, Net 0, Net 0] \<le> length [7 :: u64, 9] + 1" by simp_all
  let ?B = "DoomEntries stored_entries map_waiters [1, 7, 9] (Client 3) sample_backend"
  obtain mass barrier B1 where m:
    "MakeBarrierCompletionCallback (int (length [7, 9 :: u64]) + 1) (Client 3) sample_backend = (barrier, B1)"
    "?B = notify [PostDeleteEntrySetFiles mass barrier]
        (start_mass_doom map_waiters mass (fold (doom_in_use stored_entries map_waiters barrier) (rev [7, 9]) B1))"
    "set mass = {1}"
    "\<forall>h cs. h \<in> set [1, 7, 9] \<longrightarrow> wFind map_waiters h (post_doom_waiting sample_backend) = Some cs
        \<longrightarrow> wFind map_waiters h (post_doom_waiting ?B) = Some (cs @ [RunOperationAndCallback (DoomEntryFromHashOp h) barrier])"
    "b_log ?B = [] @ [PostDeleteEntrySetFiles mass barrier]"
    "b_log (fold (run_completion barrier) [Net 0, Net 0, Net 0] ?B) = b_log ?B @ (case first_error [Net 0, Net 0, Net 0] of
          Some e \<Rightarrow> [RunClient 3 e]
        | None \<Rightarrow> if length [Net 0, Net 0, Net 0] = length [7, 9 :: u64] + 1 then [RunClient 3 net_OK] else [])"
    using mass_doom_reports_once [OF stored.entry_interface_axioms sample_hashes_ok, of "[1, 7, 9]" "[Net 0, Net 0, Net 0]" 3,
        unfolded use, OF small] by blast
  have B1: "B1 = snd (MakeBarrierCompletionCallback (int (length [7, 9 :: u64]) + 1) (Client 3) sample_backend)"
    "barrier = BarrierCompletionCallback 0 (Client 3)"
    using m(1) by (auto simp: MakeBarrierCompletionCallback_def sample_backend_def new_backend_def)
  have world: "es_doomed (entry_world (fold (doom_in_use stored_entries map_waiters barrier) (rev [7, 9]) B1)) = [((7, 0), barrier)]"
    unfolding B1(1)
    by (simp add: MakeBarrierCompletionCallback_def sample_backend_def new_backend_def doom_in_use_def map_waiters_def
        stored_entries_def store_doom_def update_store_def Let_def)
  have "es_doomed (entry_world ?B) = [((7, 0), barrier)]"
    unfolding m(2) by (simp only: notify_def) (simp add: start_mass_doom_world world [simplified])
  moreover have "wFind map_waiters 9 (post_doom_waiting ?B) = Some [RunOperationAndCallback (DoomEntryFromHashOp 9) barrier]"
    using m(4) use(2) by (simp del: DoomEntries.simps)
  ultimately show ?thesis
    using m(3,5,6) B1(2) unfolding Let_def by (intro exI [of _ mass] exI [of _ barrier]) (simp add: first_error_def del: fold_simps DoomEntries.simps)
qed

section \<open>Eviction, from the index to the backend\<close>

text \<open>The index hands the hashes it evicts to its delegate, the backend, with its own callback.\<close>

definition start_eviction ::
    "('en, ('en, 'x, 't) backend) entry_ops \<Rightarrow> ('en, 't) waiter_ops \<Rightarrow> time
       \<Rightarrow> ('en, 'x, 't) backend \<Rightarrow> ('en, 'x, 't) backend" where
  "start_eviction N W now B =
     (let ix = StartEvictionIfNeeded now (b_index B)
      in case drop (length (outbox (b_index B))) (outbox ix) of
           [DoomEntriesCall entry_hashes] \<Rightarrow>
             DoomEntries N W entry_hashes EvictionDoneCallback (B\<lparr>b_index := ix\<rparr>)
         | _ \<Rightarrow> B\<lparr>b_index := ix\<rparr>)"

lemma cache_size_erased:
  assumes "index_inv ix" and "index_inv ix'" and "entries_set ix' = erase_all (set hs) (entries_set ix)"
  shows "cache_size ix' = cache_size (fold Remove hs ix)"
  using assms index_inv_fold_Remove [OF assms(1), of hs] entries_fold_Remove [of hs ix]
  by (simp add: index_inv_def erase_all_def)

text \<open>C24: When the cache has outgrown its high watermark, the eviction that the index starts has, when
the backend returns, brought the size of the index to its low watermark, and the doom of every entry it
dropped is pending.\<close>
theorem eviction_through_backend:
  assumes "entry_interface W N hash_of" and "hashes_ok hash_of B"
    and "index_inv (b_index B)" and "watermarks_ok (b_index B)"
    and "sizes (entries_set (b_index B)) < 2 ^ 64"
    and "\<not> eviction_in_progress (b_index B)" and "high_watermark (b_index B) < cache_size (b_index B)"
  shows "cache_size (b_index (start_eviction N W now B)) \<le> low_watermark (b_index B)
    \<and> (\<forall>h m. (h, m) \<in> set (entries_set (b_index B)) \<longrightarrow>
          (h, m) \<in> set (entries_set (b_index (start_eviction N W now B)))
          \<or> wFind W h (post_doom_waiting (start_eviction N W now B)) \<noteq> None)"
proof -
  let ?ix = "StartEvictionIfNeeded now (b_index B)" and ?B = "B\<lparr>b_index := StartEvictionIfNeeded now (b_index B)\<rparr>"
  obtain hs where hs: "outbox ?ix = outbox (b_index B) @ [DoomEntriesCall hs]" "distinct hs"
    "cache_size (fold Remove hs (b_index B)) \<le> low_watermark (b_index B)"
    using evicted_hashes [OF assms(3-7)] by blast
  have ix: "index_inv ?ix" "entries_set ?ix = entries_set (b_index B)" using assms(3) by auto
  have run: "start_eviction N W now B = DoomEntries N W hs EvictionDoneCallback ?B"
    by (simp add: start_eviction_def hs(1) del: DoomEntries.simps)
  have "hashes_ok hash_of ?B" using assms(2) by (simp add: hashes_ok_def)
  from entry_interface.DoomEntries_effect [OF assms(1) this hs(2)] obtain B0 mass barrier where
    d: "doomed_set W (set hs) ?B B0" "start_eviction N W now B = notify [PostDeleteEntrySetFiles mass barrier] B0"
    unfolding run by blast
  have e: "entries_set (b_index B0) = erase_all (set hs) (entries_set (b_index B))" "index_inv (b_index B0)"
    using doomed_setD(5,6) [OF d(1)] ix by simp_all
  have "cache_size (b_index B0) \<le> low_watermark (b_index B)"
    using cache_size_erased [OF assms(3) e(2,1)] hs(3) by simp
  moreover have "(h, m) \<in> set (entries_set (b_index B0)) \<or> wFind W h (post_doom_waiting B0) \<noteq> None"
    if "(h, m) \<in> set (entries_set (b_index B))" for h m
    using that doomed_setD(1) [OF d(1), of h] by (cases "h \<in> set hs") (auto simp: e(1) erase_all_def)
  ultimately show ?thesis by (simp add: d(2) notify_def)
qed

lemma eviction_through_backend_witness:
  "cache_size (b_index (start_eviction stored_entries map_waiters 0 sample_backend)) \<le> low_watermark sample_index"
proof -
  have ix: "b_index sample_backend = sample_index" by (simp add: sample_backend_def new_backend_def)
  show ?thesis
    using eviction_through_backend [OF stored.entry_interface_axioms sample_hashes_ok, unfolded ix, of 0]
      sample_index_facts by blast
qed

end
