(* ===== verification/Backend_Iterator.thy ===== *)
theory Backend_Iterator imports Backend_Laws begin

text \<open>
  The iterator: every step takes hashes from the back of the vector, so each hash is tried once and the
  iteration ends, whatever the entries answer. The entries must leave the iterators alone, which
  extends what is assumed of them.
\<close>

locale iterator_entries = entry_interface +
  assumes open_law: "eOpenEntry N en cb B = (r, B') \<Longrightarrow>
      hashes_to_enumerate B' = hashes_to_enumerate B \<and> b_alive B' = b_alive B"
begin

lemma OpenEntryFromHash_iterators:
  assumes "OpenEntryFromHash N W Y h cb B = (r, B')"
  shows "hashes_to_enumerate B' = hashes_to_enumerate B"
proof (cases "wFind W h (post_doom_waiting B)")
  case (Some cs)
  with assms show ?thesis by (auto simp: OpenEntryFromHash_def push_post_operation_def)
next
  case np: None
  show ?thesis
  proof (cases "active_entries B h")
    case (Some en)
    with assms np open_law show ?thesis by (auto simp: OpenEntryFromHash_def)
  next
    case None
    obtain en B1 where n: "new_entry N Y h (HIGHEST Y) B = (en, B1)" by force
    then obtain p where "eNew N h (entry_operations_mode B) p (B\<lparr>entry_count := entry_count B + 1\<rparr>) = (en, B1)"
      by (auto simp: new_entry_def GetNewEntryPriority_def)
    from new_law [OF this] have B1: "hashes_to_enumerate B1 = hashes_to_enumerate B"
      by (auto simp: only_world_def)
    let ?B2 = "B1\<lparr>active_entries := (active_entries B1)(h \<mapsto> en)\<rparr>"
    let ?B3 = "eSetActiveEntryProxy N en h ?B2"
    have B3: "hashes_to_enumerate ?B3 = hashes_to_enumerate B1"
      using conjunct1 [OF proxy_law [of ?B2 en h en]] by (auto simp: only_world_def)
    have "eOpenEntry N en (OnEntryOpenedFromHash h cb)
        (?B3\<lparr>post_open_by_hash_waiting := wStart W h (post_open_by_hash_waiting ?B3)\<rparr>) = (r, B')"
      using assms np None by (simp add: OpenEntryFromHash_def n Let_def)
    from open_law [OF this] B3 B1 show ?thesis by simp
  qed
qed

lemma open_next_shrinks:
  assumes "hashes_to_enumerate B it = Some (rev hs)"
  shows "\<exists>k. hashes_to_enumerate (open_next N W Y it n hs B) it = Some (rev (drop k hs))
    \<and> (hs \<noteq> [] \<longrightarrow> 0 < k)
    \<and> (hs = [] \<longrightarrow> open_next N W Y it n hs B = notify [RunEntryClient n (MakeError (Err ERR_FAILED))] B)"
  using assms
proof (induction hs arbitrary: B)
  case Nil
  then show ?case by (simp add: notify_def)
next
  case (Cons h hs)
  let ?B = "set_iterator it (rev hs) B"
  have set: "hashes_to_enumerate ?B it = Some (rev hs)" by (simp add: set_iterator_def)
  have step: "\<exists>k. hashes_to_enumerate (open_next N W Y it n hs B1) it = Some (rev (drop k (h # hs))) \<and> 0 < k"
    if "hashes_to_enumerate B1 it = Some (rev hs)" for B1
  proof -
    from Cons.IH [OF that] obtain k where "hashes_to_enumerate (open_next N W Y it n hs B1) it = Some (rev (drop k hs))"
      by blast
    then show ?thesis by (intro exI [of _ "Suc k"]) simp
  qed
  show ?case
  proof (cases "Has h (b_index ?B)")
    case False
    with step [OF set] show ?thesis by (simp add: Let_def)
  next
    case True
    obtain r B1 where o: "OpenEntryFromHash N W Y h (CheckIterationReturnValue it n) ?B = (r, B1)" by force
    have it: "hashes_to_enumerate B1 it = Some (rev hs)" using OpenEntryFromHash_iterators [OF o] set by simp
    have stop: "\<exists>k. hashes_to_enumerate B2 it = Some (rev (drop k (h # hs))) \<and> 0 < k"
      if "hashes_to_enumerate B2 it = Some (rev hs)" for B2 :: "('a, 'c, 'b) backend"
      using that by (intro exI [of _ 1]) simp
    show ?thesis
      using True o step [OF it] stop [OF it] stop [of "notify [RunEntryClient n r] B1"] it
      by (auto simp: Let_def notify_def)
  qed
qed

end

interpretation stored: iterator_entries map_waiters stored_entries fst
  by unfold_locales (auto simp: stored_entries_def update_store_def)

text \<open>C29: Every step of an iterator leaves a proper prefix of the hashes it had, all those of the index
at the first step, so no hash is tried twice; with none left the client is told the end. An iteration
over \<open>n\<close> entries therefore ends after at most \<open>n + 1\<close> steps.\<close>
theorem iterator_makes_progress:
  assumes "iterator_entries W N hash_of" and "b_alive B"
    and "hs = (case hashes_to_enumerate B it of None \<Rightarrow> GetAllHashes (b_index B) | Some hs \<Rightarrow> hs)"
  shows "\<exists>k. hashes_to_enumerate (OpenNextEntryImpl N W Y it n net_OK B) it = Some (take k hs)
    \<and> (hs \<noteq> [] \<longrightarrow> k < length hs)
    \<and> (hs = [] \<longrightarrow> b_log (OpenNextEntryImpl N W Y it n net_OK B)
          = b_log B @ [RunEntryClient n (MakeError (Err ERR_FAILED))])"
proof -
  define B0 where "B0 = (if hashes_to_enumerate B it = None then set_iterator it (GetAllHashes (b_index B)) B else B)"
  have B0: "hashes_to_enumerate B0 it = Some (rev (rev hs))" "b_log B0 = b_log B"
    using assms(3) by (auto simp: B0_def set_iterator_def split: option.splits)
  have run: "OpenNextEntryImpl N W Y it n net_OK B = open_next N W Y it n (rev hs) B0"
    using assms(2) B0(1) by (simp add: OpenNextEntryImpl_def B0_def [symmetric] Let_def)
  from iterator_entries.open_next_shrinks [OF assms(1) B0(1)] obtain k where
    k: "hashes_to_enumerate (open_next N W Y it n (rev hs) B0) it = Some (rev (drop k (rev hs)))"
      "hs \<noteq> [] \<longrightarrow> 0 < k"
      "hs = [] \<longrightarrow> open_next N W Y it n (rev hs) B0 = notify [RunEntryClient n (MakeError (Err ERR_FAILED))] B0"
    by auto
  have "rev (drop k (rev hs)) = take (length hs - k) hs" by (simp add: rev_drop)
  then show ?thesis unfolding run using k B0(2)
    by (intro exI [of _ "length hs - k"]) (auto simp: notify_def)
qed

lemma iterator_makes_progress_witness:
  "\<exists>k < length (GetAllHashes sample_index).
    hashes_to_enumerate (OpenNextEntryImpl stored_entries map_waiters sample_keys 0 1 net_OK sample_backend) 0
      = Some (take k (GetAllHashes sample_index))"
proof -
  have ix: "b_index sample_backend = sample_index" "b_alive sample_backend"
    "hashes_to_enumerate sample_backend 0 = None" by (simp_all add: sample_backend_def new_backend_def)
  have "GetAllHashes sample_index \<noteq> []" by (simp add: GetAllHashes_entries sample_index_def)
  then show ?thesis
    using iterator_makes_progress [OF stored.iterator_entries_axioms ix(2), of "GetAllHashes sample_index" 0
        sample_keys 1] ix by auto
qed

end
