(* ===== verification/Code_Cache_Format.thy ===== *)
theory Code_Cache_Format imports Entry_Metadata Entry_Format begin

text \<open>
  The keys and the entry layouts of the cache of generated code (generated_code_cache.cc). URLs,
  network isolation keys and the feature flags are not part of the sources: \<open>url_env\<close> has what the
  code asks of them. The two validity checks of the code are not fatal and are left out.
\<close>

section \<open>Keys\<close>

definition kSeparator :: bytes where "kSeparator = [32, 10]"

datatype CodeCacheType = kJavaScript | kWebAssembly | kWebUIJavaScript

text \<open>
  \<open>UrlToCodeCacheKey\<close> of Blink with the prefix it uses, the validity of an origin lock with its
  simplified specification, the network isolation key, and whether both features that split the cache
  are enabled.
\<close>

record ('u, 'n) url_env =
  UrlToCodeCacheKey :: "'u \<Rightarrow> bytes"
  kCodeCacheKeyPrefix :: bytes
  url_is_valid :: "'u \<Rightarrow> bool"
  SimplifiedSpec :: "'u \<Rightarrow> bytes"
  IsTransient :: "'n \<Rightarrow> bool"
  ToCacheKeyString :: "'n \<Rightarrow> bytes"
  IsSplitCodeCacheEnabled :: bool

definition GetResourceKey :: "('u, 'n) url_env \<Rightarrow> 'u \<Rightarrow> bytes" where
  "GetResourceKey U resource_url = UrlToCodeCacheKey U resource_url"

definition GetContextKey :: "('u, 'n) url_env \<Rightarrow> 'u \<Rightarrow> 'n \<Rightarrow> bytes" where
  "GetContextKey U origin_lock nik =
     (let key = (if url_is_valid U origin_lock then SimplifiedSpec U origin_lock else [])
      in if IsSplitCodeCacheEnabled U \<and> \<not> IsTransient U nik
         then key @ kSeparator @ ToCacheKeyString U nik else key)"

definition GetCacheKey :: "('u, 'n) url_env \<Rightarrow> 'u \<Rightarrow> 'u \<Rightarrow> 'n \<Rightarrow> bytes" where
  "GetCacheKey U resource_url origin_lock nik =
     GetResourceKey U resource_url @ kSeparator @ GetContextKey U origin_lock nik"

text \<open>\<open>std::string::find\<close>, \<open>None\<close> for \<open>npos\<close>; and \<open>substr\<close>, whose count is a \<open>size_t\<close>.\<close>

fun find_bytes :: "bytes \<Rightarrow> bytes \<Rightarrow> nat option" where
  "find_bytes pat [] = (if pat = [] then Some 0 else None)"
| "find_bytes pat (b # bs) =
     (if take (length pat) (b # bs) = pat then Some 0 else map_option Suc (find_bytes pat bs))"

definition substr :: "nat \<Rightarrow> u64 \<Rightarrow> bytes \<Rightarrow> bytes" where
  "substr pos count bs = take (unat count) (drop pos bs)"

definition GetResourceURLFromKey :: "('u, 'n) url_env \<Rightarrow> bytes \<Rightarrow> bytes" where
  "GetResourceURLFromKey U key =
     (let kPrefixStringLen = length (kCodeCacheKeyPrefix U)
      in case find_bytes kSeparator key of
           None \<Rightarrow> []
         | Some separator_index \<Rightarrow>
             if length key < kPrefixStringLen then []
             else substr kPrefixStringLen (of_nat separator_index - of_nat kPrefixStringLen) key)"

section \<open>Headers and layouts\<close>

definition kResponseTimeSizeInBytes :: nat where "kResponseTimeSizeInBytes = 8"
definition kDataSizeInBytes :: nat where "kDataSizeInBytes = 4"
definition kHeaderSizeInBytes :: nat where
  "kHeaderSizeInBytes = kResponseTimeSizeInBytes + kDataSizeInBytes"
definition kSHAKeySizeInBytes :: nat where "kSHAKeySizeInBytes = 2 * 32"
definition kInlineDataLimit :: nat where "kInlineDataLimit = 4096"
definition kDedicatedDataLimit :: nat where "kDedicatedDataLimit = 16384"

text \<open>
  A time is its number of microseconds. The header is written over the start of the buffer and read
  from it; \<open>None\<close> where the buffer is too short (a failing \<open>CHECK\<close> of the span).
\<close>

definition WriteCommonDataHeader :: "time \<Rightarrow> u32 \<Rightarrow> bytes \<Rightarrow> bytes option" where
  "WriteCommonDataHeader response_time data_size buffer =
     (if length buffer < kHeaderSizeInBytes then None
      else Some (le_bytes 8 (word_of_int response_time :: u64) @ le_bytes 4 data_size
                   @ drop kHeaderSizeInBytes buffer))"

definition ReadCommonDataHeader :: "bytes \<Rightarrow> (time \<times> u32) option" where
  "ReadCommonDataHeader buffer =
     (if length buffer < kHeaderSizeInBytes then None
      else Some (sint (le_word (take kResponseTimeSizeInBytes buffer) :: u64),
                 le_word (take kDataSizeInBytes (drop kResponseTimeSizeInBytes buffer))))"

definition CodeCacheTypeToNetCacheType :: "CodeCacheType \<Rightarrow> CacheType" where
  "CodeCacheTypeToNetCacheType ty =
     (case ty of
        kJavaScript \<Rightarrow> GENERATED_BYTE_CODE_CACHE
      | kWebAssembly \<Rightarrow> GENERATED_NATIVE_CODE_CACHE
      | kWebUIJavaScript \<Rightarrow> GENERATED_WEBUI_BYTE_CODE_CACHE)"

definition IsDeduplicationEnabled :: "CodeCacheType \<Rightarrow> bool" where
  "IsDeduplicationEnabled ty \<longleftrightarrow> ty \<noteq> kWebUIJavaScript"

definition ShouldDeduplicateEntry :: "CodeCacheType \<Rightarrow> u32 \<Rightarrow> bool" where
  "ShouldDeduplicateEntry ty data_size \<longleftrightarrow> unat data_size > kDedicatedDataLimit \<and> IsDeduplicationEnabled ty"

definition IsValidHeader :: "CodeCacheType \<Rightarrow> bytes \<Rightarrow> bool" where
  "IsValidHeader ty small_buffer =
     (let buffer_size = length small_buffer
      in if buffer_size < kHeaderSizeInBytes then False
         else
           (case ReadCommonDataHeader small_buffer of
              None \<Rightarrow> False
            | Some (_, data_size) \<Rightarrow>
                if unat data_size \<le> kInlineDataLimit
                then buffer_size = kHeaderSizeInBytes + unat data_size
                else if \<not> ShouldDeduplicateEntry ty data_size then buffer_size = kHeaderSizeInBytes
                else buffer_size = kHeaderSizeInBytes + kSHAKeySizeInBytes))"

text \<open>The hash and its spelling in hexadecimal digits.\<close>

record code_sys =
  code_Sha256 :: "bytes \<Rightarrow> bytes"
  HexEncode :: "bytes \<Rightarrow> bytes"

text \<open>
  The buffers that are written for the data: of the entry under the cache key, and, for a third
  layout, the checksum key with the buffers of the entry under it.
\<close>

definition checksum_key_of :: "code_sys \<Rightarrow> bytes \<Rightarrow> bytes" where
  "checksum_key_of H data = HexEncode H (code_Sha256 H data)"

definition entry_layout ::
    "code_sys \<Rightarrow> CodeCacheType \<Rightarrow> time \<Rightarrow> bytes \<Rightarrow> (bytes option \<times> bytes) \<times> (bytes \<times> bytes \<times> bytes) option" where
  "entry_layout H ty response_time data =
     (let data_size = of_nat (length data) :: u32
      in if unat data_size \<le> kInlineDataLimit
         then ((WriteCommonDataHeader response_time data_size (replicate kHeaderSizeInBytes 0 @ data), []), None)
         else if \<not> ShouldDeduplicateEntry ty data_size
         then ((WriteCommonDataHeader response_time data_size (replicate kHeaderSizeInBytes 0), data), None)
         else
           (let checksum_key = checksum_key_of H data
            in ((WriteCommonDataHeader response_time data_size
                   (replicate kHeaderSizeInBytes 0 @ checksum_key), []),
                Some (checksum_key, [], data))))"

end
