(* ===== verification/Code_Cache.thy ===== *)
theory Code_Cache imports Code_Cache_Format begin

text \<open>
  The operations of the cache of generated code (generated_code_cache.cc): the queue of the operations
  that wait for the backend, the queue per key of which only the first operation is issued, and the
  steps of writing, fetching and deleting.

  The disk backend with its entries and the in-memory cache are not part of the sources: the records
  \<open>disk_ops\<close> and \<open>lru_ops\<close> are their interfaces, over their own states. A call of the backend returns
  its result at once or \<open>ERR_IO_PENDING\<close>, and then the step that takes the result is run later. Pending
  operations live in a store and are known by their address there; a step that is given the address
  of an operation that is gone, calls a backend that is not there, takes the front of an empty queue, or reads
  outside a buffer, ends in a \<open>fault\<close>. A step goes on
  with the next operation of a key by the function it is given as \<open>next_op\<close>, which at last is
  \<open>IssueNextOperation\<close> itself, with as many nested calls as its first argument allows. Statistics are
  left out, and so are the checks that are not fatal.
\<close>

section \<open>State\<close>

datatype fault = Null_Backend | Operation_Gone | Failed_Check | Empty_Queue | Read_Outside | Out_Of_Fuel

datatype BackendState = kInitializing | kInitialized | kFailed

datatype Operation = kFetch | kFetchWithSHAKey | kWrite | kWriteWithSHAKey | kDelete | kGetBackend

record PendingOperation =
  operation :: Operation
  op_key :: bytes
  op_response_time :: time
  small_buffer :: bytes
  large_buffer :: bytes
  read_callback :: nat
  backend_callback :: nat
  completions :: nat
  succeeded :: bool

datatype 'e open_result = OpenError net_result | OpenedEntry 'e bool

record ('e, 'b) disk_ops =
  dOpenOrCreateEntry :: "bytes \<Rightarrow> 'b \<Rightarrow> 'e open_result \<times> 'b"
  dOpenEntry :: "bytes \<Rightarrow> 'b \<Rightarrow> 'e open_result \<times> 'b"
  dDoomEntry :: "bytes \<Rightarrow> 'b \<Rightarrow> 'b"
  dGetDataSize :: "'e \<Rightarrow> nat \<Rightarrow> 'b \<Rightarrow> nat"
  dWriteData :: "'e \<Rightarrow> nat \<Rightarrow> bytes \<Rightarrow> 'b \<Rightarrow> net_result \<times> 'b"
  dReadData :: "'e \<Rightarrow> nat \<Rightarrow> nat \<Rightarrow> 'b \<Rightarrow> (net_result \<times> bytes) \<times> 'b"
  dClose :: "'e \<Rightarrow> 'b \<Rightarrow> 'b"

record 'l lru_ops =
  lHas :: "bytes \<Rightarrow> 'l \<Rightarrow> bool"
  lGet :: "bytes \<Rightarrow> 'l \<Rightarrow> (time \<times> bytes) option \<times> 'l"
  lPut :: "bytes \<Rightarrow> time \<Rightarrow> bytes \<Rightarrow> 'l \<Rightarrow> 'l"
  lDelete :: "bytes \<Rightarrow> 'l \<Rightarrow> 'l"
  lClear :: "'l \<Rightarrow> 'l"

datatype code_effect = RunReadCallback_of nat time bytes | RunBackendCallback_of nat bool

record ('b, 'l) code_cache =
  backend_state :: BackendState
  cc_backend :: "'b option"
  pending_ops :: "nat list"
  active_entries_map :: "bytes \<Rightarrow> nat list option"
  cc_ops :: "nat \<Rightarrow> PendingOperation option"
  cc_next :: nat
  cc_type :: CodeCacheType
  lru_cache :: 'l
  kInMemoryCodeCache :: bool
  cc_log :: "code_effect list"

type_synonym ('b, 'l) outcome = "fault + ('b, 'l) code_cache"

fun and_then :: "fault + 'a \<Rightarrow> ('a \<Rightarrow> fault + 'b) \<Rightarrow> fault + 'b" where
  "and_then (Inl f) g = Inl f"
| "and_then (Inr x) g = g x"

definition new_op :: "Operation \<Rightarrow> bytes \<Rightarrow> PendingOperation" where
  "new_op oper key =
     \<lparr>operation = oper, op_key = key, op_response_time = 0, small_buffer = [], large_buffer = [],
      read_callback = 0, backend_callback = 0, completions = 0, succeeded = True\<rparr>"

definition new_code_cache :: "CodeCacheType \<Rightarrow> 'l \<Rightarrow> bool \<Rightarrow> ('b, 'l) code_cache" where
  "new_code_cache ty lru in_memory =
     \<lparr>backend_state = kInitializing, cc_backend = None, pending_ops = [], active_entries_map = (\<lambda>_. None),
      cc_ops = (\<lambda>_. None), cc_next = 0, cc_type = ty, lru_cache = lru, kInMemoryCodeCache = in_memory,
      cc_log = []\<rparr>"

definition get_op :: "nat \<Rightarrow> ('b, 'l) code_cache \<Rightarrow> (PendingOperation \<Rightarrow> fault + 'a) \<Rightarrow> fault + 'a" where
  "get_op a s g = (case cc_ops s a of None \<Rightarrow> Inl Operation_Gone | Some op \<Rightarrow> g op)"

definition set_op :: "nat \<Rightarrow> PendingOperation \<Rightarrow> ('b, 'l) code_cache \<Rightarrow> ('b, 'l) code_cache" where
  "set_op a op s = s\<lparr>cc_ops := (cc_ops s)(a \<mapsto> op)\<rparr>"

definition free_op :: "nat \<Rightarrow> ('b, 'l) code_cache \<Rightarrow> ('b, 'l) code_cache" where
  "free_op a s = s\<lparr>cc_ops := (cc_ops s)(a := None)\<rparr>"

definition alloc_op :: "PendingOperation \<Rightarrow> ('b, 'l) code_cache \<Rightarrow> nat \<times> ('b, 'l) code_cache" where
  "alloc_op op s = (cc_next s, (set_op (cc_next s) op s)\<lparr>cc_next := Suc (cc_next s)\<rparr>)"

definition cc_notify :: "code_effect \<Rightarrow> ('b, 'l) code_cache \<Rightarrow> ('b, 'l) code_cache" where
  "cc_notify e s = s\<lparr>cc_log := cc_log s @ [e]\<rparr>"

definition with_backend ::
    "('b, 'l) code_cache \<Rightarrow> ('b \<Rightarrow> ('b, 'l) outcome) \<Rightarrow> ('b, 'l) outcome" where
  "with_backend s g = (case cc_backend s of None \<Rightarrow> Inl Null_Backend | Some b \<Rightarrow> g b)"

definition put_backend :: "'b \<Rightarrow> ('b, 'l) code_cache \<Rightarrow> ('b, 'l) code_cache" where
  "put_backend b s = s\<lparr>cc_backend := Some b\<rparr>"

section \<open>The queues\<close>

text \<open>
  The first operation of the queue for the key of the operation \<open>a\<close> is taken out and returned. That it is \<open>a\<close>, and
  that the queue is not empty, is checked without ending the program; but an empty queue has no front.
\<close>

definition DequeueOperation :: "nat \<Rightarrow> ('b, 'l) code_cache \<Rightarrow> fault + nat \<times> ('b, 'l) code_cache" where
  "DequeueOperation a s =
     get_op a s (\<lambda>op.
       case active_entries_map s (op_key op) of
         None \<Rightarrow> Inl Failed_Check
       | Some [] \<Rightarrow> Inl Empty_Queue
       | Some (front # rest) \<Rightarrow>
           Inr (front, s\<lparr>active_entries_map := (active_entries_map s)(op_key op :=
                            if rest = [] then None else Some rest)\<rparr>))"

text \<open>What was taken out is kept alive until the next operation has been issued, and is then freed.\<close>

definition CloseOperationAndIssueNext ::
    "(bytes \<Rightarrow> ('b, 'l) code_cache \<Rightarrow> ('b, 'l) outcome) \<Rightarrow> nat \<Rightarrow> ('b, 'l) code_cache \<Rightarrow> ('b, 'l) outcome" where
  "CloseOperationAndIssueNext next_op a s =
     and_then (DequeueOperation a s) (\<lambda>(keep_alive, s).
       get_op a s (\<lambda>op. and_then (next_op (op_key op) s) (\<lambda>s. Inr (free_op keep_alive s))))"

definition EnqueueOperationAndIssueIfNext ::
    "(bytes \<Rightarrow> ('b, 'l) code_cache \<Rightarrow> ('b, 'l) outcome) \<Rightarrow> nat \<Rightarrow> ('b, 'l) code_cache \<Rightarrow> ('b, 'l) outcome" where
  "EnqueueOperationAndIssueIfNext next_op a s =
     get_op a s (\<lambda>op.
       let can_issue = active_entries_map s (op_key op) = None;
           queue = (case active_entries_map s (op_key op) of None \<Rightarrow> [] | Some q \<Rightarrow> q);
           s = s\<lparr>active_entries_map := (active_entries_map s)(op_key op \<mapsto> queue @ [a])\<rparr>
       in if can_issue then next_op (op_key op) s else Inr s)"

definition EnqueueOperation ::
    "(bytes \<Rightarrow> ('b, 'l) code_cache \<Rightarrow> ('b, 'l) outcome) \<Rightarrow> PendingOperation
       \<Rightarrow> ('b, 'l) code_cache \<Rightarrow> ('b, 'l) outcome" where
  "EnqueueOperation next_op op s =
     (case alloc_op op s of
        (a, s) \<Rightarrow>
          if backend_state s \<noteq> kInitialized then Inr (s\<lparr>pending_ops := pending_ops s @ [a]\<rparr>)
          else EnqueueOperationAndIssueIfNext next_op a s)"

text \<open>One more buffer is done: whether it was the second.\<close>

definition AddBufferCompletion :: "bool \<Rightarrow> PendingOperation \<Rightarrow> bool \<times> PendingOperation" where
  "AddBufferCompletion ok op =
     (let op = (if \<not> ok then op\<lparr>succeeded := False\<rparr> else op);
          op = op\<lparr>completions := completions op + 1\<rparr>
      in (completions op = 2, op))"

text \<open>A hit is kept in memory, unless the key is there.\<close>

definition RunReadCallback ::
    "'l lru_ops \<Rightarrow> PendingOperation \<Rightarrow> time \<Rightarrow> bytes \<Rightarrow> ('b, 'l) code_cache \<Rightarrow> ('b, 'l) code_cache" where
  "RunReadCallback L op response_time data s =
     (let s = (if cc_type s = kJavaScript \<and> length data > 0 \<and> \<not> lHas L (op_key op) (lru_cache s)
               then s\<lparr>lru_cache := lPut L (op_key op) response_time data (lru_cache s)\<rparr> else s)
      in cc_notify (RunReadCallback_of (read_callback op) response_time data) s)"

definition CodeDoomEntry ::
    "('e, 'b) disk_ops \<Rightarrow> PendingOperation \<Rightarrow> ('b, 'l) code_cache \<Rightarrow> ('b, 'l) outcome" where
  "CodeDoomEntry D op s = with_backend s (\<lambda>b. Inr (put_backend (dDoomEntry D (op_key op) b) s))"

section \<open>Writing\<close>

definition WriteComplete ::
    "('e, 'b) disk_ops \<Rightarrow> (bytes \<Rightarrow> ('b, 'l) code_cache \<Rightarrow> ('b, 'l) outcome) \<Rightarrow> nat
       \<Rightarrow> ('b, 'l) code_cache \<Rightarrow> ('b, 'l) outcome" where
  "WriteComplete D next_op a s =
     get_op a s (\<lambda>op.
       and_then (if \<not> succeeded op then CodeDoomEntry D op s else Inr s)
         (CloseOperationAndIssueNext next_op a))"

definition WriteSmallBufferComplete ::
    "('e, 'b) disk_ops \<Rightarrow> (bytes \<Rightarrow> ('b, 'l) code_cache \<Rightarrow> ('b, 'l) outcome) \<Rightarrow> nat \<Rightarrow> net_result
       \<Rightarrow> ('b, 'l) code_cache \<Rightarrow> ('b, 'l) outcome" where
  "WriteSmallBufferComplete D next_op a rv s =
     get_op a s (\<lambda>op.
       case AddBufferCompletion (rv = Net (length (small_buffer op))) op of
         (done, op) \<Rightarrow>
           let s = set_op a op s in if done then WriteComplete D next_op a s else Inr s)"

definition WriteLargeBufferComplete ::
    "('e, 'b) disk_ops \<Rightarrow> (bytes \<Rightarrow> ('b, 'l) code_cache \<Rightarrow> ('b, 'l) outcome) \<Rightarrow> nat \<Rightarrow> net_result
       \<Rightarrow> ('b, 'l) code_cache \<Rightarrow> ('b, 'l) outcome" where
  "WriteLargeBufferComplete D next_op a rv s =
     get_op a s (\<lambda>op.
       case AddBufferCompletion (rv = Net (length (large_buffer op))) op of
         (done, op) \<Rightarrow>
           let s = set_op a op s in if done then WriteComplete D next_op a s else Inr s)"

text \<open>A buffer is written; its completion runs at once unless it is pending.\<close>

definition write_stream_of ::
    "('e, 'b) disk_ops \<Rightarrow> 'e \<Rightarrow> nat \<Rightarrow> bytes \<Rightarrow> (net_result \<Rightarrow> ('b, 'l) code_cache \<Rightarrow> ('b, 'l) outcome)
       \<Rightarrow> ('b, 'l) code_cache \<Rightarrow> ('b, 'l) outcome" where
  "write_stream_of D e stream buffer done s =
     with_backend s (\<lambda>b.
       case dWriteData D e stream buffer b of
         (result, b) \<Rightarrow>
           let s = put_backend b s in if result \<noteq> Err ERR_IO_PENDING then done result s else Inr s)"

definition close_entry :: "('e, 'b) disk_ops \<Rightarrow> 'e \<Rightarrow> ('b, 'l) code_cache \<Rightarrow> ('b, 'l) outcome" where
  "close_entry D e s = with_backend s (\<lambda>b. Inr (put_backend (dClose D e b) s))"

definition OpenCompleteForWrite ::
    "('e, 'b) disk_ops \<Rightarrow> (bytes \<Rightarrow> ('b, 'l) code_cache \<Rightarrow> ('b, 'l) outcome) \<Rightarrow> nat \<Rightarrow> 'e open_result
       \<Rightarrow> ('b, 'l) code_cache \<Rightarrow> ('b, 'l) outcome" where
  "OpenCompleteForWrite D next_op a entry_result s =
     (case entry_result of
        OpenError _ \<Rightarrow> CloseOperationAndIssueNext next_op a s
      | OpenedEntry e opened \<Rightarrow>
          get_op a s (\<lambda>op.
            with_backend s (\<lambda>b.
              if operation op = kWriteWithSHAKey \<and> dGetDataSize D e 0 b = 0
                 \<and> dGetDataSize D e 1 b = length (large_buffer op)
              then and_then (CloseOperationAndIssueNext next_op a s) (close_entry D e)
              else
                and_then (write_stream_of D e 0 (small_buffer op) (WriteSmallBufferComplete D next_op a) s)
                  (\<lambda>s. get_op a s (\<lambda>op.
                     and_then
                       (write_stream_of D e 1 (large_buffer op) (WriteLargeBufferComplete D next_op a) s)
                       (close_entry D e))))))"

definition WriteEntryImpl ::
    "('e, 'b) disk_ops \<Rightarrow> (bytes \<Rightarrow> ('b, 'l) code_cache \<Rightarrow> ('b, 'l) outcome) \<Rightarrow> nat
       \<Rightarrow> ('b, 'l) code_cache \<Rightarrow> ('b, 'l) outcome" where
  "WriteEntryImpl D next_op a s =
     (if backend_state s \<noteq> kInitialized then CloseOperationAndIssueNext next_op a s
      else
        get_op a s (\<lambda>op.
          with_backend s (\<lambda>b.
            case dOpenOrCreateEntry D (op_key op) b of
              (result, b) \<Rightarrow>
                let s = put_backend b s
                in if result \<noteq> OpenError (Err ERR_IO_PENDING) then OpenCompleteForWrite D next_op a result s
                   else Inr s)))"

section \<open>Fetching\<close>

text \<open>
  What follows a fetch whose buffers are complete: the data is in the small buffer, in the large one,
  or under the checksum key, which a second fetch asks for.
\<close>

definition deliver_fetched ::
    "'l lru_ops \<Rightarrow> (bytes \<Rightarrow> ('b, 'l) code_cache \<Rightarrow> ('b, 'l) outcome) \<Rightarrow> PendingOperation
       \<Rightarrow> ('b, 'l) code_cache \<Rightarrow> ('b, 'l) outcome" where
  "deliver_fetched L next_op op s =
     (if operation op = kFetchWithSHAKey
      then Inr (RunReadCallback L op (op_response_time op) (large_buffer op) s)
      else
        (case ReadCommonDataHeader (small_buffer op) of
           None \<Rightarrow> Inl Failed_Check
         | Some (response_time, data_size) \<Rightarrow>
             if unat data_size \<le> kInlineDataLimit
             then (if length (small_buffer op) < kHeaderSizeInBytes + unat data_size then Inl Failed_Check
                   else Inr (RunReadCallback L op response_time
                               (slice kHeaderSizeInBytes (unat data_size) (small_buffer op)) s))
             else if \<not> ShouldDeduplicateEntry (cc_type s) data_size
             then Inr (RunReadCallback L op response_time (large_buffer op) s)
             else if length (small_buffer op) < kHeaderSizeInBytes + kSHAKeySizeInBytes then Inl Read_Outside
             else
               (let checksum_key = slice kHeaderSizeInBytes kSHAKeySizeInBytes (small_buffer op)
                in EnqueueOperation next_op
                     ((new_op kFetchWithSHAKey checksum_key)
                        \<lparr>op_response_time := response_time, large_buffer := replicate (unat data_size) 0,
                         read_callback := read_callback op\<rparr>) s)))"

definition ReadComplete ::
    "('e, 'b) disk_ops \<Rightarrow> 'l lru_ops \<Rightarrow> (bytes \<Rightarrow> ('b, 'l) code_cache \<Rightarrow> ('b, 'l) outcome) \<Rightarrow> nat
       \<Rightarrow> ('b, 'l) code_cache \<Rightarrow> ('b, 'l) outcome" where
  "ReadComplete D L next_op a s =
     get_op a s (\<lambda>op.
       and_then
         (if \<not> succeeded op then CodeDoomEntry D op (RunReadCallback L op 0 [] s)
          else deliver_fetched L next_op op s)
         (CloseOperationAndIssueNext next_op a))"

text \<open>A result of reading a stream: a code or a count, and the bytes put at the start of the buffer.\<close>

definition fill :: "bytes \<Rightarrow> bytes \<Rightarrow> bytes" where
  "fill bs buffer = take (length buffer) bs @ drop (length bs) buffer"

definition ReadLargeBufferComplete ::
    "('e, 'b) disk_ops \<Rightarrow> 'l lru_ops \<Rightarrow> (bytes \<Rightarrow> ('b, 'l) code_cache \<Rightarrow> ('b, 'l) outcome) \<Rightarrow> nat
       \<Rightarrow> net_result \<times> bytes \<Rightarrow> ('b, 'l) code_cache \<Rightarrow> ('b, 'l) outcome" where
  "ReadLargeBufferComplete D L next_op a res s =
     get_op a s (\<lambda>op.
       let op = op\<lparr>large_buffer := fill (snd res) (large_buffer op)\<rparr>
       in case AddBufferCompletion (fst res = Net (length (large_buffer op))) op of
            (done, op) \<Rightarrow>
              let s = set_op a op s in if done then ReadComplete D L next_op a s else Inr s)"

definition ReadSmallBufferComplete ::
    "('e, 'b) disk_ops \<Rightarrow> 'l lru_ops \<Rightarrow> (bytes \<Rightarrow> ('b, 'l) code_cache \<Rightarrow> ('b, 'l) outcome) \<Rightarrow> nat
       \<Rightarrow> net_result \<times> bytes \<Rightarrow> ('b, 'l) code_cache \<Rightarrow> ('b, 'l) outcome" where
  "ReadSmallBufferComplete D L next_op a res s =
     get_op a s (\<lambda>op.
       let op = op\<lparr>small_buffer := fill (snd res) (small_buffer op)\<rparr>;
           no_header = operation op = kFetchWithSHAKey;
           ok = (fst res = Net (length (small_buffer op))
                 \<and> (no_header \<or> IsValidHeader (cc_type s) (small_buffer op)))
       in case AddBufferCompletion ok op of
            (done, op) \<Rightarrow>
              let s = set_op a op s
              in and_then (if done then ReadComplete D L next_op a s else Inr s)
                   (\<lambda>s. get_op a s (\<lambda>op.
                      if length (large_buffer op) = 0
                      then ReadLargeBufferComplete D L next_op a (Net 0, []) s else Inr s)))"

definition read_stream_of ::
    "('e, 'b) disk_ops \<Rightarrow> 'e \<Rightarrow> nat \<Rightarrow> nat
       \<Rightarrow> (net_result \<times> bytes \<Rightarrow> ('b, 'l) code_cache \<Rightarrow> ('b, 'l) outcome)
       \<Rightarrow> ('b, 'l) code_cache \<Rightarrow> ('b, 'l) outcome" where
  "read_stream_of D e stream n done s =
     with_backend s (\<lambda>b.
       case dReadData D e stream n b of
         (result, b) \<Rightarrow>
           let s = put_backend b s in if fst result \<noteq> Err ERR_IO_PENDING then done result s else Inr s)"

definition OpenCompleteForRead ::
    "('e, 'b) disk_ops \<Rightarrow> 'l lru_ops \<Rightarrow> (bytes \<Rightarrow> ('b, 'l) code_cache \<Rightarrow> ('b, 'l) outcome) \<Rightarrow> nat
       \<Rightarrow> 'e open_result \<Rightarrow> ('b, 'l) code_cache \<Rightarrow> ('b, 'l) outcome" where
  "OpenCompleteForRead D L next_op a entry_result s =
     get_op a s (\<lambda>op.
       case entry_result of
         OpenError _ \<Rightarrow> CloseOperationAndIssueNext next_op a (RunReadCallback L op 0 [] s)
       | OpenedEntry e _ \<Rightarrow>
           with_backend s (\<lambda>b.
             let small_size = dGetDataSize D e 0 b;
                 large_size = dGetDataSize D e 1 b;
                 op = (if operation op = kFetch
                       then op\<lparr>small_buffer := replicate small_size 0,
                               large_buffer := replicate large_size 0\<rparr>
                       else op);
                 s = set_op a op s
             in and_then
                  (read_stream_of D e 0 (length (small_buffer op)) (ReadSmallBufferComplete D L next_op a) s)
                  (\<lambda>s. if large_size = 0 then close_entry D e s
                       else get_op a s (\<lambda>op.
                         and_then
                           (read_stream_of D e 1 (length (large_buffer op))
                              (ReadLargeBufferComplete D L next_op a) s)
                           (close_entry D e)))))"

definition FetchEntryImpl ::
    "('e, 'b) disk_ops \<Rightarrow> 'l lru_ops \<Rightarrow> (bytes \<Rightarrow> ('b, 'l) code_cache \<Rightarrow> ('b, 'l) outcome) \<Rightarrow> nat
       \<Rightarrow> ('b, 'l) code_cache \<Rightarrow> ('b, 'l) outcome" where
  "FetchEntryImpl D L next_op a s =
     get_op a s (\<lambda>op.
       case (if kInMemoryCodeCache s then lGet L (op_key op) (lru_cache s) else (None, lru_cache s)) of
         (Some (response_time, data), lru) \<Rightarrow>
           CloseOperationAndIssueNext next_op a
             (RunReadCallback L op response_time data (s\<lparr>lru_cache := lru\<rparr>))
       | (None, lru) \<Rightarrow>
           let s = s\<lparr>lru_cache := lru\<rparr>
           in if backend_state s \<noteq> kInitialized
           then CloseOperationAndIssueNext next_op a (RunReadCallback L op 0 [] s)
           else
             with_backend s (\<lambda>b.
               case dOpenEntry D (op_key op) b of
                 (result, b) \<Rightarrow>
                   let s = put_backend b s
                   in if result \<noteq> OpenError (Err ERR_IO_PENDING)
                      then OpenCompleteForRead D L next_op a result s else Inr s))"

section \<open>Deleting and issuing\<close>

definition DeleteEntryImpl ::
    "('e, 'b) disk_ops \<Rightarrow> (bytes \<Rightarrow> ('b, 'l) code_cache \<Rightarrow> ('b, 'l) outcome) \<Rightarrow> nat
       \<Rightarrow> ('b, 'l) code_cache \<Rightarrow> ('b, 'l) outcome" where
  "DeleteEntryImpl D next_op a s =
     get_op a s (\<lambda>op. and_then (CodeDoomEntry D op s) (CloseOperationAndIssueNext next_op a))"

definition DoPendingGetBackend :: "nat \<Rightarrow> ('b, 'l) code_cache \<Rightarrow> ('b, 'l) outcome" where
  "DoPendingGetBackend a s =
     get_op a s (\<lambda>op. Inr (cc_notify (RunBackendCallback_of (backend_callback op)
                                       (backend_state s = kInitialized)) s))"

definition IssueOperation ::
    "('e, 'b) disk_ops \<Rightarrow> 'l lru_ops \<Rightarrow> (bytes \<Rightarrow> ('b, 'l) code_cache \<Rightarrow> ('b, 'l) outcome) \<Rightarrow> nat
       \<Rightarrow> ('b, 'l) code_cache \<Rightarrow> ('b, 'l) outcome" where
  "IssueOperation D L next_op a s =
     get_op a s (\<lambda>op.
       case operation op of
         kFetch \<Rightarrow> FetchEntryImpl D L next_op a s
       | kFetchWithSHAKey \<Rightarrow> FetchEntryImpl D L next_op a s
       | kWrite \<Rightarrow> WriteEntryImpl D next_op a s
       | kWriteWithSHAKey \<Rightarrow> WriteEntryImpl D next_op a s
       | kDelete \<Rightarrow> DeleteEntryImpl D next_op a s
       | kGetBackend \<Rightarrow> DoPendingGetBackend a s)"

fun IssueNextOperation ::
    "('e, 'b) disk_ops \<Rightarrow> 'l lru_ops \<Rightarrow> nat \<Rightarrow> bytes \<Rightarrow> ('b, 'l) code_cache \<Rightarrow> ('b, 'l) outcome" where
  "IssueNextOperation D L 0 key s = Inl Out_Of_Fuel"
| "IssueNextOperation D L (Suc fuel) key s =
     (case active_entries_map s key of
        None \<Rightarrow> Inr s
      | Some [] \<Rightarrow> Inl Empty_Queue
      | Some (a # _) \<Rightarrow> IssueOperation D L (IssueNextOperation D L fuel) a s)"

section \<open>The interface\<close>

definition GetBackend :: "nat \<Rightarrow> ('b, 'l) code_cache \<Rightarrow> ('b, 'l) code_cache" where
  "GetBackend cb s =
     (case backend_state s of
        kFailed \<Rightarrow> cc_notify (RunBackendCallback_of cb False) s
      | kInitialized \<Rightarrow> cc_notify (RunBackendCallback_of cb True) s
      | kInitializing \<Rightarrow>
          (case alloc_op ((new_op kGetBackend [])\<lparr>backend_callback := cb\<rparr>) s of
             (a, s) \<Rightarrow> s\<lparr>pending_ops := pending_ops s @ [a]\<rparr>))"

definition WriteEntry ::
    "('e, 'b) disk_ops \<Rightarrow> 'l lru_ops \<Rightarrow> ('u, 'n) url_env \<Rightarrow> code_sys \<Rightarrow> nat \<Rightarrow> 'u \<Rightarrow> 'u \<Rightarrow> 'n \<Rightarrow> time \<Rightarrow> bytes
       \<Rightarrow> ('b, 'l) code_cache \<Rightarrow> ('b, 'l) outcome" where
  "WriteEntry D L U H fuel url origin_lock nik response_time data s =
     (if backend_state s = kFailed then Inr s
      else if length data \<ge> 2 ^ 31 - 1 then Inr s
      else
        (let key = GetCacheKey U url origin_lock nik;
             s = (if cc_type s = kJavaScript
                  then s\<lparr>lru_cache := lPut L key response_time data (lru_cache s)\<rparr> else s);
             next_op = IssueNextOperation D L fuel
         in case entry_layout H (cc_type s) response_time data of
              ((small, large), checksum_entry) \<Rightarrow>
                and_then
                  (case checksum_entry of
                     None \<Rightarrow> Inr s
                   | Some (checksum_key, small2, large2) \<Rightarrow>
                       EnqueueOperation next_op
                         ((new_op kWriteWithSHAKey checksum_key)\<lparr>small_buffer := small2, large_buffer := large2\<rparr>)
                         s)
                  (\<lambda>s. case small of
                         None \<Rightarrow> Inl Failed_Check
                       | Some header \<Rightarrow>
                           EnqueueOperation next_op
                             ((new_op kWrite key)\<lparr>small_buffer := header, large_buffer := large\<rparr>) s)))"

definition FetchEntry ::
    "('e, 'b) disk_ops \<Rightarrow> 'l lru_ops \<Rightarrow> ('u, 'n) url_env \<Rightarrow> nat \<Rightarrow> 'u \<Rightarrow> 'u \<Rightarrow> 'n \<Rightarrow> nat
       \<Rightarrow> ('b, 'l) code_cache \<Rightarrow> ('b, 'l) outcome" where
  "FetchEntry D L U fuel url origin_lock nik cb s =
     (if backend_state s = kFailed then Inr (cc_notify (RunReadCallback_of cb 0 []) s)
      else
        (let key = GetCacheKey U url origin_lock nik
         in EnqueueOperation (IssueNextOperation D L fuel) ((new_op kFetch key)\<lparr>read_callback := cb\<rparr>) s))"

definition DeleteEntry ::
    "('e, 'b) disk_ops \<Rightarrow> 'l lru_ops \<Rightarrow> ('u, 'n) url_env \<Rightarrow> nat \<Rightarrow> 'u \<Rightarrow> 'u \<Rightarrow> 'n
       \<Rightarrow> ('b, 'l) code_cache \<Rightarrow> ('b, 'l) outcome" where
  "DeleteEntry D L U fuel url origin_lock nik s =
     (if backend_state s = kFailed then Inr s
      else
        (let key = GetCacheKey U url origin_lock nik
         in and_then (EnqueueOperation (IssueNextOperation D L fuel) (new_op kDelete key) s)
              (\<lambda>s. Inr (s\<lparr>lru_cache := lDelete L key (lru_cache s)\<rparr>))))"

definition ClearInMemoryCache :: "'l lru_ops \<Rightarrow> ('b, 'l) code_cache \<Rightarrow> ('b, 'l) code_cache" where
  "ClearInMemoryCache L s = s\<lparr>lru_cache := lClear L (lru_cache s)\<rparr>"

text \<open>The operations that came before the backend was there, in their order.\<close>

fun issue_pending ::
    "('e, 'b) disk_ops \<Rightarrow> 'l lru_ops \<Rightarrow> nat \<Rightarrow> nat list \<Rightarrow> ('b, 'l) code_cache \<Rightarrow> ('b, 'l) outcome" where
  "issue_pending D L fuel [] s = Inr s"
| "issue_pending D L fuel (a # as) s =
     (let s = s\<lparr>pending_ops := as\<rparr>
      in and_then
           (get_op a s (\<lambda>op.
              if operation op \<noteq> kGetBackend
              then EnqueueOperationAndIssueIfNext (IssueNextOperation D L fuel) a s
              else and_then (IssueOperation D L (IssueNextOperation D L fuel) a s) (\<lambda>s. Inr (free_op a s))))
           (issue_pending D L fuel as))"

definition IssuePendingOperations ::
    "('e, 'b) disk_ops \<Rightarrow> 'l lru_ops \<Rightarrow> nat \<Rightarrow> ('b, 'l) code_cache \<Rightarrow> ('b, 'l) outcome" where
  "IssuePendingOperations D L fuel s = issue_pending D L fuel (pending_ops s) s"

datatype 'b backend_result = BackendError net_result | Backend 'b

definition DidCreateBackend ::
    "('e, 'b) disk_ops \<Rightarrow> 'l lru_ops \<Rightarrow> nat \<Rightarrow> 'b backend_result \<Rightarrow> ('b, 'l) code_cache
       \<Rightarrow> ('b, 'l) outcome" where
  "DidCreateBackend D L fuel result s =
     (case result of
        BackendError _ \<Rightarrow> IssuePendingOperations D L fuel (s\<lparr>backend_state := kFailed\<rparr>)
      | Backend b \<Rightarrow>
          IssuePendingOperations D L fuel (s\<lparr>cc_backend := Some b, backend_state := kInitialized\<rparr>))"

text \<open>Called by the constructor, with what the creation of the backend returns.\<close>

definition CreateBackend ::
    "('e, 'b) disk_ops \<Rightarrow> 'l lru_ops \<Rightarrow> nat \<Rightarrow> 'b backend_result \<Rightarrow> ('b, 'l) code_cache
       \<Rightarrow> ('b, 'l) outcome" where
  "CreateBackend D L fuel result s =
     (if result \<noteq> BackendError (Err ERR_IO_PENDING) then DidCreateBackend D L fuel result s else Inr s)"

end
