(* ===== verification/Code_Cache_Keys.thy ===== *)
theory Code_Cache_Keys imports Code_Cache_Format begin

text \<open>
  Properties of the keys and the entry layouts of the cache of generated code: what a key determines,
  how the resource is read back from it, and which small buffers the header check accepts. That URLs
  hold no control characters is what the code relies on; it is a hypothesis where it is used.
\<close>

section \<open>Finding the separator\<close>

lemma find_separator [simp]:
  "10 \<notin> set bs \<Longrightarrow> find_bytes kSeparator (bs @ kSeparator @ rest) = Some (length bs)"
proof (induction bs)
  case Nil
  show ?case by (simp add: kSeparator_def)
next
  case (Cons b bs)
  have "take 2 (b # bs @ kSeparator @ rest) \<noteq> kSeparator"
    using Cons.prems by (cases bs) (auto simp: kSeparator_def)
  then show ?case using Cons by (simp add: kSeparator_def)
qed

lemma find_no_separator [simp]: "10 \<notin> set bs \<Longrightarrow> find_bytes kSeparator bs = None"
proof (induction bs)
  case (Cons b bs)
  have "take 2 (b # bs) \<noteq> kSeparator"
    using Cons.prems by (cases bs) (auto simp: kSeparator_def)
  then show ?case using Cons by (simp add: kSeparator_def)
qed (simp add: kSeparator_def)

lemma separated_eq:
  assumes "10 \<notin> set xs" and "10 \<notin> set ys"
  shows "xs @ kSeparator @ us = ys @ kSeparator @ vs \<longleftrightarrow> xs = ys \<and> us = vs"
proof
  assume *: "xs @ kSeparator @ us = ys @ kSeparator @ vs"
  then have "find_bytes kSeparator (xs @ kSeparator @ us) = find_bytes kSeparator (ys @ kSeparator @ vs)"
    by simp
  then have "length xs = length ys" by (simp only: find_separator [OF assms(1)] find_separator [OF assms(2)] option.inject)
  with * show "xs = ys \<and> us = vs" by simp
qed simp

lemma separator_in: "10 \<in> set (xs @ kSeparator @ ys)"
  by (simp add: kSeparator_def)

lemma context_key_eq:
  assumes "10 \<notin> set (SimplifiedSpec U a)" and "10 \<notin> set (SimplifiedSpec U b)"
  shows "GetContextKey U a n = GetContextKey U b m \<longleftrightarrow>
           (if url_is_valid U a then SimplifiedSpec U a else []) = (if url_is_valid U b then SimplifiedSpec U b else [])
           \<and> (IsSplitCodeCacheEnabled U \<longrightarrow> IsTransient U n = IsTransient U m
                \<and> (\<not> IsTransient U n \<longrightarrow> ToCacheKeyString U n = ToCacheKeyString U m))"
    (is "_ \<longleftrightarrow> ?a = ?b \<and> _")
proof -
  have no: "10 \<notin> set ?a" "10 \<notin> set ?b" using assms by auto
  have ne: "?a \<noteq> ?b @ kSeparator @ y" "?b @ kSeparator @ y \<noteq> ?a" "?b \<noteq> ?a @ kSeparator @ y" "?a @ kSeparator @ y \<noteq> ?b" for y
    using no separator_in [of ?b y] separator_in [of ?a y] by metis+
  show ?thesis
    unfolding GetContextKey_def Let_def
    by (cases "IsSplitCodeCacheEnabled U"; cases "IsTransient U n"; cases "IsTransient U m")
      (simp_all only: separated_eq [OF no] ne simp_thms if_True if_False)
qed

text \<open>C23: The key of a request determines what the cache is split by, and nothing else: two keys are
  equal exactly if the keys of the resources, the simplified origin locks and, when the cache is split,
  the network isolation keys agree, where all transient isolation keys count as one. And a key made of
  the hexadecimal digits of a checksum is never the key of a request.\<close>

theorem cache_key_determines_request:
  assumes "10 \<notin> set (UrlToCodeCacheKey U u)" and "10 \<notin> set (UrlToCodeCacheKey U v)"
    and "10 \<notin> set (SimplifiedSpec U a)" and "10 \<notin> set (SimplifiedSpec U b)"
    and "10 \<notin> set (checksum_key_of H data)"
  shows "(GetCacheKey U u a n = GetCacheKey U v b m \<longleftrightarrow>
            UrlToCodeCacheKey U u = UrlToCodeCacheKey U v
            \<and> (if url_is_valid U a then SimplifiedSpec U a else [])
               = (if url_is_valid U b then SimplifiedSpec U b else [])
            \<and> (IsSplitCodeCacheEnabled U \<longrightarrow> IsTransient U n = IsTransient U m
                 \<and> (\<not> IsTransient U n \<longrightarrow> ToCacheKeyString U n = ToCacheKeyString U m)))
         \<and> GetCacheKey U u a n \<noteq> checksum_key_of H data"
proof
  show "GetCacheKey U u a n \<noteq> checksum_key_of H data"
    using assms(5) separator_in [of "UrlToCodeCacheKey U u"] unfolding GetCacheKey_def GetResourceKey_def
    by metis
qed (simp only: GetCacheKey_def GetResourceKey_def separated_eq [OF assms(1,2)]
       context_key_eq [OF assms(3,4)])

text \<open>
  A small instance: resources and origins are numbers, written as so many letters after the prefix
  \<open>_k\<close>; the isolation key 0 is transient. A checksum is the length of its input, written with digits.
\<close>

definition sample_urls :: "(nat, nat) url_env" where
  "sample_urls =
     \<lparr>UrlToCodeCacheKey = (\<lambda>u. [95, 107] @ replicate u 97), kCodeCacheKeyPrefix = [95, 107],
      url_is_valid = (\<lambda>u. u \<noteq> 0), SimplifiedSpec = (\<lambda>u. replicate u 98), IsTransient = (\<lambda>n. n = 0),
      ToCacheKeyString = (\<lambda>n. replicate n 99), IsSplitCodeCacheEnabled = True\<rparr>"

definition sample_hash :: code_sys where
  "sample_hash =
     \<lparr>code_Sha256 = (\<lambda>bs. replicate 32 (of_nat (length bs))),
      HexEncode = (\<lambda>bs. concat (map (\<lambda>b. [48, if b = 0 then 48 else 49]) bs))\<rparr>"

lemma cache_key_determines_request_witness:
  "GetCacheKey sample_urls 1 2 0 \<noteq> GetCacheKey sample_urls 1 2 3
   \<and> GetCacheKey sample_urls 1 2 3 \<noteq> checksum_key_of sample_hash [1, 2]"
  using cache_key_determines_request [of sample_urls 1 1 2 2 sample_hash "[1, 2]" 0 3]
    cache_key_determines_request [of sample_urls 1 1 2 2 sample_hash "[1, 2]" 3 0]
  by (simp add: sample_urls_def sample_hash_def checksum_key_of_def)

section \<open>The resource of a key\<close>

lemma substr_count:
  "i \<le> j \<Longrightarrow> j < 2 ^ 64 \<Longrightarrow> substr i (of_nat j - of_nat i) bs = take (j - i) (drop i bs)"
  by (simp add: substr_def unat_of_nat take_bit_nat_eq_self flip: of_nat_diff)

text \<open>The URL of a resource is read back from its key: of the key of a request it is what follows the
  prefix, and a key without a separator, such as a checksum, gives the empty string.\<close>

theorem resource_url_roundtrip:
  assumes "UrlToCodeCacheKey U u = kCodeCacheKeyPrefix U @ spec" and "10 \<notin> set (UrlToCodeCacheKey U u)"
    and "length (UrlToCodeCacheKey U u) < 2 ^ 64" and "10 \<notin> set (checksum_key_of H data)"
  shows "GetResourceURLFromKey U (GetCacheKey U u a n) = spec
         \<and> GetResourceURLFromKey U (checksum_key_of H data) = []"
proof -
  have "length (kCodeCacheKeyPrefix U) \<le> length (UrlToCodeCacheKey U u)" using assms(1) by simp
  then show ?thesis
    using assms
    by (simp add: GetResourceURLFromKey_def GetCacheKey_def GetResourceKey_def substr_count
        find_separator [OF assms(2)] del: of_nat_add append_assoc)
qed

lemma resource_url_roundtrip_witness:
  "GetResourceURLFromKey sample_urls (GetCacheKey sample_urls 3 2 1) = [97, 97, 97]"
  using resource_url_roundtrip [of sample_urls 3 "[97, 97, 97]" sample_hash "[1, 2]" 2 1]
  by (simp add: sample_urls_def sample_hash_def checksum_key_of_def numeral_3_eq_3)

lemma substr_wrapped_count:
  assumes "i < j" and "j \<le> length bs" and "length bs < 2 ^ 63"
  shows "substr j (of_nat i - of_nat j) bs = drop j bs"
proof -
  have "unat ((of_nat i :: u64) - of_nat j) = 2 ^ 64 - (j - i)"
    using assms by (simp add: unat_sub_if' unat_of_nat take_bit_nat_eq_self)
  then show ?thesis using assms by (simp add: substr_def)
qed

text \<open>A key whose separator lies inside the prefix is not recognised as invalid: the count of bytes to
  take wraps around, and everything behind the prefix is returned as the URL.\<close>

theorem misplaced_separator_not_rejected:
  assumes "find_bytes kSeparator key = Some i" and "i < length (kCodeCacheKeyPrefix U)"
    and "length (kCodeCacheKeyPrefix U) \<le> length key" and "length key < 2 ^ 63"
  shows "GetResourceURLFromKey U key = drop (length (kCodeCacheKeyPrefix U)) key"
  using assms by (simp add: GetResourceURLFromKey_def substr_wrapped_count)

lemma misplaced_separator_not_rejected_witness:
  "GetResourceURLFromKey sample_urls [95, 32, 10, 97] = [10, 97]"
  using misplaced_separator_not_rejected [of "[95, 32, 10, 97]" 1 sample_urls]
  by (simp add: sample_urls_def kSeparator_def)

section \<open>Headers and layouts\<close>

lemmas header_size = kHeaderSizeInBytes_def kResponseTimeSizeInBytes_def kDataSizeInBytes_def

lemma read_written_header:
  assumes "WriteCommonDataHeader t n buffer = Some x" and "- (2 ^ 63) \<le> t" and "t < 2 ^ 63"
  shows "ReadCommonDataHeader x = Some (t, n)" and "length x = length buffer"
    and "drop kHeaderSizeInBytes x = drop kHeaderSizeInBytes buffer"
proof -
  have x: "x = le_bytes 8 (word_of_int t :: u64) @ le_bytes 4 n @ drop kHeaderSizeInBytes buffer"
    and len: "kHeaderSizeInBytes \<le> length buffer"
    using assms(1) by (auto simp: WriteCommonDataHeader_def split: if_splits)
  show "length x = length buffer" using len by (simp add: x header_size)
  show "drop kHeaderSizeInBytes x = drop kHeaderSizeInBytes buffer" by (simp add: x header_size)
  show "ReadCommonDataHeader x = Some (t, n)"
    using assms(2,3) wrap64_id [of t] by (simp add: ReadCommonDataHeader_def x header_size wrap64_def)
qed

text \<open>The small buffer of every layout is one that the header check accepts.\<close>

definition small_part :: "code_sys \<Rightarrow> CodeCacheType \<Rightarrow> bytes \<Rightarrow> bytes" where
  "small_part H ty data =
     (if length data \<le> kInlineDataLimit then data
      else if \<not> ShouldDeduplicateEntry ty (of_nat (length data)) then []
      else checksum_key_of H data)"

lemma unat_size: "length data < 2 ^ 31 \<Longrightarrow> unat (of_nat (length data) :: u32) = length data"
  by (simp add: unat_of_nat take_bit_nat_eq_self)

lemma layout_small:
  assumes "length data < 2 ^ 31" and "- (2 ^ 63) \<le> t" and "t < 2 ^ 63"
    and "length (checksum_key_of H data) = kSHAKeySizeInBytes"
  obtains x where "fst (fst (entry_layout H ty t data)) = Some x"
    and "ReadCommonDataHeader x = Some (t, of_nat (length data))"
    and "drop kHeaderSizeInBytes x = small_part H ty data"
    and "IsValidHeader ty x" and "length x = kHeaderSizeInBytes + length (small_part H ty data)"
proof -
  have l: "fst (fst (entry_layout H ty t data)) =
             WriteCommonDataHeader t (of_nat (length data)) (replicate kHeaderSizeInBytes 0 @ small_part H ty data)"
    by (simp add: entry_layout_def small_part_def Let_def unat_size [OF assms(1)])
  then obtain x where x: "fst (fst (entry_layout H ty t data)) = Some x" by (simp add: WriteCommonDataHeader_def)
  note r = read_written_header [OF x [unfolded l] assms(2,3)]
  have "IsValidHeader ty x"
    using r assms(4) by (simp add: IsValidHeader_def Let_def unat_size [OF assms(1)] small_part_def)
  with x r show thesis using that by simp
qed

end
