(* ===== verification/Code_Cache_Disk.thy ===== *)
theory Code_Cache_Disk imports Code_Cache Code_Cache_Keys begin

text \<open>
  What the cache of generated code relies on at the disk backend and at the memory cache, as named
  conditions over an abstract view: the two streams of the entry of each key, and the data held in
  memory for each key. Then the operations run alone on a key whose queue is empty.
\<close>

section \<open>The disk backend and the memory cache\<close>

text \<open>An entry has two streams, which are read and written at once and completely.\<close>

definition streams_ok ::
    "('e, 'b) disk_ops \<Rightarrow> ('b \<Rightarrow> bytes \<rightharpoonup> bytes \<times> bytes) \<Rightarrow> ('e \<Rightarrow> bytes) \<Rightarrow> bool" where
  "streams_ok D view entry_key \<longleftrightarrow>
     (\<forall>e b x y. view b (entry_key e) = Some (x, y) \<longrightarrow>
        dGetDataSize D e 0 b = length x \<and> dGetDataSize D e 1 b = length y
        \<and> (\<forall>bs. \<exists>b'. dWriteData D e 0 bs b = (Net (length bs), b') \<and> view b' = (view b)(entry_key e \<mapsto> (bs, y)))
        \<and> (\<forall>bs. \<exists>b'. dWriteData D e 1 bs b = (Net (length bs), b') \<and> view b' = (view b)(entry_key e \<mapsto> (x, bs)))
        \<and> (\<exists>b'. dReadData D e 0 (length x) b = ((Net (length x), x), b') \<and> view b' = view b)
        \<and> (\<exists>b'. dReadData D e 1 (length y) b = ((Net (length y), y), b') \<and> view b' = view b))
     \<and> (\<forall>e b. view (dClose D e b) = view b)
     \<and> (\<forall>k b. view (dDoomEntry D k b) = (view b)(k := None))"

text \<open>Entries are opened and created at once.\<close>

definition opens_at_once ::
    "('e, 'b) disk_ops \<Rightarrow> ('b \<Rightarrow> bytes \<rightharpoonup> bytes \<times> bytes) \<Rightarrow> ('e \<Rightarrow> bytes) \<Rightarrow> bool" where
  "opens_at_once D view entry_key \<longleftrightarrow>
     (\<forall>k b. \<exists>e was_there b'. dOpenOrCreateEntry D k b = (OpenedEntry e was_there, b') \<and> entry_key e = k
        \<and> view b' = (view b)(k \<mapsto> (case view b k of None \<Rightarrow> ([], []) | Some x \<Rightarrow> x)))
     \<and> (\<forall>k b x. view b k = Some x \<longrightarrow>
          (\<exists>e b'. dOpenEntry D k b = (OpenedEntry e True, b') \<and> entry_key e = k \<and> view b' = view b))"

text \<open>The memory cache holds what was put into it, as long as there is room.\<close>

definition lru_roomy :: "'l lru_ops \<Rightarrow> ('l \<Rightarrow> bytes \<rightharpoonup> time \<times> bytes) \<Rightarrow> bool" where
  "lru_roomy L held \<longleftrightarrow>
     (\<forall>k l. lHas L k l = (held l k \<noteq> None))
     \<and> (\<forall>k l. fst (lGet L k l) = held l k \<and> held (snd (lGet L k l)) = held l)
     \<and> (\<forall>k t d l. held (lPut L k t d l) = (held l)(k \<mapsto> (t, d)))
     \<and> (\<forall>k l. held (lDelete L k l) = (held l)(k := None))"

lemma disk_sizes:
  assumes "streams_ok D view ek" and "view b (ek e) = Some (x, y)"
  shows "dGetDataSize D e 0 b = length x" and "dGetDataSize D e 1 b = length y"
  using assms unfolding streams_ok_def by blast+

lemma disk_write:
  assumes "streams_ok D view ek" and "view b (ek e) = Some (x, y)"
  obtains b0 b1 where "dWriteData D e 0 bs b = (Net (length bs), b0)"
    and "dWriteData D e 1 cs b0 = (Net (length cs), b1)" and "view b1 = (view b)(ek e \<mapsto> (bs, cs))"
proof -
  obtain b0 where b0: "dWriteData D e 0 bs b = (Net (length bs), b0)" "view b0 = (view b)(ek e \<mapsto> (bs, y))"
    using assms unfolding streams_ok_def by blast
  then have "view b0 (ek e) = Some (bs, y)" by simp
  then obtain b1 where "dWriteData D e 1 cs b0 = (Net (length cs), b1)"
    "view b1 = (view b0)(ek e \<mapsto> (bs, cs))"
    using assms(1) unfolding streams_ok_def by blast
  then show thesis using b0 that by simp
qed

lemma disk_read:
  assumes "streams_ok D view ek" and "view b (ek e) = Some (x, y)"
  obtains b0 b1 where "dReadData D e 0 (length x) b = ((Net (length x), x), b0)" and "view b0 = view b"
    and "dReadData D e 1 (length y) b0 = ((Net (length y), y), b1)" and "view b1 = view b"
proof -
  obtain b0 where b0: "dReadData D e 0 (length x) b = ((Net (length x), x), b0)" "view b0 = view b"
    using assms unfolding streams_ok_def by blast
  with assms(2) have "view b0 (ek e) = Some (x, y)" by simp
  then obtain b1 where "dReadData D e 1 (length y) b0 = ((Net (length y), y), b1)" "view b1 = view b0"
    using assms(1) unfolding streams_ok_def by blast
  then show thesis using b0 that by simp
qed

lemma disk_close [simp]: "streams_ok D view ek \<Longrightarrow> view (dClose D e b) = view b"
  by (simp add: streams_ok_def)

lemma disk_doom [simp]: "streams_ok D view ek \<Longrightarrow> view (dDoomEntry D k b) = (view b)(k := None)"
  by (simp add: streams_ok_def)

lemma disk_create:
  assumes "opens_at_once D view ek"
  obtains e w b' where "dOpenOrCreateEntry D k b = (OpenedEntry e w, b')" and "ek e = k"
    and "view b' = (view b)(k \<mapsto> (case view b k of None \<Rightarrow> ([], []) | Some x \<Rightarrow> x))"
  using assms unfolding opens_at_once_def by blast

lemma disk_open:
  assumes "opens_at_once D view ek" and "view b k = Some x"
  obtains e b' where "dOpenEntry D k b = (OpenedEntry e True, b')" and "ek e = k" and "view b' = view b"
  using assms unfolding opens_at_once_def by blast

section \<open>Operations alone\<close>

text \<open>Ready to run: the backend is there and the queue of the key is empty.\<close>

definition quiet :: "bytes \<Rightarrow> 'b \<Rightarrow> ('b, 'l) code_cache \<Rightarrow> bool" where
  "quiet key b s \<longleftrightarrow>
     backend_state s = kInitialized \<and> cc_backend s = Some b \<and> active_entries_map s key = None"

lemmas queue_defs =
  EnqueueOperation_def EnqueueOperationAndIssueIfNext_def CloseOperationAndIssueNext_def DequeueOperation_def
  IssueOperation_def alloc_op_def get_op_def set_op_def free_op_def with_backend_def put_backend_def

text \<open>Enqueuing an operation on a quiet key runs it, as the only one of the queue.\<close>

lemma enqueue_quiet:
  assumes "quiet (op_key oper) b s"
  shows "EnqueueOperation (IssueNextOperation D L (Suc fuel)) oper s =
           IssueOperation D L (IssueNextOperation D L fuel) (cc_next s)
             (s\<lparr>cc_ops := (cc_ops s)(cc_next s \<mapsto> oper), cc_next := Suc (cc_next s),
                active_entries_map := (active_entries_map s)(op_key oper \<mapsto> [cc_next s])\<rparr>)"
  using assms by (simp add: quiet_def EnqueueOperation_def EnqueueOperationAndIssueIfNext_def alloc_op_def
      get_op_def set_op_def Let_def)

lemma close_only:
  assumes "cc_ops s a = Some oper" and "active_entries_map s (op_key oper) = Some [a]"
  shows "CloseOperationAndIssueNext (IssueNextOperation D L (Suc fuel)) a s =
           Inr (s\<lparr>active_entries_map := (active_entries_map s)(op_key oper := None),
                  cc_ops := (cc_ops s)(a := None)\<rparr>)"
  using assms by (simp add: CloseOperationAndIssueNext_def DequeueOperation_def get_op_def free_op_def)

lemma fresh_again: "m k = None \<Longrightarrow> m(k \<mapsto> v, k := None) = m" "m k = None \<Longrightarrow> m(k := None) = m"
  by auto

text \<open>A write stores its two buffers, unless the entry of a checksum has data of the same size.\<close>

lemma write_quiet:
  assumes disk: "streams_ok D view ek" "opens_at_once D view ek" and s: "quiet (op_key oper) b s"
    and oper: "completions oper = 0" "succeeded oper"
    and kind: "operation oper = kWrite
               \<or> operation oper = kWriteWithSHAKey \<and> small_buffer oper = []
                 \<and> (\<forall>y. view b (op_key oper) = Some ([], y) \<longrightarrow> length y = length (large_buffer oper)
                        \<longrightarrow> y = large_buffer oper)"
  obtains b' where "EnqueueOperation (IssueNextOperation D L (Suc (Suc fuel))) oper s =
      Inr (s\<lparr>cc_backend := Some b', cc_next := Suc (cc_next s), cc_ops := (cc_ops s)(cc_next s := None)\<rparr>)"
    and "view b' = (view b)(op_key oper \<mapsto> (small_buffer oper, large_buffer oper))"
proof -
  let ?k = "op_key oper" and ?a = "cc_next s"
  obtain e w b0 where o: "dOpenOrCreateEntry D ?k b = (OpenedEntry e w, b0)" "ek e = ?k"
    "view b0 = (view b)(?k \<mapsto> (case view b ?k of None \<Rightarrow> ([], []) | Some x \<Rightarrow> x))"
    using disk_create [OF disk(2)] .
  obtain x y where xy: "view b0 (ek e) = Some (x, y)" using o by (metis fun_upd_same surj_pair)
  obtain b1 b2 where wr: "dWriteData D e 0 (small_buffer oper) b0 = (Net (length (small_buffer oper)), b1)"
    "dWriteData D e 1 (large_buffer oper) b1 = (Net (length (large_buffer oper)), b2)"
    "view b2 = (view b0)(ek e \<mapsto> (small_buffer oper, large_buffer oper))"
    using disk_write [OF disk(1) xy] .
  note quiet = s [unfolded quiet_def]
  let ?skip = "operation oper = kWriteWithSHAKey \<and> x = [] \<and> length y = length (large_buffer oper)"
  have kind': "operation oper = kWrite \<or> operation oper = kWriteWithSHAKey" using kind by blast
  have run: "EnqueueOperation (IssueNextOperation D L (Suc (Suc fuel))) oper s =
      Inr (s\<lparr>cc_backend := Some (dClose D e (if ?skip then b0 else b2)), cc_next := Suc ?a,
             cc_ops := (cc_ops s)(?a := None)\<rparr>)"
    unfolding enqueue_quiet [OF s]
    using quiet kind' oper
    by (auto simp: IssueOperation_def WriteEntryImpl_def OpenCompleteForWrite_def get_op_def with_backend_def
        put_backend_def o(1) wr(1,2) [unfolded One_nat_def] disk_sizes [where b = b0, OF disk(1) xy, unfolded One_nat_def] write_stream_of_def close_entry_def Let_def
        WriteSmallBufferComplete_def WriteLargeBufferComplete_def WriteComplete_def AddBufferCompletion_def
        set_op_def close_only fresh_again split: if_splits)
  have "view (if ?skip then b0 else b2) = (view b)(?k \<mapsto> (small_buffer oper, large_buffer oper))"
    using wr(3) o(2,3) xy kind by (cases "view b ?k") auto
  then show thesis by (intro that [OF run]) (simp add: disk_close [OF disk(1)])
qed

lemma fill_all [simp]: "length buffer = length bs \<Longrightarrow> fill bs buffer = bs"
  by (simp add: fill_def)

text \<open>
  A fetch reads the two streams into its buffers, and when both are complete goes on to deliver them;
  the entry is closed last.
\<close>

definition missed_lru :: "'l lru_ops \<Rightarrow> bytes \<Rightarrow> ('b, 'l) code_cache \<Rightarrow> 'l" where
  "missed_lru L key s = (if kInMemoryCodeCache s then snd (lGet L key (lru_cache s)) else lru_cache s)"

definition reading ::
    "'l lru_ops \<Rightarrow> PendingOperation \<Rightarrow> 'b \<Rightarrow> ('b, 'l) code_cache \<Rightarrow> ('b, 'l) code_cache" where
  "reading L oper b s = s\<lparr>cc_next := Suc (cc_next s),
     active_entries_map := (active_entries_map s)(op_key oper \<mapsto> [cc_next s]),
     lru_cache := missed_lru L (op_key oper) s, cc_backend := Some b,
     cc_ops := (cc_ops s)(cc_next s \<mapsto> oper)\<rparr>"

lemma fetch_quiet:
  assumes disk: "streams_ok D view ek" "opens_at_once D view ek" and s: "quiet (op_key oper) b s"
    and oper: "completions oper = 0" "succeeded oper"
    and there: "view b (op_key oper) = Some (x, y)"
    and miss: "kInMemoryCodeCache s \<Longrightarrow> fst (lGet L (op_key oper) (lru_cache s)) = None"
    and kind: "operation oper = kFetch \<and> IsValidHeader (cc_type s) x
               \<or> operation oper = kFetchWithSHAKey \<and> length (small_buffer oper) = length x
                 \<and> length (large_buffer oper) = length y \<and> y \<noteq> []"
  obtains b' e where "view b' = view b"
    and "EnqueueOperation (IssueNextOperation D L (Suc fuel)) oper s =
      and_then
        (ReadComplete D L (IssueNextOperation D L fuel) (cc_next s)
           (reading L (oper\<lparr>small_buffer := x, large_buffer := y, completions := 2\<rparr>) b' s))
        (close_entry D e)"
proof -
  let ?k = "op_key oper" and ?a = "cc_next s"
  obtain e b0 where o: "dOpenEntry D ?k b = (OpenedEntry e True, b0)" "ek e = ?k" "view b0 = view b"
    using disk_open [OF disk(2) there] .
  then have xy: "view b0 (ek e) = Some (x, y)" using there by simp
  obtain b1 b2 where rd: "dReadData D e 0 (length x) b0 = ((Net (length x), x), b1)" "view b1 = view b0"
    "dReadData D e 1 (length y) b1 = ((Net (length y), y), b2)" "view b2 = view b0"
    using disk_read [OF disk(1) xy] .
  note quiet = s [unfolded quiet_def]
  obtain r l where g: "lGet L ?k (lru_cache s) = (r, l)" by fastforce
  then have r: "kInMemoryCodeCache s \<Longrightarrow> r = None" using miss by simp
  note step = IssueOperation_def FetchEntryImpl_def OpenCompleteForRead_def g missed_lru_def get_op_def with_backend_def
        put_backend_def o(1) rd(1,3) [unfolded One_nat_def] disk_sizes [where b = b0, OF disk(1) xy, unfolded One_nat_def]
        read_stream_of_def Let_def ReadSmallBufferComplete_def ReadLargeBufferComplete_def AddBufferCompletion_def
        set_op_def reading_def numeral_2_eq_2
  show thesis
  proof (cases "y = []")
    case True
    have "EnqueueOperation (IssueNextOperation D L (Suc fuel)) oper s =
      and_then
        (ReadComplete D L (IssueNextOperation D L fuel) (cc_next s)
           (reading L (oper\<lparr>small_buffer := x, large_buffer := y, completions := 2\<rparr>) b1 s))
        (close_entry D e)"
      unfolding enqueue_quiet [OF s] using quiet kind oper True r by (cases "kInMemoryCodeCache s") (auto simp: step)
    then show thesis using that rd o by simp
  next
    case False
    have "EnqueueOperation (IssueNextOperation D L (Suc fuel)) oper s =
      and_then
        (ReadComplete D L (IssueNextOperation D L fuel) (cc_next s)
           (reading L (oper\<lparr>small_buffer := x, large_buffer := y, completions := 2\<rparr>) b2 s))
        (close_entry D e)"
      unfolding enqueue_quiet [OF s] using quiet kind oper False r by (cases "kInMemoryCodeCache s") (auto simp: step)
    then show thesis using that rd o by simp
  qed
qed

section \<open>A disk in memory\<close>

text \<open>
  An instance of the conditions: the disk is a map from keys to two streams, an entry is its key, and the
  memory cache is a map without a limit. \<open>late\<close> has the opening of entries answer later.
\<close>

definition map_disk :: "bool \<Rightarrow> (bytes, bytes \<rightharpoonup> bytes \<times> bytes) disk_ops" where
  "map_disk late =
     \<lparr>dOpenOrCreateEntry = (\<lambda>k m.
        (OpenedEntry k (m k \<noteq> None), m(k \<mapsto> (case m k of None \<Rightarrow> ([], []) | Some x \<Rightarrow> x)))),
      dOpenEntry = (\<lambda>k m. (if late then OpenError (Err ERR_IO_PENDING)
                           else if m k = None then OpenError (Err ERR_FAILED) else OpenedEntry k True, m)),
      dDoomEntry = (\<lambda>k m. m(k := None)),
      dGetDataSize = (\<lambda>k i m. case m k of None \<Rightarrow> 0 | Some (x, y) \<Rightarrow> length (if i = 0 then x else y)),
      dWriteData = (\<lambda>k i bs m.
        (Net (length bs), m(k \<mapsto> (case m k of None \<Rightarrow> ([], [])
                              | Some (x, y) \<Rightarrow> if i = 0 then (bs, y) else (x, bs))))),
      dReadData = (\<lambda>k i n m. case m k of None \<Rightarrow> ((Err ERR_FAILED, []), m)
                    | Some (x, y) \<Rightarrow> (let z = take n (if i = 0 then x else y) in ((Net (length z), z), m))),
      dClose = (\<lambda>k m. m)\<rparr>"

lemma map_disk_ok: "streams_ok (map_disk late) (\<lambda>m. m) (\<lambda>k. k)" "opens_at_once (map_disk False) (\<lambda>m. m) (\<lambda>k. k)"
  by (auto simp: streams_ok_def opens_at_once_def map_disk_def Let_def)

definition map_lru :: "(bytes \<rightharpoonup> time \<times> bytes) lru_ops" where
  "map_lru = \<lparr>lHas = (\<lambda>k l. l k \<noteq> None), lGet = (\<lambda>k l. (l k, l)), lPut = (\<lambda>k t d l. l(k \<mapsto> (t, d))),
              lDelete = (\<lambda>k l. l(k := None)), lClear = (\<lambda>l. \<lambda>k. None)\<rparr>"

lemma map_lru_roomy: "lru_roomy map_lru (\<lambda>l. l)"
  by (auto simp: lru_roomy_def map_lru_def)

definition sample_code_cache ::
    "bool \<Rightarrow> (bytes \<rightharpoonup> bytes \<times> bytes) \<Rightarrow> (bytes \<rightharpoonup> bytes \<times> bytes, bytes \<rightharpoonup> time \<times> bytes) code_cache" where
  "sample_code_cache in_memory disk =
     (new_code_cache kJavaScript (\<lambda>k. None) in_memory)\<lparr>backend_state := kInitialized, cc_backend := Some disk\<rparr>"

lemma sample_quiet: "quiet k disk (sample_code_cache in_memory disk)"
  by (simp add: quiet_def sample_code_cache_def new_code_cache_def)

end
