(* ===== verification/Code_Cache_Correct.thy ===== *)
theory Code_Cache_Correct imports Code_Cache_Disk begin

text \<open>
  What a client of the cache of generated code observes: that data written is fetched back with its
  time whatever its size, and how the memory cache and the order of operations change the answer.
\<close>

section \<open>Delivering\<close>

definition told ::
    "'l lru_ops \<Rightarrow> PendingOperation \<Rightarrow> time \<Rightarrow> bytes \<Rightarrow> 'b \<Rightarrow> ('b, 'l) code_cache \<Rightarrow> ('b, 'l) code_cache" where
  "told L oper t data b s = RunReadCallback L oper t data
     (s\<lparr>cc_next := Suc (cc_next s), lru_cache := missed_lru L (op_key oper) s, cc_backend := Some b,
        cc_ops := (cc_ops s)(cc_next s := None)\<rparr>)"

definition direct :: "CodeCacheType \<Rightarrow> PendingOperation \<Rightarrow> bytes \<Rightarrow> bytes \<Rightarrow> time \<Rightarrow> bytes \<Rightarrow> bool" where
  "direct ty oper x y t data \<longleftrightarrow>
     operation oper = kFetchWithSHAKey \<and> length (small_buffer oper) = length x
       \<and> length (large_buffer oper) = length y \<and> y \<noteq> [] \<and> t = op_response_time oper \<and> data = y
     \<or> operation oper = kFetch \<and> IsValidHeader ty x
       \<and> (\<exists>n. ReadCommonDataHeader x = Some (t, n)
            \<and> (unat n \<le> kInlineDataLimit \<and> data = drop kHeaderSizeInBytes x
               \<or> unat n > kInlineDataLimit \<and> \<not> ShouldDeduplicateEntry ty n \<and> data = y))"

lemma told_record:
  "cc_backend (told L oper t data b s) = Some b"
  "backend_state (told L oper t data b s) = backend_state s"
  "active_entries_map (told L oper t data b s) = active_entries_map s"
  "cc_type (told L oper t data b s) = cc_type s"
  "kInMemoryCodeCache (told L oper t data b s) = kInMemoryCodeCache s"
  "pending_ops (told L oper t data b s) = pending_ops s"
  "cc_next (told L oper t data b s) = Suc (cc_next s)"
  "cc_ops (told L oper t data b s) = (cc_ops s)(cc_next s := None)"
  "cc_log (told L oper t data b s) = cc_log s @ [RunReadCallback_of (read_callback oper) t data]"
  "lru_cache (told L oper t data b s) =
     (let l = missed_lru L (op_key oper) s
      in if cc_type s = kJavaScript \<and> length data > 0 \<and> \<not> lHas L (op_key oper) l
         then lPut L (op_key oper) t data l else l)"
  by (simp_all add: told_def RunReadCallback_def cc_notify_def Let_def)

lemma fetch_direct:
  assumes "streams_ok D view ek" "opens_at_once D view ek" and s: "quiet (op_key oper) b s"
    and oper: "completions oper = 0" "succeeded oper"
    and there: "view b (op_key oper) = Some (x, y)"
    and miss: "kInMemoryCodeCache s \<Longrightarrow> fst (lGet L (op_key oper) (lru_cache s)) = None"
    and direct: "direct (cc_type s) oper x y t data"
  obtains b' where "view b' = view b"
    and "EnqueueOperation (IssueNextOperation D L (Suc (Suc fuel))) oper s = Inr (told L oper t data b' s)"
proof -
  have kind: "operation oper = kFetch \<and> IsValidHeader (cc_type s) x
               \<or> operation oper = kFetchWithSHAKey \<and> length (small_buffer oper) = length x
                 \<and> length (large_buffer oper) = length y \<and> y \<noteq> []"
    using direct by (auto simp: direct_def)
  obtain b1 e where b1: "view b1 = view b" and
    run: "EnqueueOperation (IssueNextOperation D L (Suc (Suc fuel))) oper s =
      and_then
        (ReadComplete D L (IssueNextOperation D L (Suc fuel)) (cc_next s)
           (reading L (oper\<lparr>small_buffer := x, large_buffer := y, completions := 2\<rparr>) b1 s))
        (close_entry D e)"
    using fetch_quiet [OF assms(1,2) s oper there miss kind] .
  let ?oper = "oper\<lparr>small_buffer := x, large_buffer := y, completions := 2\<rparr>"
  have len: "length x = kHeaderSizeInBytes + unat n"
    if "operation oper = kFetch" "ReadCommonDataHeader x = Some (t, n)" "unat n \<le> kInlineDataLimit" for n
    using kind that by (simp add: IsValidHeader_def Let_def split: if_splits)
  have deliver: "deliver_fetched L next_op ?oper S = Inr (RunReadCallback L oper t data S)"
    if "cc_type S = cc_type s" for next_op S
    using direct that len
    by (auto simp: direct_def deliver_fetched_def RunReadCallback_def slice_def)
  have "and_then (ReadComplete D L (IssueNextOperation D L (Suc fuel)) (cc_next s) (reading L ?oper b1 s)) (close_entry D e)
          = Inr (told L oper t data (dClose D e b1) s)"
    using s oper by (simp add: ReadComplete_def reading_def get_op_def deliver close_only [where oper = ?oper]
        RunReadCallback_def cc_notify_def told_def close_entry_def with_backend_def put_backend_def Let_def
        fresh_again quiet_def)
  then show thesis using that [of "dClose D e b1"] b1 assms(1) run by simp
qed

section \<open>Stored data\<close>

text \<open>What the disk holds for a key after data was written under it.\<close>

definition stored_entry ::
    "code_sys \<Rightarrow> CodeCacheType \<Rightarrow> (bytes \<rightharpoonup> bytes \<times> bytes) \<Rightarrow> bytes \<Rightarrow> time \<Rightarrow> bytes \<Rightarrow> bool" where
  "stored_entry H ty disk key t data \<longleftrightarrow>
     (\<exists>x. disk key = Some (x, if kInlineDataLimit < length data
                               \<and> \<not> ShouldDeduplicateEntry ty (of_nat (length data)) then data else [])
        \<and> IsValidHeader ty x \<and> ReadCommonDataHeader x = Some (t, of_nat (length data))
        \<and> drop kHeaderSizeInBytes x = small_part H ty data)"

definition stored_code ::
    "code_sys \<Rightarrow> CodeCacheType \<Rightarrow> (bytes \<rightharpoonup> bytes \<times> bytes) \<Rightarrow> bytes \<Rightarrow> time \<Rightarrow> bytes \<Rightarrow> bool" where
  "stored_code H ty disk key t data \<longleftrightarrow>
     stored_entry H ty disk key t data
     \<and> (kInlineDataLimit < length data \<and> ShouldDeduplicateEntry ty (of_nat (length data)) \<longrightarrow>
          disk (checksum_key_of H data) = Some ([], data))"

text \<open>
  The entry of a checksum is only replaced if its size differs: data of the same size under it must be
  the data of the checksum.
\<close>

definition checksum_honest :: "code_sys \<Rightarrow> (bytes \<rightharpoonup> bytes \<times> bytes) \<Rightarrow> bytes \<Rightarrow> bool" where
  "checksum_honest H disk data \<longleftrightarrow>
     (\<forall>y. disk (checksum_key_of H data) = Some ([], y) \<longrightarrow> length y = length data \<longrightarrow> y = data)"

definition writable :: "code_sys \<Rightarrow> bytes \<Rightarrow> time \<Rightarrow> bytes \<Rightarrow> bool" where
  "writable H key t data \<longleftrightarrow>
     length data < 2 ^ 31 - 1 \<and> - (2 ^ 63) \<le> t \<and> t < 2 ^ 63
     \<and> length (checksum_key_of H data) = kSHAKeySizeInBytes \<and> key \<noteq> checksum_key_of H data"

text \<open>The memory cache after a write.\<close>

definition put_js :: "'l lru_ops \<Rightarrow> bytes \<Rightarrow> time \<Rightarrow> bytes \<Rightarrow> ('b, 'l) code_cache \<Rightarrow> 'l" where
  "put_js L key t data s =
     (if cc_type s = kJavaScript then lPut L key t data (lru_cache s) else lru_cache s)"

lemma write_entry:
  assumes disk: "streams_ok D view ek" "opens_at_once D view ek"
    and s: "quiet key b s" "quiet (checksum_key_of H data) b s"
    and w: "writable H key t data" and key: "key = GetCacheKey U u a n"
    and honest: "checksum_honest H (view b) data"
  obtains b' s' where "WriteEntry D L U H (Suc (Suc fuel)) u a n t data s = Inr s'"
    and "stored_code H (cc_type s) (view b') key t data"
    and "\<And>k. k \<noteq> key \<Longrightarrow> k \<noteq> checksum_key_of H data \<Longrightarrow> view b' k = view b k"
    and "\<And>k. quiet k b s \<Longrightarrow> quiet k b' s'" and "cc_type s' = cc_type s"
    and "kInMemoryCodeCache s' = kInMemoryCodeCache s" and "cc_log s' = cc_log s"
    and "lru_cache s' = put_js L key t data s" and "cc_next s \<le> cc_next s'"
proof -
  note q = s [unfolded quiet_def]
  have len: "length data < 2 ^ 31" and big: "\<not> length data \<ge> 2 ^ 31 - 1" using w by (auto simp: writable_def)
  let ?ck = "checksum_key_of H data" and ?s = "s\<lparr>lru_cache := put_js L key t data s\<rparr>"
  obtain x where x: "fst (fst (entry_layout H (cc_type s) t data)) = Some x"
    "ReadCommonDataHeader x = Some (t, of_nat (length data))"
    "drop kHeaderSizeInBytes x = small_part H (cc_type s) data"
    "IsValidHeader (cc_type s) x" "length x = kHeaderSizeInBytes + length (small_part H (cc_type s) data)"
    using layout_small [OF len, where H = H and ty = "cc_type s" and t = t] w unfolding writable_def by blast
  let ?dedup = "kInlineDataLimit < length data \<and> ShouldDeduplicateEntry (cc_type s) (of_nat (length data))"
  let ?large = "if kInlineDataLimit < length data \<and> \<not> ShouldDeduplicateEntry (cc_type s) (of_nat (length data))
                then data else []"
  have layout: "entry_layout H (cc_type s) t data =
      ((Some x, ?large), if ?dedup then Some (?ck, [], data) else None)"
    using x(1) by (auto simp: entry_layout_def Let_def unat_size [OF len])
  let ?op2 = "(new_op kWriteWithSHAKey ?ck)\<lparr>small_buffer := [], large_buffer := data\<rparr>"
  let ?op = "(new_op kWrite key)\<lparr>small_buffer := x, large_buffer := ?large\<rparr>"
  obtain b1 s1 where s1:
    "(if ?dedup then EnqueueOperation (IssueNextOperation D L (Suc (Suc fuel))) ?op2 ?s else Inr ?s) = Inr s1"
    "s1 = ?s\<lparr>cc_backend := Some b1, cc_next := cc_next s1, cc_ops := cc_ops s1\<rparr>" "cc_next s \<le> cc_next s1"
    "view b1 = (if ?dedup then (view b)(?ck \<mapsto> ([], data)) else view b)"
  proof (cases ?dedup)
    case True
    have "quiet (op_key ?op2) b ?s" using s(2) by (simp add: quiet_def new_op_def)
    then obtain b1 where b1:
      "EnqueueOperation (IssueNextOperation D L (Suc (Suc fuel))) ?op2 ?s =
         Inr (?s\<lparr>cc_backend := Some b1, cc_next := Suc (cc_next ?s), cc_ops := (cc_ops ?s)(cc_next ?s := None)\<rparr>)"
      "view b1 = (view b)(?ck \<mapsto> ([], data))"
      using honest
      by (elim write_quiet [OF disk, where fuel = fuel and L = L]) (auto simp: new_op_def checksum_honest_def)
    let ?s1 = "?s\<lparr>cc_backend := Some b1, cc_next := Suc (cc_next ?s), cc_ops := (cc_ops ?s)(cc_next ?s := None)\<rparr>"
    show thesis
    proof (rule that [of ?s1 b1])
      show "?s1 = ?s\<lparr>cc_backend := Some b1, cc_next := cc_next ?s1, cc_ops := cc_ops ?s1\<rparr>" by simp
    qed (use True b1 in simp_all)
  next
    case False
    then show thesis using q by (intro that [of ?s b]) (simp_all add: if_not_P del: de_Morgan_conj)
  qed
  have q1: "quiet k b1 s1" if "quiet k b s" for k
    using that by (subst s1(2)) (simp add: quiet_def)
  have "quiet (op_key ?op) b1 s1" using q1 [OF s(1)] by (simp add: new_op_def)
  then obtain b2 where b2:
    "EnqueueOperation (IssueNextOperation D L (Suc (Suc fuel))) ?op s1 =
       Inr (s1\<lparr>cc_backend := Some b2, cc_next := Suc (cc_next s1), cc_ops := (cc_ops s1)(cc_next s1 := None)\<rparr>)"
      (is "_ = Inr ?s2")
    "view b2 = (view b1)(key \<mapsto> (x, ?large))"
    by (elim write_quiet [OF disk, where fuel = fuel and L = L]) (auto simp: new_op_def)
  have field: "cc_type s1 = cc_type s" "kInMemoryCodeCache s1 = kInMemoryCodeCache s" "cc_log s1 = cc_log s"
    "lru_cache s1 = put_js L key t data s"
    by (subst s1(2), simp)+
  show thesis
  proof (rule that [of ?s2 b2])
    show "WriteEntry D L U H (Suc (Suc fuel)) u a n t data s = Inr ?s2"
      using big q b2(1) s1(1) key layout
      by (simp add: WriteEntry_def Let_def put_js_def split: if_splits)
    show "stored_code H (cc_type s) (view b2) key t data"
      using x w unfolding stored_code_def stored_entry_def b2(2) s1(4) by (auto simp: writable_def)
    show "quiet k b2 ?s2" if "quiet k b s" for k using q1 [OF that] by (simp add: quiet_def)
  qed (use b2 s1 field in \<open>simp_all\<close>)
qed

text \<open>
  A fetch of shared data ends in a second fetch, under the checksum, and then leaves the queue of its
  own key.
\<close>

definition second_fetch :: "bytes \<Rightarrow> time \<Rightarrow> nat \<Rightarrow> nat \<Rightarrow> PendingOperation" where
  "second_fetch key t n cb = (new_op kFetchWithSHAKey key)
     \<lparr>op_response_time := t, large_buffer := replicate n 0, read_callback := cb\<rparr>"

lemma fetch_indirect:
  assumes disk: "streams_ok D view ek" "opens_at_once D view ek"
    and s: "quiet key b s" "quiet (checksum_key_of H data) b s"
    and w: "writable H key t data" and key: "key = GetCacheKey U u a n"
    and stored: "stored_entry H (cc_type s) (view b) key t data"
    and indirect: "kInlineDataLimit < length data" "ShouldDeduplicateEntry (cc_type s) (of_nat (length data))"
    and miss: "kInMemoryCodeCache s \<Longrightarrow> fst (lGet L key (lru_cache s)) = None"
  obtains b1 oper e where "view b1 = view b"
    and "op_key oper = key" and "quiet (checksum_key_of H data) b1 (reading L oper b1 s)"
    and "\<And>T b2. EnqueueOperation (IssueNextOperation D L (Suc (Suc fuel)))
                  (second_fetch (checksum_key_of H data) t (length data) cb) (reading L oper b1 s) = Inr T
           \<Longrightarrow> cc_ops T (cc_next s) = Some oper \<Longrightarrow> active_entries_map T key = Some [cc_next s]
           \<Longrightarrow> cc_backend T = Some b2
           \<Longrightarrow> FetchEntry D L U (Suc (Suc (Suc fuel))) u a n cb s =
                 Inr (T\<lparr>active_entries_map := (active_entries_map T)(key := None),
                        cc_ops := (cc_ops T)(cc_next s := None), cc_backend := Some (dClose D e b2)\<rparr>)"
proof -
  note q = s [unfolded quiet_def]
  let ?ck = "checksum_key_of H data" and ?n = "of_nat (length data) :: u32"
  let ?op = "(new_op kFetch key)\<lparr>read_callback := cb\<rparr>"
  have len: "unat ?n = length data" using w by (intro unat_size) (simp add: writable_def)
  obtain x where x: "view b key = Some (x, [])" "IsValidHeader (cc_type s) x"
    "ReadCommonDataHeader x = Some (t, ?n)" "drop kHeaderSizeInBytes x = ?ck"
    using stored indirect unfolding stored_entry_def small_part_def by auto
  have sq: "quiet (op_key ?op) b s" and op: "completions ?op = 0" "succeeded ?op"
    and there: "view b (op_key ?op) = Some (x, [])"
    and kind: "operation ?op = kFetch \<and> IsValidHeader (cc_type s) x
               \<or> operation ?op = kFetchWithSHAKey \<and> length (small_buffer ?op) = length x
                 \<and> length (large_buffer ?op) = length ([] :: bytes) \<and> [] \<noteq> ([] :: bytes)"
    using s x by (simp_all add: new_op_def)
  let ?oper = "?op\<lparr>small_buffer := x, large_buffer := [], completions := 2\<rparr>"
  obtain b1 e where b1: "view b1 = view b" and
    run: "EnqueueOperation (IssueNextOperation D L (Suc (Suc (Suc fuel)))) ?op s =
      and_then (ReadComplete D L (IssueNextOperation D L (Suc (Suc fuel))) (cc_next s) (reading L ?oper b1 s))
        (close_entry D e)"
    using fetch_quiet [OF disk sq op there _ kind, where fuel = "Suc (Suc fuel)" and L = L] miss
    by (simp add: new_op_def) blast
  let ?S = "reading L ?oper b1 s"
  have S: "quiet ?ck b1 ?S" "cc_ops ?S (cc_next s) = Some ?oper" "cc_type ?S = cc_type s" "op_key ?oper = key"
    using q w by (auto simp: reading_def new_op_def quiet_def writable_def)
  have "slice kHeaderSizeInBytes kSHAKeySizeInBytes x = ?ck"
    using x(4) w by (simp add: slice_def writable_def)
  moreover have "\<not> length x < kHeaderSizeInBytes + kSHAKeySizeInBytes"
    using x(2,3) indirect len by (simp add: IsValidHeader_def Let_def split: if_splits)
  ultimately have "FetchEntry D L U (Suc (Suc (Suc fuel))) u a n cb s =
      and_then
        (and_then (EnqueueOperation (IssueNextOperation D L (Suc (Suc fuel))) (second_fetch ?ck t (length data) cb) ?S)
          (CloseOperationAndIssueNext (IssueNextOperation D L (Suc (Suc fuel))) (cc_next s)))
        (close_entry D e)"
    using q run x(3) indirect len S
    by (simp add: FetchEntry_def key ReadComplete_def get_op_def deliver_fetched_def new_op_def second_fetch_def Let_def)
  then show thesis
    using S by (intro that [OF b1 S(4,1), of e])
      (simp_all add: close_only [where oper = ?oper] close_entry_def with_backend_def put_backend_def)
qed

text \<open>A fetch delivers what is stored; shared data is then held in memory under its checksum.\<close>

lemma fetch_stored:
  assumes disk: "streams_ok D view ek" "opens_at_once D view ek"
    and s: "quiet key b s" "quiet (checksum_key_of H data) b s"
    and w: "writable H key t data" and key: "key = GetCacheKey U u a n"
    and stored: "stored_code H (cc_type s) (view b) key t data"
    and miss: "kInMemoryCodeCache s \<Longrightarrow> fst (lGet L key (lru_cache s)) = None"
      "kInMemoryCodeCache s \<Longrightarrow> fst (lGet L (checksum_key_of H data) (missed_lru L key s)) = None"
  obtains b' s' where "FetchEntry D L U (Suc (Suc (Suc fuel))) u a n cb s = Inr s'"
    and "cc_log s' = cc_log s @ [RunReadCallback_of cb t data]" and "view b' = view b"
    and "\<And>k. quiet k b s \<Longrightarrow> quiet k b' s'" and "cc_type s' = cc_type s"
    and "kInMemoryCodeCache s' = kInMemoryCodeCache s"
    and "\<And>held. lru_roomy L held \<Longrightarrow> cc_type s = kJavaScript \<Longrightarrow> kInlineDataLimit < length data
           \<Longrightarrow> ShouldDeduplicateEntry kJavaScript (of_nat (length data))
           \<Longrightarrow> held (lru_cache s) (checksum_key_of H data) = None
           \<Longrightarrow> held (lru_cache s') = (held (lru_cache s))(checksum_key_of H data \<mapsto> (t, data))"
proof -
  note q = s [unfolded quiet_def]
  let ?ck = "checksum_key_of H data" and ?n = "of_nat (length data) :: u32"
  let ?op = "(new_op kFetch key)\<lparr>read_callback := cb\<rparr>"
  have len: "unat ?n = length data" using w by (intro unat_size) (simp add: writable_def)
  let ?indirect = "kInlineDataLimit < length data \<and> ShouldDeduplicateEntry (cc_type s) ?n"
  let ?y = "if kInlineDataLimit < length data \<and> \<not> ShouldDeduplicateEntry (cc_type s) ?n then data else []"
  obtain x where x: "view b key = Some (x, ?y)" "IsValidHeader (cc_type s) x"
    "ReadCommonDataHeader x = Some (t, ?n)" "drop kHeaderSizeInBytes x = small_part H (cc_type s) data"
    and ck: "?indirect \<Longrightarrow> view b ?ck = Some ([], data)"
    using stored unfolding stored_code_def stored_entry_def by blast
  show thesis
  proof (cases ?indirect)
    case False
    have sq: "quiet (op_key ?op) b s" and op: "completions ?op = 0" "succeeded ?op"
      and there: "view b (op_key ?op) = Some (x, ?y)"
      using s x by (simp_all add: new_op_def)
    have direct: "direct (cc_type s) ?op x ?y t data"
      using x False len by (auto simp: direct_def new_op_def small_part_def)
    have miss': "kInMemoryCodeCache s \<Longrightarrow> fst (lGet L (op_key ?op) (lru_cache s)) = None"
      using miss(1) by (simp add: new_op_def)
    obtain b' where b': "view b' = view b"
      "EnqueueOperation (IssueNextOperation D L (Suc (Suc (Suc fuel)))) ?op s = Inr (told L ?op t data b' s)"
      using fetch_direct [OF disk sq op there miss' direct, where fuel = "Suc fuel"] by blast
    show thesis
    proof (rule that)
      show "FetchEntry D L U (Suc (Suc (Suc fuel))) u a n cb s = Inr (told L ?op t data b' s)"
        using b' q by (simp add: FetchEntry_def key)
    qed (use b' False in \<open>auto simp: told_record quiet_def new_op_def\<close>)
  next
    case True
    obtain b1 oper e where i: "view b1 = view b" "op_key oper = key" "quiet ?ck b1 (reading L oper b1 s)"
      and final: "\<And>T b2. EnqueueOperation (IssueNextOperation D L (Suc (Suc fuel)))
                  (second_fetch ?ck t (length data) cb) (reading L oper b1 s) = Inr T
           \<Longrightarrow> cc_ops T (cc_next s) = Some oper \<Longrightarrow> active_entries_map T key = Some [cc_next s]
           \<Longrightarrow> cc_backend T = Some b2
           \<Longrightarrow> FetchEntry D L U (Suc (Suc (Suc fuel))) u a n cb s =
                 Inr (T\<lparr>active_entries_map := (active_entries_map T)(key := None),
                        cc_ops := (cc_ops T)(cc_next s := None), cc_backend := Some (dClose D e b2)\<rparr>)"
      using fetch_indirect [OF disk s w key stored [unfolded stored_code_def, THEN conjunct1] True [THEN conjunct1] True [THEN conjunct2] miss(1),
          where fuel = fuel and cb = cb] by blast
    let ?S = "reading L oper b1 s" and ?op2 = "second_fetch ?ck t (length data) cb"
    have S: "quiet (op_key ?op2) b1 ?S" "completions ?op2 = 0" "succeeded ?op2"
      "kInMemoryCodeCache ?S = kInMemoryCodeCache s" "lru_cache ?S = missed_lru L key s" "cc_type ?S = cc_type s"
      using i by (simp_all add: second_fetch_def new_op_def reading_def)
    have there: "view b1 (op_key ?op2) = Some ([], data)" using ck [OF True] i by (simp add: second_fetch_def new_op_def)
    have miss': "kInMemoryCodeCache ?S \<Longrightarrow> fst (lGet L (op_key ?op2) (lru_cache ?S)) = None"
      using miss(2) S by (simp add: second_fetch_def new_op_def)
    have "data \<noteq> []" using True by auto
    then have direct: "direct (cc_type ?S) ?op2 [] data t data" by (simp add: direct_def second_fetch_def new_op_def)
    obtain b2 where b2: "view b2 = view b1"
      "EnqueueOperation (IssueNextOperation D L (Suc (Suc fuel))) ?op2 ?S = Inr (told L ?op2 t data b2 ?S)"
      using fetch_direct [OF disk S(1-3) there miss' direct, where fuel = fuel] by blast
    let ?T = "told L ?op2 t data b2 ?S"
    have T: "cc_ops ?T (cc_next s) = Some oper" "active_entries_map ?T key = Some [cc_next s]" "cc_backend ?T = Some b2"
      using i(2) by (simp_all add: told_record) (simp_all add: reading_def)
    let ?U = "?T\<lparr>active_entries_map := (active_entries_map ?T)(key := None),
                 cc_ops := (cc_ops ?T)(cc_next s := None), cc_backend := Some (dClose D e b2)\<rparr>"
    have rec: "op_key ?op2 = ?ck" "read_callback ?op2 = cb" by (simp_all add: second_fetch_def new_op_def)
    show thesis
    proof (rule that [OF final [OF b2(2) T], of "dClose D e b2"])
      show "cc_log ?U = cc_log s @ [RunReadCallback_of cb t data]"
        by (simp add: told_record rec) (simp add: reading_def)
      show "view (dClose D e b2) = view b" using b2 i disk(1) by simp
      show "quiet k (dClose D e b2) ?U" if "quiet k b s" for k
        using that i(2) by (simp add: quiet_def told_record) (simp add: reading_def)
      show "cc_type ?U = cc_type s" "kInMemoryCodeCache ?U = kInMemoryCodeCache s"
        by (simp_all add: told_record) (simp_all add: reading_def)
      show "held (lru_cache ?U) = (held (lru_cache s))(?ck \<mapsto> (t, data))"
        if "lru_roomy L held" "cc_type s = kJavaScript" "held (lru_cache s) ?ck = None" for held
        using that \<open>data \<noteq> []\<close> by (simp add: told_record rec Let_def S lru_roomy_def missed_lru_def)
    qed
  qed
qed

lemma sample_writable:
  assumes "length data < 2 ^ 31 - 1" and "- (2 ^ 63) \<le> t" and "t < 2 ^ 63"
  shows "writable sample_hash (GetCacheKey sample_urls u a n) t data"
proof -
  let ?c = "checksum_key_of sample_hash data"
  have "?c = concat (replicate 32 [48, if of_nat (length data) = (0 :: byte) then 48 else 49])"
    by (simp add: checksum_key_of_def sample_hash_def map_replicate)
  then have "length ?c = kSHAKeySizeInBytes" "10 \<notin> set ?c"
    by (simp_all add: length_concat sum_list_replicate kSHAKeySizeInBytes_def)
  moreover have "10 \<in> set (GetCacheKey sample_urls u a n)"
    using separator_in unfolding GetCacheKey_def by metis
  ultimately show ?thesis using assms unfolding writable_def by metis
qed

text \<open>C20: What is written is fetched: on a disk that answers at once, data of any size, inline, in an entry
  of its own or shared under its checksum, is given back with the time it was written with, to the callback
  of the fetch and as the only answer. Two nested steps are enough for the write, three for the fetch. For
  shared data it is relied on that an entry of the same size under the checksum has that data.\<close>

theorem code_written_is_fetched:
  assumes "streams_ok D view ek" and "opens_at_once D view ek"
    and "quiet (GetCacheKey U u a n) b s" and "quiet (checksum_key_of H data) b s"
    and "writable H (GetCacheKey U u a n) t data" and "checksum_honest H (view b) data"
    and "\<not> kInMemoryCodeCache s"
  shows "\<exists>s' s''. WriteEntry D L U H (Suc (Suc fuel)) u a n t data s = Inr s'
           \<and> FetchEntry D L U (Suc (Suc (Suc fuel))) u a n cb s' = Inr s''
           \<and> cc_log s'' = cc_log s @ [RunReadCallback_of cb t data]"
proof -
  let ?key = "GetCacheKey U u a n"
  obtain b' s' where w: "WriteEntry D L U H (Suc (Suc fuel)) u a n t data s = Inr s'"
    "stored_code H (cc_type s') (view b') ?key t data" "quiet ?key b' s'" "quiet (checksum_key_of H data) b' s'"
    "\<not> kInMemoryCodeCache s'" "cc_log s' = cc_log s"
    using assms write_entry [OF assms(1-5) refl assms(6), where fuel = fuel and L = L] by metis
  obtain s'' where "FetchEntry D L U (Suc (Suc (Suc fuel))) u a n cb s' = Inr s''"
    "cc_log s'' = cc_log s' @ [RunReadCallback_of cb t data]"
    by (rule fetch_stored [OF assms(1,2) w(3,4) assms(5) refl w(2) notE [OF w(5)] notE [OF w(5)],
          where fuel = fuel and L = L and cb = cb])
  with w show ?thesis by auto
qed

lemma code_written_is_fetched_witness:
  "\<exists>s' s''. WriteEntry (map_disk False) map_lru sample_urls sample_hash 2 1 2 3 77 (replicate 20000 7)
              (sample_code_cache False (\<lambda>k. None)) = Inr s'
     \<and> FetchEntry (map_disk False) map_lru sample_urls 3 1 2 3 5 s' = Inr s''
     \<and> cc_log s'' = [RunReadCallback_of 5 77 (replicate 20000 7)]"
proof -
  let ?s = "sample_code_cache False (\<lambda>k. None)" and ?data = "replicate 20000 7 :: bytes"
  have "writable sample_hash (GetCacheKey sample_urls 1 2 3) 77 ?data"
    by (rule sample_writable) simp_all
  moreover have "checksum_honest sample_hash (\<lambda>k. None) ?data" "\<not> kInMemoryCodeCache ?s" "cc_log ?s = []"
    by (simp_all add: checksum_honest_def sample_code_cache_def new_code_cache_def)
  ultimately show ?thesis
    using code_written_is_fetched [OF map_disk_ok sample_quiet [where in_memory = False]
        sample_quiet [where in_memory = False], where b = "\<lambda>k. None" and U = sample_urls and u = 1 and a = 2 and n = 3 and H = sample_hash and data = ?data and t = 77 and L = map_lru
        and fuel = 0 and cb = 5]
    by (simp add: numeral_2_eq_2 numeral_3_eq_3)
qed

section \<open>The memory cache\<close>

text \<open>A fetch that finds its key in memory is answered from there.\<close>

lemma fetch_hit:
  assumes s: "quiet (op_key oper) b s" "kInMemoryCodeCache s" "cc_type s = kJavaScript"
    and kind: "operation oper = kFetch \<or> operation oper = kFetchWithSHAKey"
    and lru: "lru_roomy L held" and hit: "held (lru_cache s) (op_key oper) = Some (t, data)"
  obtains l where "EnqueueOperation (IssueNextOperation D L (Suc (Suc fuel))) oper s =
      Inr (s\<lparr>cc_next := Suc (cc_next s), cc_ops := (cc_ops s)(cc_next s := None), lru_cache := l,
             cc_log := cc_log s @ [RunReadCallback_of (read_callback oper) t data]\<rparr>)"
    and "held l = held (lru_cache s)"
proof -
  obtain l where l: "lGet L (op_key oper) (lru_cache s) = (Some (t, data), l)" "held l = held (lru_cache s)"
    using lru hit unfolding lru_roomy_def by (metis fst_conv prod.collapse snd_conv)
  then have "lHas L (op_key oper) l" using lru hit by (simp add: lru_roomy_def)
  then have "EnqueueOperation (IssueNextOperation D L (Suc (Suc fuel))) oper s =
      Inr (s\<lparr>cc_next := Suc (cc_next s), cc_ops := (cc_ops s)(cc_next s := None), lru_cache := l,
             cc_log := cc_log s @ [RunReadCallback_of (read_callback oper) t data]\<rparr>)"
    unfolding enqueue_quiet [OF s(1)] using s kind l(1)
    by (auto simp: IssueOperation_def FetchEntryImpl_def get_op_def quiet_def RunReadCallback_def cc_notify_def
        close_only [where oper = oper] fresh_again Let_def)
  then show thesis using that l by blast
qed

text \<open>C37: Data shared by two keys is kept in memory under its checksum with the response time of the key that
  was fetched first, and a fetch of the other key is then answered with that time, not with its own, which
  its entry on disk holds and which it is answered with when nothing is kept in memory.\<close>

theorem shared_hit_has_other_time:
  assumes disk: "streams_ok D view ek" "opens_at_once D view ek" and lru: "lru_roomy L held"
    and s: "quiet (GetCacheKey U u a n) b s" "quiet (GetCacheKey U v c m) b s" "quiet (checksum_key_of H data) b s"
    and kind: "kInMemoryCodeCache s" "cc_type s = kJavaScript"
    and data: "length data > kDedicatedDataLimit"
    and w: "writable H (GetCacheKey U u a n) t data" "writable H (GetCacheKey U v c m) t' data"
    and stored: "stored_code H kJavaScript (view b) (GetCacheKey U u a n) t data"
      "stored_code H kJavaScript (view b) (GetCacheKey U v c m) t' data"
    and empty: "held (lru_cache s) = (\<lambda>k. None)"
  shows "\<exists>s' s''. FetchEntry D L U (Suc (Suc (Suc fuel))) u a n cb s = Inr s'
           \<and> FetchEntry D L U (Suc (Suc (Suc fuel))) v c m cb' s' = Inr s''
           \<and> cc_log s'' = cc_log s @ [RunReadCallback_of cb t data, RunReadCallback_of cb' t data]"
proof -
  let ?A = "GetCacheKey U u a n" and ?B = "GetCacheKey U v c m" and ?ck = "checksum_key_of H data"
  have big: "kInlineDataLimit < length data" "ShouldDeduplicateEntry kJavaScript (of_nat (length data))"
    using data w(1) by (simp_all add: writable_def ShouldDeduplicateEntry_def IsDeduplicationEnabled_def
        kInlineDataLimit_def kDedicatedDataLimit_def unat_size)
  have get: "fst (lGet L k l) = held l k" "held (snd (lGet L k l)) = held l" for k l
    using lru by (simp_all add: lru_roomy_def)
  obtain b' s' where A: "FetchEntry D L U (Suc (Suc (Suc fuel))) u a n cb s = Inr s'"
    "cc_log s' = cc_log s @ [RunReadCallback_of cb t data]" "view b' = view b"
    "quiet ?B b' s'" "quiet ?ck b' s'" "cc_type s' = kJavaScript" "kInMemoryCodeCache s'"
    "held (lru_cache s') = [?ck \<mapsto> (t, data)]"
  proof (rule fetch_stored [OF disk s(1,3) w(1) refl, where L = L and fuel = fuel and cb = cb])
    show "stored_code H (cc_type s) (view b) ?A t data" using stored(1) kind(2) by simp
    fix b' s'
    assume r: "FetchEntry D L U (Suc (Suc (Suc fuel))) u a n cb s = Inr s'"
      "cc_log s' = cc_log s @ [RunReadCallback_of cb t data]" "view b' = view b"
      "\<And>k. quiet k b s \<Longrightarrow> quiet k b' s'" "cc_type s' = cc_type s" "kInMemoryCodeCache s' = kInMemoryCodeCache s"
      and h: "\<And>held. lru_roomy L held \<Longrightarrow> cc_type s = kJavaScript \<Longrightarrow> kInlineDataLimit < length data
           \<Longrightarrow> ShouldDeduplicateEntry kJavaScript (of_nat (length data)) \<Longrightarrow> held (lru_cache s) ?ck = None
           \<Longrightarrow> held (lru_cache s') = (held (lru_cache s))(?ck \<mapsto> (t, data))"
    show thesis using that [OF r(1-3) r(4) [OF s(2)] r(4) [OF s(3)]] r(5,6) kind h [OF lru kind(2) big] empty by simp
  qed (simp_all add: get empty missed_lru_def)
  have miss: "fst (lGet L ?B (lru_cache s')) = None" using A(8) w(2) by (simp add: get writable_def)
  obtain b1 oper e where i: "view b1 = view b'" "op_key oper = ?B" "quiet ?ck b1 (reading L oper b1 s')"
    and final: "\<And>T b2. EnqueueOperation (IssueNextOperation D L (Suc (Suc fuel)))
                (second_fetch ?ck t' (length data) cb') (reading L oper b1 s') = Inr T
         \<Longrightarrow> cc_ops T (cc_next s') = Some oper \<Longrightarrow> active_entries_map T ?B = Some [cc_next s']
         \<Longrightarrow> cc_backend T = Some b2
         \<Longrightarrow> FetchEntry D L U (Suc (Suc (Suc fuel))) v c m cb' s' =
               Inr (T\<lparr>active_entries_map := (active_entries_map T)(?B := None),
                      cc_ops := (cc_ops T)(cc_next s' := None), cc_backend := Some (dClose D e b2)\<rparr>)"
    by (rule fetch_indirect [OF disk A(4,5) w(2) refl, where L = L and fuel = fuel and cb = cb'])
      (use stored A big miss in \<open>simp_all add: stored_code_def\<close>)
  let ?S = "reading L oper b1 s'" and ?op2 = "second_fetch ?ck t' (length data) cb'"
  have S: "quiet (op_key ?op2) b1 ?S" "kInMemoryCodeCache ?S" "cc_type ?S = kJavaScript"
    "held (lru_cache ?S) (op_key ?op2) = Some (t, data)"
    using i A by (simp_all add: second_fetch_def new_op_def) (simp_all add: reading_def missed_lru_def get)
  obtain l where l: "EnqueueOperation (IssueNextOperation D L (Suc (Suc fuel))) ?op2 ?S =
      Inr (?S\<lparr>cc_next := Suc (cc_next ?S), cc_ops := (cc_ops ?S)(cc_next ?S := None), lru_cache := l,
             cc_log := cc_log ?S @ [RunReadCallback_of (read_callback ?op2) t data]\<rparr>)" (is "_ = Inr ?T")
    using fetch_hit [OF S(1-3) _ lru S(4), where D = D and fuel = fuel]
    by (auto simp: second_fetch_def new_op_def)
  have "cc_ops ?T (cc_next s') = Some oper" "active_entries_map ?T ?B = Some [cc_next s']" "cc_backend ?T = Some b1"
    using i(2) by (simp_all add: reading_def)
  note B = final [OF l this]
  have "cc_log ?S = cc_log s'" "read_callback ?op2 = cb'" by (simp_all add: reading_def second_fetch_def)
  with A(1,2) B show ?thesis by simp
qed

text \<open>Two keys with the same data, written at the times 77 and 99.\<close>

definition sample_shared_disk :: "bytes \<Rightarrow> bytes \<rightharpoonup> bytes \<times> bytes" where
  "sample_shared_disk data =
     [GetCacheKey sample_urls 1 2 3 \<mapsto> (the (fst (fst (entry_layout sample_hash kJavaScript 77 data))), []),
      GetCacheKey sample_urls 1 4 3 \<mapsto> (the (fst (fst (entry_layout sample_hash kJavaScript 99 data))), []),
      checksum_key_of sample_hash data \<mapsto> ([], data)]"

lemma sample_keys_differ: "GetCacheKey sample_urls 1 2 3 \<noteq> GetCacheKey sample_urls 1 4 3"
  by (simp add: GetCacheKey_def GetContextKey_def sample_urls_def kSeparator_def numeral_eq_Suc)

lemma sample_shared_stored:
  assumes "kDedicatedDataLimit < length data" and "length data < 2 ^ 31 - 1"
  shows "stored_code sample_hash kJavaScript (sample_shared_disk data) (GetCacheKey sample_urls 1 2 3) 77 data"
    and "stored_code sample_hash kJavaScript (sample_shared_disk data) (GetCacheKey sample_urls 1 4 3) 99 data"
proof -
  have len: "length data < 2 ^ 31" using assms by simp
  have big: "kInlineDataLimit < length data" "ShouldDeduplicateEntry kJavaScript (of_nat (length data))"
    using assms by (simp_all add: ShouldDeduplicateEntry_def IsDeduplicationEnabled_def
        kInlineDataLimit_def kDedicatedDataLimit_def unat_size)
  have w: "writable sample_hash (GetCacheKey sample_urls u a n) t data" if "- (2 ^ 63) \<le> t" "t < 2 ^ 63" for u a n t
    using sample_writable assms that by blast
  then have hex: "length (checksum_key_of sample_hash data) = kSHAKeySizeInBytes"
    and no: "GetCacheKey sample_urls u a n \<noteq> checksum_key_of sample_hash data" for u a n
    unfolding writable_def by (metis neg_le_0_iff_le zero_le_power zero_le_numeral zero_less_power zero_less_numeral)+
  have header: "IsValidHeader kJavaScript x \<and> ReadCommonDataHeader x = Some (t, of_nat (length data))
      \<and> drop kHeaderSizeInBytes x = small_part sample_hash kJavaScript data
      \<and> length x = kHeaderSizeInBytes + length (small_part sample_hash kJavaScript data)"
    if "- (2 ^ 63) \<le> t" "t < 2 ^ 63" and "x = the (fst (fst (entry_layout sample_hash kJavaScript t data)))" for t x
    using layout_small [OF len that(1,2) hex, of kJavaScript] that(3) by (metis option.sel)
  show "stored_code sample_hash kJavaScript (sample_shared_disk data) (GetCacheKey sample_urls 1 2 3) 77 data"
    using header [of 77] big no sample_keys_differ by (simp add: stored_code_def stored_entry_def sample_shared_disk_def)
  show "stored_code sample_hash kJavaScript (sample_shared_disk data) (GetCacheKey sample_urls 1 4 3) 99 data"
    using header [of 99] big no by (simp add: stored_code_def stored_entry_def sample_shared_disk_def)
qed

lemma shared_hit_has_other_time_witness:
  "\<exists>s' s''. FetchEntry (map_disk False) map_lru sample_urls 3 1 2 3 5
              (sample_code_cache True (sample_shared_disk (replicate 20000 7))) = Inr s'
     \<and> FetchEntry (map_disk False) map_lru sample_urls 3 1 4 3 6 s' = Inr s''
     \<and> cc_log s'' = [RunReadCallback_of 5 77 (replicate 20000 7), RunReadCallback_of 6 77 (replicate 20000 7)]"
proof -
  let ?data = "replicate 20000 7 :: bytes"
  let ?s = "sample_code_cache True (sample_shared_disk ?data)"
  have big: "kDedicatedDataLimit < length ?data" "length ?data < 2 ^ 31 - 1" by (simp_all add: kDedicatedDataLimit_def)
  have s: "kInMemoryCodeCache ?s" "cc_type ?s = kJavaScript" "lru_cache ?s = (\<lambda>k. None)" "cc_log ?s = []"
    by (simp_all add: sample_code_cache_def new_code_cache_def)
  have w: "writable sample_hash (GetCacheKey sample_urls 1 2 3) 77 ?data"
    "writable sample_hash (GetCacheKey sample_urls 1 4 3) 99 ?data"
    using sample_writable [OF big(2)] by simp_all
  show ?thesis
    using shared_hit_has_other_time [where view = "\<lambda>m. m" and held = "\<lambda>l. l" and b = "sample_shared_disk ?data",
        OF map_disk_ok map_lru_roomy sample_quiet sample_quiet sample_quiet s(1,2) big(1) w
        sample_shared_stored [OF big], where fuel = 0 and cb = 5 and cb' = 6] s(3,4)
    by (simp add: numeral_3_eq_3)
qed

text \<open>A fetch whose entry is still being opened, and a deletion that waits behind it.\<close>

lemma fetch_late:
  assumes s: "quiet key b s" "key = GetCacheKey U u a n"
    and late: "dOpenEntry D key b = (OpenError (Err ERR_IO_PENDING), b0)"
    and miss: "fst (lGet L key (lru_cache s)) = None"
  shows "FetchEntry D L U (Suc fuel) u a n cb s =
           Inr (reading L ((new_op kFetch key)\<lparr>read_callback := cb\<rparr>) b0 s)"
proof -
  let ?op = "(new_op kFetch key)\<lparr>read_callback := cb\<rparr>"
  obtain l where l: "lGet L key (lru_cache s) = (None, l)" using miss by (metis fst_conv surj_pair)
  have q: "quiet (op_key ?op) b s" using s by (simp add: new_op_def)
  have "FetchEntry D L U (Suc fuel) u a n cb s = EnqueueOperation (IssueNextOperation D L (Suc fuel)) ?op s"
    using s by (simp add: FetchEntry_def quiet_def)
  also have "\<dots> = Inr (reading L ?op b0 s)"
    unfolding enqueue_quiet [OF q] using s late l
    by (cases "kInMemoryCodeCache s")
      (simp_all add: IssueOperation_def FetchEntryImpl_def get_op_def quiet_def new_op_def with_backend_def
        put_backend_def reading_def missed_lru_def Let_def)
  finally show ?thesis .
qed

lemma delete_waits:
  assumes "backend_state s = kInitialized" and "active_entries_map s key = Some q" and "key = GetCacheKey U u a n"
  shows "DeleteEntry D L U fuel u a n s =
           Inr (s\<lparr>cc_ops := (cc_ops s)(cc_next s \<mapsto> new_op kDelete key), cc_next := Suc (cc_next s),
                  active_entries_map := (active_entries_map s)(key \<mapsto> q @ [cc_next s]),
                  lru_cache := lDelete L key (lru_cache s)\<rparr>)"
  using assms by (simp add: DeleteEntry_def EnqueueOperation_def EnqueueOperationAndIssueIfNext_def alloc_op_def
      get_op_def set_op_def new_op_def Let_def)

lemma delete_issued:
  assumes "active_entries_map s key = Some [a]" and "cc_ops s a = Some oper" and "operation oper = kDelete"
    and "op_key oper = key" and "cc_backend s = Some b"
  shows "IssueNextOperation D L (Suc (Suc fuel)) key s =
           Inr (s\<lparr>cc_backend := Some (dDoomEntry D key b), active_entries_map := (active_entries_map s)(key := None),
                  cc_ops := (cc_ops s)(a := None)\<rparr>)"
  using assms by (simp add: IssueOperation_def DeleteEntryImpl_def CodeDoomEntry_def get_op_def with_backend_def
      put_backend_def close_only [where oper = oper])

text \<open>When the entry is open the fetch is answered and the deletion behind it runs.\<close>

lemma inline_fetch_then_delete:
  assumes disk: "streams_ok D view ek" and e: "ek e = key" "view b key = Some (x, [])"
    and s: "cc_backend s = Some b" "active_entries_map s key = Some [a, d]" "a \<noteq> d"
      "cc_ops s a = Some oper" "cc_ops s d = Some (new_op kDelete key)"
    and oper: "operation oper = kFetch" "op_key oper = key" "completions oper = 0" "succeeded oper"
    and x: "IsValidHeader (cc_type s) x" "ReadCommonDataHeader x = Some (t, n)" "unat n \<le> kInlineDataLimit"
      "data = drop kHeaderSizeInBytes x"
  obtains b' s' where
    "OpenCompleteForRead D L (IssueNextOperation D L (Suc (Suc fuel))) a (OpenedEntry e True) s = Inr s'"
    and "cc_backend s' = Some b'" and "view b' = (view b)(key := None)" and "backend_state s' = backend_state s"
    and "active_entries_map s' key = None" and "cc_type s' = cc_type s"
    and "kInMemoryCodeCache s' = kInMemoryCodeCache s"
    and "cc_log s' = cc_log s @ [RunReadCallback_of (read_callback oper) t data]"
    and "lru_cache s' = (if cc_type s = kJavaScript \<and> data \<noteq> [] \<and> \<not> lHas L key (lru_cache s)
                         then lPut L key t data (lru_cache s) else lru_cache s)"
proof -
  have xy: "view b (ek e) = Some (x, [])" using e by simp
  obtain b1 b2 where rd: "dReadData D e 0 (length x) b = ((Net (length x), x), b1)" "view b1 = view b"
    using disk_read [OF disk xy] by metis
  have len: "length x = kHeaderSizeInBytes + unat n"
    using x by (simp add: IsValidHeader_def Let_def split: if_splits)
  have "length data = unat n" using len x(4) by simp
  then have all: "take (unat n) data = data" by simp
  let ?oper = "oper\<lparr>small_buffer := x, large_buffer := [], completions := Suc (Suc 0)\<rparr>"
  let ?s = "s\<lparr>cc_backend := Some b1, cc_ops := (cc_ops s)(a \<mapsto> ?oper)\<rparr>"
  let ?r = "RunReadCallback L ?oper t data ?s"
  let ?d = "?r\<lparr>cc_backend := Some (dDoomEntry D key b1), active_entries_map := (active_entries_map s)(key := None),
               cc_ops := ((cc_ops ?s)(d := None))(a := None)\<rparr>"
  have read: "OpenCompleteForRead D L next_op a (OpenedEntry e True) s =
      and_then (ReadComplete D L next_op a ?s) (close_entry D e)" for next_op
    using s oper x(1)
    by (simp add: OpenCompleteForRead_def get_op_def with_backend_def put_backend_def set_op_def rd(1) Let_def
        disk_sizes [OF disk xy, unfolded One_nat_def] read_stream_of_def ReadSmallBufferComplete_def
        ReadLargeBufferComplete_def AddBufferCompletion_def)
  have r: "active_entries_map ?r = active_entries_map s" "cc_ops ?r = cc_ops ?s" "cc_backend ?r = Some b1"
    by (simp_all add: RunReadCallback_def cc_notify_def Let_def)
  have deq: "DequeueOperation a ?r = Inr (a, ?r\<lparr>active_entries_map := (active_entries_map s)(key \<mapsto> [d])\<rparr>)"
    using s(2) oper(2) by (simp add: DequeueOperation_def get_op_def r)
  have del: "IssueNextOperation D L (Suc (Suc fuel)) key (?r\<lparr>active_entries_map := (active_entries_map s)(key \<mapsto> [d])\<rparr>)
      = Inr (?r\<lparr>cc_backend := Some (dDoomEntry D key b1), active_entries_map := (active_entries_map s)(key := None),
               cc_ops := (cc_ops ?s)(d := None)\<rparr>)"
    using s(3,5) by (subst delete_issued [where a = d and oper = "new_op kDelete key" and b = b1])
      (simp_all add: r new_op_def)
  have "ReadComplete D L (IssueNextOperation D L (Suc (Suc fuel))) a ?s = Inr ?d"
    using oper x(2,3) x(4) [symmetric] len deq del s(3) all
    by (simp add: ReadComplete_def get_op_def deliver_fetched_def slice_def CloseOperationAndIssueNext_def r free_op_def
        del: IssueNextOperation.simps)
  note run = read [of "IssueNextOperation D L (Suc (Suc fuel))", unfolded this]
  show thesis
  proof (rule that)
    show "OpenCompleteForRead D L (IssueNextOperation D L (Suc (Suc fuel))) a (OpenedEntry e True) s
            = Inr (?d\<lparr>cc_backend := Some (dClose D e (dDoomEntry D key b1))\<rparr>)"
      unfolding run by (simp add: close_entry_def with_backend_def put_backend_def)
  qed (use disk rd(2) oper in \<open>auto simp: RunReadCallback_def cc_notify_def Let_def\<close>)
qed

text \<open>C38: A deletion that waits behind a fetch does not reach the memory cache. The deletion takes the key out
  of the memory cache at once, but the fetch before it, when its entry is open at last, puts the data back,
  and then the entry on disk is doomed: a later fetch is answered with the data that was deleted.\<close>

theorem deleted_data_stays_in_memory:
  assumes disk: "streams_ok D view ek" and lru: "lru_roomy L held"
    and s: "quiet key b s" "key = GetCacheKey U u a n" "kInMemoryCodeCache s" "cc_type s = kJavaScript"
    and late: "dOpenEntry D key b = (OpenError (Err ERR_IO_PENDING), b0)" "view b0 = view b" "ek e = key"
    and stored: "stored_code H kJavaScript (view b) key t data" "data \<noteq> []" "length data \<le> kInlineDataLimit"
    and miss: "held (lru_cache s) key = None"
  shows "\<exists>s1 s2 s3 s4 b3. FetchEntry D L U (Suc fuel) u a n cb s = Inr s1
           \<and> DeleteEntry D L U (Suc fuel) u a n s1 = Inr s2
           \<and> OpenCompleteForRead D L (IssueNextOperation D L (Suc (Suc fuel))) (cc_next s) (OpenedEntry e True) s2
               = Inr s3
           \<and> cc_backend s3 = Some b3 \<and> view b3 = (view b)(key := None)
           \<and> FetchEntry D L U (Suc (Suc fuel)) u a n cb' s3 = Inr s4
           \<and> cc_log s4 = cc_log s @ [RunReadCallback_of cb t data, RunReadCallback_of cb' t data]"
proof -
  have get: "fst (lGet L k l) = held l k" "held (snd (lGet L k l)) = held l"
    "lHas L k l = (held l k \<noteq> None)" "held (lPut L k t d l) = (held l)(k \<mapsto> (t, d))"
    "held (lDelete L k l) = (held l)(k := None)" for k l t d
    using lru by (simp_all add: lru_roomy_def)
  let ?op = "(new_op kFetch key)\<lparr>read_callback := cb\<rparr>"
  let ?s1 = "reading L ?op b0 s"
  have s1: "FetchEntry D L U (Suc fuel) u a n cb s = Inr ?s1"
    using fetch_late [OF s(1,2) late(1)] miss by (simp add: get)
  let ?s2 = "?s1\<lparr>cc_ops := (cc_ops ?s1)(cc_next ?s1 \<mapsto> new_op kDelete key), cc_next := Suc (cc_next ?s1),
                active_entries_map := (active_entries_map ?s1)(key \<mapsto> [cc_next s] @ [cc_next ?s1]),
                lru_cache := lDelete L key (lru_cache ?s1)\<rparr>"
  have s2: "DeleteEntry D L U (Suc fuel) u a n ?s1 = Inr ?s2"
    using s(1) by (intro delete_waits [OF _ _ s(2)]) (simp_all add: reading_def quiet_def new_op_def)
  obtain x where x: "view b0 key = Some (x, [])" "IsValidHeader kJavaScript x"
    "ReadCommonDataHeader x = Some (t, of_nat (length data))" "drop kHeaderSizeInBytes x = data"
  proof -
    obtain x where "view b key = Some (x, if kInlineDataLimit < length data
        \<and> \<not> ShouldDeduplicateEntry kJavaScript (of_nat (length data)) then data else [])"
      "IsValidHeader kJavaScript x" "ReadCommonDataHeader x = Some (t, of_nat (length data))"
      "drop kHeaderSizeInBytes x = small_part H kJavaScript data"
      using stored(1) unfolding stored_code_def stored_entry_def by blast
    then show thesis using stored(3) late(2) by (intro that [of x]) (simp_all add: small_part_def)
  qed
  have "length data < 2 ^ 31" using stored(3) by (simp add: kInlineDataLimit_def)
  then have n: "unat (of_nat (length data) :: u32) \<le> kInlineDataLimit" using stored(3) by (simp add: unat_size)
  have f2: "cc_backend ?s2 = Some b0" "active_entries_map ?s2 key = Some [cc_next s, Suc (cc_next s)]"
    "cc_ops ?s2 (cc_next s) = Some ?op" "cc_ops ?s2 (Suc (cc_next s)) = Some (new_op kDelete key)"
    "cc_type ?s2 = kJavaScript" "kInMemoryCodeCache ?s2" "cc_log ?s2 = cc_log s" "backend_state ?s2 = kInitialized"
    "held (lru_cache ?s2) = (held (lru_cache s))(key := None)"
    using s(1,3,4) by (simp_all add: reading_def quiet_def get missed_lru_def)
  obtain b3 s3 where s3:
    "OpenCompleteForRead D L (IssueNextOperation D L (Suc (Suc fuel))) (cc_next s) (OpenedEntry e True) ?s2 = Inr s3"
    "cc_backend s3 = Some b3" "view b3 = (view b0)(key := None)" "backend_state s3 = kInitialized"
    "active_entries_map s3 key = None" "cc_type s3 = kJavaScript" "kInMemoryCodeCache s3"
    "cc_log s3 = cc_log s @ [RunReadCallback_of cb t data]" "lru_cache s3 = lPut L key t data (lru_cache ?s2)"
  proof (rule inline_fetch_then_delete [OF disk late(3) x(1) f2(1,2) _ f2(3,4) _ _ _ _ _ x(3) n x(4) [symmetric],
        where L = L and fuel = fuel])
    fix b' s'
    assume r: "OpenCompleteForRead D L (IssueNextOperation D L (Suc (Suc fuel))) (cc_next s) (OpenedEntry e True) ?s2 = Inr s'"
      "cc_backend s' = Some b'" "view b' = (view b0)(key := None)" "backend_state s' = backend_state ?s2"
      "active_entries_map s' key = None" "cc_type s' = cc_type ?s2" "kInMemoryCodeCache s' = kInMemoryCodeCache ?s2"
      "cc_log s' = cc_log ?s2 @ [RunReadCallback_of (read_callback ?op) t data]"
      "lru_cache s' = (if cc_type ?s2 = kJavaScript \<and> data \<noteq> [] \<and> \<not> lHas L key (lru_cache ?s2)
                       then lPut L key t data (lru_cache ?s2) else lru_cache ?s2)"
    have "\<not> lHas L key (lru_cache ?s2)" unfolding get(3) f2(9) by simp
    with r(9) f2(5) stored(2) have "lru_cache s' = lPut L key t data (lru_cache ?s2)" by simp
    then show thesis
      using r(4,6-8) f2(6) unfolding f2(5,7,8) by (intro that [OF r(1,2,3) _ r(5)]) simp_all
  qed (use x(2) f2(5) in \<open>simp_all add: new_op_def\<close>)
  let ?op' = "(new_op kFetch key)\<lparr>read_callback := cb'\<rparr>"
  have q: "quiet (op_key ?op') b3 s3" using s3 by (simp add: quiet_def new_op_def)
  have hit: "held (lru_cache s3) (op_key ?op') = Some (t, data)" using s3(9) get by (simp add: new_op_def)
  obtain s4 where "EnqueueOperation (IssueNextOperation D L (Suc (Suc fuel))) ?op' s3 = Inr s4"
    "cc_log s4 = cc_log s @ [RunReadCallback_of cb t data, RunReadCallback_of cb' t data]"
  proof (rule fetch_hit [OF q s3(7,6) _ lru hit, where D = D and fuel = fuel])
    fix l
    assume "EnqueueOperation (IssueNextOperation D L (Suc (Suc fuel))) ?op' s3 =
      Inr (s3\<lparr>cc_next := Suc (cc_next s3), cc_ops := (cc_ops s3)(cc_next s3 := None), lru_cache := l,
             cc_log := cc_log s3 @ [RunReadCallback_of (read_callback ?op') t data]\<rparr>)"
    then show thesis by (rule that) (simp add: s3(8))
  qed (simp add: new_op_def)
  then have "FetchEntry D L U (Suc (Suc fuel)) u a n cb' s3 = Inr s4"
    using s3(4) s(2) by (simp add: FetchEntry_def del: IssueNextOperation.simps)
  with s1 s2 s3(1-3) late(2) show ?thesis
    using \<open>cc_log s4 = _\<close> by metis
qed

definition sample_inline :: bytes where
  "sample_inline = the (fst (fst (entry_layout sample_hash kJavaScript 77 [1, 2, 3])))"

lemma deleted_data_stays_in_memory_witness:
  "\<exists>s1 s2 s3 s4 b3.
     FetchEntry (map_disk True) map_lru sample_urls 1 1 2 3 5
       (sample_code_cache True [GetCacheKey sample_urls 1 2 3 \<mapsto> (sample_inline, [])]) = Inr s1
     \<and> DeleteEntry (map_disk True) map_lru sample_urls 1 1 2 3 s1 = Inr s2
     \<and> OpenCompleteForRead (map_disk True) map_lru (IssueNextOperation (map_disk True) map_lru 2) 0
         (OpenedEntry (GetCacheKey sample_urls 1 2 3) True) s2 = Inr s3
     \<and> cc_backend s3 = Some b3 \<and> b3 = (\<lambda>k. None)
     \<and> FetchEntry (map_disk True) map_lru sample_urls 2 1 2 3 6 s3 = Inr s4
     \<and> cc_log s4 = [RunReadCallback_of 5 77 [1, 2, 3], RunReadCallback_of 6 77 [1, 2, 3]]"
proof -
  let ?key = "GetCacheKey sample_urls 1 2 3" and ?data = "[1, 2, 3] :: bytes"
  have w: "writable sample_hash ?key 77 ?data" by (rule sample_writable) simp_all
  then obtain x where "fst (fst (entry_layout sample_hash kJavaScript 77 ?data)) = Some x"
    and x: "ReadCommonDataHeader x = Some (77, of_nat (length ?data))"
    "drop kHeaderSizeInBytes x = small_part sample_hash kJavaScript ?data" "IsValidHeader kJavaScript x"
    "length x = kHeaderSizeInBytes + length (small_part sample_hash kJavaScript ?data)"
    using layout_small [of ?data 77 sample_hash kJavaScript] by (auto simp: writable_def)
  then have inline: "sample_inline = x" by (simp add: sample_inline_def)
  let ?disk = "[?key \<mapsto> (x, [])] :: bytes \<rightharpoonup> bytes \<times> bytes"
  let ?s = "sample_code_cache True ?disk"
  have stored: "stored_code sample_hash kJavaScript ?disk ?key 77 ?data"
    using x by (simp add: stored_code_def stored_entry_def kInlineDataLimit_def)
  have s: "kInMemoryCodeCache ?s" "cc_type ?s = kJavaScript" "lru_cache ?s ?key = None" "cc_log ?s = []" "cc_next ?s = 0"
    by (simp_all add: sample_code_cache_def new_code_cache_def)
  have late: "dOpenEntry (map_disk True) ?key ?disk = (OpenError (Err ERR_IO_PENDING), ?disk)"
    by (simp add: map_disk_def)
  have gone: "[?key \<mapsto> (x, [] :: bytes)](?key := None) = (\<lambda>k. None)" by auto
  have "length ?data \<le> kInlineDataLimit" "?data \<noteq> []" by (simp_all add: kInlineDataLimit_def)
  from deleted_data_stays_in_memory [where view = "\<lambda>m. m" and held = "\<lambda>l. l" and b = ?disk and e = ?key and data = ?data,
      OF map_disk_ok(1) map_lru_roomy sample_quiet refl s(1,2) late refl refl stored this(2,1) s(3), of 0 5 6]
  show ?thesis unfolding s(4,5) inline gone by (simp add: numeral_2_eq_2)
qed

section \<open>An empty entry under a checksum\<close>

text \<open>The second fetch finds both streams empty and waits for a read that is never started.\<close>

lemma second_fetch_stalls:
  assumes disk: "streams_ok D view ek" "opens_at_once D view ek" and s: "quiet key b s"
    and empty: "view b key = Some ([], [])" and n: "0 < n"
    and miss: "kInMemoryCodeCache s \<Longrightarrow> fst (lGet L key (lru_cache s)) = None"
  obtains b' where "view b' = view b"
    and "EnqueueOperation (IssueNextOperation D L (Suc fuel)) (second_fetch key t n cb) s =
           Inr ((reading L ((second_fetch key t n cb)\<lparr>completions := 1\<rparr>) b' s))"
proof -
  let ?op = "second_fetch key t n cb"
  have op: "op_key ?op = key" "operation ?op = kFetchWithSHAKey" "completions ?op = 0" "succeeded ?op"
    "small_buffer ?op = []" "large_buffer ?op = replicate n 0"
    by (simp_all add: second_fetch_def new_op_def)
  obtain e b0 where o: "dOpenEntry D key b = (OpenedEntry e True, b0)" "ek e = key" "view b0 = view b"
    using disk_open [OF disk(2) empty] .
  then have xy: "view b0 (ek e) = Some ([], [])" using empty by simp
  obtain b1 where rd: "dReadData D e 0 0 b0 = ((Net 0, []), b1)" "view b1 = view b0"
    using disk_read [OF disk(1) xy] by (metis list.size(3) of_nat_0)
  obtain r l where g: "lGet L key (lru_cache s) = (r, l)" by fastforce
  then have r: "kInMemoryCodeCache s \<Longrightarrow> r = None" using miss by simp
  have same: "?op\<lparr>small_buffer := [], completions := c\<rparr> = ?op\<lparr>completions := c\<rparr>" for c
    by (simp add: second_fetch_def new_op_def)
  have q: "quiet (op_key ?op) b s" using s op by simp
  have "EnqueueOperation (IssueNextOperation D L (Suc fuel)) ?op s =
          Inr (reading L (?op\<lparr>completions := 1\<rparr>) (dClose D e b1) s)"
    unfolding enqueue_quiet [OF q] using s op n r
    by (cases "kInMemoryCodeCache s")
      (auto simp: IssueOperation_def FetchEntryImpl_def OpenCompleteForRead_def g missed_lru_def get_op_def with_backend_def
        put_backend_def o(1) rd(1) disk_sizes [OF disk(1) xy, unfolded One_nat_def] read_stream_of_def Let_def
        ReadSmallBufferComplete_def AddBufferCompletion_def set_op_def reading_def quiet_def close_entry_def same)
  then show thesis using o(3) rd(2) disk(1) by (intro that [of "dClose D e b1"]) simp_all
qed

lemma enqueue_behind:
  assumes "backend_state s = kInitialized" and "active_entries_map s (op_key later) = Some q"
    and "EnqueueOperation next_op later s = Inr s'"
  shows "cc_log s' = cc_log s \<and> active_entries_map s' (op_key later) = Some (q @ [cc_next s])"
  using assms
  by (auto simp: EnqueueOperation_def EnqueueOperationAndIssueIfNext_def alloc_op_def get_op_def set_op_def Let_def)

text \<open>C39: A fetch of shared data whose entry under the checksum is empty is never answered: the client's
  callback is not run, no read is pending, and the operation stays at the front of the queue of the checksum,
  where it holds back every later operation on that key.\<close>

theorem empty_shared_entry_stalls:
  assumes disk: "streams_ok D view ek" "opens_at_once D view ek"
    and s: "quiet (GetCacheKey U u a n) b s" "quiet (checksum_key_of H data) b s" "\<not> kInMemoryCodeCache s"
    and w: "writable H (GetCacheKey U u a n) t data"
    and stored: "stored_entry H (cc_type s) (view b) (GetCacheKey U u a n) t data"
      "view b (checksum_key_of H data) = Some ([], [])"
    and indirect: "kInlineDataLimit < length data" "ShouldDeduplicateEntry (cc_type s) (of_nat (length data))"
  shows "\<exists>s' oper. FetchEntry D L U (Suc (Suc (Suc fuel))) u a n cb s = Inr s'
           \<and> cc_log s' = cc_log s
           \<and> active_entries_map s' (checksum_key_of H data) = Some [Suc (cc_next s)]
           \<and> cc_ops s' (Suc (cc_next s)) = Some oper \<and> completions oper = 1 \<and> read_callback oper = cb
           \<and> (\<forall>next_op later s''. op_key later = checksum_key_of H data
                \<longrightarrow> EnqueueOperation next_op later s' = Inr s'' \<longrightarrow> cc_log s'' = cc_log s
                  \<and> active_entries_map s'' (checksum_key_of H data) = Some [Suc (cc_next s), cc_next s'])"
proof -
  let ?key = "GetCacheKey U u a n" and ?ck = "checksum_key_of H data"
  have ne: "?key \<noteq> ?ck" using w by (simp add: writable_def)
  obtain b1 oper e where i: "view b1 = view b" "op_key oper = ?key" "quiet ?ck b1 (reading L oper b1 s)"
      and final: "\<And>T b2. EnqueueOperation (IssueNextOperation D L (Suc (Suc fuel)))
                  (second_fetch ?ck t (length data) cb) (reading L oper b1 s) = Inr T
           \<Longrightarrow> cc_ops T (cc_next s) = Some oper \<Longrightarrow> active_entries_map T ?key = Some [cc_next s]
           \<Longrightarrow> cc_backend T = Some b2
           \<Longrightarrow> FetchEntry D L U (Suc (Suc (Suc fuel))) u a n cb s =
                 Inr (T\<lparr>active_entries_map := (active_entries_map T)(?key := None),
                        cc_ops := (cc_ops T)(cc_next s := None), cc_backend := Some (dClose D e b2)\<rparr>)"
    using fetch_indirect [OF disk s(1,2) w refl stored(1) indirect, where fuel = fuel and cb = cb and L = L] s(3)
    by blast
  let ?S = "reading L oper b1 s" and ?op2 = "second_fetch ?ck t (length data) cb"
  have "view b1 ?ck = Some ([], [])" "0 < length data" "\<not> kInMemoryCodeCache ?S"
    using stored(2) i(1) indirect(1) s(3) by (auto simp: reading_def)
  then obtain b2 where "view b2 = view b1" and T: "EnqueueOperation (IssueNextOperation D L (Suc (Suc fuel))) ?op2 ?S =
      Inr (reading L (?op2\<lparr>completions := 1\<rparr>) b2 ?S)" (is "_ = Inr ?T")
    using second_fetch_stalls [OF disk i(3), where L = L and fuel = "Suc fuel"] by metis
  have op2: "op_key ?op2 = ?ck" "read_callback ?op2 = cb" by (simp_all add: second_fetch_def new_op_def)
  have "cc_ops ?T (cc_next s) = Some oper" "active_entries_map ?T ?key = Some [cc_next s]" "cc_backend ?T = Some b2"
    using ne i(2) by (simp_all add: reading_def op2)
  note F = final [OF T this]
  let ?U = "?T\<lparr>active_entries_map := (active_entries_map ?T)(?key := None),
               cc_ops := (cc_ops ?T)(cc_next s := None), cc_backend := Some (dClose D e b2)\<rparr>"
  have U: "cc_log ?U = cc_log s" "active_entries_map ?U ?ck = Some [Suc (cc_next s)]"
    "cc_ops ?U (Suc (cc_next s)) = Some (?op2\<lparr>completions := 1\<rparr>)" "backend_state ?U = kInitialized"
    using ne s(1) by (simp_all add: reading_def op2 quiet_def)
  have "cc_log s'' = cc_log s \<and> active_entries_map s'' ?ck = Some [Suc (cc_next s), cc_next ?U]"
    if "op_key later = ?ck" "EnqueueOperation next_op later ?U = Inr s''" for next_op later s''
    using enqueue_behind [OF U(4) _ that(2)] U(1,2) unfolding that(1) by simp
  with F U op2(2) show ?thesis by (intro exI [of _ ?U] exI [of _ "?op2\<lparr>completions := 1\<rparr>"]) simp
qed

lemma empty_shared_entry_stalls_witness:
  "\<exists>s' oper. FetchEntry (map_disk False) map_lru sample_urls 3 1 2 3 5
       (sample_code_cache False ((sample_shared_disk (replicate 20000 7))
          (checksum_key_of sample_hash (replicate 20000 7) \<mapsto> ([], [])))) = Inr s'
     \<and> cc_log s' = []
     \<and> active_entries_map s' (checksum_key_of sample_hash (replicate 20000 7)) = Some [1]
     \<and> cc_ops s' 1 = Some oper \<and> completions oper = 1 \<and> read_callback oper = 5"
proof -
  let ?data = "replicate 20000 7 :: bytes"
  let ?ck = "checksum_key_of sample_hash ?data" and ?key = "GetCacheKey sample_urls 1 2 3"
  let ?disk = "(sample_shared_disk ?data)(?ck \<mapsto> ([], []))"
  let ?s = "sample_code_cache False ?disk"
  have s: "\<not> kInMemoryCodeCache ?s" "cc_type ?s = kJavaScript" "cc_log ?s = []" "cc_next ?s = 0"
    by (simp_all add: sample_code_cache_def new_code_cache_def)
  have big: "kDedicatedDataLimit < length ?data" "length ?data < 2 ^ 31 - 1" by (simp_all add: kDedicatedDataLimit_def)
  have indirect: "kInlineDataLimit < length ?data" "ShouldDeduplicateEntry (cc_type ?s) (of_nat (length ?data))"
    using big by (simp_all add: s kInlineDataLimit_def kDedicatedDataLimit_def ShouldDeduplicateEntry_def
        IsDeduplicationEnabled_def)
  have w: "writable sample_hash ?key 77 ?data" by (rule sample_writable) simp_all
  then have stored: "stored_entry sample_hash (cc_type ?s) ?disk ?key 77 ?data"
    using sample_shared_stored(1) [OF big] by (simp add: stored_code_def stored_entry_def writable_def s)
  have there: "?disk ?ck = Some ([], [])" by simp
  show ?thesis
    using empty_shared_entry_stalls [where view = "\<lambda>m. m" and b = ?disk, OF map_disk_ok sample_quiet sample_quiet s(1) w
        stored there indirect, where L = map_lru and fuel = 0 and cb = 5]
    unfolding s(3,4) numeral_3_eq_3 One_nat_def by blast
qed

end
