(* ===== verification/Code_Cache_Failure.thy ===== *)
theory Code_Cache_Failure imports Code_Cache_Disk begin

text \<open>
  A backend that cannot be created: what becomes of the requests that clients made before that was known.
\<close>

section \<open>Requests\<close>

datatype ('u, 'n) request =
    FetchRequest 'u 'u 'n nat
  | WriteRequest 'u 'u 'n time bytes
  | DeleteRequest 'u 'u 'n
  | BackendRequest nat

fun make_request ::
    "('e, 'b) disk_ops \<Rightarrow> 'l lru_ops \<Rightarrow> ('u, 'n) url_env \<Rightarrow> code_sys \<Rightarrow> nat \<Rightarrow> ('u, 'n) request
       \<Rightarrow> ('b, 'l) code_cache \<Rightarrow> ('b, 'l) outcome" where
  "make_request D L U H fuel (FetchRequest u a n cb) s = FetchEntry D L U fuel u a n cb s"
| "make_request D L U H fuel (WriteRequest u a n t data) s = WriteEntry D L U H fuel u a n t data s"
| "make_request D L U H fuel (DeleteRequest u a n) s = DeleteEntry D L U fuel u a n s"
| "make_request D L U H fuel (BackendRequest cb) s = Inr (GetBackend cb s)"

fun make_requests ::
    "('e, 'b) disk_ops \<Rightarrow> 'l lru_ops \<Rightarrow> ('u, 'n) url_env \<Rightarrow> code_sys \<Rightarrow> nat \<Rightarrow> ('u, 'n) request list
       \<Rightarrow> ('b, 'l) code_cache \<Rightarrow> ('b, 'l) outcome" where
  "make_requests D L U H fuel [] s = Inr s"
| "make_requests D L U H fuel (r # rs) s = and_then (make_request D L U H fuel r s) (make_requests D L U H fuel rs)"

fun is_deletion :: "('u, 'n) request \<Rightarrow> bool" where
  "is_deletion (DeleteRequest u a n) = True"
| "is_deletion r = False"

text \<open>What the memory cache has for a key, where fetches look there: otherwise no data, with the null time.\<close>

definition remembered :: "('l \<Rightarrow> bytes \<rightharpoonup> time \<times> bytes) \<Rightarrow> ('b, 'l) code_cache \<Rightarrow> bytes \<Rightarrow> time \<times> bytes" where
  "remembered held s key =
     (case (if kInMemoryCodeCache s then held (lru_cache s) key else None) of None \<Rightarrow> (0, []) | Some x \<Rightarrow> x)"

text \<open>The answer to a request when there is no backend.\<close>

fun answer ::
    "('l \<Rightarrow> bytes \<rightharpoonup> time \<times> bytes) \<Rightarrow> ('u, 'n) url_env \<Rightarrow> ('b, 'l) code_cache \<Rightarrow> ('u, 'n) request
       \<Rightarrow> code_effect list" where
  "answer held U s (FetchRequest u a n cb) =
     (case remembered held s (GetCacheKey U u a n) of (t, data) \<Rightarrow> [RunReadCallback_of cb t data])"
| "answer held U s (BackendRequest cb) = [RunBackendCallback_of cb False]"
| "answer held U s (WriteRequest u a n t data) = []"
| "answer held U s (DeleteRequest u a n) = []"

section \<open>Waiting\<close>

text \<open>Before the backend is there, every operation of the store waits for it, once.\<close>

definition all_wait :: "('b, 'l) code_cache \<Rightarrow> bool" where
  "all_wait s \<longleftrightarrow> cc_backend s = None \<and> active_entries_map s = (\<lambda>_. None) \<and> distinct (pending_ops s)
     \<and> dom (cc_ops s) = set (pending_ops s) \<and> (\<forall>a \<in> set (pending_ops s). a < cc_next s)"

definition waiting_ops :: "('b, 'l) code_cache \<Rightarrow> PendingOperation list" where
  "waiting_ops s = map (\<lambda>a. the (cc_ops s a)) (pending_ops s)"

lemma new_op_waits:
  assumes "all_wait s"
  shows "all_wait (s\<lparr>cc_ops := (cc_ops s)(cc_next s \<mapsto> oper), cc_next := Suc (cc_next s),
           pending_ops := pending_ops s @ [cc_next s]\<rparr>)" (is "all_wait ?s")
    and "waiting_ops (s\<lparr>cc_ops := (cc_ops s)(cc_next s \<mapsto> oper), cc_next := Suc (cc_next s),
           pending_ops := pending_ops s @ [cc_next s]\<rparr>) = waiting_ops s @ [oper]"
proof -
  have "cc_next s \<notin> set (pending_ops s)" using assms by (auto simp: all_wait_def)
  then show "all_wait ?s" "waiting_ops ?s = waiting_ops s @ [oper]"
    using assms by (auto simp: all_wait_def waiting_ops_def less_Suc_eq intro!: map_cong)
qed

text \<open>An operation enters the list of those that wait; nothing else changes.\<close>

definition waits_too :: "('b, 'l) code_cache \<Rightarrow> PendingOperation list \<Rightarrow> ('b, 'l) code_cache \<Rightarrow> bool" where
  "waits_too s new s' \<longleftrightarrow> all_wait s' \<and> backend_state s' = backend_state s \<and> waiting_ops s' = waiting_ops s @ new
     \<and> kInMemoryCodeCache s' = kInMemoryCodeCache s \<and> cc_log s' = cc_log s"

lemma waits_too_trans: "waits_too s xs s1 \<Longrightarrow> waits_too s1 ys s2 \<Longrightarrow> waits_too s (xs @ ys) s2"
  by (simp add: waits_too_def)

lemma waits_too_lru: "all_wait s \<Longrightarrow> waits_too s [] (s\<lparr>lru_cache := l\<rparr>)"
  by (simp add: waits_too_def all_wait_def waiting_ops_def)

lemma enqueue_waits:
  assumes "all_wait s" and "backend_state s = kInitializing"
  obtains s' where "EnqueueOperation next_op oper s = Inr s'" "waits_too s [oper] s'"
  using new_op_waits [OF assms(1), of oper] assms(2)
  by (intro that [of "s\<lparr>cc_ops := (cc_ops s)(cc_next s \<mapsto> oper), cc_next := Suc (cc_next s),
           pending_ops := pending_ops s @ [cc_next s]\<rparr>"])
    (simp_all add: EnqueueOperation_def alloc_op_def set_op_def waits_too_def)

text \<open>The operations of a request, as far as they matter.\<close>

fun fits :: "('u, 'n) url_env \<Rightarrow> ('u, 'n) request \<Rightarrow> PendingOperation list \<Rightarrow> bool" where
  "fits U (FetchRequest u a n cb) opers = (opers = [(new_op kFetch (GetCacheKey U u a n))\<lparr>read_callback := cb\<rparr>])"
| "fits U (BackendRequest cb) opers = (opers = [(new_op kGetBackend [])\<lparr>backend_callback := cb\<rparr>])"
| "fits U (WriteRequest u a n t data) opers = (\<forall>oper \<in> set opers. operation oper \<in> {kWrite, kWriteWithSHAKey})"
| "fits U (DeleteRequest u a n) opers = (opers = [new_op kDelete (GetCacheKey U u a n)])"

lemma layout_has_header: "fst (fst (entry_layout H ty t data)) \<noteq> None"
  by (simp add: entry_layout_def WriteCommonDataHeader_def Let_def)

lemma write_waits:
  assumes w: "all_wait s" and i: "backend_state s = kInitializing"
  obtains s' opers where "WriteEntry D L U H fuel u a n t data s = Inr s'" "waits_too s opers s'"
    "\<forall>oper \<in> set opers. operation oper \<in> {kWrite, kWriteWithSHAKey}"
proof (cases "length data \<ge> 2 ^ 31 - 1")
  case True
  then show thesis using w i that [of s "[]"] by (simp add: WriteEntry_def waits_too_def)
next
  case False
  let ?key = "GetCacheKey U u a n" and ?next = "IssueNextOperation D L fuel"
  let ?s = "if cc_type s = kJavaScript then s\<lparr>lru_cache := lPut L ?key t data (lru_cache s)\<rparr> else s"
  have s: "waits_too s [] ?s" using waits_too_lru [OF w] w by (auto simp: waits_too_def)
  obtain header large shared where layout: "entry_layout H (cc_type ?s) t data = ((Some header, large), shared)"
    using layout_has_header [of H "cc_type ?s" t data] by (metis option.exhaust prod.collapse)
  let ?op = "(new_op kWrite ?key)\<lparr>small_buffer := header, large_buffer := large\<rparr>"
  let ?first = "case shared of None \<Rightarrow> Inr ?s
    | Some (ck, x, y) \<Rightarrow> EnqueueOperation ?next ((new_op kWriteWithSHAKey ck)\<lparr>small_buffer := x, large_buffer := y\<rparr>) ?s"
  obtain s1 opers where s1: "?first = Inr s1" "waits_too ?s opers s1"
    "\<forall>oper \<in> set opers. operation oper = kWriteWithSHAKey"
  proof (cases shared)
    case None
    then show thesis using s that [of ?s "[]"] by (simp add: waits_too_def)
  next
    case (Some x)
    obtain ck x1 x2 where x: "x = (ck, x1, x2)" using prod_cases3 by blast
    let ?op = "(new_op kWriteWithSHAKey ck)\<lparr>small_buffer := x1, large_buffer := x2\<rparr>"
    have "all_wait ?s" "backend_state ?s = kInitializing" using s i by (simp_all add: waits_too_def)
    then obtain s' where "EnqueueOperation ?next ?op ?s = Inr s'" "waits_too ?s [?op] s'" by (rule enqueue_waits)
    then show thesis using that [of s' "[?op]"] by (simp add: Some x new_op_def)
  qed
  have "all_wait s1" "backend_state s1 = kInitializing" using s s1(2) i by (simp_all add: waits_too_def)
  then obtain s2 where s2: "EnqueueOperation ?next ?op s1 = Inr s2" "waits_too s1 [?op] s2" by (rule enqueue_waits)
  show thesis
  proof (rule that)
    show "WriteEntry D L U H fuel u a n t data s = Inr s2"
      using False i s1(1) s2(1) by (simp add: WriteEntry_def layout Let_def del: IssueNextOperation.simps)
    show "waits_too s (([] @ opers) @ [?op]) s2" by (intro waits_too_trans [OF _ s2(2)] waits_too_trans [OF s s1(2)])
    show "\<forall>oper \<in> set (([] @ opers) @ [?op]). operation oper \<in> {kWrite, kWriteWithSHAKey}"
      using s1(3) by (auto simp: new_op_def)
  qed
qed

lemma request_waits:
  assumes w: "all_wait s" and i: "backend_state s = kInitializing"
  obtains s' opers where "make_request D L U H fuel r s = Inr s'" "waits_too s opers s'" "fits U r opers"
proof (cases r)
  case (WriteRequest u a n t data)
  obtain s' opers where "WriteEntry D L U H fuel u a n t data s = Inr s'" "waits_too s opers s'"
    "\<forall>oper \<in> set opers. operation oper \<in> {kWrite, kWriteWithSHAKey}" by (rule write_waits [OF w i])
  with that WriteRequest show thesis by simp
next
  case (FetchRequest u a n cb)
  obtain s' where "EnqueueOperation (IssueNextOperation D L fuel) ((new_op kFetch (GetCacheKey U u a n))\<lparr>read_callback := cb\<rparr>) s
      = Inr s'" "waits_too s [(new_op kFetch (GetCacheKey U u a n))\<lparr>read_callback := cb\<rparr>] s'" by (rule enqueue_waits [OF w i])
  with that FetchRequest i show thesis by (simp add: FetchEntry_def Let_def)
next
  case (DeleteRequest u a n)
  obtain s' where "EnqueueOperation (IssueNextOperation D L fuel) (new_op kDelete (GetCacheKey U u a n)) s = Inr s'"
    and s': "waits_too s [new_op kDelete (GetCacheKey U u a n)] s'" by (rule enqueue_waits [OF w i])
  moreover have "all_wait s'" using s' by (simp add: waits_too_def)
  moreover note waits_too_trans [OF s' waits_too_lru [OF this]]
  ultimately show thesis using that DeleteRequest i by (simp add: DeleteEntry_def Let_def)
next
  case (BackendRequest cb)
  then show thesis using new_op_waits [OF w, of "(new_op kGetBackend [])\<lparr>backend_callback := cb\<rparr>"] i
    by (intro that [of "GetBackend cb s"]) (simp_all add: GetBackend_def alloc_op_def set_op_def waits_too_def)
qed

section \<open>The answer\<close>

definition op_answer ::
    "('l \<Rightarrow> bytes \<rightharpoonup> time \<times> bytes) \<Rightarrow> ('b, 'l) code_cache \<Rightarrow> PendingOperation \<Rightarrow> code_effect list" where
  "op_answer held s oper =
     (if operation oper \<in> {kFetch, kFetchWithSHAKey}
      then [case remembered held s (op_key oper) of (t, data) \<Rightarrow> RunReadCallback_of (read_callback oper) t data]
      else if operation oper = kGetBackend then [RunBackendCallback_of (backend_callback oper) False] else [])"

definition down :: "('b, 'l) code_cache \<Rightarrow> bool" where
  "down s \<longleftrightarrow> backend_state s = kFailed \<and> cc_backend s = None \<and> active_entries_map s = (\<lambda>_. None)"

text \<open>The body of the loop over the operations that wait.\<close>

definition issue_waiting ::
    "('e, 'b) disk_ops \<Rightarrow> 'l lru_ops \<Rightarrow> nat \<Rightarrow> nat \<Rightarrow> ('b, 'l) code_cache \<Rightarrow> ('b, 'l) outcome" where
  "issue_waiting D L fuel a s = get_op a s (\<lambda>op.
     if operation op \<noteq> kGetBackend then EnqueueOperationAndIssueIfNext (IssueNextOperation D L fuel) a s
     else and_then (IssueOperation D L (IssueNextOperation D L fuel) a s) (\<lambda>s. Inr (free_op a s)))"

lemma issue_pending_Cons:
  "issue_pending D L fuel (a # as) s =
     and_then (issue_waiting D L fuel a (s\<lparr>pending_ops := as\<rparr>)) (issue_pending D L fuel as)"
  by (simp add: issue_waiting_def Let_def)

text \<open>An operation is issued alone in its queue, and so is closed without going on to another.\<close>

lemma issue_alone:
  assumes "down s" and "cc_ops s a = Some oper" and "operation oper \<noteq> kGetBackend"
  shows "issue_waiting D L (Suc fuel) a s = IssueOperation D L (IssueNextOperation D L fuel) a
           (s\<lparr>active_entries_map := [op_key oper \<mapsto> [a]]\<rparr>)"
  using assms by (simp add: issue_waiting_def get_op_def EnqueueOperationAndIssueIfNext_def down_def Let_def)

lemma down_closes:
  assumes "down s" and "cc_ops s a = Some oper" and "s' = s\<lparr>active_entries_map := [op_key oper \<mapsto> [a]], lru_cache := l, cc_log := es\<rparr>"
  shows "CloseOperationAndIssueNext (IssueNextOperation D L (Suc fuel)) a s'
    = Inr (s\<lparr>cc_ops := (cc_ops s)(a := None), lru_cache := l, cc_log := es\<rparr>)"
proof -
  have "active_entries_map s = (\<lambda>_. None)" using assms(1) by (simp add: down_def)
  with assms(2) show ?thesis
    unfolding assms(3) by (subst close_only [where oper = oper]) (simp_all add: fresh_again)
qed

lemma issue_fetch_down:
  assumes lru: "lru_roomy L held" and d: "down s" and oper: "cc_ops s a = Some oper"
    and kind: "operation oper = kFetch \<or> operation oper = kFetchWithSHAKey"
  obtains l where "held l = held (lru_cache s)"
    "issue_waiting D L (Suc (Suc fuel)) a s
      = Inr (s\<lparr>cc_ops := (cc_ops s)(a := None), lru_cache := l, cc_log := cc_log s @ op_answer held s oper\<rparr>)"
proof -
  let ?s = "s\<lparr>active_entries_map := [op_key oper \<mapsto> [a]]\<rparr>"
  obtain r l where g: "(if kInMemoryCodeCache s then lGet L (op_key oper) (lru_cache s) else (None, lru_cache s)) = (r, l)"
    by force
  then have h: "held l = held (lru_cache s)" "r = (if kInMemoryCodeCache s then held (lru_cache s) (op_key oper) else None)"
    using lru unfolding lru_roomy_def by (auto split: if_splits dest: arg_cong [of _ _ fst] arg_cong [of _ _ snd]) (metis snd_conv)
  have hit: "r \<noteq> None \<Longrightarrow> lHas L (op_key oper) l" using lru h by (auto simp: lru_roomy_def split: if_splits)
  obtain t data where x: "remembered held s (op_key oper) = (t, data)" by force
  then have r: "case r of None \<Rightarrow> t = 0 \<and> data = [] | Some y \<Rightarrow> y = (t, data)"
    using h(2) by (cases "kInMemoryCodeCache s") (auto simp: remembered_def split: option.splits)
  have "RunReadCallback L oper t data (?s\<lparr>lru_cache := l\<rparr>)
      = s\<lparr>active_entries_map := [op_key oper \<mapsto> [a]], lru_cache := l, cc_log := cc_log s @ [RunReadCallback_of (read_callback oper) t data]\<rparr>"
    using r hit by (auto simp: RunReadCallback_def cc_notify_def Let_def split: option.splits)
  note close = down_closes [OF d oper this, where D = D and L = L and fuel = fuel]
  have "issue_waiting D L (Suc (Suc fuel)) a s = FetchEntryImpl D L (IssueNextOperation D L (Suc fuel)) a ?s"
    using issue_alone [OF d oper, of D L "Suc fuel"] kind oper
    by (auto simp: IssueOperation_def get_op_def simp del: IssueNextOperation.simps)
  also have "\<dots> = CloseOperationAndIssueNext (IssueNextOperation D L (Suc fuel)) a (RunReadCallback L oper t data (?s\<lparr>lru_cache := l\<rparr>))"
    using r d oper g by (auto simp: FetchEntryImpl_def get_op_def down_def Let_def split: option.splits simp del: IssueNextOperation.simps)
  also note close
  finally show thesis using that h(1) kind by (simp add: op_answer_def x)
qed

lemma issue_down:
  assumes lru: "lru_roomy L held" and d: "down s" and oper: "cc_ops s a = Some oper"
  shows "if operation oper = kDelete then issue_waiting D L (Suc (Suc fuel)) a s = Inl Null_Backend
    else \<exists>l. held l = held (lru_cache s) \<and> issue_waiting D L (Suc (Suc fuel)) a s
      = Inr (s\<lparr>cc_ops := (cc_ops s)(a := None), lru_cache := l, cc_log := cc_log s @ op_answer held s oper\<rparr>)"
proof -
  let ?s = "s\<lparr>active_entries_map := [op_key oper \<mapsto> [a]]\<rparr>"
  note alone = issue_alone [OF d oper, of D L "Suc fuel"]
  have writes: "issue_waiting D L (Suc (Suc fuel)) a s = Inr (s\<lparr>cc_ops := (cc_ops s)(a := None)\<rparr>)"
    if "operation oper = kWrite \<or> operation oper = kWriteWithSHAKey"
  proof -
    have "?s = s\<lparr>active_entries_map := [op_key oper \<mapsto> [a]], lru_cache := lru_cache s, cc_log := cc_log s\<rparr>" by simp
    from down_closes [OF d oper this, where D = D and L = L and fuel = fuel] show ?thesis
      using that d oper alone
      by (auto simp: IssueOperation_def get_op_def WriteEntryImpl_def down_def simp del: IssueNextOperation.simps)
  qed
  have none: "kFetch \<noteq> operation oper \<Longrightarrow> kFetchWithSHAKey \<noteq> operation oper \<Longrightarrow> kGetBackend \<noteq> operation oper
      \<Longrightarrow> op_answer held s oper = []" by (auto simp: op_answer_def)
  show ?thesis
  proof (cases "operation oper")
    case kDelete
    then show ?thesis using alone d oper
      by (simp add: IssueOperation_def get_op_def DeleteEntryImpl_def CodeDoomEntry_def with_backend_def down_def
          del: IssueNextOperation.simps)
  next
    case kGetBackend
    then show ?thesis using d oper
      by (auto simp: issue_waiting_def get_op_def IssueOperation_def DoPendingGetBackend_def
          cc_notify_def free_op_def down_def op_answer_def intro!: exI [of _ "lru_cache s"])
  next
    case kFetch
    then show ?thesis using issue_fetch_down [OF lru d oper, of D fuel] by (metis Operation.distinct(7))
  next
    case kFetchWithSHAKey
    then show ?thesis using issue_fetch_down [OF lru d oper, of D fuel] by (metis Operation.distinct(15))
  next
    case kWrite
    then show ?thesis using writes none by auto
  next
    case kWriteWithSHAKey
    then show ?thesis using writes none by auto
  qed
qed

lemma issue_pending_down:
  assumes "lru_roomy L held" and "down s" and "distinct (pending_ops s)" and "dom (cc_ops s) = set (pending_ops s)"
  shows "if \<exists>oper \<in> set (waiting_ops s). operation oper = kDelete
    then issue_pending D L (Suc (Suc fuel)) (pending_ops s) s = Inl Null_Backend
    else \<exists>s'. issue_pending D L (Suc (Suc fuel)) (pending_ops s) s = Inr s'
      \<and> cc_log s' = cc_log s @ concat (map (op_answer held s) (waiting_ops s))
      \<and> down s' \<and> pending_ops s' = [] \<and> cc_ops s' = (\<lambda>_. None)"
  using assms(2-4)
proof (induction "pending_ops s" arbitrary: s)
  case Nil
  then show ?case by (auto simp: waiting_ops_def)
next
  case (Cons a as)
  let ?s = "s\<lparr>pending_ops := as\<rparr>"
  have as: "pending_ops s = a # as" "distinct (a # as)" using Cons.hyps(2) Cons.prems(2) by simp_all
  obtain oper where oper: "cc_ops ?s a = Some oper" using Cons.prems(3) as by auto
  have d: "down ?s" using Cons.prems(1) by (simp add: down_def)
  have w: "waiting_ops s = oper # map (\<lambda>a. the (cc_ops s a)) as" using as(1) oper by (simp add: waiting_ops_def)
  note run = issue_pending_Cons [of D L "Suc (Suc fuel)" a as s, folded as(1)]
  note one = issue_down [OF assms(1) d oper, of D fuel]
  have same_s: "op_answer held ?s = op_answer held s" by (auto simp: op_answer_def remembered_def fun_eq_iff)
  show ?case
  proof (cases "operation oper = kDelete")
    case True
    then show ?thesis using one run w by simp
  next
    case False
    then obtain l where l: "held l = held (lru_cache s)" "issue_waiting D L (Suc (Suc fuel)) a ?s
        = Inr (?s\<lparr>cc_ops := (cc_ops s)(a := None), lru_cache := l, cc_log := cc_log s @ op_answer held s oper\<rparr>)"
      (is "_ = Inr ?t")
      using one same_s by auto
    have same: "op_answer held ?t = op_answer held s"
      using l(1) by (auto simp: op_answer_def remembered_def fun_eq_iff)
    have rest: "waiting_ops ?t = map (\<lambda>a. the (cc_ops s a)) as" using as(2) by (auto simp: waiting_ops_def)
    have t: "as = pending_ops ?t" "down ?t" "distinct (pending_ops ?t)" "dom (cc_ops ?t) = set (pending_ops ?t)"
      using d Cons.prems(3) as by (auto simp: down_def)
    note IH = Cons.hyps(1) [OF t, folded t(1)]
    have "and_then (Inr ?t) (issue_pending D L (Suc (Suc fuel)) as) = issue_pending D L (Suc (Suc fuel)) as ?t" by simp
    then show ?thesis using IH False unfolding run l(2) w rest same
      by (cases "\<exists>oper \<in> set (map (\<lambda>a. the (cc_ops s a)) as). operation oper = kDelete") simp_all
  qed
qed

lemma fits_answer: "fits U r opers \<Longrightarrow> concat (map (op_answer held s) opers) = answer held U s r"
  by (cases r) (auto simp: op_answer_def new_op_def split: prod.split)

lemma fits_deletion: "fits U r opers \<Longrightarrow> (\<exists>oper \<in> set opers. operation oper = kDelete) \<longleftrightarrow> is_deletion r"
  by (cases r) (auto simp: new_op_def)

lemma requests_wait:
  fixes s :: "('b, 'l) code_cache"
  assumes "all_wait s" and "backend_state s = kInitializing"
  shows "\<exists>s' opers. make_requests D L U H fuel rs s = Inr s' \<and> waits_too s opers s'
    \<and> (\<forall>t :: ('b, 'l) code_cache. concat (map (op_answer held t) opers) = concat (map (answer held U t) rs))
    \<and> ((\<exists>oper \<in> set opers. operation oper = kDelete) \<longleftrightarrow> (\<exists>r \<in> set rs. is_deletion r))"
  using assms
proof (induction rs arbitrary: s)
  case Nil
  then show ?case by (intro exI [of _ s] exI [of _ "[]"]) (simp add: waits_too_def)
next
  case (Cons r rs)
  obtain s1 opers1 where one: "make_request D L U H fuel r s = Inr s1" "waits_too s opers1 s1" "fits U r opers1"
    by (rule request_waits [OF Cons.prems])
  moreover have "all_wait s1" "backend_state s1 = kInitializing" using one(2) Cons.prems by (simp_all add: waits_too_def)
  from Cons.IH [OF this] obtain s2 opers2 where two: "make_requests D L U H fuel rs s1 = Inr s2" "waits_too s1 opers2 s2"
    "\<forall>t :: ('b, 'l) code_cache. concat (map (op_answer held t) opers2) = concat (map (answer held U t) rs)"
    "(\<exists>oper \<in> set opers2. operation oper = kDelete) \<longleftrightarrow> (\<exists>r \<in> set rs. is_deletion r)" by blast
  show ?case
    using waits_too_trans [OF one(2) two(2)] one(1) two fits_answer [OF one(3), of held] fits_deletion [OF one(3)]
    by (intro exI [of _ s2] exI [of _ "opers1 @ opers2"]) auto
qed

lemma requests_keep_mode:
  assumes "make_requests D L U H fuel rs (new_code_cache ty lru in_memory) = Inr s"
  shows "kInMemoryCodeCache s = in_memory"
proof -
  let ?s0 = "new_code_cache ty lru in_memory"
  have "all_wait ?s0" "backend_state ?s0 = kInitializing" by (simp_all add: new_code_cache_def all_wait_def)
  from requests_wait [OF this, of D L U H fuel rs "\<lambda>l k. None"] assms obtain opers where "waits_too ?s0 opers s" by auto
  then show ?thesis by (simp add: waits_too_def new_code_cache_def)
qed

text \<open>C22: When the backend cannot be created, whatever requests were made before, every one of them comes to its end,
in their order: a fetch is answered with what the memory cache has for its key, or with no data, a client that asked
for the backend is told that there is none, and a write of data of any size, shared data included, is dropped; no
operation is left waiting, queued or in the store. But if a deletion is among the requests, it calls the backend
that is not there, where the other operations test its state.\<close>
theorem deletion_needs_backend:
  assumes "lru_roomy L held"
  shows "\<exists>s. make_requests D L U H fuel rs (new_code_cache ty lru in_memory) = Inr s
    \<and> (if \<exists>r \<in> set rs. is_deletion r
       then DidCreateBackend D L (Suc (Suc fuel')) (BackendError e) s = Inl Null_Backend
       else \<exists>s'. DidCreateBackend D L (Suc (Suc fuel')) (BackendError e) s = Inr s'
         \<and> cc_log s' = concat (map (answer held U s) rs) \<and> backend_state s' = kFailed \<and> cc_backend s' = None
         \<and> pending_ops s' = [] \<and> active_entries_map s' = (\<lambda>_. None) \<and> cc_ops s' = (\<lambda>_. None))"
proof -
  let ?s0 = "new_code_cache ty lru in_memory"
  have "all_wait ?s0" "backend_state ?s0 = kInitializing" by (simp_all add: new_code_cache_def all_wait_def)
  from requests_wait [OF this, of D L U H fuel rs held] obtain s opers where s: "make_requests D L U H fuel rs ?s0 = Inr s"
    "waits_too ?s0 opers s" "concat (map (op_answer held s) opers) = concat (map (answer held U s) rs)"
    "(\<exists>oper \<in> set opers. operation oper = kDelete) \<longleftrightarrow> (\<exists>r \<in> set rs. is_deletion r)" by blast
  let ?t = "s\<lparr>backend_state := kFailed\<rparr>"
  have t: "down ?t" "distinct (pending_ops ?t)" "dom (cc_ops ?t) = set (pending_ops ?t)" "waiting_ops ?t = opers"
    "cc_log s = []" "op_answer held ?t = op_answer held s"
    using s(2) by (auto simp: waits_too_def all_wait_def down_def waiting_ops_def new_code_cache_def op_answer_def
        remembered_def fun_eq_iff)
  have run: "DidCreateBackend D L (Suc (Suc fuel')) (BackendError e) s
      = issue_pending D L (Suc (Suc fuel')) (pending_ops ?t) ?t"
    by (simp add: DidCreateBackend_def IssuePendingOperations_def)
  have "if \<exists>r \<in> set rs. is_deletion r
     then DidCreateBackend D L (Suc (Suc fuel')) (BackendError e) s = Inl Null_Backend
     else \<exists>s'. DidCreateBackend D L (Suc (Suc fuel')) (BackendError e) s = Inr s'
       \<and> cc_log s' = concat (map (answer held U s) rs) \<and> down s' \<and> pending_ops s' = [] \<and> cc_ops s' = (\<lambda>_. None)"
    using issue_pending_down [OF assms t(1-3), of D fuel'] t(5) unfolding run t(4,6) s(3,4)
    by (cases "\<exists>r \<in> set rs. is_deletion r") simp_all
  with s(1) show ?thesis
    by (cases "\<exists>r \<in> set rs. is_deletion r") (auto simp: down_def)
qed

text \<open>A fetch, a large write and a request for the backend; and the same with a deletion.\<close>

lemma deletion_needs_backend_witness:
  "\<exists>s s' t. make_requests (map_disk True) map_lru sample_urls sample_hash 1
        [FetchRequest 1 2 3 5, WriteRequest 1 4 3 77 (replicate 20000 7), BackendRequest 6]
        (new_code_cache kJavaScript (\<lambda>k. None) False) = Inr s
    \<and> DidCreateBackend (map_disk True) map_lru 2 (BackendError (Err ERR_FAILED)) s = Inr s'
    \<and> cc_log s' = [RunReadCallback_of 5 0 [], RunBackendCallback_of 6 False] \<and> pending_ops s' = []
    \<and> make_requests (map_disk True) map_lru sample_urls sample_hash 1 [FetchRequest 1 2 3 5, DeleteRequest 1 4 3]
        (new_code_cache kJavaScript (\<lambda>k. None) False) = Inr t
    \<and> DidCreateBackend (map_disk True) map_lru 2 (BackendError (Err ERR_FAILED)) t = Inl Null_Backend"
proof -
  note d = deletion_needs_backend [OF map_lru_roomy, where D = "map_disk True" and U = sample_urls and H = sample_hash
      and fuel = 1 and fuel' = 0 and ty = kJavaScript and lru = "\<lambda>k. None" and in_memory = False and e = "Err ERR_FAILED",
      folded numeral_2_eq_2]
  obtain s s' where s: "make_requests (map_disk True) map_lru sample_urls sample_hash 1
        [FetchRequest 1 2 3 5, WriteRequest 1 4 3 77 (replicate 20000 7), BackendRequest 6]
        (new_code_cache kJavaScript (\<lambda>k. None) False) = Inr s"
    "DidCreateBackend (map_disk True) map_lru 2 (BackendError (Err ERR_FAILED)) s = Inr s'"
    "cc_log s' = concat (map (answer (\<lambda>l. l) sample_urls s)
       [FetchRequest 1 2 3 5, WriteRequest 1 4 3 77 (replicate 20000 7), BackendRequest 6])" "pending_ops s' = []"
    using d [where rs = "[FetchRequest 1 2 3 5, WriteRequest 1 4 3 77 (replicate 20000 7), BackendRequest 6]"]
    by (auto simp del: make_requests.simps answer.simps)
  obtain t where t: "make_requests (map_disk True) map_lru sample_urls sample_hash 1 [FetchRequest 1 2 3 5, DeleteRequest 1 4 3]
        (new_code_cache kJavaScript (\<lambda>k. None) False) = Inr t"
    "DidCreateBackend (map_disk True) map_lru 2 (BackendError (Err ERR_FAILED)) t = Inl Null_Backend"
    using d [where rs = "[FetchRequest 1 2 3 5, DeleteRequest 1 4 3]"] by (auto simp del: make_requests.simps answer.simps)
  have "\<not> kInMemoryCodeCache s" using requests_keep_mode [OF s(1)] by simp
  then have "cc_log s' = [RunReadCallback_of 5 0 [], RunBackendCallback_of 6 False]"
    unfolding s(3) by (simp add: remembered_def)
  with s t show ?thesis by blast
qed

end
