(* ===== verification/Code_Cache_Queues.thy ===== *)
theory Code_Cache_Queues imports Code_Cache_Disk begin

text \<open>
  The bookkeeping of pending operations of the cache of generated code: no operation is lost, doubled or overtaken.
  The operations in the store are those that wait for the backend and those in the queue of their key, and queues
  are served in order. Every step keeps this, given that the function it goes on with does; \<open>IssueNextOperation\<close>
  does for any number of nested calls.
\<close>

section \<open>The invariant\<close>

definition in_queue :: "('b, 'l) code_cache \<Rightarrow> nat \<Rightarrow> bool" where
  "in_queue s a \<longleftrightarrow> (\<exists>k q. active_entries_map s k = Some q \<and> a \<in> set q)"

definition well_placed :: "('b, 'l) code_cache \<Rightarrow> bytes \<Rightarrow> nat \<Rightarrow> bool" where
  "well_placed s k a \<longleftrightarrow> a \<notin> set (pending_ops s)
     \<and> (case cc_ops s a of None \<Rightarrow> False | Some oper \<Rightarrow> op_key oper = k \<and> operation oper \<noteq> kGetBackend)"

definition queues_ok :: "('b, 'l) code_cache \<Rightarrow> bool" where
  "queues_ok s \<longleftrightarrow>
     (\<forall>k q. active_entries_map s k = Some q \<longrightarrow> q \<noteq> [] \<and> distinct q \<and> (\<forall>a \<in> set q. well_placed s k a))
     \<and> distinct (pending_ops s) \<and> (\<forall>a \<in> set (pending_ops s). cc_ops s a \<noteq> None)
     \<and> (\<forall>a. cc_ops s a \<noteq> None \<longrightarrow> a < cc_next s)"

text \<open>An operation of the store that no queue has, as while it is being closed.\<close>

definition orphan :: "('b, 'l) code_cache \<Rightarrow> nat \<Rightarrow> bool" where
  "orphan s a \<longleftrightarrow> cc_ops s a \<noteq> None \<and> a \<notin> set (pending_ops s) \<and> \<not> in_queue s a"

definition queue_of :: "('b, 'l) code_cache \<Rightarrow> bytes \<Rightarrow> nat list" where
  "queue_of s k = (case active_entries_map s k of None \<Rightarrow> [] | Some q \<Rightarrow> q)"

text \<open>A queue advances: operations leave it at the front, and others, of a given kind, enter it at the end.\<close>

definition advances :: "(nat \<Rightarrow> bool) \<Rightarrow> nat list \<Rightarrow> nat list \<Rightarrow> bool" where
  "advances P q q' \<longleftrightarrow> (\<exists>n new. q' = drop n q @ new \<and> (\<forall>a \<in> set new. P a))"

text \<open>
  In a step only new operations enter the queues, each queue is served in order, what waits for the backend stays
  in front, and no operation is lost from its queue while it is in the store.
\<close>

definition grows :: "('b, 'l) code_cache \<Rightarrow> ('b, 'l) code_cache \<Rightarrow> bool" where
  "grows s s' \<longleftrightarrow> cc_next s \<le> cc_next s' \<and> backend_state s' = backend_state s
     \<and> (\<exists>new. pending_ops s' = pending_ops s @ new \<and> (\<forall>a \<in> set new. cc_next s \<le> a))
     \<and> (backend_state s = kInitialized \<longrightarrow> pending_ops s' = pending_ops s)
     \<and> (\<forall>k. advances (\<lambda>a. cc_next s \<le> a) (queue_of s k) (queue_of s' k))
     \<and> (\<forall>a. orphan s' a \<longrightarrow> orphan s a)"

lemma in_queue_of: "in_queue s a \<longleftrightarrow> (\<exists>k. a \<in> set (queue_of s k))"
proof -
  have "(\<exists>q. active_entries_map s k = Some q \<and> a \<in> set q) \<longleftrightarrow> a \<in> set (queue_of s k)" for k
    by (cases "active_entries_map s k") (simp_all add: queue_of_def)
  then show ?thesis by (simp add: in_queue_def)
qed

lemma advances_refl [simp]: "advances P q q"
  unfolding advances_def by (intro exI [of _ 0] exI [of _ "[]"]) simp

lemma advances_push: "P a \<Longrightarrow> advances P q (q @ [a])"
  unfolding advances_def by (intro exI [of _ 0] exI [of _ "[a]"]) simp

lemma advances_pop: "advances P (a # q) q"
  unfolding advances_def by (intro exI [of _ 1] exI [of _ "[]"]) simp

lemma advances_trans:
  assumes "advances P q q1" and "advances Q q1 q2" and "\<And>a. P a \<Longrightarrow> R a" and "\<And>a. Q a \<Longrightarrow> R a"
  shows "advances R q q2"
proof -
  obtain n new where q1: "q1 = drop n q @ new" "\<forall>a \<in> set new. P a" using assms(1) by (auto simp: advances_def)
  obtain m new2 where q2: "q2 = drop m q1 @ new2" "\<forall>a \<in> set new2. Q a" using assms(2) by (auto simp: advances_def)
  have "q2 = drop (m + n) q @ drop (m - length (drop n q)) new @ new2" by (simp add: q1(1) q2(1))
  moreover have "\<forall>a \<in> set (drop (m - length (drop n q)) new @ new2). R a"
    using q1(2) q2(2) assms(3,4) by (auto dest: in_set_dropD)
  ultimately show ?thesis unfolding advances_def by blast
qed

lemma advances_mono: "advances P q q' \<Longrightarrow> (\<And>a. P a \<Longrightarrow> Q a) \<Longrightarrow> advances Q q q'"
  using advances_trans [of P q q' Q q' Q] by simp

lemma advances_in: "advances P q q' \<Longrightarrow> a \<in> set q' \<Longrightarrow> \<not> P a \<Longrightarrow> a \<in> set q"
  by (auto simp: advances_def dest: in_set_dropD)

lemma growsD:
  assumes "grows s s'"
  shows "cc_next s \<le> cc_next s'" and "backend_state s' = backend_state s"
    and "\<exists>new. pending_ops s' = pending_ops s @ new \<and> (\<forall>a \<in> set new. cc_next s \<le> a)"
    and "backend_state s = kInitialized \<Longrightarrow> pending_ops s' = pending_ops s"
    and "advances (\<lambda>a. cc_next s \<le> a) (queue_of s k) (queue_of s' k)" and "orphan s' a \<Longrightarrow> orphan s a"
  using assms unfolding grows_def by blast+

lemma grows_in_queue:
  assumes "grows s s'" and "in_queue s' a" and "a < cc_next s"
  shows "in_queue s a"
proof -
  obtain k where "a \<in> set (queue_of s' k)" using assms(2) by (auto simp: in_queue_of)
  moreover have "advances (\<lambda>a. cc_next s \<le> a) (queue_of s k) (queue_of s' k)" using assms(1) by (simp add: grows_def)
  ultimately show ?thesis using advances_in assms(3) by (fastforce simp: in_queue_of)
qed

definition good_step :: "('b, 'l) code_cache \<Rightarrow> ('b, 'l) code_cache \<Rightarrow> bool" where
  "good_step s s' \<longleftrightarrow> (queues_ok s \<longrightarrow> queues_ok s' \<and> grows s s')"

definition keeps :: "('b, 'l) code_cache \<Rightarrow> ('b, 'l) outcome \<Rightarrow> bool" where
  "keeps s r \<longleftrightarrow> (\<forall>s'. r = Inr s' \<longrightarrow> good_step s s')"

lemma grows_trans:
  assumes "grows s s1" and "grows s1 s2"
  shows "grows s s2"
proof -
  note one = growsD [OF assms(1)] and two = growsD [OF assms(2)]
  have "advances (\<lambda>a. cc_next s \<le> a) (queue_of s k) (queue_of s2 k)" for k
    by (rule advances_trans [OF one(5) two(5)]) (use one(1) in simp_all)
  moreover have "\<exists>new. pending_ops s2 = pending_ops s @ new \<and> (\<forall>a \<in> set new. cc_next s \<le> a)"
  proof -
    obtain new where 1: "pending_ops s1 = pending_ops s @ new" "\<forall>a \<in> set new. cc_next s \<le> a" using one(3) by blast
    obtain new2 where "pending_ops s2 = pending_ops s1 @ new2" "\<forall>a \<in> set new2. cc_next s1 \<le> a" using two(3) by blast
    with 1 one(1) show ?thesis by (intro exI [of _ "new @ new2"]) (auto intro: le_trans)
  qed
  moreover have "cc_next s \<le> cc_next s2" "backend_state s2 = backend_state s" using one(1,2) two(1,2) by simp_all
  moreover have "pending_ops s2 = pending_ops s" if "backend_state s = kInitialized" using one(2,4) two(4) that by simp
  ultimately show ?thesis using one(6) two(6) unfolding grows_def by blast
qed

lemma good_step_refl [simp, intro]: "good_step s s"
  by (simp add: good_step_def grows_def)

lemma good_step_trans: "good_step s s1 \<Longrightarrow> good_step s1 s2 \<Longrightarrow> good_step s s2"
  unfolding good_step_def using grows_trans by blast

lemma good_step_same:
  "active_entries_map s' = active_entries_map s \<Longrightarrow> cc_ops s' = cc_ops s \<Longrightarrow> pending_ops s' = pending_ops s
     \<Longrightarrow> cc_next s' = cc_next s \<Longrightarrow> backend_state s' = backend_state s \<Longrightarrow> good_step s s'"
  by (simp add: good_step_def grows_def queues_ok_def in_queue_def well_placed_def orphan_def queue_of_def)

named_theorems keeping

lemma keeps_Inl [simp, keeping]: "keeps s (Inl f)" by (simp add: keeps_def)

lemma keeps_Inr [keeping]: "good_step s s' \<Longrightarrow> keeps s (Inr s')" by (simp add: keeps_def)

lemma keeps_and_then [keeping]:
  "keeps s r \<Longrightarrow> (\<And>s1. keeps s1 (g s1)) \<Longrightarrow> keeps s (and_then r g)"
  unfolding keeps_def by (cases r) (auto intro: good_step_trans)

lemma keeps_after: "good_step s s1 \<Longrightarrow> keeps s1 r \<Longrightarrow> keeps s r"
  unfolding keeps_def by (blast intro: good_step_trans)

lemma keeps_get_op [keeping]:
  "(\<And>oper. cc_ops s a = Some oper \<Longrightarrow> keeps s (g oper)) \<Longrightarrow> keeps s (get_op a s g)"
  by (simp add: get_op_def split: option.split)

lemma keeps_with_backend [keeping]: "(\<And>b. keeps s (g b)) \<Longrightarrow> keeps s (with_backend s g)"
  by (simp add: with_backend_def split: option.split)

lemma keeps_if [keeping]: "(c \<Longrightarrow> keeps s x) \<Longrightarrow> (\<not> c \<Longrightarrow> keeps s y) \<Longrightarrow> keeps s (if c then x else y)"
  by simp

lemma good_put_backend [keeping]: "good_step s (put_backend b s)"
  by (rule good_step_same) (simp_all add: put_backend_def)

lemma good_notify [keeping]: "good_step s (cc_notify e s)"
  by (rule good_step_same) (simp_all add: cc_notify_def)

lemma good_lru [keeping]: "good_step s (s\<lparr>lru_cache := l\<rparr>)"
  by (rule good_step_same) simp_all

lemma good_read_callback [keeping]: "good_step s (RunReadCallback L oper t data s)"
  by (rule good_step_same) (simp_all add: RunReadCallback_def cc_notify_def Let_def)

lemma good_set_op:
  "cc_ops s a = Some oper \<Longrightarrow> op_key oper' = op_key oper \<Longrightarrow> operation oper' = operation oper
     \<Longrightarrow> good_step s (set_op a oper' s)"
proof (unfold good_step_def, intro impI conjI)
  assume *: "cc_ops s a = Some oper" "op_key oper' = op_key oper" "operation oper' = operation oper" "queues_ok s"
  have "well_placed (set_op a oper' s) k x = well_placed s k x" for k x
    using * by (simp add: well_placed_def set_op_def)
  then show "queues_ok (set_op a oper' s)" using * by (auto simp: queues_ok_def set_op_def)
  show "grows s (set_op a oper' s)" using *(1) by (auto simp: grows_def in_queue_def set_op_def orphan_def queue_of_def)
qed

section \<open>Queues\<close>

lemma queues_okD:
  assumes "queues_ok s" and "active_entries_map s k = Some q"
  shows "q \<noteq> []" and "distinct q" and "a \<in> set q \<Longrightarrow> well_placed s k a"
  using assms unfolding queues_ok_def by blast+

lemma well_placed_unique: "well_placed s k a \<Longrightarrow> well_placed s k' a \<Longrightarrow> k = k'"
  by (simp add: well_placed_def split: option.splits)

text \<open>The operation that leaves its queue is in no other, and no other operation leaves a queue.\<close>

lemma dequeue_good:
  assumes "DequeueOperation a s = Inr (f, s')" and ok: "queues_ok s"
  shows "queues_ok s'" and "\<not> in_queue s' f \<and> f \<notin> set (pending_ops s') \<and> f < cc_next s'"
    and "cc_next s' = cc_next s \<and> pending_ops s' = pending_ops s \<and> backend_state s' = backend_state s"
    and "advances P (queue_of s k) (queue_of s' k)" and "orphan s' x \<Longrightarrow> orphan s x \<or> x = f"
proof -
  obtain key rest where o: "active_entries_map s key = Some (f # rest)"
    and s': "s' = s\<lparr>active_entries_map := (active_entries_map s)(key := if rest = [] then None else Some rest)\<rparr>"
    using assms(1) by (auto simp: DequeueOperation_def get_op_def split: option.splits list.splits if_splits)
  have place: "well_placed s' k x = well_placed s k x" for k x by (simp add: well_placed_def s')
  have active: "k = key \<and> q = rest \<and> rest \<noteq> [] \<or> k \<noteq> key \<and> active_entries_map s k = Some q"
    if "active_entries_map s' k = Some q" for k q
    using that by (auto simp: s' split: if_splits)
  have queue: "queue_of s k = (if k = key then f # queue_of s' k else queue_of s' k)" for k
    using o by (auto simp: queue_of_def s')
  have first: "distinct rest" "f \<notin> set rest" "\<forall>x \<in> set rest. well_placed s key x" "well_placed s key f"
    using queues_okD [OF ok o] by simp_all
  have other: "q \<noteq> [] \<and> distinct q \<and> (\<forall>x \<in> set q. well_placed s k x)" if "active_entries_map s k = Some q" for k q
    using queues_okD [OF ok that] by blast
  have "q \<noteq> [] \<and> distinct q \<and> (\<forall>x \<in> set q. well_placed s k x)" if "active_entries_map s' k = Some q" for k q
    using active [OF that] first other by blast
  moreover have "distinct (pending_ops s')" "\<forall>a \<in> set (pending_ops s'). cc_ops s' a \<noteq> None"
    "\<forall>a. cc_ops s' a \<noteq> None \<longrightarrow> a < cc_next s'"
    using ok unfolding queues_ok_def s' by simp_all
  ultimately show "queues_ok s'" unfolding queues_ok_def place by blast
  show "\<not> in_queue s' f \<and> f \<notin> set (pending_ops s') \<and> f < cc_next s'"
  proof (intro conjI)
    show "\<not> in_queue s' f"
    proof
      assume "in_queue s' f"
      then obtain k q where "active_entries_map s' k = Some q" "f \<in> set q" by (auto simp: in_queue_def)
      then show False using active first queues_okD(3) [OF ok] well_placed_unique by metis
    qed
    show "f \<notin> set (pending_ops s')" using first(4) by (simp add: s' well_placed_def)
    show "f < cc_next s'" using ok first(4) by (auto simp: queues_ok_def s' well_placed_def split: option.splits)
  qed
  show "cc_next s' = cc_next s \<and> pending_ops s' = pending_ops s \<and> backend_state s' = backend_state s" by (simp add: s')
  show "advances P (queue_of s k) (queue_of s' k)" unfolding queue by (simp add: advances_pop)
  have "in_queue s x \<Longrightarrow> in_queue s' x \<or> x = f" unfolding in_queue_of queue by (auto split: if_splits)
  then show "orphan s' x \<Longrightarrow> orphan s x \<or> x = f" by (auto simp: orphan_def s')
qed

lemma free_good:
  assumes "\<not> in_queue s a" and "a \<notin> set (pending_ops s)"
  shows "good_step s (free_op a s)" and "orphan (free_op a s) x \<Longrightarrow> orphan s x \<and> x \<noteq> a"
proof -
  show o: "orphan (free_op a s) x \<Longrightarrow> orphan s x \<and> x \<noteq> a" for x
    by (auto simp: orphan_def free_op_def in_queue_def split: if_splits)
  show "good_step s (free_op a s)"
  proof (unfold good_step_def, intro impI conjI)
    assume ok: "queues_ok s"
    have "well_placed (free_op a s) k x" if "active_entries_map s k = Some q" "x \<in> set q" for k q x
      using queues_okD(3) [OF ok that] that assms(1) by (auto simp: well_placed_def free_op_def in_queue_def)
    then show "queues_ok (free_op a s)"
      using ok assms(2) by (auto simp: queues_ok_def free_op_def)
    show "grows s (free_op a s)" using o by (simp add: grows_def queue_of_def) (simp add: free_op_def)
  qed
qed

text \<open>An operation that is in the store and nowhere queued enters the queue of its key.\<close>

lemma enter_queue_good:
  assumes "cc_ops s a = Some oper" and "operation oper \<noteq> kGetBackend" and "a \<notin> set (pending_ops s)"
    and "\<not> in_queue s a" and "queues_ok s"
  shows "queues_ok (s\<lparr>active_entries_map := (active_entries_map s)(op_key oper \<mapsto>
           (case active_entries_map s (op_key oper) of None \<Rightarrow> [] | Some q \<Rightarrow> q) @ [a])\<rparr>)" (is "queues_ok ?s'")
proof -
  have place: "well_placed ?s' k x = well_placed s k x" for k x by (simp add: well_placed_def)
  have a: "well_placed s (op_key oper) a" using assms by (simp add: well_placed_def)
  have "q \<noteq> [] \<and> distinct q \<and> (\<forall>x \<in> set q. well_placed s k x)" if "active_entries_map ?s' k = Some q" for k q
    using that a queues_okD [OF assms(5)] assms(4)
    by (cases "k = op_key oper") (auto simp: in_queue_def split: option.splits)
  then show ?thesis using assms(5) by (simp add: queues_ok_def place)
qed

lemma new_op_fresh:
  assumes "queues_ok s"
  shows "\<not> in_queue s (cc_next s)" and "cc_next s \<notin> set (pending_ops s)"
proof -
  have none: "cc_ops s (cc_next s) = None" using assms by (auto simp: queues_ok_def)
  show "\<not> in_queue s (cc_next s)"
    using queues_okD(3) [OF assms, of _ _ "cc_next s"] none by (force simp: in_queue_def well_placed_def)
  show "cc_next s \<notin> set (pending_ops s)" using assms none by (auto simp: queues_ok_def)
qed

lemma alloc_good:
  assumes "queues_ok s"
  shows "queues_ok (s\<lparr>cc_ops := (cc_ops s)(cc_next s \<mapsto> oper), cc_next := Suc (cc_next s)\<rparr>)" (is "queues_ok ?s'")
proof -
  have "well_placed ?s' k x" if "active_entries_map s k = Some q" "x \<in> set q" for k q x
    using queues_okD(3) [OF assms that] that new_op_fresh(1) [OF assms] by (auto simp: well_placed_def in_queue_def)
  then show ?thesis using assms new_op_fresh(2) [OF assms] by (auto simp: queues_ok_def less_Suc_eq)
qed

section \<open>What every step relies on\<close>

text \<open>The function a step goes on with keeps the queues in order.\<close>

locale issuing =
  fixes next_op :: "bytes \<Rightarrow> ('b, 'l) code_cache \<Rightarrow> ('b, 'l) outcome"
  assumes next_keeps [keeping]: "keeps s (next_op k s)"
begin

lemma close_keeps [keeping]: "keeps s (CloseOperationAndIssueNext next_op a s)"
proof (unfold keeps_def good_step_def, intro allI impI)
  fix s'
  assume run: "CloseOperationAndIssueNext next_op a s = Inr s'" and ok: "queues_ok s"
  obtain f s1 where d: "DequeueOperation a s = Inr (f, s1)"
    using run by (cases "DequeueOperation a s") (auto simp: CloseOperationAndIssueNext_def)
  obtain oper where op: "cc_ops s1 a = Some oper"
    using run by (cases "cc_ops s1 a") (simp_all add: CloseOperationAndIssueNext_def d get_op_def)
  obtain s2 where n: "next_op (op_key oper) s1 = Inr s2"
    using run by (cases "next_op (op_key oper) s1") (simp_all add: CloseOperationAndIssueNext_def d get_op_def op)
  have s': "s' = free_op f s2" using run by (simp add: CloseOperationAndIssueNext_def d get_op_def op n)
  note deq = dequeue_good [OF d ok]
  have s2: "queues_ok s2" "grows s1 s2" using next_keeps n deq(1) by (auto simp: keeps_def good_step_def)
  have out: "\<not> in_queue s2 f" "f \<notin> set (pending_ops s2)"
    using deq(2) grows_in_queue [OF s2(2)] growsD(3) [OF s2(2)] by fastforce+
  have s3: "queues_ok s'" "grows s2 s'" using free_good(1) [OF out] s2(1) by (simp_all add: good_step_def s')
  have g: "grows s1 s'" by (rule grows_trans [OF s2(2) s3(2)])
  have "orphan s x" if "orphan s' x" for x
  proof -
    have x: "orphan s2 x" "x \<noteq> f" using free_good(2) [OF out] that by (simp_all add: s')
    then have "orphan s1 x" using s2(2) by (simp add: grows_def)
    with x(2) show ?thesis using deq(5) by blast
  qed
  moreover have "advances (\<lambda>a. cc_next s \<le> a) (queue_of s k) (queue_of s' k)" for k
    using g deq(3) by (intro advances_trans [OF deq(4), where Q = "\<lambda>a. cc_next s \<le> a"]) (auto simp: grows_def)
  ultimately have "grows s s'" using g deq(3) by (simp add: grows_def)
  with s3(1) show "queues_ok s' \<and> grows s s'" by blast
qed

text \<open>An operation that was waiting for the backend, or is new, is queued.\<close>

lemma enqueue_if_next_ok:
  assumes "queues_ok s" and "cc_ops s a = Some oper" and "operation oper \<noteq> kGetBackend"
    and "a \<notin> set (pending_ops s)" and "\<not> in_queue s a"
    and "EnqueueOperationAndIssueIfNext next_op a s = Inr s'"
  shows "queues_ok s'" and "cc_next s \<le> cc_next s'" and "backend_state s' = backend_state s"
    and "advances (\<lambda>x. x = a \<or> cc_next s \<le> x) (queue_of s k) (queue_of s' k)"
    and "\<exists>new. pending_ops s' = pending_ops s @ new \<and> (\<forall>x \<in> set new. cc_next s \<le> x)"
    and "backend_state s = kInitialized \<Longrightarrow> pending_ops s' = pending_ops s"
    and "orphan s' x \<Longrightarrow> orphan s x \<and> x \<noteq> a"
proof -
  let ?s1 = "s\<lparr>active_entries_map := (active_entries_map s)(op_key oper \<mapsto>
           (case active_entries_map s (op_key oper) of None \<Rightarrow> [] | Some q \<Rightarrow> q) @ [a])\<rparr>"
  have ok: "queues_ok ?s1" by (rule enter_queue_good [OF assms(2-5) assms(1)])
  have "s' = ?s1 \<or> next_op (op_key oper) ?s1 = Inr s'"
    using assms(2,6) by (auto simp: EnqueueOperationAndIssueIfNext_def get_op_def Let_def split: if_splits option.splits)
  then have "good_step ?s1 s'" using next_keeps by (auto simp: keeps_def)
  then have g: "queues_ok s'" "grows ?s1 s'" using ok by (simp_all add: good_step_def)
  then show "queues_ok s'" "cc_next s \<le> cc_next s'" "backend_state s' = backend_state s"
    "\<exists>new. pending_ops s' = pending_ops s @ new \<and> (\<forall>x \<in> set new. cc_next s \<le> x)"
    "backend_state s = kInitialized \<Longrightarrow> pending_ops s' = pending_ops s" by (simp_all add: grows_def)
  have q: "queue_of ?s1 k = (if k = op_key oper then queue_of s k @ [a] else queue_of s k)" for k
    by (simp add: queue_of_def)
  have "advances (\<lambda>x. x = a) (queue_of s k) (queue_of ?s1 k)" unfolding q by (simp add: advances_push)
  then show "advances (\<lambda>x. x = a \<or> cc_next s \<le> x) (queue_of s k) (queue_of s' k)"
    using g(2) by (elim advances_trans [where Q = "\<lambda>x. cc_next s \<le> x"]) (simp_all add: grows_def)
  have "in_queue ?s1 x" if x: "in_queue s x \<or> x = a" for x
  proof -
    obtain k where "x \<in> set (queue_of s k) \<or> x = a \<and> k = op_key oper" using x unfolding in_queue_of by blast
    then have "x \<in> set (queue_of ?s1 k)" unfolding q by auto
    then show ?thesis unfolding in_queue_of by blast
  qed
  then show "orphan s' x \<Longrightarrow> orphan s x \<and> x \<noteq> a" using g(2) by (auto simp: grows_def orphan_def)
qed

lemma enqueue_keeps [keeping]:
  assumes "operation oper \<noteq> kGetBackend"
  shows "keeps s (EnqueueOperation next_op oper s)"
proof (unfold keeps_def good_step_def, intro allI impI)
  fix s'
  assume run: "EnqueueOperation next_op oper s = Inr s'" and ok: "queues_ok s"
  let ?s1 = "s\<lparr>cc_ops := (cc_ops s)(cc_next s \<mapsto> oper), cc_next := Suc (cc_next s)\<rparr>"
  have s1: "queues_ok ?s1" "alloc_op oper s = (cc_next s, ?s1)"
    using alloc_good [OF ok] by (simp_all add: alloc_op_def set_op_def)
  note fresh = new_op_fresh [OF ok]
  have same: "queue_of ?s1 k = queue_of s k" "in_queue ?s1 x = in_queue s x" for k x
    by (simp_all add: queue_of_def in_queue_def)
  have left: "orphan ?s1 x \<Longrightarrow> x \<noteq> cc_next s \<Longrightarrow> orphan s x" for x by (simp add: orphan_def same)
  show "queues_ok s' \<and> grows s s'"
  proof (cases "backend_state s = kInitialized")
    case True
    have e: "EnqueueOperationAndIssueIfNext next_op (cc_next s) ?s1 = Inr s'"
      using run True s1(2) by (simp add: EnqueueOperation_def)
    have a: "cc_ops ?s1 (cc_next s) = Some oper" "cc_next s \<notin> set (pending_ops ?s1)" "\<not> in_queue ?s1 (cc_next s)"
      using fresh by (simp_all add: in_queue_def)
    note k = enqueue_if_next_ok [OF s1(1) a(1) assms a(2,3) e]
    have "advances (\<lambda>x. cc_next s \<le> x) (queue_of s q) (queue_of s' q)" for q
      using k(4) [of q] unfolding same by (rule advances_mono) auto
    moreover have "orphan s x" if "orphan s' x" for x using k(7) [OF that] left by blast
    moreover have "pending_ops s' = pending_ops s" using k(6) True by simp
    ultimately show ?thesis using k(1,2,3) by (simp add: grows_def)
  next
    case False
    then have s': "s' = ?s1\<lparr>pending_ops := pending_ops s @ [cc_next s]\<rparr>"
      using run s1(2) by (auto simp: EnqueueOperation_def)
    have "well_placed s' k x" if "active_entries_map s k = Some q" "x \<in> set q" for k q x
      using queues_okD(3) [OF s1(1), of k q x] that fresh(1) by (auto simp: well_placed_def in_queue_def s')
    then have "queues_ok s'" using s1(1) fresh by (auto simp: queues_ok_def s')
    moreover have "orphan s' x \<Longrightarrow> orphan s x" for x
      by (auto simp: orphan_def s' in_queue_def split: if_splits)
    moreover have "queue_of s' k = queue_of s k" for k by (simp add: queue_of_def s')
    moreover have "cc_next s' = Suc (cc_next s)" "pending_ops s' = pending_ops s @ [cc_next s]"
      "backend_state s' = backend_state s" by (simp_all add: s')
    ultimately show ?thesis using False by (simp add: grows_def)
  qed
qed

text \<open>Setting the fields of an operation that are not its key or kind, and going on.\<close>

lemma keeps_set_op:
  assumes "cc_ops s a = Some oper" and "op_key oper' = op_key oper" and "operation oper' = operation oper"
    and "keeps (set_op a oper' s) r"
  shows "keeps s r"
  using keeps_after [OF good_set_op [OF assms(1-3)] assms(4)] .

lemma CodeDoomEntry_keeps [keeping]: "keeps s (CodeDoomEntry D oper s)"
  unfolding CodeDoomEntry_def by (intro keeping)

lemma close_entry_keeps [keeping]: "keeps s (close_entry D e s)"
  unfolding close_entry_def by (intro keeping)

lemma write_stream_of_keeps [keeping]:
  "(\<And>r s. keeps s (done r s)) \<Longrightarrow> keeps s (write_stream_of D e i bs done s)"
  unfolding write_stream_of_def Let_def
  by (intro keeping, simp split: prod.split) (blast intro: keeping keeps_after)

lemma read_stream_of_keeps [keeping]:
  "(\<And>r s. keeps s (done r s)) \<Longrightarrow> keeps s (read_stream_of D e i n done s)"
  unfolding read_stream_of_def Let_def
  by (intro keeping, simp split: prod.split) (blast intro: keeping keeps_after)

lemma WriteComplete_keeps [keeping]: "keeps s (WriteComplete D next_op a s)"
  unfolding WriteComplete_def by (intro keeping good_step_refl)

lemma AddBufferCompletion_same:
  assumes "AddBufferCompletion ok oper = (fin, oper')"
  shows "op_key oper' = op_key oper" and "operation oper' = operation oper"
  using assms by (auto simp: AddBufferCompletion_def Let_def)

lemma buffer_completion_keeps:
  assumes "cc_ops s a = Some oper" and "op_key oper1 = op_key oper" and "operation oper1 = operation oper"
    and "\<And>fin s. keeps s (g fin s)"
  shows "keeps s (case AddBufferCompletion ok oper1 of (fin, oper2) \<Rightarrow> g fin (set_op a oper2 s))"
proof (cases "AddBufferCompletion ok oper1")
  case (Pair fin oper2)
  then show ?thesis
    using keeps_set_op [OF assms(1) _ _ assms(4)] AddBufferCompletion_same [OF Pair] assms(2,3) by simp
qed

lemma WriteSmallBufferComplete_keeps [keeping]: "keeps s (WriteSmallBufferComplete D next_op a rv s)"
  unfolding WriteSmallBufferComplete_def Let_def
  by (rule keeps_get_op, rule buffer_completion_keeps) (auto intro: keeping)

lemma WriteLargeBufferComplete_keeps [keeping]: "keeps s (WriteLargeBufferComplete D next_op a rv s)"
  unfolding WriteLargeBufferComplete_def Let_def
  by (rule keeps_get_op, rule buffer_completion_keeps) (auto intro: keeping)

lemma OpenCompleteForWrite_keeps [keeping]: "keeps s (OpenCompleteForWrite D next_op a result s)"
  unfolding OpenCompleteForWrite_def by (cases result) (simp_all, (intro keeping)+)

lemma WriteEntryImpl_keeps [keeping]: "keeps s (WriteEntryImpl D next_op a s)"
  unfolding WriteEntryImpl_def Let_def
  by (intro keeping, simp split: prod.split)
    (blast intro: OpenCompleteForWrite_keeps keeps_Inr keeps_after good_put_backend)

lemma deliver_fetched_keeps [keeping]: "keeps s (deliver_fetched L next_op oper s)"
  unfolding deliver_fetched_def Let_def
  by (auto split: option.split intro!: keeping simp: new_op_def)

lemma ReadComplete_keeps [keeping]: "keeps s (ReadComplete D L next_op a s)"
  unfolding ReadComplete_def
  by (intro keeping keeps_after [OF good_read_callback CodeDoomEntry_keeps])

lemma ReadLargeBufferComplete_keeps [keeping]: "keeps s (ReadLargeBufferComplete D L next_op a res s)"
  unfolding ReadLargeBufferComplete_def Let_def
  by (rule keeps_get_op, rule buffer_completion_keeps) (auto intro: keeping)

lemma ReadSmallBufferComplete_keeps [keeping]: "keeps s (ReadSmallBufferComplete D L next_op a res s)"
  unfolding ReadSmallBufferComplete_def Let_def
  by (rule keeps_get_op, rule buffer_completion_keeps) (auto intro!: keeping)

lemma OpenCompleteForRead_keeps [keeping]: "keeps s (OpenCompleteForRead D L next_op a result s)"
  unfolding OpenCompleteForRead_def
proof (rule keeps_get_op)
  fix oper
  assume oper: "cc_ops s a = Some oper"
  show "keeps s (case result of
          OpenError _ \<Rightarrow> CloseOperationAndIssueNext next_op a (RunReadCallback L oper 0 [] s)
        | OpenedEntry e _ \<Rightarrow>
            with_backend s (\<lambda>b.
              let small_size = dGetDataSize D e 0 b;
                  large_size = dGetDataSize D e 1 b;
                  op = (if operation oper = kFetch
                        then oper\<lparr>small_buffer := replicate small_size 0,
                                  large_buffer := replicate large_size 0\<rparr>
                        else oper);
                  s = set_op a op s
              in and_then
                   (read_stream_of D e 0 (length (small_buffer op)) (ReadSmallBufferComplete D L next_op a) s)
                   (\<lambda>s. if large_size = 0 then close_entry D e s
                        else get_op a s (\<lambda>op.
                          and_then
                            (read_stream_of D e 1 (length (large_buffer op))
                               (ReadLargeBufferComplete D L next_op a) s)
                            (close_entry D e)))))"
  proof (cases result)
    case (OpenError x)
    then show ?thesis using keeps_after [OF good_read_callback close_keeps] by simp
  next
    case (OpenedEntry e w)
    have "keeps s
            (and_then (read_stream_of D e 0 m (ReadSmallBufferComplete D L next_op a) (set_op a oper' s))
               (\<lambda>s. if n = 0 then close_entry D e s
                    else get_op a s (\<lambda>op.
                      and_then
                        (read_stream_of D e 1 (length (large_buffer op)) (ReadLargeBufferComplete D L next_op a) s)
                        (close_entry D e))))"
      if "op_key oper' = op_key oper" "operation oper' = operation oper" for oper' m n
      using that by (intro keeps_set_op [OF oper, of oper']) (auto intro!: keeping)
    note body = this
    show ?thesis
      unfolding OpenedEntry open_result.case Let_def by (rule keeps_with_backend, rule body) simp_all
  qed
qed

lemma FetchEntryImpl_keeps [keeping]: "keeps s (FetchEntryImpl D L next_op a s)"
proof (unfold FetchEntryImpl_def, rule keeps_get_op)
  fix oper
  have hit: "keeps s (CloseOperationAndIssueNext next_op a (RunReadCallback L oper t data (s\<lparr>lru_cache := l\<rparr>)))" for t data l
    by (rule keeps_after [OF good_step_trans [OF good_lru good_read_callback] close_keeps])
  have opened: "keeps s (OpenCompleteForRead D L next_op a r (put_backend b (s\<lparr>lru_cache := l\<rparr>)))" for r b l
    by (rule keeps_after [OF good_step_trans [OF good_lru good_put_backend] OpenCompleteForRead_keeps])
  have wait: "keeps s (Inr (put_backend b (s\<lparr>lru_cache := l\<rparr>)))" for b l
    by (rule keeps_Inr [OF good_step_trans [OF good_lru good_put_backend]])
  show "keeps s (case (if kInMemoryCodeCache s then lGet L (op_key oper) (lru_cache s) else (None, lru_cache s)) of
         (Some (response_time, data), lru) \<Rightarrow>
           CloseOperationAndIssueNext next_op a
             (RunReadCallback L oper response_time data (s\<lparr>lru_cache := lru\<rparr>))
       | (None, lru) \<Rightarrow>
           let s = s\<lparr>lru_cache := lru\<rparr>
           in if backend_state s \<noteq> kInitialized
           then CloseOperationAndIssueNext next_op a (RunReadCallback L oper 0 [] s)
           else
             with_backend s (\<lambda>b.
               case dOpenEntry D (op_key oper) b of
                 (result, b) \<Rightarrow>
                   let s = put_backend b s
                   in if result \<noteq> OpenError (Err ERR_IO_PENDING)
                      then OpenCompleteForRead D L next_op a result s else Inr s))"
  proof (cases "if kInMemoryCodeCache s then lGet L (op_key oper) (lru_cache s) else (None, lru_cache s)")
    case (Pair r l)
    show ?thesis
      unfolding Pair Let_def using hit opened wait
      by (cases r) (auto simp: with_backend_def split: prod.split option.split)
  qed
qed

lemma DeleteEntryImpl_keeps [keeping]: "keeps s (DeleteEntryImpl D next_op a s)"
  unfolding DeleteEntryImpl_def by (intro keeping)

lemma IssueOperation_keeps: "keeps s (IssueOperation D L next_op a s)"
  unfolding IssueOperation_def DoPendingGetBackend_def
  by (auto split: Operation.split intro!: keeping)

end

section \<open>The steps themselves\<close>

text \<open>However many operations are issued one after the other, the queues stay in order.\<close>

lemma IssueNextOperation_keeps: "keeps s (IssueNextOperation D L fuel k s)"
proof (induction fuel arbitrary: s k)
  case (Suc fuel)
  note step = issuing.IssueOperation_keeps [OF issuing.intro [OF Suc]]
  show ?case by (auto split: option.split list.split intro: step keeps_Inr)
qed simp

interpretation steps: issuing "IssueNextOperation D L fuel" for D :: "('e, 'b) disk_ops" and L :: "'l lru_ops" and fuel
  by unfold_locales (rule IssueNextOperation_keeps)

section \<open>Operations that waited for the backend\<close>

lemma shrink_pending_ok:
  assumes "queues_ok s" and "distinct as" and "set as \<subseteq> set (pending_ops s)"
  shows "queues_ok (s\<lparr>pending_ops := as\<rparr>)"
proof -
  have "well_placed (s\<lparr>pending_ops := as\<rparr>) k x" if "active_entries_map s k = Some q" "x \<in> set q" for k q x
    using queues_okD(3) [OF assms(1) that] assms(3) by (auto simp: well_placed_def)
  then show ?thesis using assms by (auto simp: queues_ok_def)
qed

text \<open>When the backend could not be created no operation is added to those that wait for it.\<close>

lemma close_failed:
  assumes "\<And>k s s'. backend_state s = kFailed \<Longrightarrow> next_op k s = Inr s' \<Longrightarrow> pending_ops s' = pending_ops s"
    and "backend_state s = kFailed" and "CloseOperationAndIssueNext next_op a s = Inr s'"
  shows "pending_ops s' = pending_ops s"
  using assms(2,3)
  by (auto simp: CloseOperationAndIssueNext_def DequeueOperation_def get_op_def free_op_def
      split: option.splits list.splits prod.splits elim!: and_then.elims dest: assms(1) [rotated])

lemma IssueOperation_failed:
  assumes "\<And>k s s'. backend_state s = kFailed \<Longrightarrow> next_op k s = Inr s' \<Longrightarrow> pending_ops s' = pending_ops s"
    and "backend_state s = kFailed" and "IssueOperation D L next_op a s = Inr s'"
  shows "pending_ops s' = pending_ops s"
proof -
  have close: "pending_ops s' = pending_ops t"
    if "CloseOperationAndIssueNext next_op a t = Inr s'" "backend_state t = kFailed" for t s'
    by (rule close_failed [OF assms(1) that(2,1)])
  have fetch: "pending_ops s' = pending_ops s" if "FetchEntryImpl D L next_op a s = Inr s'" for s'
    using that assms(2)
    by (auto simp: FetchEntryImpl_def get_op_def RunReadCallback_def cc_notify_def Let_def
        split: option.splits prod.splits if_splits dest!: close)
  have deletion: "pending_ops s' = pending_ops s" if "DeleteEntryImpl D next_op a s = Inr s'" for s'
    using that assms(2)
    by (auto simp: DeleteEntryImpl_def CodeDoomEntry_def get_op_def with_backend_def put_backend_def
        split: option.splits dest!: close)
  have writing: "pending_ops s' = pending_ops s" if "WriteEntryImpl D next_op a s = Inr s'" for s'
    using that assms(2) close by (simp add: WriteEntryImpl_def)
  show ?thesis
    using assms(3) fetch deletion writing
    by (auto simp: IssueOperation_def DoPendingGetBackend_def get_op_def cc_notify_def
        split: option.splits Operation.splits)
qed

lemma IssueNextOperation_failed:
  "backend_state s = kFailed \<Longrightarrow> IssueNextOperation D L fuel k s = Inr s' \<Longrightarrow> pending_ops s' = pending_ops s"
proof (induction fuel arbitrary: s k s')
  case (Suc fuel)
  then show ?case using IssueOperation_failed [of "IssueNextOperation D L fuel" s]
    by (auto split: option.splits list.splits)
qed simp

text \<open>What a step does to the operations: queues are served in order, and none is lost.\<close>

definition serves :: "('b, 'l) code_cache \<Rightarrow> ('b, 'l) code_cache \<Rightarrow> bool" where
  "serves s s' \<longleftrightarrow> queues_ok s' \<and> cc_next s \<le> cc_next s'
     \<and> (\<forall>k. advances (\<lambda>a. a \<in> set (pending_ops s) \<or> cc_next s \<le> a) (queue_of s k) (queue_of s' k))
     \<and> (\<forall>a. orphan s' a \<longrightarrow> orphan s a)"

lemma good_serves: "good_step s s' \<Longrightarrow> queues_ok s \<Longrightarrow> serves s s'"
  unfolding good_step_def serves_def using growsD by (blast intro: advances_mono)

lemma serves_trans:
  assumes "serves s s1" and "serves s1 s2" and "set (pending_ops s1) \<subseteq> set (pending_ops s)"
  shows "serves s s2"
proof -
  have n: "cc_next s \<le> cc_next s1" using assms(1) by (simp add: serves_def)
  have 1: "advances (\<lambda>a. a \<in> set (pending_ops s) \<or> cc_next s \<le> a) (queue_of s k) (queue_of s1 k)" for k
    using assms(1) unfolding serves_def by blast
  have 2: "advances (\<lambda>a. a \<in> set (pending_ops s1) \<or> cc_next s1 \<le> a) (queue_of s1 k) (queue_of s2 k)" for k
    using assms(2) unfolding serves_def by blast
  have "advances (\<lambda>a. a \<in> set (pending_ops s) \<or> cc_next s \<le> a) (queue_of s k) (queue_of s2 k)" for k
    by (rule advances_trans [OF 1 2]) (use assms(3) n in auto)
  then show ?thesis using assms(1,2) n unfolding serves_def by (blast intro: le_trans)
qed

lemma issue_one_pending:
  assumes ok: "queues_ok s" and p: "pending_ops s = a # as" and st: "backend_state s \<noteq> kInitializing"
    and run: "issue_pending D L fuel (a # as) s = Inr s'"
  obtains s1 where "serves s s1" "pending_ops s1 = as" "backend_state s1 = backend_state s"
    "issue_pending D L fuel as s1 = Inr s'"
proof -
  let ?s = "s\<lparr>pending_ops := as\<rparr>"
  have ok1: "queues_ok ?s" using ok p by (intro shrink_pending_ok) (auto simp: queues_ok_def)
  have out: "\<not> in_queue ?s a" "a \<notin> set (pending_ops ?s)"
    using queues_okD(3) [OF ok] ok p by (auto simp: in_queue_def well_placed_def queues_ok_def)
  have oper: "a < cc_next s" "\<exists>oper. cc_ops ?s a = Some oper" using ok p by (auto simp: queues_ok_def)
  obtain oper where oper': "cc_ops ?s a = Some oper" using oper(2) by blast
  have same: "queue_of ?s k = queue_of s k" "orphan ?s x \<Longrightarrow> x \<noteq> a \<Longrightarrow> orphan s x" for k x
    using p by (auto simp: queue_of_def orphan_def in_queue_def)
  have p': "a \<in> set (pending_ops s)" using p by simp
  show thesis
  proof (cases "operation oper = kGetBackend")
    case False
    let ?q = "?s\<lparr>active_entries_map := (active_entries_map s)(op_key oper \<mapsto>
      (case active_entries_map s (op_key oper) of None \<Rightarrow> [] | Some q \<Rightarrow> q) @ [a])\<rparr>"
    from False obtain s1 where e: "EnqueueOperationAndIssueIfNext (IssueNextOperation D L fuel) a ?s = Inr s1"
      and rest: "issue_pending D L fuel as s1 = Inr s'"
      using run oper' by (auto simp: get_op_def elim!: and_then.elims)
    note k = steps.enqueue_if_next_ok [OF ok1 oper' False out(2,1) e]
    have "serves s s1" unfolding serves_def
    proof (intro conjI allI impI)
      show "advances (\<lambda>a. a \<in> set (pending_ops s) \<or> cc_next s \<le> a) (queue_of s q) (queue_of s1 q)" for q
        using k(4) [of q] p' unfolding same(1) by (auto elim: advances_mono)
      show "orphan s x" if "orphan s1 x" for x using k(7) [OF that] same(2) by blast
    qed (use k(1,2) in simp_all)
    moreover have "pending_ops s1 = as"
    proof (cases "backend_state s = kInitialized")
      case True
      then show ?thesis using k(6) by simp
    next
      case no: False
      then have "backend_state s = kFailed" using st by (cases "backend_state s") simp_all
      moreover have "s1 = ?q \<or> IssueNextOperation D L fuel (op_key oper) ?q = Inr s1"
        using e oper' by (auto simp: EnqueueOperationAndIssueIfNext_def get_op_def Let_def split: if_splits)
      ultimately show ?thesis using IssueNextOperation_failed [of ?q D L fuel "op_key oper" s1] by auto
    qed
    ultimately show thesis using that k(3) rest by simp
  next
    case True
    then obtain s1 where e: "IssueOperation D L (IssueNextOperation D L fuel) a ?s = Inr s1"
      and rest: "issue_pending D L fuel as (free_op a s1) = Inr s'"
      using run oper' by (auto simp: get_op_def elim!: and_then.elims)
    have s1: "s1 = cc_notify (RunBackendCallback_of (backend_callback oper) (backend_state s = kInitialized)) ?s"
      using e True oper' by (simp add: IssueOperation_def get_op_def DoPendingGetBackend_def)
    have "good_step ?s s1" unfolding s1 by (rule good_notify)
    then have q1: "queues_ok s1" using ok1 by (simp add: good_step_def)
    have out1: "\<not> in_queue s1 a" "a \<notin> set (pending_ops s1)" using out by (simp_all add: s1 cc_notify_def in_queue_def)
    have "queues_ok (free_op a s1)" using free_good(1) [OF out1] q1 by (simp add: good_step_def)
    moreover have "queue_of (free_op a s1) k = queue_of s k" for k by (simp add: queue_of_def free_op_def s1 cc_notify_def)
    moreover have "orphan s x" if "orphan (free_op a s1) x" for x
    proof -
      have "orphan s1 x" "x \<noteq> a" using free_good(2) [OF out1 that] by simp_all
      then show ?thesis using same(2) by (simp add: s1 cc_notify_def orphan_def in_queue_def)
    qed
    moreover have "cc_next (free_op a s1) = cc_next s" by (simp add: free_op_def s1 cc_notify_def)
    ultimately have "serves s (free_op a s1)" by (simp add: serves_def)
    then show thesis using that [of "free_op a s1"] rest by (simp add: free_op_def s1 cc_notify_def)
  qed
qed

lemma issue_pending_serves:
  "queues_ok s \<Longrightarrow> pending_ops s = as \<Longrightarrow> backend_state s \<noteq> kInitializing
     \<Longrightarrow> issue_pending D L fuel as s = Inr s' \<Longrightarrow> serves s s' \<and> pending_ops s' = []"
proof (induction as arbitrary: s)
  case Nil
  then show ?case by (simp add: serves_def)
next
  case (Cons a as)
  obtain s1 where s1: "serves s s1" "pending_ops s1 = as" "backend_state s1 = backend_state s"
    "issue_pending D L fuel as s1 = Inr s'" by (rule issue_one_pending [OF Cons.prems])
  then have "serves s1 s' \<and> pending_ops s' = []"
    using Cons.prems(3) by (intro Cons.IH) (simp_all add: serves_def)
  moreover have "set (pending_ops s1) \<subseteq> set (pending_ops s)" using s1(2) Cons.prems(2) by auto
  ultimately show ?case using serves_trans [OF s1(1)] by blast
qed

lemma DidCreateBackend_serves:
  assumes "queues_ok s" and "DidCreateBackend D L fuel r s = Inr s'"
  shows "serves s s'"
proof -
  have *: "serves s s'" if s1: "cc_ops s1 = cc_ops s" "active_entries_map s1 = active_entries_map s"
    "pending_ops s1 = pending_ops s" "cc_next s1 = cc_next s" "backend_state s1 \<noteq> kInitializing"
    "issue_pending D L fuel (pending_ops s) s1 = Inr s'" for s1
  proof -
    have ok: "queues_ok s1" using assms(1) s1(1-4) by (simp add: queues_ok_def well_placed_def)
    have same: "queue_of s1 = queue_of s" "orphan s1 = orphan s"
      using s1(1-3) by (simp_all add: fun_eq_iff queue_of_def orphan_def in_queue_def)
    have "serves s1 s'" using issue_pending_serves [OF ok s1(3,5,6)] by blast
    then show ?thesis unfolding serves_def same s1(3,4) .
  qed
  show ?thesis
  proof (cases r)
    case (BackendError e)
    then have "issue_pending D L fuel (pending_ops s) (s\<lparr>backend_state := kFailed\<rparr>) = Inr s'"
      using assms(2) by (simp add: DidCreateBackend_def IssuePendingOperations_def)
    then show ?thesis by (rule * [rotated -1]) simp_all
  next
    case (Backend b)
    let ?s = "s\<lparr>cc_backend := Some b, backend_state := kInitialized\<rparr>"
    have "issue_pending D L fuel (pending_ops s) ?s = Inr s'"
      using assms(2) Backend by (simp add: DidCreateBackend_def IssuePendingOperations_def)
    then show ?thesis by (rule * [rotated -1]) simp_all
  qed
qed

section \<open>Everything that can happen to the cache\<close>

text \<open>
  The cache is made, its backend is created once, clients call its operations, and the backend reports
  results of the calls it was slow to answer, in any order.
\<close>

inductive code_cache_step ::
    "('e, 'b) disk_ops \<Rightarrow> 'l lru_ops \<Rightarrow> ('u, 'n) url_env \<Rightarrow> code_sys
       \<Rightarrow> ('b, 'l) code_cache \<Rightarrow> ('b, 'l) code_cache \<Rightarrow> bool"
  for D L U H where
  created: "backend_state s = kInitializing \<Longrightarrow> DidCreateBackend D L fuel r s = Inr s' \<Longrightarrow> code_cache_step D L U H s s'"
| wants_backend: "code_cache_step D L U H s (GetBackend cb s)"
| wrote: "WriteEntry D L U H fuel u a n t data s = Inr s' \<Longrightarrow> code_cache_step D L U H s s'"
| fetched: "FetchEntry D L U fuel u a n cb s = Inr s' \<Longrightarrow> code_cache_step D L U H s s'"
| deleted: "DeleteEntry D L U fuel u a n s = Inr s' \<Longrightarrow> code_cache_step D L U H s s'"
| cleared: "code_cache_step D L U H s (ClearInMemoryCache L s)"
| opened_for_write: "OpenCompleteForWrite D (IssueNextOperation D L fuel) x result s = Inr s'
    \<Longrightarrow> code_cache_step D L U H s s'"
| wrote_small: "WriteSmallBufferComplete D (IssueNextOperation D L fuel) x rv s = Inr s' \<Longrightarrow> code_cache_step D L U H s s'"
| wrote_large: "WriteLargeBufferComplete D (IssueNextOperation D L fuel) x rv s = Inr s' \<Longrightarrow> code_cache_step D L U H s s'"
| opened_for_read: "OpenCompleteForRead D L (IssueNextOperation D L fuel) x result s = Inr s'
    \<Longrightarrow> code_cache_step D L U H s s'"
| read_small: "ReadSmallBufferComplete D L (IssueNextOperation D L fuel) x res s = Inr s'
    \<Longrightarrow> code_cache_step D L U H s s'"
| read_large: "ReadLargeBufferComplete D L (IssueNextOperation D L fuel) x res s = Inr s'
    \<Longrightarrow> code_cache_step D L U H s s'"

inductive code_cache_reachable ::
    "('e, 'b) disk_ops \<Rightarrow> 'l lru_ops \<Rightarrow> ('u, 'n) url_env \<Rightarrow> code_sys \<Rightarrow> ('b, 'l) code_cache \<Rightarrow> bool"
  for D L U H where
  made: "code_cache_reachable D L U H (new_code_cache ty lru in_memory)"
| stepped: "code_cache_reachable D L U H s \<Longrightarrow> code_cache_step D L U H s s' \<Longrightarrow> code_cache_reachable D L U H s'"

lemma keepsD: "keeps s r \<Longrightarrow> queues_ok s \<Longrightarrow> r = Inr s' \<Longrightarrow> queues_ok s'"
  by (simp add: keeps_def good_step_def)

lemma WriteEntry_keeps: "keeps s (WriteEntry D L U H fuel u a n t data s)"
proof -
  let ?s1 = "if cc_type s = kJavaScript
             then s\<lparr>lru_cache := lPut L (GetCacheKey U u a n) t data (lru_cache s)\<rparr> else s"
  have s1: "good_step s ?s1" by (auto intro: good_lru)
  have e: "keeps s1 (EnqueueOperation (IssueNextOperation D L fuel) (new_op ty key\<lparr>small_buffer := x, large_buffer := y\<rparr>) s1)"
    if "ty \<noteq> kGetBackend" for s1 ty key x y
    using that by (intro steps.enqueue_keeps) (simp add: new_op_def)
  have body: "keeps s1 (case entry_layout H (cc_type s1) t data of
              ((small, large), checksum_entry) \<Rightarrow>
                and_then
                  (case checksum_entry of
                     None \<Rightarrow> Inr s1
                   | Some (checksum_key, small2, large2) \<Rightarrow>
                       EnqueueOperation (IssueNextOperation D L fuel)
                         ((new_op kWriteWithSHAKey checksum_key)\<lparr>small_buffer := small2, large_buffer := large2\<rparr>)
                         s1)
                  (\<lambda>s. case small of
                         None \<Rightarrow> Inl Failed_Check
                       | Some header \<Rightarrow>
                           EnqueueOperation (IssueNextOperation D L fuel)
                             ((new_op kWrite key)\<lparr>small_buffer := header, large_buffer := large\<rparr>) s))" for s1 key
    by (auto split: prod.split option.split intro!: keeps_and_then keeps_Inl keeps_Inr e)
  show ?thesis
    unfolding WriteEntry_def Let_def
    by (intro keeps_if keeps_Inr good_step_refl keeps_after [OF s1] body)
qed

lemma FetchEntry_keeps: "keeps s (FetchEntry D L U fuel u a n cb s)"
  unfolding FetchEntry_def Let_def
  by (auto intro!: keeping steps.enqueue_keeps simp: new_op_def)

lemma DeleteEntry_keeps: "keeps s (DeleteEntry D L U fuel u a n s)"
  unfolding DeleteEntry_def Let_def
  by (auto intro!: keeping steps.enqueue_keeps simp: new_op_def)

lemma GetBackend_serves: "queues_ok s \<Longrightarrow> serves s (GetBackend cb s)"
proof -
  assume ok: "queues_ok s"
  let ?oper = "(new_op kGetBackend [])\<lparr>backend_callback := cb\<rparr>"
  let ?s1 = "s\<lparr>cc_ops := (cc_ops s)(cc_next s \<mapsto> ?oper), cc_next := Suc (cc_next s)\<rparr>"
  let ?s2 = "?s1\<lparr>pending_ops := pending_ops s @ [cc_next s]\<rparr>"
  have s1: "queues_ok ?s1" using alloc_good [OF ok] .
  have "well_placed ?s2 k x" if "active_entries_map s k = Some q" "x \<in> set q" for k q x
    using queues_okD(3) [OF s1, of k q x] that new_op_fresh(1) [OF ok] by (auto simp: well_placed_def in_queue_def)
  then have "queues_ok ?s2" using s1 new_op_fresh [OF ok] by (auto simp: queues_ok_def)
  moreover have "orphan s x" if "orphan ?s2 x" for x
    using that by (auto simp: orphan_def in_queue_def split: if_splits)
  moreover have "queue_of ?s2 = queue_of s" by (simp add: queue_of_def fun_eq_iff)
  ultimately have "serves s ?s2" by (simp add: serves_def)
  moreover have "serves s (cc_notify e s)" for e by (rule good_serves [OF good_notify ok])
  ultimately show ?thesis by (simp add: GetBackend_def alloc_op_def set_op_def split: BackendState.split)
qed

lemmas step_keeps =
  WriteEntry_keeps FetchEntry_keeps DeleteEntry_keeps steps.OpenCompleteForWrite_keeps
  steps.WriteSmallBufferComplete_keeps steps.WriteLargeBufferComplete_keeps steps.OpenCompleteForRead_keeps
  steps.ReadSmallBufferComplete_keeps steps.ReadLargeBufferComplete_keeps

lemma keeps_serves: "keeps s r \<Longrightarrow> r = Inr s' \<Longrightarrow> queues_ok s \<Longrightarrow> serves s s'"
  unfolding keeps_def using good_serves by blast

lemmas step_serves = step_keeps [THEN keeps_serves]

lemma code_cache_step_serves: "code_cache_step D L U H s s' \<Longrightarrow> queues_ok s \<Longrightarrow> serves s s'"
proof (induction rule: code_cache_step.induct)
  case (created s fuel r s')
  then show ?case by (blast intro: DidCreateBackend_serves)
next
  case (wants_backend s cb)
  then show ?case by (rule GetBackend_serves)
next
  case (cleared s)
  then show ?case unfolding ClearInMemoryCache_def by (rule good_serves [OF good_lru])
qed (blast intro: step_serves)+

lemma reachable_queues_ok: "code_cache_reachable D L U H s \<Longrightarrow> queues_ok s \<and> (\<forall>a. \<not> orphan s a)"
proof (induction rule: code_cache_reachable.induct)
  case (made ty lru in_memory)
  show ?case by (simp add: queues_ok_def new_code_cache_def orphan_def)
next
  case (stepped s s')
  then have "serves s s'" by (blast intro: code_cache_step_serves)
  then show ?case using stepped.IH unfolding serves_def by blast
qed

text \<open>The state in which an operation has arrived: it is the last of those that wait for the backend, or the last
  of the queue of its key.\<close>

definition arrived :: "PendingOperation \<Rightarrow> ('b, 'l) code_cache \<Rightarrow> ('b, 'l) code_cache \<Rightarrow> bool" where
  "arrived oper s s' \<longleftrightarrow> cc_ops s' = (cc_ops s)(cc_next s \<mapsto> oper) \<and> cc_log s' = cc_log s
     \<and> (if backend_state s = kInitialized
        then pending_ops s' = pending_ops s
          \<and> (\<forall>k. queue_of s' k = (if k = op_key oper then queue_of s k @ [cc_next s] else queue_of s k))
        else pending_ops s' = pending_ops s @ [cc_next s] \<and> (\<forall>k. queue_of s' k = queue_of s k))"

lemma EnqueueOperation_arrived:
  assumes "queues_ok s"
  shows "\<exists>s1. arrived oper s s1 \<and> EnqueueOperation next_op oper s =
    (if backend_state s = kInitialized \<and> queue_of s (op_key oper) = [] then next_op (op_key oper) s1 else Inr s1)"
proof -
  let ?s = "s\<lparr>cc_ops := (cc_ops s)(cc_next s \<mapsto> oper), cc_next := Suc (cc_next s)\<rparr>"
  let ?queued = "?s\<lparr>active_entries_map := (active_entries_map s)(op_key oper \<mapsto> queue_of s (op_key oper) @ [cc_next s])\<rparr>"
  let ?waiting = "?s\<lparr>pending_ops := pending_ops s @ [cc_next s]\<rparr>"
  have "active_entries_map s (op_key oper) = None \<longleftrightarrow> queue_of s (op_key oper) = []"
    using assms by (auto simp: queue_of_def queues_ok_def split: option.splits)
  then have "EnqueueOperation next_op oper s =
      (if backend_state s \<noteq> kInitialized then Inr ?waiting
       else if queue_of s (op_key oper) = [] then next_op (op_key oper) ?queued else Inr ?queued)"
    by (simp add: EnqueueOperation_def alloc_op_def set_op_def EnqueueOperationAndIssueIfNext_def get_op_def
        Let_def queue_of_def)
  moreover have "backend_state s = kInitialized \<Longrightarrow> arrived oper s ?queued" "backend_state s \<noteq> kInitialized \<Longrightarrow> arrived oper s ?waiting"
    by (simp_all add: arrived_def queue_of_def)
  ultimately show ?thesis by (cases "backend_state s = kInitialized") (auto intro: exI [of _ ?queued] exI [of _ ?waiting])
qed


text \<open>A fetch whose entry is slow to open, and a deletion behind it.\<close>

definition sample_started :: "fault + (bytes \<rightharpoonup> bytes \<times> bytes, bytes \<rightharpoonup> time \<times> bytes) code_cache" where
  "sample_started =
     DidCreateBackend (map_disk True) map_lru 2 (Backend (\<lambda>k. None)) (new_code_cache kJavaScript (\<lambda>k. None) False)"

definition sample_waiting :: "fault + (bytes \<rightharpoonup> bytes \<times> bytes, bytes \<rightharpoonup> time \<times> bytes) code_cache" where
  "sample_waiting =
     and_then (and_then sample_started (FetchEntry (map_disk True) map_lru sample_urls 2 1 2 3 5))
       (DeleteEntry (map_disk True) map_lru sample_urls 2 1 2 3)"


end
