(* ===== verification/Spec2Isabelle.thy ===== *)
theory Spec2Isabelle
  imports Main Hashing Simple_Util Index_Eviction Index_Startup Sync_Sparse_Available Sync_Doomed
    Sync_Open_Or_Create Backend_Doom Backend_Iterator Code_Cache_Correct Code_Cache_Failure Code_Cache_Queues
begin

text \<open>
  A verification library for the simple cache of Chromium's network stack, as it is kept in this
  repository under src/reference/chromium, and for the cache of generated code that sits on top of it.
  Definitions keep the names of the functions, members and constants they translate.

  \<^bold>\<open>The program.\<close> An entry of the cache is a key (a byte string) with three streams of bytes and a
  sparse stream. Streams 0 and 1 share a file, stream 2 and the sparse stream have files of their own;
  the names of the files are made from a 64-bit hash of the key (simple_util.cc, hash.cc,
  superfasthash.c, simple_entry_format.h). \<open>SimpleSynchronousEntry\<close> does the file operations of one
  entry (simple_synchronous_entry.cc). \<open>SimpleIndex\<close> keeps eight bytes of metadata for each entry in
  memory, decides which entries to evict, and is written to and restored from disk by \<open>SimpleIndexFile\<close>
  (simple_index.cc, simple_index_file.cc). \<open>SimpleBackendImpl\<close> finds the entry in use for a key, makes
  operations wait for a doom or for an open by hash, dooms many entries at once, and iterates
  (simple_backend_impl.cc). \<open>GeneratedCodeCache\<close> stores code under a key made of a resource, an origin
  lock and an isolation key, inline, in a stream of its own, or shared under the checksum of its bytes
  (generated_code_cache.cc).

  \<^bold>\<open>Theories, bottom up.\<close>
  \<^item> Prelude: the machine integers as words, \<open>int64_t\<close> as \<open>int\<close> with \<open>wrap64\<close> where the code converts,
    bytes in little-endian order, slices of byte lists, and the collections of rewrite rules.
  \<^item> Hashing: hash.cc and superfasthash.c. A read outside the buffer is \<open>None\<close>.
  \<^item> Entry_Format: the header, the record at the end of a stream and the header of a sparse range
    (simple_entry_format.h) as records, with the bytes they occupy.
  \<^item> Simple_Util, Entry_Metadata, Pickle: names, sizes and checksums (simple_util.cc); the packed metadata
    of an entry (simple_index.cc, \<open>EntryMetadata\<close>); the interface of \<open>base::Pickle\<close>.
  \<^item> Simple_Index with Index_Correct, Index_History, Index_Eviction: the members of \<open>SimpleIndex\<close> as a record,
    one definition for each member function; then its invariant, the merge with the loaded index, and
    eviction. The hash map is an association list, in the order of its slots. Calls to the delegate,
    tasks and callbacks are appended to a log of effects.
  \<^item> Index_File with Index_File_Correct, Index_File_Disk, Index_Restore, Index_Startup: writing, reading and
    restoring the index file, and \<open>SimpleIndexFile\<close> with its paths; the bytes are read back; a write that
    fails at any point leaves the old index or the new one; a restored index agrees with the files of the
    directory; which of the two the cache starts with, and so how an index survives a restart.
  \<^item> File_Env, File_Laws: the file operations, the tracker of open files and the clock, as parameters over
    a state of the world, and their documented behaviour.
  \<^item> Sync_State, Sync_Files, Sync_Sparse, Sync_Entry, Sync_Data: \<open>SimpleEntryStat\<close>, \<open>PrefetchData\<close>, the requests
    and the members of \<open>SimpleSynchronousEntry\<close> as records, and its member functions, each from the
    entry and the world to its result with the entry and the world after it.
  \<^item> Sync_Layout, Sync_Open, Sync_Open_Entry: what closing writes; what a successful open has checked.
    Sync_Refine, Sync_Reopen, Sync_Lifecycle: stream 1 as a list of bytes; a closed entry opens again with
    its data; from creating an entry to reading what was written. Sync_Failures: errors doom the entry.
    Sync_Open_Or_Create: an entry is opened if it is there and created if it is not. Sync_Isolated,
    Sync_Doomed: an entry that is doomed while it is open touches only its own renamed files, makes room
    for an entry of the same hash, and leaves no files when it is closed.
  \<^item> Sync_Sparse_Log, Sync_Sparse_Read, Sync_Sparse_Write, Sync_Sparse_Data, Sync_Sparse_Reopen,
    Sync_Sparse_Available: the sparse stream as a partial map from positions to bytes, the sparse file as a
    log of ranges, and the entry's map of ranges as the log in the order of the offsets; reading, writing,
    scanning and the available range against these.
  \<^item> Backend, Backend_Tasks: \<open>SimpleBackendImpl\<close>, its tables, closures and tasks. Backend_Correct,
    Backend_Laws, Backend_Doom, Backend_Iterator: their properties.
  \<^item> Code_Cache_Format, Code_Cache: keys, layouts and the operations of \<open>GeneratedCodeCache\<close>.
    Code_Cache_Keys, Code_Cache_Disk, Code_Cache_Correct, Code_Cache_Failure, Code_Cache_Queues: their properties.

  \<^bold>\<open>How code becomes definitions.\<close> Member variables are the fields of a record that is passed on. A
  \<open>std::map\<close> is an association list in the order of its keys; a hash map whose order is seen is an
  association list, otherwise a map. An error is a value of \<open>net_result\<close> (\<open>Net n\<close> for \<open>n\<close> not negative,
  \<open>Err\<close> with its constant) or \<open>False\<close>, as in the code. A failing \<open>CHECK\<close>, a null pointer that is used and
  a loop that does not end are \<open>None\<close>, or a \<open>fault\<close> in the cache of generated code; there a \<open>CHECK\<close> that is marked
  as not fatal does nothing, and what follows it is modelled, up to a step that is undefined, such as taking the
  front of an empty queue. A callback is data: the
  client's callbacks are numbers whose calls are logged, those of the code itself are constructors
  that the model runs. Unsigned 64-bit and 32-bit values are words wherever they may wrap.

  \<^bold>\<open>Parameters and their laws.\<close> Code that is not in the repository is an argument of the definitions.
  Its documented behaviour is stated as locales, each interpreted here: \<open>zlib_crc\<close> and \<open>hex_parser\<close> by a
  bitwise CRC-32 and a parser of hexadecimal numbers; \<open>pickle_laws\<close> by the pickle format that the Java
  library of the repository writes; \<open>files\<close>, whose operations may all fail, \<open>reliable_files\<close> and
  \<open>listing_files\<close> by a file system in memory with and without a schedule of faults; \<open>waiter_table\<close>, \<open>entry_interface\<close> and
  \<open>iterator_entries\<close> by a table as a map and entries that complete at once; \<open>struct_codec\<close> by the three
  structures; \<open>issuing\<close> by \<open>IssueNextOperation\<close>. The disk backend and the memory cache of the generated
  code are described by the named conditions of Code_Cache_Disk, which instances on maps satisfy.

  \<^bold>\<open>What is shown.\<close> Entry files: nothing is accepted without its record, sizes, checksum and key being
  right, whatever the files hold and whichever operations fail, and a data operation that reports an error
  has doomed the entry. Without faults, the operations on stream 1 implement those on a list of bytes, those
  on the sparse stream implement a partial map, and an entry that is created, written, closed and opened
  again gives back what was there. \<open>OpenOrCreateEntry\<close> opens, creates, or replaces an entry that the index
  has missed when the client was told of a new one. A doomed entry and its successor under the same hash do
  not disturb each other; that the old one touches only its own files holds whichever
  operations fail. Index: the invariant of every reachable state, which entries survive the
  initialization, that eviction removes a shortest prefix of the entries by score and spares those of lower score, which
  operations it reaches through the backend, that the index file is read back as it was written, that no fault
  leaves half an index, that the index of a new start is the valid and fresh one of the file or agrees with the
  entry files of the directory, and that an index written at the end of one run is the index of the next.
  Backend: no operation overtakes a doom, an entry is handed out under its own key only, a mass doom hands each
  hash in use the same barrier, reports once and leaves the right index. Code cache: what is written is fetched,
  keys determine requests, no operation is lost from the queues and queues are served in order, and what becomes of
  any requests when the backend cannot be created.
  Some properties state behaviour that comments in the code rule out; the manifest lists them as findings.

  \<^bold>\<open>Loops.\<close> Loops over data of the program are structural recursion. \<open>DoomEntries\<close> and \<open>DoomEntryFromHash\<close>
  call each other; a measure shows that this ends. Four loops depend on code outside (a pickle, an
  enumerator, the entries found) or on the contents of a file, and are partial functions:
  \<open>read_entries\<close>, \<open>process_files\<close>, \<open>CreateOrFindActiveOrDoomedEntry\<close> and \<open>scan_ranges\<close>; that the first three
  return is proved from the laws. The last returns on every log that the code writes, and does not on a
  file with a range whose length wraps around. \<open>IssueNextOperation\<close> goes on with the next operation inside
  the completion of the previous one and is given the depth of this nesting as fuel; running out is a
  fault of its own. Nested depth is bounded by the operations queued for a key: two for an operation
  on an idle key and one more for the second fetch of shared code, and the properties of the code cache
  hold for every larger amount.

  \<^bold>\<open>Not modelled.\<close> Histograms, traces and \<open>GetStats\<close>; the functions for tests; \<open>DCHECK\<close>s, and the
  checks of URLs that are marked as not fatal; the posting of tasks to threads (a task is run as a step);
  re-entrant calls by the callbacks of clients, which are only logged; destructors, static declarations and
  the accessors that only return a member, which are the fields of the records; \<open>FastHash\<close>, which calls CityHash;
  the feature parameters, which are arguments. \<open>SimpleEntryImpl\<close>, the tracker, the waiter table,
  \<open>BackendFileOperations\<close>, the version upgrade and \<open>storage\<close> are not in the repository.
  simple_cache_impl.cc and simple_histogram_utils.h are empty copies there. The Java library is not
  modelled apart from the pickle format it shares with the index file.
\<close>

end
